(* ===== verification/Qt_Prelude.thy ===== *)
theory Qt_Prelude
  imports Main "HOL-Library.AList" "HOL-Library.Multiset" "HOL-Library.Word"
    "HOL-Library.List_Lexorder" "HOL-Library.Char_ord"
begin

text \<open>
  Shared vocabulary of the development.

  \<^item> \<open>qhash\<close>: a \<open>QHash\<close> or \<open>QMap\<close> as an association list. The order of the list is the order
    in which an iteration visits the entries. Qt leaves that order of a \<open>QHash\<close> open, so the step
    relations of the components contain a step that permutes the list, and the one-step theorems
    hold for every list with distinct keys.
  \<^item> row models: the three kinds of notification a \<open>QAbstractListModel\<close> sends to its views, and the
    interface \<open>row_observed\<close> that every list model of the library has to satisfy: replaying the
    notifications of an operation on a copy of the old rows gives the new rows.
  \<^item> lists of records with an identifier field (\<open>find_by\<close>, \<open>row_of\<close>), used by every model class.
\<close>

section \<open>Collections of facts\<close>

named_theorems row_simps \<open>evaluation of row notifications\<close>
named_theorems hash_simps \<open>lookups after updates of a hash\<close>

section \<open>Hashes\<close>

type_synonym ('k, 'v) qhash = "('k \<times> 'v) list"

abbreviation hash_value :: "('k, 'v) qhash \<Rightarrow> 'k \<Rightarrow> 'v option" where
  "hash_value m k \<equiv> map_of m k"

abbreviation hash_insert :: "'k \<Rightarrow> 'v \<Rightarrow> ('k, 'v) qhash \<Rightarrow> ('k, 'v) qhash" where
  "hash_insert k v m \<equiv> AList.update k v m"

abbreviation hash_remove :: "'k \<Rightarrow> ('k, 'v) qhash \<Rightarrow> ('k, 'v) qhash" where
  "hash_remove k m \<equiv> AList.delete k m"

abbreviation hash_contains :: "('k, 'v) qhash \<Rightarrow> 'k \<Rightarrow> bool" where
  "hash_contains m k \<equiv> map_of m k \<noteq> None"

definition hash_keys :: "('k, 'v) qhash \<Rightarrow> 'k list" where
  "hash_keys m = map fst m"

definition hash_ok :: "('k, 'v) qhash \<Rightarrow> bool" where
  "hash_ok m \<longleftrightarrow> distinct (map fst m)"

lemma hash_value_insert [hash_simps, simp]:
  "hash_value (hash_insert k v m) k' = (if k' = k then Some v else hash_value m k')"
  by (simp add: update_conv')

lemma hash_value_remove [hash_simps, simp]:
  "hash_value (hash_remove k m) k' = (if k' = k then None else hash_value m k')"
  by (simp add: delete_conv')

lemma hash_ok_Nil [simp]: "hash_ok []"
  by (simp add: hash_ok_def)

lemma hash_ok_insert [simp, intro]: "hash_ok m \<Longrightarrow> hash_ok (hash_insert k v m)"
  by (simp add: hash_ok_def distinct_update)

lemma hash_ok_remove [simp, intro]: "hash_ok m \<Longrightarrow> hash_ok (hash_remove k m)"
  by (simp add: hash_ok_def distinct_delete)

lemma hash_in_set_iff: "hash_ok m \<Longrightarrow> (k, v) \<in> set m \<longleftrightarrow> hash_value m k = Some v"
  by (simp add: hash_ok_def)

lemma hash_ok_perm: "mset m = mset m' \<Longrightarrow> hash_ok m \<longleftrightarrow> hash_ok m'"
  unfolding hash_ok_def by (metis mset_eq_imp_distinct_iff mset_map)

lemma hash_value_perm:
  assumes "mset m = mset m'" and "hash_ok m"
  shows "hash_value m k = hash_value m' k"
proof -
  have ok: "hash_ok m'" using assms hash_ok_perm by metis
  have "set m = set m'" using assms(1) by (rule mset_eq_setD)
  then have "hash_value m k = Some v \<longleftrightarrow> hash_value m' k = Some v" for v
    using hash_in_set_iff [OF assms(2)] hash_in_set_iff [OF ok] by blast
  then show ?thesis by (metis option.exhaust)
qed

lemma keys_insert:
  "image_mset fst (mset (hash_insert k v m)) =
     (if hash_value m k = None then add_mset k (image_mset fst (mset m)) else image_mset fst (mset m))"
  by (induction m) auto

lemma hash_remove_absent: "hash_value m k = None \<Longrightarrow> hash_remove k m = m"
  by (induction m) (auto split: if_splits)

lemma keys_remove:
  assumes "hash_ok m" and "hash_value m k \<noteq> None"
  shows "image_mset fst (mset m) = add_mset k (image_mset fst (mset (hash_remove k m)))"
  using assms
proof (induction m)
  case Nil
  then show ?case by simp
next
  case (Cons p m)
  obtain a b where p: "p = (a, b)" by (cases p)
  show ?case
  proof (cases "a = k")
    case True
    with Cons.prems p have "hash_value m k = None"
      by (metis hash_ok_def distinct.simps(2) fst_conv list.simps(9) map_of_eq_None_iff set_map)
    with True p show ?thesis by (simp add: hash_remove_absent)
  next
    case False
    with Cons p show ?thesis by (auto simp: hash_ok_def)
  qed
qed

section \<open>Records with an identifier\<close>

text \<open>\<open>find_by\<close> is the search loop of the model classes (\<open>find\<close>): the first item with the
  identifier, \<open>row_of\<close> the row such a loop stops at.\<close>

fun find_by :: "('a \<Rightarrow> 'i) \<Rightarrow> 'i \<Rightarrow> 'a list \<Rightarrow> 'a option" where
  "find_by idf k [] = None"
| "find_by idf k (x # xs) = (if idf x = k then Some x else find_by idf k xs)"

fun row_of :: "('a \<Rightarrow> 'i) \<Rightarrow> 'i \<Rightarrow> 'a list \<Rightarrow> nat" where
  "row_of idf k [] = 0"
| "row_of idf k (x # xs) = (if idf x = k then 0 else Suc (row_of idf k xs))"

lemma find_by_Some: "find_by idf k xs = Some x \<Longrightarrow> x \<in> set xs \<and> idf x = k"
  by (induction xs) (auto split: if_splits)

lemma find_by_None [simp]: "find_by idf k xs = None \<longleftrightarrow> k \<notin> idf ` set xs"
  by (induction xs) auto

lemma find_by_absent [simp]: "k \<notin> idf ` set xs \<Longrightarrow> find_by idf k xs = None"
  by simp

lemma find_by_distinct:
  "distinct (map idf xs) \<Longrightarrow> x \<in> set xs \<Longrightarrow> find_by idf (idf x) xs = Some x"
  by (induction xs) (auto simp: rev_image_eqI)

lemma find_by_filter: "find_by idf k (filter P xs) = Some x \<Longrightarrow> x \<in> set xs \<and> P x \<and> idf x = k"
  by (induction xs) (auto split: if_splits)

lemma row_of_le [simp]: "row_of idf k xs \<le> length xs"
  by (induction xs) auto

lemma row_of_less_iff [simp]: "row_of idf k xs < length xs \<longleftrightarrow> k \<in> idf ` set xs"
  by (induction xs) auto

lemma row_of_eq_length_iff [simp]: "row_of idf k xs = length xs \<longleftrightarrow> k \<notin> idf ` set xs"
  by (induction xs) auto

lemma row_of_absent [simp]: "k \<notin> idf ` set xs \<Longrightarrow> row_of idf k xs = length xs"
  by simp

lemma row_of_nth: "k \<in> idf ` set xs \<Longrightarrow> idf (xs ! row_of idf k xs) = k"
  by (induction xs) auto

lemma find_by_row_of: "k \<in> idf ` set xs \<Longrightarrow> find_by idf k xs = Some (xs ! row_of idf k xs)"
  by (induction xs) auto

lemma row_of_unique:
  "distinct (map idf xs) \<Longrightarrow> i < length xs \<Longrightarrow> row_of idf (idf (xs ! i)) xs = i"
proof (induction xs arbitrary: i)
  case Nil
  then show ?case by simp
next
  case (Cons x xs)
  then show ?case by (cases i) (auto simp: nth_mem rev_image_eqI)
qed

lemma list_update_row_of:
  "idf y = k \<Longrightarrow> distinct (map idf xs) \<Longrightarrow> k \<in> idf ` set xs \<Longrightarrow>
   xs[row_of idf k xs := y] = map (\<lambda>x. if idf x = k then y else x) xs"
proof (induction xs)
  case Nil
  then show ?case by simp
next
  case (Cons x xs)
  show ?case
  proof (cases "idf x = k")
    case True
    with Cons.prems have "map (\<lambda>x. if idf x = k then y else x) xs = xs"
      by (intro map_idI) (metis distinct.simps(2) image_eqI list.simps(9) set_map)
    with True show ?thesis by simp
  next
    case False
    with Cons show ?thesis by auto
  qed
qed

lemma find_by_append:
  "find_by idf k (xs @ ys) =
     (case find_by idf k xs of Some x \<Rightarrow> Some x | None \<Rightarrow> find_by idf k ys)"
  by (induction xs) auto

lemma find_by_map:
  "(\<And>x. idf (f x) = idf x) \<Longrightarrow> find_by idf k (map f xs) = map_option f (find_by idf k xs)"
  by (induction xs) auto

lemma find_append: "find P (xs @ ys) = (case find P xs of Some x \<Rightarrow> Some x | None \<Rightarrow> find P ys)"
  by (induction xs) auto

lemma find_Some_member: "find P xs = Some x \<Longrightarrow> x \<in> set xs \<and> P x"
  by (induction xs) (auto split: if_splits)

section \<open>Row models and their views\<close>

text \<open>
  A view keeps a copy of the rows. It reads the data of a row when it is told that the row was
  inserted or changed, so these notifications carry the item the view reads.
\<close>

datatype 'a row_signal =
    RowRemoved nat
  | RowInserted nat 'a
  | RowChanged nat 'a
  | ModelReset "'a list"

definition remove_row :: "nat \<Rightarrow> 'a list \<Rightarrow> 'a list" where
  "remove_row i xs = take i xs @ drop (Suc i) xs"

fun replay1 :: "'a row_signal \<Rightarrow> 'a list \<Rightarrow> 'a list" where
  "replay1 (RowRemoved i) xs = remove_row i xs"
| "replay1 (RowInserted i x) xs = take i xs @ x # drop i xs"
| "replay1 (RowChanged i x) xs = xs[i := x]"
| "replay1 (ModelReset ys) xs = ys"

lemma mset_remove_row: "i < length xs \<Longrightarrow> mset xs = add_mset (xs ! i) (mset (remove_row i xs))"
  unfolding remove_row_def by (metis id_take_nth_drop mset.simps(2) mset_append union_mset_add_mset_right)

lemma set_remove_row_insert: "i < length xs \<Longrightarrow> set xs = insert (xs ! i) (set (remove_row i xs))"
  using mset_remove_row [of i xs] by (metis set_mset_add_mset_insert set_mset_mset)

lemma distinct_submset:
  assumes "mset xs \<subseteq># mset ys" and "distinct ys"
  shows "distinct xs"
proof -
  obtain zs where "mset ys = mset xs + mset zs"
    using assms(1) by (metis ex_mset mset_subset_eq_exists_conv)
  then have "mset (xs @ zs) = mset ys" by simp
  then have "distinct (xs @ zs)" using assms(2) mset_eq_imp_distinct_iff by blast
  then show ?thesis by simp
qed

definition replay :: "'a row_signal list \<Rightarrow> 'a list \<Rightarrow> 'a list" where
  "replay sigs xs = fold replay1 sigs xs"

lemma replay_simps [row_simps, simp]:
  "replay [] xs = xs"
  "replay (s # sigs) xs = replay sigs (replay1 s xs)"
  "replay (sigs @ sigs') xs = replay sigs' (replay sigs xs)"
  by (simp_all add: replay_def)

lemma length_remove_row [simp]: "i < length xs \<Longrightarrow> length (remove_row i xs) = length xs - 1"
  by (simp add: remove_row_def min_def)

lemma set_remove_row: "set (remove_row i xs) \<subseteq> set xs"
  by (auto simp: remove_row_def dest: in_set_takeD in_set_dropD)

lemma map_remove_row: "map f (remove_row i xs) = remove_row i (map f xs)"
  by (simp add: remove_row_def take_map drop_map)

lemma distinct_remove_row: "distinct xs \<Longrightarrow> distinct (remove_row i xs)"
  by (metis remove_row_def distinct_append distinct_take distinct_drop
      set_take_disj_set_drop_if_distinct lessI less_imp_le)

lemma remove_row_of:
  "distinct (map idf xs) \<Longrightarrow> k \<in> idf ` set xs \<Longrightarrow>
   remove_row (row_of idf k xs) xs = filter (\<lambda>x. idf x \<noteq> k) xs"
proof (induction xs)
  case Nil
  then show ?case by simp
next
  case (Cons x xs)
  show ?case
  proof (cases "idf x = k")
    case True
    with Cons.prems have "filter (\<lambda>x. idf x \<noteq> k) xs = xs"
      by (intro filter_True) (metis distinct.simps(2) image_eqI list.simps(9) set_map)
    with True show ?thesis by (simp add: remove_row_def)
  next
    case False
    with Cons show ?thesis by (auto simp: remove_row_def)
  qed
qed

text \<open>
  The interface between a list model and the views attached to it: an operation of the model maps
  the rows to the new rows and the notifications it sends, and a view that replays them holds the
  new rows. A view of a model that runs any sequence of operations is then never out of step.
\<close>

locale row_observed =
  fixes perform :: "'op \<Rightarrow> 'a list \<Rightarrow> 'a list \<times> 'a row_signal list"
  assumes replay_perform: "replay (snd (perform op xs)) xs = fst (perform op xs)"
begin

fun perform_all :: "'op list \<Rightarrow> 'a list \<Rightarrow> 'a list \<times> 'a row_signal list" where
  "perform_all [] xs = (xs, [])"
| "perform_all (op # ops) xs =
     (let (ys, sigs) = perform op xs; (zs, sigs') = perform_all ops ys in (zs, sigs @ sigs'))"

lemma replay_perform_all: "replay (snd (perform_all ops xs)) xs = fst (perform_all ops xs)"
proof (induction ops arbitrary: xs)
  case Nil
  then show ?case by simp
next
  case (Cons op ops)
  then show ?case
    using replay_perform [of op xs] by (simp add: split_beta)
qed

lemma mirror_prefix:
  "replay (snd (perform_all (ops @ ops') xs)) xs =
   fst (perform_all ops' (fst (perform_all ops xs)))"
proof -
  have "perform_all (ops @ ops') xs =
      (let (ys, s) = perform_all ops xs; (zs, s') = perform_all ops' ys in (zs, s @ s'))" for xs
    by (induction ops arbitrary: xs) (simp_all add: split_beta Let_def)
  then show ?thesis
    using replay_perform_all by (simp add: split_beta Let_def)
qed

end

end
