(* ===== verification/Storage_Models.thy ===== *)
theory Storage_Models
  imports Qt_Prelude
begin

text \<open>
  The records of \<open>StorageTypes.h\<close> and the two list models \<open>StorageDriveModel\<close> and
  \<open>StorageVolumeModel\<close>. The models share the algorithm of \<open>apply\<close>: rows whose identifier is not in
  the new snapshot are removed from the last to the first, then every item of the snapshot replaces
  the row with its identifier or is appended. The algorithm is written once over the identifier
  field (\<open>drop_absent\<close>, \<open>upsert\<close>) and instantiated for both classes.
\<close>

section \<open>Records\<close>

record storage_drive =
  sd_id :: string
  sd_vendor :: string
  sd_model :: string
  sd_serial :: string
  sd_connection_bus :: string
  sd_sibling :: string
  sd_media :: string
  sd_media_compatibility :: "string list"
  sd_removable :: bool
  sd_media_removable :: bool
  sd_media_present :: bool
  sd_optical :: bool
  sd_can_eject :: bool
  sd_can_power_off :: bool
  sd_rotation_rate :: "int option"

record storage_volume =
  sv_id :: string
  sv_drive :: string
  sv_label :: string
  sv_device :: string
  sv_filesystem_type :: string
  sv_usage :: string
  sv_partition_type :: string
  sv_partition_name :: string
  sv_partition_number :: "32 word"
  sv_hint_name :: string
  sv_hint_icon_name :: string
  sv_hint_symbolic_icon_name :: string
  sv_crypto_backing :: string
  sv_mount_points :: "string list"
  sv_capacity :: "64 word"
  sv_hint_ignore :: bool
  sv_hint_system :: bool
  sv_loop :: bool
  sv_partition_container :: bool
  sv_locked :: bool
  sv_can_mount :: bool
  sv_can_unmount :: bool

text \<open>The default member initialisers.\<close>

definition default_drive :: storage_drive where
  "default_drive = \<lparr>sd_id = '''', sd_vendor = '''', sd_model = '''', sd_serial = '''',
     sd_connection_bus = '''', sd_sibling = '''', sd_media = '''', sd_media_compatibility = [],
     sd_removable = False, sd_media_removable = False, sd_media_present = False,
     sd_optical = False, sd_can_eject = False, sd_can_power_off = False,
     sd_rotation_rate = None\<rparr>"

definition default_volume :: storage_volume where
  "default_volume = \<lparr>sv_id = '''', sv_drive = '''', sv_label = '''', sv_device = '''',
     sv_filesystem_type = '''', sv_usage = '''', sv_partition_type = '''',
     sv_partition_name = '''', sv_partition_number = 0, sv_hint_name = '''',
     sv_hint_icon_name = '''', sv_hint_symbolic_icon_name = '''', sv_crypto_backing = '''',
     sv_mount_points = [], sv_capacity = 0, sv_hint_ignore = False, sv_hint_system = False,
     sv_loop = False, sv_partition_container = False, sv_locked = False, sv_can_mount = False,
     sv_can_unmount = False\<rparr>"

datatype storage_operation = Mount | Unmount | Eject | PowerOff

record storage_result =
  sr_request :: string
  sr_target :: string
  sr_operation :: storage_operation
  sr_mount_path :: string
  sr_error_name :: string
  sr_error_message :: string

definition result_succeeded :: "storage_result \<Rightarrow> bool" where
  "result_succeeded r \<longleftrightarrow> sr_error_name r = ''''"

section \<open>The update of a list model\<close>

text \<open>
  The first loop of \<open>apply\<close>: \<open>n\<close> is one more than the loop variable \<open>i\<close>, which runs from the last
  row down to row 0.
\<close>

fun drop_absent :: "('a \<Rightarrow> 'i) \<Rightarrow> 'a list \<Rightarrow> nat \<Rightarrow> 'a list \<Rightarrow> 'a list \<times> 'a row_signal list" where
  "drop_absent idf news 0 rows = (rows, [])"
| "drop_absent idf news (Suc i) rows =
     (if list_ex (\<lambda>item. idf item = idf (rows ! i)) news then drop_absent idf news i rows
      else let (rows', sigs) = drop_absent idf news i (remove_row i rows)
           in (rows', RowRemoved i # sigs))"

text \<open>The body of the second loop: the inner \<open>while\<close> is \<open>row_of\<close>.\<close>

definition upsert :: "('a \<Rightarrow> 'i) \<Rightarrow> 'a \<Rightarrow> 'a list \<Rightarrow> 'a list \<times> 'a row_signal list" where
  "upsert idf item rows =
     (let row = row_of idf (idf item) rows in
      if row = length rows then (rows @ [item], [RowInserted row item])
      else if rows ! row \<noteq> item then (rows[row := item], [RowChanged row item])
      else (rows, []))"

fun upsert_all :: "('a \<Rightarrow> 'i) \<Rightarrow> 'a list \<Rightarrow> 'a list \<Rightarrow> 'a list \<times> 'a row_signal list" where
  "upsert_all idf [] rows = (rows, [])"
| "upsert_all idf (item # items) rows =
     (let (rows', sigs) = upsert idf item rows; (rows'', sigs') = upsert_all idf items rows'
      in (rows'', sigs @ sigs'))"

definition apply_rows :: "('a \<Rightarrow> 'i) \<Rightarrow> 'a list \<Rightarrow> 'a list \<Rightarrow> 'a list \<times> 'a row_signal list" where
  "apply_rows idf items rows =
     (let (rows', sigs) = drop_absent idf items (length rows) rows;
          (rows'', sigs') = upsert_all idf items rows'
      in (rows'', sigs @ sigs'))"

definition drive_model_apply ::
  "storage_drive list \<Rightarrow> storage_drive list \<Rightarrow> storage_drive list \<times> storage_drive row_signal list" where
  "drive_model_apply items rows = apply_rows sd_id items rows"

definition volume_model_apply ::
  "storage_volume list \<Rightarrow> storage_volume list \<Rightarrow> storage_volume list \<times> storage_volume row_signal list" where
  "volume_model_apply items rows = apply_rows sv_id items rows"

definition drive_model_find :: "string \<Rightarrow> storage_drive list \<Rightarrow> storage_drive option" where
  "drive_model_find identifier rows = find_by sd_id identifier rows"

definition volume_model_find :: "string \<Rightarrow> storage_volume list \<Rightarrow> storage_volume option" where
  "volume_model_find identifier rows = find_by sv_id identifier rows"

section \<open>What the update computes\<close>

lemma replay_drop_absent:
  "n \<le> length rows \<Longrightarrow>
   replay (snd (drop_absent idf news n rows)) rows = fst (drop_absent idf news n rows)"
  by (induction idf news n rows rule: drop_absent.induct) (auto simp: split_beta Let_def)

lemma drop_absent_filter:
  "n \<le> length rows \<Longrightarrow>
   fst (drop_absent idf news n rows) =
     filter (\<lambda>x. idf x \<in> idf ` set news) (take n rows) @ drop n rows"
proof (induction idf news n rows rule: drop_absent.induct)
  case (1 idf news rows)
  then show ?case by simp
next
  case (2 idf news i rows)
  have split: "take (Suc i) rows = take i rows @ [rows ! i]" "drop i rows = rows ! i # drop (Suc i) rows"
    using "2.prems" by (simp_all add: take_Suc_conv_app_nth Cons_nth_drop_Suc)
  have ex: "list_ex (\<lambda>item. idf item = idf (rows ! i)) news \<longleftrightarrow> idf (rows ! i) \<in> idf ` set news"
    by (auto simp: list_ex_iff rev_image_eqI)
  show ?case
  proof (cases "idf (rows ! i) \<in> idf ` set news")
    case True
    then show ?thesis using 2 split ex by auto
  next
    case False
    have "take i (remove_row i rows) = take i rows" "drop i (remove_row i rows) = drop (Suc i) rows"
      using "2.prems" by (simp_all add: remove_row_def min_def)
    then show ?thesis using 2 False split ex by (auto simp: split_beta Let_def)
  qed
qed

lemma replay_upsert: "replay (snd (upsert idf item rows)) rows = fst (upsert idf item rows)"
  by (auto simp: upsert_def Let_def)

lemma replay_upsert_all:
  "replay (snd (upsert_all idf items rows)) rows = fst (upsert_all idf items rows)"
  by (induction items arbitrary: rows) (simp_all add: split_beta Let_def replay_upsert)

lemma replay_apply_rows:
  "replay (snd (apply_rows idf items rows)) rows = fst (apply_rows idf items rows)"
  by (simp add: apply_rows_def split_beta Let_def replay_drop_absent replay_upsert_all)

lemma upsert_eq:
  assumes "distinct (map idf rows)"
  shows "fst (upsert idf item rows) =
     (if idf item \<in> idf ` set rows then map (\<lambda>x. if idf x = idf item then item else x) rows
      else rows @ [item])"
proof -
  have same: "rows = rows[i := item]" if "rows ! i = item" for i
    using that by (metis list_update_id)
  show ?thesis
    using assms list_update_row_of [OF refl assms, of item]
    by (auto simp: upsert_def Let_def)
qed

lemma map_upsert_ids:
  "distinct (map idf rows) \<Longrightarrow>
   map idf (fst (upsert idf item rows)) =
     map idf rows @ (if idf item \<in> idf ` set rows then [] else [idf item])"
  by (auto simp: upsert_eq)

lemma distinct_upsert: "distinct (map idf rows) \<Longrightarrow> distinct (map idf (fst (upsert idf item rows)))"
  by (auto simp: map_upsert_ids)

text \<open>
  The closed form: with distinct identifiers in the snapshot, the surviving rows keep their order
  and take the snapshot's record, and the new items follow in the snapshot's order.
\<close>

definition merged_rows :: "('a \<Rightarrow> 'i) \<Rightarrow> 'a list \<Rightarrow> 'a list \<Rightarrow> 'a list" where
  "merged_rows idf items rows =
     map (\<lambda>x. case find_by idf (idf x) items of Some y \<Rightarrow> y | None \<Rightarrow> x) rows
     @ filter (\<lambda>y. idf y \<notin> idf ` set rows) items"

lemma upsert_all_merged:
  "distinct (map idf rows) \<Longrightarrow> distinct (map idf items) \<Longrightarrow>
   fst (upsert_all idf items rows) = merged_rows idf items rows"
proof (induction items arbitrary: rows)
  case Nil
  then show ?case by (simp add: merged_rows_def)
next
  case (Cons item items)
  let ?rows = "fst (upsert idf item rows)"
  have fresh: "idf item \<notin> idf ` set items" and d: "distinct (map idf items)"
    using Cons.prems(2) by auto
  then have none: "find_by idf (idf item) items = None"
    by simp
  have IH: "fst (upsert_all idf (item # items) rows) = merged_rows idf items ?rows"
    using Cons.IH [OF distinct_upsert [OF Cons.prems(1)] d] by (simp add: split_beta Let_def)
  show ?case
  proof (cases "idf item \<in> idf ` set rows")
    case True
    then have ids: "idf ` set ?rows = idf ` set rows"
      using arg_cong [OF map_upsert_ids [OF Cons.prems(1), of item], of set] by simp
    have "filter (\<lambda>y. idf y \<notin> idf ` set ?rows) items =
        filter (\<lambda>y. idf y \<notin> idf ` set rows) (item # items)"
      using True ids by simp
    moreover have "map (\<lambda>x. case find_by idf (idf x) items of None \<Rightarrow> x | Some y \<Rightarrow> y) ?rows =
        map (\<lambda>x. case find_by idf (idf x) (item # items) of None \<Rightarrow> x | Some y \<Rightarrow> y) rows"
      using True none by (auto simp: upsert_eq [OF Cons.prems(1)])
    ultimately show ?thesis
      unfolding IH merged_rows_def by simp
  next
    case False
    have "filter (\<lambda>y. idf y \<notin> idf ` set (rows @ [item])) items =
        filter (\<lambda>y. idf y \<notin> idf ` set rows) items"
      using fresh by (intro filter_cong) (auto simp: image_iff)
    moreover have "map (\<lambda>x. case find_by idf (idf x) items of None \<Rightarrow> x | Some y \<Rightarrow> y) rows =
        map (\<lambda>x. case find_by idf (idf x) (item # items) of None \<Rightarrow> x | Some y \<Rightarrow> y) rows"
      using False by (intro map_cong) auto
    ultimately show ?thesis
      unfolding IH using False none
      by (simp add: merged_rows_def upsert_eq [OF Cons.prems(1)])
  qed
qed

lemma apply_rows_merged:
  assumes "distinct (map idf rows)" and "distinct (map idf items)"
  shows "fst (apply_rows idf items rows) =
    merged_rows idf items (filter (\<lambda>x. idf x \<in> idf ` set items) rows)"
proof -
  have "distinct (map idf (filter (\<lambda>x. idf x \<in> idf ` set items) rows))"
    using assms(1) by (simp add: distinct_map_filter)
  then show ?thesis
    using assms(2) by (simp add: apply_rows_def split_beta Let_def drop_absent_filter upsert_all_merged)
qed

lemma apply_rows_ids:
  assumes "distinct (map idf rows)" and "distinct (map idf items)"
  shows "map idf (fst (apply_rows idf items rows)) =
    filter (\<lambda>i. i \<in> idf ` set items) (map idf rows) @
    filter (\<lambda>i. i \<notin> idf ` set rows) (map idf items)"
proof -
  have 1: "idf (case find_by idf (idf x) items of Some y \<Rightarrow> y | None \<Rightarrow> x) = idf x" for x
    by (auto split: option.splits dest: find_by_Some)
  have 2: "filter (\<lambda>y. idf y \<notin> idf ` set (filter (\<lambda>x. idf x \<in> idf ` set items) rows)) items =
      filter (\<lambda>y. idf y \<notin> idf ` set rows) items"
  proof (intro filter_cong refl)
    fix y assume "y \<in> set items"
    then have "idf r \<in> idf ` set items" if "idf y = idf r" for r
      using that by (metis imageI)
    then show "(idf y \<notin> idf ` set (filter (\<lambda>x. idf x \<in> idf ` set items) rows)) =
        (idf y \<notin> idf ` set rows)"
      unfolding image_iff by auto
  qed
  show ?thesis
    unfolding apply_rows_merged [OF assms] merged_rows_def 2
    by (simp add: comp_def 1 filter_map)
qed

lemma distinct_apply_rows:
  "distinct (map idf rows) \<Longrightarrow> distinct (map idf items) \<Longrightarrow>
   distinct (map idf (fst (apply_rows idf items rows)))"
  by (subst apply_rows_ids) (auto simp: distinct_map_filter)

lemma set_apply_rows:
  assumes "distinct (map idf rows)" and "distinct (map idf items)"
  shows "set (fst (apply_rows idf items rows)) = set items"
proof -
  have find: "find_by idf (idf x) items = Some x" if "x \<in> set items" for x
    using assms(2) that by (rule find_by_distinct)
  have "(case find_by idf (idf x) items of Some y \<Rightarrow> y | None \<Rightarrow> x) \<in> set items"
    if "idf x \<in> idf ` set items" for x
    using that by (auto split: option.splits dest: find_by_Some)
  moreover have "x \<in> set (fst (apply_rows idf items rows))" if "x \<in> set items" for x
  proof (cases "idf x \<in> idf ` set rows")
    case True
    then obtain r where "r \<in> set rows" "idf r = idf x" by auto
    with that have "r \<in> set (filter (\<lambda>x. idf x \<in> idf ` set items) rows)"
      and "(case find_by idf (idf r) items of Some y \<Rightarrow> y | None \<Rightarrow> r) = x"
      using find by auto
    then show ?thesis
      unfolding apply_rows_merged [OF assms] merged_rows_def by force
  next
    case False
    with that show ?thesis
      unfolding apply_rows_merged [OF assms] merged_rows_def by auto
  qed
  ultimately show ?thesis
    unfolding apply_rows_merged [OF assms] merged_rows_def by auto
qed

lemma find_apply_rows:
  assumes "distinct (map idf rows)" and "distinct (map idf items)"
  shows "find_by idf k (fst (apply_rows idf items rows)) = find_by idf k items"
proof (cases "find_by idf k items")
  case None
  then show ?thesis using set_apply_rows [OF assms] by simp
next
  case (Some x)
  then have "x \<in> set (fst (apply_rows idf items rows))" and "idf x = k"
    using set_apply_rows [OF assms] by (auto dest: find_by_Some)
  with Some show ?thesis
    using find_by_distinct [OF distinct_apply_rows [OF assms]] by auto
qed

lemma apply_rows_Nil [simp]: "fst (apply_rows idf [] rows) = []"
  using drop_absent_filter [of "length rows" rows idf "[]"]
  by (simp add: apply_rows_def split_beta Let_def)

section \<open>The two models\<close>

interpretation drive_view: row_observed drive_model_apply
  by unfold_locales (simp add: drive_model_apply_def replay_apply_rows)

interpretation volume_view: row_observed volume_model_apply
  by unfold_locales (simp add: volume_model_apply_def replay_apply_rows)

lemmas drive_model_facts =
  distinct_apply_rows [of sd_id] set_apply_rows [of sd_id] find_apply_rows [of sd_id]

lemmas volume_model_facts =
  distinct_apply_rows [of sv_id] set_apply_rows [of sv_id] find_apply_rows [of sv_id]

end
