(* ===== verification/Storage_Controller.thy ===== *)
theory Storage_Controller
  imports Storage_Models
begin

text \<open>
  \<open>StorageController\<close>: the transaction coordinator above a \<open>StorageBackend\<close>. A request is begun by
  the application (\<open>begin\<close>), started from the event loop by a zero timer, unmounts the affected
  volumes one by one, runs its final operation and is finished exactly once. Every operation of the
  class maps the controller's state to the new state and the list of what it emits or asks of the
  backend, in order. Identifiers from \<open>QUuid::createUuid\<close> are arguments.
\<close>

section \<open>State\<close>

record storage_request =
  rq_result :: storage_result
  rq_scope :: "string list"
  rq_unmounts :: "string list"
  rq_step :: string
  rq_final :: bool

text \<open>\<open>sc_deferred\<close> holds the zero timers \<open>begin\<close> has started, oldest first, with the request
  identifier and the failure they captured.\<close>

record storage_state =
  sc_drives :: "storage_drive list"
  sc_volumes :: "storage_volume list"
  sc_available :: bool
  sc_requests :: "(string, storage_request) qhash"
  sc_deferred :: "(string \<times> string) list"

datatype storage_output =
    DriveRows "storage_drive row_signal list"
  | VolumeRows "storage_volume row_signal list"
  | AvailableChanged
  | OperationStateChanged
  | OperationFinished storage_result
  | BackendExecute string storage_operation string

definition storage_init :: storage_state where
  "storage_init = \<lparr>sc_drives = [], sc_volumes = [], sc_available = False, sc_requests = [],
     sc_deferred = []\<rparr>"

definition storage_error :: "string \<Rightarrow> string" where
  "storage_error name = ''org.holonight.Storage.'' @ name"

definition is_removal :: "storage_operation \<Rightarrow> bool" where
  "is_removal op \<longleftrightarrow> op = Eject \<or> op = PowerOff"

definition drive_capable :: "storage_operation \<Rightarrow> storage_drive \<Rightarrow> bool" where
  "drive_capable op d = (if op = Eject then sd_can_eject d else sd_can_power_off d)"

definition volume_capable :: "storage_operation \<Rightarrow> storage_volume \<Rightarrow> bool" where
  "volume_capable op v = (if op = Mount then sv_can_mount v else sv_can_unmount v)"

definition set_requests :: "(string, storage_request) qhash \<Rightarrow> storage_state \<Rightarrow> storage_state" where
  "set_requests rs st = st\<lparr>sc_requests := rs\<rparr>"

section \<open>Queries\<close>

definition storage_busy :: "storage_state \<Rightarrow> string \<Rightarrow> bool" where
  "storage_busy st target = list_ex (\<lambda>(_, r). List.member (rq_scope r) target) (sc_requests st)"

definition removal_scope :: "storage_state \<Rightarrow> string \<Rightarrow> bool \<Rightarrow> string list" where
  "removal_scope st driveId powerOff =
     (case drive_model_find driveId (sc_drives st) of
        None \<Rightarrow> []
      | Some drive \<Rightarrow>
          let drives = driveId #
                (if powerOff \<and> sd_sibling drive \<noteq> ''''
                 then map sd_id (filter (\<lambda>other. sd_id other \<noteq> driveId \<and>
                        sd_sibling other = sd_sibling drive) (sc_drives st))
                 else []);
              volumes = map sv_id (filter (\<lambda>v. List.member drives (sv_drive v)) (sc_volumes st))
          in sort (drives @ volumes))"

text \<open>The volumes of a scope that are still mounted, in row order.\<close>

definition mounted_in_scope :: "storage_state \<Rightarrow> string list \<Rightarrow> string list" where
  "mounted_in_scope st scope =
     map sv_id (filter (\<lambda>v. List.member scope (sv_id v) \<and> sv_mount_points v \<noteq> []) (sc_volumes st))"

section \<open>Operations\<close>

definition storage_finish ::
  "string \<Rightarrow> string \<Rightarrow> string \<Rightarrow> string \<Rightarrow> storage_state \<Rightarrow> storage_state \<times> storage_output list" where
  "storage_finish rid errorName errorMessage mountPath st =
     (case hash_value (sc_requests st) rid of
        None \<Rightarrow> (st, [])
      | Some r \<Rightarrow>
          (set_requests (hash_remove rid (sc_requests st)) st,
           [OperationStateChanged,
            OperationFinished ((rq_result r)\<lparr>sr_error_name := errorName,
              sr_error_message := errorMessage, sr_mount_path := mountPath\<rparr>)]))"

definition storage_advance ::
  "string \<Rightarrow> string \<Rightarrow> storage_state \<Rightarrow> storage_state \<times> storage_output list" where
  "storage_advance rid fresh st =
     (case hash_value (sc_requests st) rid of
        None \<Rightarrow> (st, [])
      | Some r \<Rightarrow>
          let op = sr_operation (rq_result r);
              target = sr_target (rq_result r);
              put = (\<lambda>r'. set_requests (hash_insert rid r' (sc_requests st)) st);
              r1 = r\<lparr>rq_step := fresh\<rparr>
          in
          if is_removal op \<and> removal_scope st target (op = PowerOff) \<noteq> rq_scope r then
            storage_finish rid (storage_error ''ScopeChanged'')
              ''Affected storage changed; review the operation again'' '''' st
          else if \<not> is_removal op \<and> volume_model_find target (sc_volumes st) = None then
            storage_finish rid (storage_error ''Disappeared'') ''Volume disappeared'' '''' st
          else
            (case rq_unmounts r of
               volumeId # rest \<Rightarrow>
                 let r2 = r1\<lparr>rq_unmounts := rest\<rparr> in
                 (case volume_model_find volumeId (sc_volumes st) of
                    None \<Rightarrow>
                      storage_finish rid (storage_error ''Disappeared'')
                        ''Affected volume is no longer available for unmount'' '''' (put r2)
                  | Some v \<Rightarrow>
                      if \<not> sv_can_unmount v then
                        storage_finish rid (storage_error ''Disappeared'')
                          ''Affected volume is no longer available for unmount'' '''' (put r2)
                      else (put r2, [BackendExecute fresh Unmount volumeId]))
             | [] \<Rightarrow>
                 if is_removal op \<and> mounted_in_scope st (rq_scope r) \<noteq> [] then
                   storage_finish rid (storage_error ''Busy'')
                     ''An affected volume is still mounted'' '''' (put r1)
                 else if is_removal op \<and>
                     (case drive_model_find target (sc_drives st) of
                        None \<Rightarrow> True | Some d \<Rightarrow> \<not> drive_capable op d) then
                   storage_finish rid (storage_error ''NotSupported'')
                     ''Drive removal capability changed'' '''' (put r1)
                 else
                   (put (r1\<lparr>rq_final := True\<rparr>), [BackendExecute fresh op target])))"

text \<open>The checks of \<open>begin\<close>: the scope, the volumes to unmount and the failure, where a later check
  overwrites an earlier one.\<close>

definition begin_scope :: "storage_operation \<Rightarrow> string \<Rightarrow> storage_state \<Rightarrow> string list" where
  "begin_scope op target st =
     (if is_removal op then removal_scope st target (op = PowerOff)
      else target #
        (case volume_model_find target (sc_volumes st) of
           None \<Rightarrow> []
         | Some v \<Rightarrow> if sv_drive v \<noteq> '''' then [sv_drive v] else []))"

definition begin_failure ::
  "storage_operation \<Rightarrow> string \<Rightarrow> string list \<Rightarrow> storage_state \<Rightarrow> string" where
  "begin_failure op target confirmed st =
     (let f0 = (if \<not> sc_available st then ''Unavailable'' else '''');
          scope = begin_scope op target st;
          f1 = (if is_removal op then
                  (case drive_model_find target (sc_drives st) of
                     None \<Rightarrow> ''Disappeared''
                   | Some d \<Rightarrow>
                       (let f = (if \<not> drive_capable op d then ''NotSupported'' else f0)
                        in if op = PowerOff \<and> sort confirmed \<noteq> scope then ''ScopeChanged'' else f))
                else
                  (case volume_model_find target (sc_volumes st) of
                     None \<Rightarrow> ''Disappeared''
                   | Some v \<Rightarrow> if \<not> volume_capable op v then ''NotSupported'' else f0))
      in if list_ex (storage_busy st) scope then ''Busy'' else f1)"

definition storage_begin ::
  "storage_operation \<Rightarrow> string \<Rightarrow> string list \<Rightarrow> string \<Rightarrow> storage_state \<Rightarrow>
   storage_state \<times> storage_output list" where
  "storage_begin op target confirmed rid st =
     (let scope = begin_scope op target st;
          failure = begin_failure op target confirmed st;
          request = \<lparr>rq_result = \<lparr>sr_request = rid, sr_target = target, sr_operation = op,
                        sr_mount_path = '''', sr_error_name = '''', sr_error_message = ''''\<rparr>,
                     rq_scope = (if failure \<noteq> '''' then [] else scope),
                     rq_unmounts = (if is_removal op then mounted_in_scope st scope else []),
                     rq_step = '''', rq_final = False\<rparr>
      in (st\<lparr>sc_requests := hash_insert rid request (sc_requests st),
             sc_deferred := sc_deferred st @ [(rid, failure)]\<rparr>,
          [OperationStateChanged]))"

text \<open>The zero timer of the oldest \<open>begin\<close>.\<close>

definition storage_timer :: "string \<Rightarrow> storage_state \<Rightarrow> storage_state \<times> storage_output list" where
  "storage_timer fresh st =
     (case sc_deferred st of
        [] \<Rightarrow> (st, [])
      | (rid, failure) # rest \<Rightarrow>
          let st' = st\<lparr>sc_deferred := rest\<rparr> in
          if \<not> hash_contains (sc_requests st') rid then (st', [])
          else if failure \<noteq> '''' then storage_finish rid (storage_error failure) failure '''' st'
          else storage_advance rid fresh st')"

text \<open>The slot connected to \<open>operationFinished\<close> of the backend.\<close>

definition storage_reply ::
  "storage_result \<Rightarrow> string \<Rightarrow> storage_state \<Rightarrow> storage_state \<times> storage_output list" where
  "storage_reply res fresh st =
     (case find (\<lambda>(_, r). rq_step r = sr_request res) (sc_requests st) of
        None \<Rightarrow> (st, [])
      | Some (rid, r) \<Rightarrow>
          if rid = '''' then (st, [])
          else if \<not> result_succeeded res then
            storage_finish rid (sr_error_name res) (sr_error_message res) '''' st
          else if rq_final r then storage_finish rid '''' '''' (sr_mount_path res) st
          else storage_advance rid fresh
            (set_requests (hash_insert rid (r\<lparr>rq_step := ''''\<rparr>) (sc_requests st)) st))"

fun finish_each :: "string list \<Rightarrow> storage_state \<Rightarrow> storage_state \<times> storage_output list" where
  "finish_each [] st = (st, [])"
| "finish_each (rid # rids) st =
     (let (st', out) = storage_finish rid (storage_error ''Unavailable'')
                          ''Storage service disconnected'' '''' st;
          (st'', out') = finish_each rids st'
      in (st'', out @ out'))"

definition storage_snapshot ::
  "storage_drive list \<Rightarrow> storage_volume list \<Rightarrow> bool \<Rightarrow> storage_state \<Rightarrow>
   storage_state \<times> storage_output list" where
  "storage_snapshot drives volumes available st =
     (let (ds, dsig) = drive_model_apply (if available then drives else []) (sc_drives st);
          (vs, vsig) = volume_model_apply (if available then volumes else []) (sc_volumes st);
          changed = (if sc_available st \<noteq> available then [AvailableChanged] else []);
          st' = st\<lparr>sc_drives := ds, sc_volumes := vs, sc_available := available\<rparr>;
          (st'', out) = (if \<not> available then finish_each (hash_keys (sc_requests st')) st'
                         else (st', []))
      in (st'', [DriveRows dsig, VolumeRows vsig] @ changed @ out))"

section \<open>Events and runs\<close>

datatype storage_event =
    EvBegin storage_operation string "string list" string
  | EvTimer string
  | EvReply storage_result string
  | EvSnapshot "storage_drive list" "storage_volume list" bool

fun storage_step :: "storage_event \<Rightarrow> storage_state \<Rightarrow> storage_state \<times> storage_output list" where
  "storage_step (EvBegin op target confirmed rid) st = storage_begin op target confirmed rid st"
| "storage_step (EvTimer fresh) st = storage_timer fresh st"
| "storage_step (EvReply res fresh) st = storage_reply res fresh st"
| "storage_step (EvSnapshot ds vs a) st = storage_snapshot ds vs a st"

section \<open>The effect of each operation\<close>

lemma set_requests_simps [simp]:
  "sc_drives (set_requests rs st) = sc_drives st"
  "sc_volumes (set_requests rs st) = sc_volumes st"
  "sc_available (set_requests rs st) = sc_available st"
  "sc_deferred (set_requests rs st) = sc_deferred st"
  "sc_requests (set_requests rs st) = rs"
  "set_requests rs (set_requests rs' st) = set_requests rs st"
  by (simp_all add: set_requests_def)

lemma removal_scope_cong:
  assumes "sc_drives st = sc_drives st'" and "sc_volumes st = sc_volumes st'"
  shows "removal_scope st d p = removal_scope st' d p"
  unfolding removal_scope_def assms ..

lemma mounted_in_scope_cong:
  assumes "sc_volumes st = sc_volumes st'"
  shows "mounted_in_scope st scope = mounted_in_scope st' scope"
  unfolding mounted_in_scope_def assms ..

text \<open>The result a request is finished with.\<close>

definition finished_result :: "storage_request \<Rightarrow> string \<Rightarrow> string \<Rightarrow> string \<Rightarrow> storage_result" where
  "finished_result r en em mp =
     (rq_result r)\<lparr>sr_error_name := en, sr_error_message := em, sr_mount_path := mp\<rparr>"

lemma finished_result_simps [simp]:
  "sr_request (finished_result r en em mp) = sr_request (rq_result r)"
  "sr_target (finished_result r en em mp) = sr_target (rq_result r)"
  "sr_operation (finished_result r en em mp) = sr_operation (rq_result r)"
  "sr_error_name (finished_result r en em mp) = en"
  "sr_mount_path (finished_result r en em mp) = mp"
  by (simp_all add: finished_result_def)

lemma storage_finish_Some:
  "hash_value (sc_requests st) rid = Some r \<Longrightarrow>
   storage_finish rid en em mp st =
     (set_requests (hash_remove rid (sc_requests st)) st,
      [OperationStateChanged, OperationFinished (finished_result r en em mp)])"
  by (simp add: storage_finish_def finished_result_def)

lemma storage_finish_None:
  "hash_value (sc_requests st) rid = None \<Longrightarrow> storage_finish rid en em mp st = (st, [])"
  by (simp add: storage_finish_def)

lemma storage_finish_put:
  "storage_finish rid en em mp (set_requests (hash_insert rid r (sc_requests st)) st) =
     (set_requests (hash_remove rid (sc_requests st)) st,
      [OperationStateChanged, OperationFinished (finished_result r en em mp)])"
  by (simp add: storage_finish_def finished_result_def delete_update_same)

text \<open>
  An advance of a pending request either finishes it with an error or puts one step of it under way:
  the unmount of the next affected volume, or the final operation. \<open>step_allowed\<close> collects the
  conditions under which the code calls the backend.
\<close>

definition scope_current :: "storage_state \<Rightarrow> storage_request \<Rightarrow> bool" where
  "scope_current st r \<longleftrightarrow>
     (if is_removal (sr_operation (rq_result r))
      then removal_scope st (sr_target (rq_result r)) (sr_operation (rq_result r) = PowerOff)
             = rq_scope r
      else volume_model_find (sr_target (rq_result r)) (sc_volumes st) \<noteq> None)"

definition step_allowed ::
  "storage_state \<Rightarrow> storage_request \<Rightarrow> storage_operation \<Rightarrow> string \<Rightarrow> storage_request \<Rightarrow> bool" where
  "step_allowed st r op target r' \<longleftrightarrow> scope_current st r \<and>
     (case rq_unmounts r of
        v # rest \<Rightarrow>
          op = Unmount \<and> target = v \<and> rq_unmounts r' = rest \<and> rq_final r' = rq_final r \<and>
          (\<exists>vol. volume_model_find v (sc_volumes st) = Some vol \<and> sv_can_unmount vol)
      | [] \<Rightarrow>
          op = sr_operation (rq_result r) \<and> target = sr_target (rq_result r) \<and>
          rq_unmounts r' = [] \<and> rq_final r' \<and>
          (is_removal op \<longrightarrow>
             mounted_in_scope st (rq_scope r) = [] \<and>
             (\<exists>d. drive_model_find target (sc_drives st) = Some d \<and> drive_capable op d)))"

lemma storage_advance_cases:
  assumes "hash_value (sc_requests st) rid = Some r"
  obtains (failed) r' en em where "en \<noteq> ''''" "rq_result r' = rq_result r"
      "storage_advance rid fresh st =
        (set_requests (hash_remove rid (sc_requests st)) st,
         [OperationStateChanged, OperationFinished (finished_result r' en em '''')])"
    | (called) r' op target where
      "storage_advance rid fresh st =
        (set_requests (hash_insert rid r' (sc_requests st)) st, [BackendExecute fresh op target])"
      "rq_result r' = rq_result r" "rq_scope r' = rq_scope r" "rq_step r' = fresh"
      "step_allowed st r op target r'"
proof -
  let ?op = "sr_operation (rq_result r)" and ?t = "sr_target (rq_result r)"
  have err: "storage_error e \<noteq> ''''" for e by (simp add: storage_error_def)
  note eval = storage_advance_def assms Let_def storage_finish_put storage_finish_Some
    scope_current_def step_allowed_def
  show thesis
  proof (cases "scope_current st r")
    case False
    then show thesis
      using failed [of "storage_error (if is_removal ?op then ''ScopeChanged'' else ''Disappeared'')" r
          "if is_removal ?op then ''Affected storage changed; review the operation again''
           else ''Volume disappeared''"] err
      by (auto simp: eval split: if_splits)
  next
    case current: True
    show thesis
    proof (cases "rq_unmounts r")
      case (Cons v rest)
      show thesis
      proof (cases "\<exists>vol. volume_model_find v (sc_volumes st) = Some vol \<and> sv_can_unmount vol")
        case True
        then show thesis
          using current Cons called [of "r\<lparr>rq_step := fresh, rq_unmounts := rest\<rparr>" Unmount v]
          by (auto simp: eval split: if_splits)
      next
        case False
        then show thesis
          using current Cons err
            failed [of "storage_error ''Disappeared''" "r\<lparr>rq_step := fresh, rq_unmounts := rest\<rparr>"
              "''Affected volume is no longer available for unmount''"]
          by (auto simp: eval split: if_splits option.splits)
      qed
    next
      case Nil
      show thesis
      proof (cases "is_removal ?op \<and> mounted_in_scope st (rq_scope r) \<noteq> []")
        case True
        then show thesis
          using current Nil err failed [of "storage_error ''Busy''" "r\<lparr>rq_step := fresh\<rparr>"
              "''An affected volume is still mounted''"]
          by (auto simp: eval)
      next
        case unmounted: False
        show thesis
        proof (cases "is_removal ?op \<longrightarrow>
            (\<exists>d. drive_model_find ?t (sc_drives st) = Some d \<and> drive_capable ?op d)")
          case True
          then show thesis
            using current Nil unmounted called [of "r\<lparr>rq_step := fresh, rq_final := True\<rparr>" ?op ?t]
            by (auto simp: eval split: if_splits option.splits)
        next
          case False
          then show thesis
            using current Nil unmounted err
              failed [of "storage_error ''NotSupported''" "r\<lparr>rq_step := fresh\<rparr>"
                "''Drive removal capability changed''"]
            by (auto simp: eval split: option.splits)
        qed
      qed
    qed
  qed
qed

end
