(* ===== verification/Storage_Runs.thy ===== *)
theory Storage_Runs
  imports Storage_Controller
begin

text \<open>
  Runs of the storage controller against an arbitrary application and an arbitrary backend, and the
  invariant every run keeps. The environment is restricted only by the contract of
  \<open>StorageBackend.h\<close> and of \<open>QUuid\<close>: identifiers are never reused, a reply names a request, and the
  identifiers of a snapshot are distinct. The iteration order of the request hash may change between
  any two steps.
\<close>

section \<open>Runs\<close>

fun event_ids :: "storage_event \<Rightarrow> string set" where
  "event_ids (EvBegin _ _ _ rid) = {rid}"
| "event_ids (EvTimer fresh) = {fresh}"
| "event_ids (EvReply _ fresh) = {fresh}"
| "event_ids (EvSnapshot _ _ _) = {}"

fun event_ok :: "string set \<Rightarrow> storage_event \<Rightarrow> bool" where
  "event_ok used (EvBegin op target confirmed rid) \<longleftrightarrow> rid \<noteq> '''' \<and> rid \<notin> used"
| "event_ok used (EvTimer fresh) \<longleftrightarrow> fresh \<noteq> '''' \<and> fresh \<notin> used"
| "event_ok used (EvReply res fresh) \<longleftrightarrow> fresh \<noteq> '''' \<and> fresh \<notin> used \<and> sr_request res \<noteq> ''''"
| "event_ok used (EvSnapshot ds vs a) \<longleftrightarrow> distinct (map sd_id ds) \<and> distinct (map sv_id vs)"

type_synonym storage_trace = "(storage_event \<times> storage_output list) list"

inductive storage_run :: "storage_state \<Rightarrow> string set \<Rightarrow> storage_trace \<Rightarrow> bool" where
  start: "storage_run storage_init {} []"
| step: "storage_run st used tr \<Longrightarrow> event_ok used ev \<Longrightarrow> storage_step ev st = (st', out) \<Longrightarrow>
    storage_run st' (used \<union> event_ids ev) (tr @ [(ev, out)])"
| rehash: "storage_run st used tr \<Longrightarrow> mset (sc_requests st) = mset rs \<Longrightarrow>
    storage_run (set_requests rs st) used tr"

text \<open>The requests a trace begins and finishes, in order.\<close>

definition begun :: "storage_trace \<Rightarrow> string list" where
  "begun tr = concat (map (\<lambda>(ev, _). case ev of EvBegin _ _ _ rid \<Rightarrow> [rid] | _ \<Rightarrow> []) tr)"

fun finished_ids :: "storage_output list \<Rightarrow> string list" where
  "finished_ids [] = []"
| "finished_ids (OperationFinished r # out) = sr_request r # finished_ids out"
| "finished_ids (_ # out) = finished_ids out"

definition finished :: "storage_trace \<Rightarrow> string list" where
  "finished tr = concat (map (finished_ids \<circ> snd) tr)"

lemma begun_simps [simp]:
  "begun [] = []"
  "begun (tr @ [(ev, out)]) = begun tr @ (case ev of EvBegin _ _ _ rid \<Rightarrow> [rid] | _ \<Rightarrow> [])"
  by (simp_all add: begun_def)

lemma finished_simps [simp]:
  "finished [] = []"
  "finished (tr @ [(ev, out)]) = finished tr @ finished_ids out"
  by (simp_all add: finished_def)

lemma finished_ids_append [simp]: "finished_ids (xs @ ys) = finished_ids xs @ finished_ids ys"
  by (induction xs rule: finished_ids.induct) auto

section \<open>The invariant\<close>

text \<open>What holds of one pending request under its key: \<open>q\<close> are the failures captured by its timer,
  if the timer has not fired yet.\<close>

definition request_ok :: "string set \<Rightarrow> storage_trace \<Rightarrow> string \<Rightarrow> storage_request \<Rightarrow> bool" where
  "request_ok used tr rid r \<longleftrightarrow>
     rid \<in> used \<and> rid \<noteq> '''' \<and> sr_request (rq_result r) = rid \<and>
     (rq_step r \<noteq> '''' \<longrightarrow> rq_step r \<in> used) \<and>
     (\<exists>confirmed. EvBegin (sr_operation (rq_result r)) (sr_target (rq_result r)) confirmed rid
          \<in> fst ` set tr \<and>
        (sr_operation (rq_result r) = PowerOff \<and> rq_scope r \<noteq> [] \<longrightarrow> sort confirmed = rq_scope r))"

definition queued :: "storage_state \<Rightarrow> string list" where
  "queued st = map fst (sc_deferred st)"

definition requests_ok :: "storage_state \<Rightarrow> string set \<Rightarrow> storage_trace \<Rightarrow> bool" where
  "requests_ok st used tr \<longleftrightarrow>
     (\<forall>rid r. hash_value (sc_requests st) rid = Some r \<longrightarrow>
        request_ok used tr rid r \<and> (rq_step r = '''' \<longleftrightarrow> rid \<in> set (queued st)))"

definition steps_distinct :: "storage_state \<Rightarrow> bool" where
  "steps_distinct st \<longleftrightarrow>
     (\<forall>rid r rid' r'. hash_value (sc_requests st) rid = Some r \<longrightarrow>
        hash_value (sc_requests st) rid' = Some r' \<longrightarrow> rq_step r = rq_step r' \<longrightarrow>
        rq_step r \<noteq> '''' \<longrightarrow> rid = rid')"

definition scopes_disjoint :: "storage_state \<Rightarrow> bool" where
  "scopes_disjoint st \<longleftrightarrow>
     (\<forall>rid r rid' r'. hash_value (sc_requests st) rid = Some r \<longrightarrow>
        hash_value (sc_requests st) rid' = Some r' \<longrightarrow> rid \<noteq> rid' \<longrightarrow>
        set (rq_scope r) \<inter> set (rq_scope r') = {})"

definition deferred_ok :: "storage_state \<Rightarrow> string set \<Rightarrow> bool" where
  "deferred_ok st used \<longleftrightarrow> distinct (queued st) \<and> set (queued st) \<subseteq> used \<and>
     (\<forall>rid f r. (rid, f) \<in> set (sc_deferred st) \<longrightarrow> hash_value (sc_requests st) rid = Some r \<longrightarrow>
        (f \<noteq> '''' \<longleftrightarrow> rq_scope r = []))"

definition models_ok :: "storage_state \<Rightarrow> bool" where
  "models_ok st \<longleftrightarrow> distinct (map sd_id (sc_drives st)) \<and> distinct (map sv_id (sc_volumes st)) \<and>
     (\<not> sc_available st \<longrightarrow> sc_drives st = [] \<and> sc_volumes st = [])"

definition accounted :: "storage_state \<Rightarrow> string set \<Rightarrow> storage_trace \<Rightarrow> bool" where
  "accounted st used tr \<longleftrightarrow> distinct (begun tr) \<and> set (begun tr) \<subseteq> used \<and>
     mset (begun tr) = mset (finished tr) + mset (map fst (sc_requests st))"

definition storage_inv :: "storage_state \<Rightarrow> string set \<Rightarrow> storage_trace \<Rightarrow> bool" where
  "storage_inv st used tr \<longleftrightarrow> hash_ok (sc_requests st) \<and> requests_ok st used tr \<and>
     steps_distinct st \<and> scopes_disjoint st \<and> deferred_ok st used \<and> models_ok st \<and>
     accounted st used tr"

lemmas storage_inv_defs = storage_inv_def requests_ok_def steps_distinct_def scopes_disjoint_def
  deferred_ok_def models_ok_def accounted_def request_ok_def queued_def

lemma storage_invD:
  assumes "storage_inv st used tr"
  shows "hash_ok (sc_requests st)" "requests_ok st used tr" "steps_distinct st"
    "scopes_disjoint st" "deferred_ok st used" "models_ok st" "accounted st used tr"
  using assms by (simp_all add: storage_inv_def)

lemma requests_okD:
  assumes "requests_ok st used tr" and "hash_value (sc_requests st) rid = Some r"
  shows "request_ok used tr rid r" and "rq_step r = '''' \<longleftrightarrow> rid \<in> set (queued st)"
  using assms unfolding requests_ok_def by blast+

lemma steps_distinctD:
  "steps_distinct st \<Longrightarrow> hash_value (sc_requests st) rid = Some r \<Longrightarrow>
   hash_value (sc_requests st) rid' = Some r' \<Longrightarrow> rq_step r = rq_step r' \<Longrightarrow>
   rq_step r \<noteq> '''' \<Longrightarrow> rid = rid'"
  unfolding steps_distinct_def by blast

lemma scopes_disjointD:
  "scopes_disjoint st \<Longrightarrow> hash_value (sc_requests st) rid = Some r \<Longrightarrow>
   hash_value (sc_requests st) rid' = Some r' \<Longrightarrow> rid \<noteq> rid' \<Longrightarrow>
   set (rq_scope r) \<inter> set (rq_scope r') = {}"
  unfolding scopes_disjoint_def by blast

lemma deferred_okD:
  assumes "deferred_ok st used"
  shows "distinct (queued st)" "set (queued st) \<subseteq> used"
    "(rid, f) \<in> set (sc_deferred st) \<Longrightarrow> hash_value (sc_requests st) rid = Some r \<Longrightarrow>
     f \<noteq> '''' \<longleftrightarrow> rq_scope r = []"
  using assms unfolding deferred_ok_def by blast+

lemma storage_inv_init: "storage_inv storage_init {} []"
  by (simp add: storage_inv_defs storage_init_def)

section \<open>Steps that only drop requests, and steps that update one request\<close>

lemma request_ok_mono:
  "request_ok used tr rid r \<Longrightarrow> request_ok (used \<union> ids) (tr @ [(ev, out)]) rid r"
  unfolding request_ok_def by auto

text \<open>A step that removes requests and reports each of them.\<close>

lemma storage_inv_drop:
  assumes inv: "storage_inv st used tr"
    and dom: "\<And>k r. hash_value rs k = Some r \<Longrightarrow> hash_value (sc_requests st) k = Some r"
    and ok: "hash_ok rs"
    and models: "models_ok st'"
    and reqs: "sc_requests st' = rs"
    and timers: "\<And>k f. (k, f) \<in> set (sc_deferred st') \<Longrightarrow> (k, f) \<in> set (sc_deferred st)"
    and dist: "distinct (queued st')"
    and queue: "\<And>k. hash_contains rs k \<Longrightarrow> k \<in> set (queued st') \<longleftrightarrow> k \<in> set (queued st)"
    and count: "mset (map fst (sc_requests st)) = mset (finished_ids out) + mset (map fst rs)"
    and ev: "\<And>op t c rid. ev \<noteq> EvBegin op t c rid"
  shows "storage_inv st' (used \<union> ids) (tr @ [(ev, out)])"
proof -
  have no_begin: "(case ev of EvBegin _ _ _ rid \<Rightarrow> [rid] | _ \<Rightarrow> []) = []"
    using ev by (cases ev) auto
  note D = storage_invD [OF inv]
  have "requests_ok st' (used \<union> ids) (tr @ [(ev, out)])"
    unfolding requests_ok_def reqs
  proof (intro allI impI)
    fix k r assume k: "hash_value rs k = Some r"
    note requests_okD [OF D(2) dom [OF k]]
    then show "request_ok (used \<union> ids) (tr @ [(ev, out)]) k r \<and>
        (rq_step r = '''' \<longleftrightarrow> k \<in> set (queued st'))"
      using queue [of k] k request_ok_mono by simp
  qed
  moreover have "steps_distinct st'"
    unfolding steps_distinct_def reqs
  proof (intro allI impI)
    fix k r k' r'
    assume "hash_value rs k = Some r" "hash_value rs k' = Some r'" "rq_step r = rq_step r'"
      "rq_step r \<noteq> ''''"
    then show "k = k'" by (meson D(3) dom steps_distinctD)
  qed
  moreover have "scopes_disjoint st'"
    unfolding scopes_disjoint_def reqs
  proof (intro allI impI)
    fix k r k' r'
    assume "hash_value rs k = Some r" "hash_value rs k' = Some r'" "k \<noteq> k'"
    then show "set (rq_scope r) \<inter> set (rq_scope r') = {}"
      by (meson D(4) dom scopes_disjointD)
  qed
  moreover have "deferred_ok st' (used \<union> ids)"
    unfolding deferred_ok_def reqs
  proof (intro conjI allI impI)
    show "distinct (queued st')" by (rule dist)
    show "set (queued st') \<subseteq> used \<union> ids"
      using deferred_okD(2) [OF D(5)] timers unfolding queued_def by fastforce
    fix k f r
    assume "(k, f) \<in> set (sc_deferred st')" "hash_value rs k = Some r"
    then show "(f \<noteq> '''') = (rq_scope r = [])"
      by (metis D(5) deferred_okD(3) dom timers)
  qed
  moreover have "accounted st' (used \<union> ids) (tr @ [(ev, out)])"
    using D(7) count no_begin unfolding accounted_def reqs by auto
  ultimately show ?thesis
    using ok models unfolding storage_inv_def reqs by blast
qed

text \<open>A step that puts the next backend call of one request under way.\<close>

lemma storage_inv_call:
  assumes inv: "storage_inv st used tr"
    and r: "hash_value (sc_requests st) rid = Some r"
    and r': "rq_result r' = rq_result r" "rq_scope r' = rq_scope r" "rq_step r' = fresh"
    and fresh: "fresh \<noteq> ''''" "fresh \<notin> used"
    and reqs: "sc_requests st' = hash_insert rid r' (sc_requests st)"
    and models: "models_ok st'"
    and timers: "\<And>k f. (k, f) \<in> set (sc_deferred st') \<Longrightarrow> (k, f) \<in> set (sc_deferred st)"
    and dist: "distinct (queued st')"
    and queue: "\<And>k. k \<noteq> rid \<Longrightarrow> k \<in> set (queued st') \<longleftrightarrow> k \<in> set (queued st)"
    and gone: "rid \<notin> set (queued st')"
    and out: "finished_ids out = []"
    and ev: "\<And>op t c rid. ev \<noteq> EvBegin op t c rid"
  shows "storage_inv st' (used \<union> {fresh}) (tr @ [(ev, out)])"
proof -
  have no_begin: "(case ev of EvBegin _ _ _ rid \<Rightarrow> [rid] | _ \<Rightarrow> []) = []"
    using ev by (cases ev) auto
  note D = storage_invD [OF inv]
  have other: "hash_value (sc_requests st) k = Some q"
    if "hash_value (sc_requests st') k = Some q" "k \<noteq> rid" for k q
    using that by (simp add: reqs)
  have unused: "rq_step q \<noteq> fresh" if "hash_value (sc_requests st) k = Some q" for k q
    using requests_okD(1) [OF D(2) that] fresh unfolding request_ok_def by auto
  have "requests_ok st' (used \<union> {fresh}) (tr @ [(ev, out)])"
    unfolding requests_ok_def
  proof (intro allI impI)
    fix k q assume k: "hash_value (sc_requests st') k = Some q"
    show "request_ok (used \<union> {fresh}) (tr @ [(ev, out)]) k q \<and>
        (rq_step q = '''' \<longleftrightarrow> k \<in> set (queued st'))"
    proof (cases "k = rid")
      case True
      then have "q = r'" using k by (simp add: reqs)
      moreover have "request_ok used tr rid r" using requests_okD(1) [OF D(2) r] .
      ultimately show ?thesis
        using True r' fresh gone unfolding request_ok_def by auto
    next
      case False
      then show ?thesis
        using requests_okD(2) [OF D(2) other [OF k False]] queue [OF False]
          request_ok_mono [OF requests_okD(1) [OF D(2) other [OF k False]], of "{fresh}" ev out]
        by simp
    qed
  qed
  moreover have "steps_distinct st'"
    unfolding steps_distinct_def
  proof (intro allI impI)
    fix k q k' q'
    assume a: "hash_value (sc_requests st') k = Some q" "hash_value (sc_requests st') k' = Some q'"
      "rq_step q = rq_step q'" "rq_step q \<noteq> ''''"
    have mine: "q = r'" if "hash_value (sc_requests st') rid = Some q" for q
      using that by (simp add: reqs)
    consider "k = rid" "k' = rid" | "k = rid" "k' \<noteq> rid" | "k \<noteq> rid" "k' = rid"
      | "k \<noteq> rid" "k' \<noteq> rid" by blast
    then show "k = k'"
    proof cases
      case 2
      then show ?thesis using a mine r'(3) unused [OF other [OF a(2)]] by auto
    next
      case 3
      then show ?thesis using a mine r'(3) unused [OF other [OF a(1)]] by auto
    next
      case 4
      then show ?thesis using steps_distinctD [OF D(3) other [OF a(1)] other [OF a(2)] a(3,4)] by simp
    qed simp
  qed
  moreover have "scopes_disjoint st'"
    unfolding scopes_disjoint_def
  proof (intro allI impI)
    fix k q k' q'
    assume a: "hash_value (sc_requests st') k = Some q" "hash_value (sc_requests st') k' = Some q'"
      "k \<noteq> k'"
    have before: "\<exists>p. hash_value (sc_requests st) i = Some p \<and> rq_scope p = rq_scope q"
      if "hash_value (sc_requests st') i = Some q" for i q
      using that other [of i q] r r'(2) by (cases "i = rid") (auto simp: reqs)
    show "set (rq_scope q) \<inter> set (rq_scope q') = {}"
      using before [OF a(1)] before [OF a(2)] scopes_disjointD [OF D(4) _ _ a(3)] by metis
  qed
  moreover have "deferred_ok st' (used \<union> {fresh})"
    unfolding deferred_ok_def
  proof (intro conjI allI impI)
    show "distinct (queued st')" by (rule dist)
    show "set (queued st') \<subseteq> used \<union> {fresh}"
      using deferred_okD(2) [OF D(5)] timers unfolding queued_def by fastforce
    fix k f q
    assume k: "(k, f) \<in> set (sc_deferred st')" "hash_value (sc_requests st') k = Some q"
    then have "k \<noteq> rid" using gone unfolding queued_def by force
    then show "(f \<noteq> '''') = (rq_scope q = [])"
      using k by (metis D(5) deferred_okD(3) other timers)
  qed
  moreover have "accounted st' (used \<union> {fresh}) (tr @ [(ev, out)])"
    using D(7) r out no_begin unfolding accounted_def reqs by (auto simp: keys_insert)
  ultimately show ?thesis
    using D(1) models unfolding storage_inv_def reqs by auto
qed

text \<open>A step that begins a request: the checks of \<open>begin\<close> keep the scopes disjoint.\<close>

lemma storage_busy_iff:
  "hash_ok (sc_requests st) \<Longrightarrow>
   storage_busy st t \<longleftrightarrow> (\<exists>rid r. hash_value (sc_requests st) rid = Some r \<and> t \<in> set (rq_scope r))"
  unfolding storage_busy_def list_ex_iff by (auto simp: hash_in_set_iff [symmetric])

lemma begin_not_busy:
  "begin_failure op target confirmed st = '''' \<Longrightarrow> t \<in> set (begin_scope op target st) \<Longrightarrow>
   \<not> storage_busy st t"
  by (auto simp: begin_failure_def Let_def list_ex_iff split: if_splits)

lemma begin_scope_nonempty:
  "begin_failure op target confirmed st = '''' \<Longrightarrow> begin_scope op target st \<noteq> []"
  by (auto simp: begin_failure_def begin_scope_def removal_scope_def Let_def
      split: if_splits option.splits dest!: arg_cong [where f = length])

lemma begin_confirmed:
  "begin_failure PowerOff target confirmed st = '''' \<Longrightarrow>
   sort confirmed = begin_scope PowerOff target st"
  by (auto simp: begin_failure_def is_removal_def Let_def split: if_splits option.splits)

lemma storage_inv_begin:
  assumes inv: "storage_inv st used tr" and fresh: "rid \<noteq> ''''" "rid \<notin> used"
    and step: "storage_begin op target confirmed rid st = (st', out)"
  shows "storage_inv st' (used \<union> {rid}) (tr @ [(EvBegin op target confirmed rid, out)])"
proof -
  define failure where "failure = begin_failure op target confirmed st"
  define scope where "scope = begin_scope op target st"
  define req where "req = \<lparr>rq_result = \<lparr>sr_request = rid, sr_target = target, sr_operation = op,
      sr_mount_path = '''', sr_error_name = '''', sr_error_message = ''''\<rparr>,
    rq_scope = (if failure \<noteq> '''' then [] else scope),
    rq_unmounts = (if is_removal op then mounted_in_scope st scope else []),
    rq_step = '''', rq_final = False\<rparr>"
  have st': "st' = st\<lparr>sc_requests := hash_insert rid req (sc_requests st),
      sc_deferred := sc_deferred st @ [(rid, failure)]\<rparr>" and out: "out = [OperationStateChanged]"
    using arg_cong [OF step, of fst] arg_cong [OF step, of snd]
    unfolding storage_begin_def Let_def failure_def scope_def req_def fst_conv snd_conv
    by (simp_all only:)
  note D = storage_invD [OF inv]
  have new: "hash_value (sc_requests st) rid = None"
    using requests_okD(1) [OF D(2)] fresh unfolding request_ok_def by (metis option.exhaust)
  have notq: "rid \<notin> set (queued st)" using deferred_okD(2) [OF D(5)] fresh by blast
  have notin: "(rid, f) \<notin> set (sc_deferred st)" for f
    using notq unfolding queued_def by force
  have lookup: "hash_value (sc_requests st') k = (if k = rid then Some req else hash_value (sc_requests st) k)" for k
    by (simp add: st')
  have step0: "rq_step req = ''''" and scope0: "rq_scope req = (if failure \<noteq> '''' then [] else scope)"
    by (simp_all add: req_def)
  have apart: "set (rq_scope req) \<inter> set (rq_scope q) = {}"
    if "hash_value (sc_requests st) k = Some q" for k q
    using that begin_not_busy [of op target confirmed st] storage_busy_iff [OF D(1)]
    unfolding scope0 failure_def scope_def by auto
  have "requests_ok st' (used \<union> {rid}) (tr @ [(EvBegin op target confirmed rid, out)])"
    unfolding requests_ok_def
  proof (intro allI impI)
    fix k q assume k: "hash_value (sc_requests st') k = Some q"
    show "request_ok (used \<union> {rid}) (tr @ [(EvBegin op target confirmed rid, out)]) k q \<and>
        (rq_step q = '''' \<longleftrightarrow> k \<in> set (queued st'))"
    proof (cases "k = rid")
      case True
      then have "q = req" using k by (simp add: lookup)
      then show ?thesis
        using True fresh begin_confirmed [of target confirmed st]
        by (auto simp: request_ok_def req_def failure_def scope_def st' queued_def)
    next
      case False
      then have "hash_value (sc_requests st) k = Some q" using k by (simp add: lookup)
      then show ?thesis
        using requests_okD [OF D(2), of k q] False
          request_ok_mono [of used tr k q "{rid}" "EvBegin op target confirmed rid" out]
        by (simp add: st' queued_def)
    qed
  qed
  moreover have "steps_distinct st'"
    unfolding steps_distinct_def lookup using steps_distinctD [OF D(3)] step0 by auto
  moreover have "scopes_disjoint st'"
    unfolding scopes_disjoint_def lookup
  proof (intro allI impI)
    fix k q k' q'
    assume a: "(if k = rid then Some req else hash_value (sc_requests st) k) = Some q"
      "(if k' = rid then Some req else hash_value (sc_requests st) k') = Some q'" "k \<noteq> k'"
    show "set (rq_scope q) \<inter> set (rq_scope q') = {}"
    proof (cases "k = rid")
      case True
      then show ?thesis using a apart [of k' q'] by simp
    next
      case False
      then show ?thesis
        using a apart [of k q] scopes_disjointD [OF D(4), of k q k' q'] by (cases "k' = rid") auto
    qed
  qed
  moreover have "deferred_ok st' (used \<union> {rid})"
    unfolding deferred_ok_def lookup
    using deferred_okD [OF D(5)] notq notin begin_scope_nonempty [of op target confirmed st]
    by (auto simp: st' queued_def scope0 failure_def scope_def split: if_splits)
  moreover have "models_ok st'"
    using D(6) by (simp add: models_ok_def st')
  moreover have "accounted st' (used \<union> {rid}) (tr @ [(EvBegin op target confirmed rid, out)])"
    using D(7) fresh new unfolding accounted_def by (auto simp: st' out keys_insert)
  moreover have "hash_ok (sc_requests st')"
    using D(1) by (simp add: st')
  ultimately show ?thesis
    unfolding storage_inv_def by blast
qed

section \<open>Every step keeps the invariant\<close>

lemma queued_set_requests [simp]: "queued (set_requests rs st) = queued st"
  by (simp add: queued_def)

lemma models_ok_set_requests [simp]: "models_ok (set_requests rs st) = models_ok st"
  by (simp add: models_ok_def)

lemma hash_remove_subset:
  "hash_value (hash_remove rid m) k = Some r \<Longrightarrow> hash_value m k = Some r"
  by (auto split: if_splits)

text \<open>Finishing one pending request, in a state whose timers are those of \<open>st\<close> less the timer of
  the request.\<close>

lemma storage_inv_finish:
  assumes inv: "storage_inv st used tr"
    and r: "hash_value (sc_requests st) rid = Some r" and same: "rq_result r' = rq_result r"
    and st': "sc_requests st' = hash_remove rid (sc_requests st)" "models_ok st'"
      "sc_deferred st' = sc_deferred st \<or> (\<exists>f. sc_deferred st = (rid, f) # sc_deferred st')"
    and out: "out = [OperationStateChanged, OperationFinished (finished_result r' en em mp)]"
    and ev: "\<And>op t c rid. ev \<noteq> EvBegin op t c rid"
  shows "storage_inv st' (used \<union> ids) (tr @ [(ev, out)])"
proof -
  note D = storage_invD [OF inv]
  have id: "sr_request (rq_result r) = rid"
    using requests_okD(1) [OF D(2) r] by (simp add: request_ok_def)
  show ?thesis
  proof (rule storage_inv_drop [OF inv hash_remove_subset _ st'(2,1)])
    show "hash_ok (hash_remove rid (sc_requests st))" using D(1) by blast
    show "distinct (queued st')" using deferred_okD(1) [OF D(5)] st'(3) by (auto simp: queued_def)
    show "mset (map fst (sc_requests st)) =
        mset (finished_ids out) + mset (map fst (hash_remove rid (sc_requests st)))"
      using keys_remove [OF D(1), of rid] r by (simp add: out same id)
    show "(k, f) \<in> set (sc_deferred st)" if "(k, f) \<in> set (sc_deferred st')" for k f
      using that st'(3) by auto
    show "k \<in> set (queued st') \<longleftrightarrow> k \<in> set (queued st)"
      if "hash_contains (hash_remove rid (sc_requests st)) k" for k
      using that st'(3) by (auto simp: queued_def split: if_splits)
  qed (use ev in auto)
qed

text \<open>Advancing one pending request whose timer, if it was queued, has just fired.\<close>

lemma storage_inv_advance:
  assumes inv: "storage_inv st used tr"
    and r: "hash_value (sc_requests st) rid = Some r"
    and st1: "sc_requests st1 = hash_insert rid r1 (sc_requests st)" "models_ok st1"
      "rq_result r1 = rq_result r" "rq_scope r1 = rq_scope r"
      "sc_deferred st1 = sc_deferred st \<and> rq_step r \<noteq> '''' \<or>
       (\<exists>f. sc_deferred st = (rid, f) # sc_deferred st1)"
    and adv: "storage_advance rid fresh st1 = (st', out)"
    and fresh: "fresh \<noteq> ''''" "fresh \<notin> used"
    and ev: "\<And>op t c rid. ev \<noteq> EvBegin op t c rid"
  shows "storage_inv st' (used \<union> {fresh}) (tr @ [(ev, out)])"
proof -
  note D = storage_invD [OF inv]
  have r1: "hash_value (sc_requests st1) rid = Some r1" by (simp add: st1)
  show ?thesis
  proof (cases rule: storage_advance_cases [OF r1, of fresh])
    case (1 r' en em)
    show ?thesis
    proof (rule storage_inv_finish [OF inv r])
      show "rq_result r' = rq_result r" using 1 st1 by simp
      show "sc_requests st' = hash_remove rid (sc_requests st)"
        using 1(3) adv by (auto simp: st1(1) delete_update_same)
      show "out = [OperationStateChanged, OperationFinished (finished_result r' en em '''')]"
        and "models_ok st'"
        using 1(3) adv st1(2) by auto
      show "sc_deferred st' = sc_deferred st \<or> (\<exists>f. sc_deferred st = (rid, f) # sc_deferred st')"
        using 1(3) adv st1(5) by auto
    qed (rule ev)
  next
    case (2 r' op target)
    show ?thesis
    proof (rule storage_inv_call [OF inv r _ _ _ fresh, of r'])
      have st': "st' = set_requests (hash_insert rid r' (sc_requests st1)) st1" using 2(1) adv by simp
      show "rq_result r' = rq_result r" "rq_scope r' = rq_scope r" "rq_step r' = fresh"
        using 2 st1 by simp_all
      show "sc_requests st' = hash_insert rid r' (sc_requests st)"
        by (simp add: st' st1(1) update_last)
      show "models_ok st'" by (simp add: st' st1(2))
      show "distinct (queued st')"
        using deferred_okD(1) [OF D(5)] st1(5) by (auto simp: queued_def st')
      show "(k, f) \<in> set (sc_deferred st)" if "(k, f) \<in> set (sc_deferred st')" for k f
        using that st1(5) by (auto simp: st')
      show "k \<in> set (queued st') \<longleftrightarrow> k \<in> set (queued st)" if "k \<noteq> rid" for k
        using that st1(5) by (auto simp: queued_def st')
      show "rid \<notin> set (queued st')"
        using deferred_okD(1) [OF D(5)] requests_okD(2) [OF D(2) r] st1(5)
        by (force simp: queued_def st')
      show "finished_ids out = []" using 2(1) adv by auto
    qed (rule ev)
  qed
qed

lemma storage_inv_timer:
  assumes inv: "storage_inv st used tr" and fresh: "fresh \<noteq> ''''" "fresh \<notin> used"
    and step: "storage_timer fresh st = (st', out)"
  shows "storage_inv st' (used \<union> {fresh}) (tr @ [(EvTimer fresh, out)])"
proof -
  note D = storage_invD [OF inv]
  show ?thesis
  proof (cases "sc_deferred st")
    case Nil
    then have "st' = st" "out = []" using step by (simp_all add: storage_timer_def)
    then show ?thesis
      by (intro storage_inv_drop [OF inv]) (use D deferred_okD(1) in auto)
  next
    case (Cons p rest)
    obtain rid f where p: "p = (rid, f)" by (cases p)
    let ?st1 = "st\<lparr>sc_deferred := rest\<rparr>"
    have models: "models_ok ?st1" using D(6) by (simp add: models_ok_def)
    have dist: "distinct (queued ?st1)" and head: "rid \<notin> set (queued ?st1)"
      using deferred_okD(1) [OF D(5)] Cons p by (auto simp: queued_def)
    show ?thesis
    proof (cases "hash_value (sc_requests st) rid")
      case None
      then have "st' = ?st1" "out = []"
        using step Cons p by (simp_all add: storage_timer_def)
      then show ?thesis
        using D(1) None Cons p dist models
        by (intro storage_inv_drop [OF inv, of "sc_requests st"]) (auto simp: queued_def)
    next
      case (Some r)
      show ?thesis
      proof (cases "f = ''''")
        case True
        then have "storage_advance rid fresh ?st1 = (st', out)"
          using step Cons p Some by (simp add: storage_timer_def)
        then show ?thesis
          using Some Cons p models fresh
          by (intro storage_inv_advance [OF inv Some, of ?st1 r]) (auto simp: update_triv)
      next
        case False
        then have "(st', out) = storage_finish rid (storage_error f) f '''' ?st1"
          using step Cons p Some by (simp add: storage_timer_def)
        then show ?thesis
          using Some Cons p models
          by (intro storage_inv_finish [OF inv Some refl])
            (auto simp: storage_finish_Some models_ok_set_requests)
      qed
    qed
  qed
qed

lemma find_request:
  assumes "hash_ok rs" and "find (\<lambda>(_, r). rq_step r = s) rs = Some (rid, r)"
  shows "hash_value rs rid = Some r" and "rq_step r = s"
  using assms nth_mem by (fastforce simp: find_Some_iff hash_in_set_iff [symmetric])+

lemma storage_inv_reply:
  assumes inv: "storage_inv st used tr" and fresh: "fresh \<noteq> ''''" "fresh \<notin> used"
    and res: "sr_request res \<noteq> ''''" and step: "storage_reply res fresh st = (st', out)"
  shows "storage_inv st' (used \<union> {fresh}) (tr @ [(EvReply res fresh, out)])"
proof (cases "find (\<lambda>(_, r). rq_step r = sr_request res) (sc_requests st)")
  case None
  then have "st' = st" "out = []" using step by (simp_all add: storage_reply_def)
  then show ?thesis
    by (intro storage_inv_drop [OF inv]) (use storage_invD [OF inv] deferred_okD(1) in auto)
next
  case (Some p)
  note D = storage_invD [OF inv]
  obtain rid r where p: "p = (rid, r)" by (cases p)
  note r = find_request [OF D(1) Some [unfolded p]]
  have rid: "rid \<noteq> ''''" using requests_okD(1) [OF D(2) r(1)] by (simp add: request_ok_def)
  let ?st1 = "set_requests (hash_insert rid (r\<lparr>rq_step := ''''\<rparr>) (sc_requests st)) st"
  consider (finish) en em mp where "storage_finish rid en em mp st = (st', out)"
    | (advance) "storage_advance rid fresh ?st1 = (st', out)"
    using step Some p rid by (auto simp: storage_reply_def split: if_splits)
  then show ?thesis
  proof cases
    case finish
    then show ?thesis
      using r(1) D(6) by (intro storage_inv_finish [OF inv r(1) refl]) (auto simp: storage_finish_Some)
  next
    case advance
    then show ?thesis
      using r res D(6) fresh
      by (intro storage_inv_advance [OF inv r(1), of ?st1 "r\<lparr>rq_step := ''''\<rparr>"]) auto
  qed
qed

lemma finish_each_all:
  assumes "hash_ok (sc_requests st)" and "distinct ids"
    and "\<And>k. k \<in> set ids \<Longrightarrow> \<exists>r. hash_value (sc_requests st) k = Some r \<and> sr_request (rq_result r) = k"
    and "finish_each ids st = (st', out)"
  shows "st' = set_requests (filter (\<lambda>(k, _). k \<notin> set ids) (sc_requests st)) st \<and>
    finished_ids out = ids \<and>
    (\<forall>res. OperationFinished res \<in> set out \<longrightarrow> sr_error_name res = storage_error ''Unavailable'') \<and>
    (\<forall>s op t. BackendExecute s op t \<notin> set out)"
  using assms
proof (induction ids arbitrary: st st' out)
  case Nil
  then show ?case by (simp add: set_requests_def filter_True split_beta)
next
  case (Cons k ids)
  obtain r where r: "hash_value (sc_requests st) k = Some r" "sr_request (rq_result r) = k"
    using Cons.prems(3) by auto
  let ?st1 = "set_requests (hash_remove k (sc_requests st)) st"
  obtain st2 out2 where rest: "finish_each ids ?st1 = (st2, out2)" by fastforce
  have IH: "st2 = set_requests (filter (\<lambda>(k, _). k \<notin> set ids) (sc_requests ?st1)) ?st1 \<and>
      finished_ids out2 = ids \<and>
      (\<forall>res. OperationFinished res \<in> set out2 \<longrightarrow> sr_error_name res = storage_error ''Unavailable'') \<and>
      (\<forall>s op t. BackendExecute s op t \<notin> set out2)"
  proof (rule Cons.IH [OF _ _ _ rest])
    show "\<exists>r. hash_value (sc_requests ?st1) i = Some r \<and> sr_request (rq_result r) = i"
      if "i \<in> set ids" for i
      using Cons.prems(2,3) that by auto
  qed (use Cons.prems in auto)
  have filt: "filter (\<lambda>(i, _). i \<notin> set ids) (hash_remove k (sc_requests st)) =
      filter (\<lambda>(i, _). i \<notin> set (k # ids)) (sc_requests st)"
    by (auto simp: AList.delete_eq intro: filter_cong)
  show ?case
    using Cons.prems(4) r rest IH filt by (auto simp: storage_finish_Some)
qed

lemma models_ok_snapshot:
  assumes "models_ok st" and "distinct (map sd_id ds)" and "distinct (map sv_id vs)"
  shows "models_ok (st\<lparr>sc_drives := fst (drive_model_apply (if a then ds else []) (sc_drives st)),
    sc_volumes := fst (volume_model_apply (if a then vs else []) (sc_volumes st)),
    sc_available := a\<rparr>)"
  using assms drive_model_facts(1) volume_model_facts(1)
  by (cases a) (auto simp: models_ok_def drive_model_apply_def volume_model_apply_def)

lemma storage_inv_snapshot:
  assumes inv: "storage_inv st used tr"
    and ids: "distinct (map sd_id ds)" "distinct (map sv_id vs)"
    and step: "storage_snapshot ds vs a st = (st', out)"
  shows "storage_inv st' used (tr @ [(EvSnapshot ds vs a, out)])"
proof -
  note D = storage_invD [OF inv]
  define st1 where "st1 = st\<lparr>sc_drives := fst (drive_model_apply (if a then ds else []) (sc_drives st)),
    sc_volumes := fst (volume_model_apply (if a then vs else []) (sc_volumes st)), sc_available := a\<rparr>"
  have st1: "sc_requests st1 = sc_requests st" "sc_deferred st1 = sc_deferred st"
    by (simp_all add: st1_def)
  have models: "models_ok st1"
    unfolding st1_def by (rule models_ok_snapshot [OF D(6) ids])
  obtain st2 out2 where fin: "finish_each (hash_keys (sc_requests st1)) st1 = (st2, out2)" by fastforce
  have res: "st' = (if a then st1 else st2)" "finished_ids out = (if a then [] else finished_ids out2)"
    using step fin
    unfolding storage_snapshot_def Let_def split_beta st1_def [symmetric]
    by (auto split: if_splits)
  have keys: "st2 = set_requests [] st1 \<and> finished_ids out2 = hash_keys (sc_requests st)"
  proof -
    have "filter (\<lambda>(k, _). k \<notin> set (hash_keys rs)) rs = []" for rs :: "(string, storage_request) qhash"
      by (auto simp: hash_keys_def filter_empty_conv rev_image_eqI)
    moreover have "\<exists>r. hash_value (sc_requests st) k = Some r \<and> sr_request (rq_result r) = k"
      if "k \<in> set (hash_keys (sc_requests st))" for k
      using that requests_okD(1) [OF D(2), of k]
      by (auto simp: hash_keys_def request_ok_def hash_in_set_iff [OF D(1)])
    ultimately show ?thesis
      using finish_each_all [OF _ _ _ fin] D(1) by (simp add: st1 hash_keys_def hash_ok_def)
  qed
  have ev: "EvSnapshot ds vs a \<noteq> EvBegin op t c rid" for op t c rid by simp
  have "storage_inv st' (used \<union> {}) (tr @ [(EvSnapshot ds vs a, out)])"
  proof (cases a)
    case True
    then show ?thesis
      using res st1 models D deferred_okD(1) [OF D(5)] ev
      by (intro storage_inv_drop [OF inv, of "sc_requests st"]) (auto simp: queued_def)
  next
    case False
    then show ?thesis
      using res st1 models D deferred_okD(1) [OF D(5)] ev keys
      by (intro storage_inv_drop [OF inv, of "[]"]) (auto simp: queued_def hash_keys_def)
  qed
  then show ?thesis by simp
qed

lemma storage_step_inv:
  assumes "storage_inv st used tr" and "event_ok used ev" and "storage_step ev st = (st', out)"
  shows "storage_inv st' (used \<union> event_ids ev) (tr @ [(ev, out)])"
  using assms
  by (cases ev) (auto intro: storage_inv_begin [simplified] storage_inv_timer [simplified]
      storage_inv_reply [simplified] storage_inv_snapshot)

lemma storage_inv_rehash:
  assumes inv: "storage_inv st used tr" and perm: "mset (sc_requests st) = mset rs"
  shows "storage_inv (set_requests rs st) used tr"
proof -
  note D = storage_invD [OF inv]
  have same: "hash_value rs = hash_value (sc_requests st)"
    using hash_value_perm [OF perm D(1)] by (simp add: fun_eq_iff)
  have "accounted (set_requests rs st) used tr"
    using D(7) arg_cong [OF perm, of "image_mset fst"] unfolding accounted_def by simp
  then show ?thesis
    using D hash_ok_perm [OF perm] unfolding storage_inv_def
    by (simp add: requests_ok_def steps_distinct_def scopes_disjoint_def deferred_ok_def same)
qed

lemma storage_run_inv: "storage_run st used tr \<Longrightarrow> storage_inv st used tr"
  by (induction rule: storage_run.induct)
    (simp_all add: storage_inv_init storage_step_inv storage_inv_rehash)

end
