(* ===== verification/Storage_Safety.thy ===== *)
theory Storage_Safety
  imports Storage_Runs
begin

text \<open>
  What an application and a backend may rely on: exactly one completion per request, exclusive
  scopes, the conditions under which the backend is asked to remove hardware, progress of every
  request, and the loss of the service.
\<close>

section \<open>Where the commands to the backend come from\<close>

lemma step_allowed_cong:
  assumes "sc_drives st = sc_drives st'" and "sc_volumes st = sc_volumes st'"
  shows "step_allowed st r op t r' = step_allowed st' r op t r'"
  unfolding step_allowed_def scope_current_def assms
    removal_scope_cong [OF assms] mounted_in_scope_cong [OF assms(2)] ..

lemma step_allowed_step [simp]: "step_allowed st (r\<lparr>rq_step := s\<rparr>) op t r' = step_allowed st r op t r'"
  by (cases "rq_unmounts r") (simp_all add: step_allowed_def scope_current_def)

lemma timer_advances:
  assumes "storage_timer fresh st = (st', out)" and "BackendExecute s op t \<in> set out"
  obtains rid where
    "storage_advance rid fresh (st\<lparr>sc_deferred := tl (sc_deferred st)\<rparr>) = (st', out)"
proof -
  obtain rid f rest where q: "sc_deferred st = (rid, f) # rest"
    using assms by (cases "sc_deferred st") (auto simp: storage_timer_def)
  have "f = ''''"
  proof (rule ccontr)
    assume "f \<noteq> ''''"
    then have "out = [] \<or> out = snd (storage_finish rid (storage_error f) f '''' (st\<lparr>sc_deferred := rest\<rparr>))"
      using assms(1) q by (auto simp: storage_timer_def Let_def split: if_splits)
    then show False using assms(2) by (auto simp: storage_finish_def split: option.splits)
  qed
  then show thesis
    using assms q by (intro that [of rid]) (auto simp: storage_timer_def Let_def split: if_splits)
qed

lemma reply_advances:
  assumes "storage_reply res fresh st = (st', out)" and "BackendExecute s op t \<in> set out"
    and "hash_ok (sc_requests st)"
  obtains rid r where "hash_value (sc_requests st) rid = Some r"
    "storage_advance rid fresh
       (set_requests (hash_insert rid (r\<lparr>rq_step := ''''\<rparr>) (sc_requests st)) st) = (st', out)"
proof -
  obtain rid r where find: "find (\<lambda>(_, r). rq_step r = sr_request res) (sc_requests st) = Some (rid, r)"
    using assms by (cases "find (\<lambda>(_, r). rq_step r = sr_request res) (sc_requests st)")
      (auto simp: storage_reply_def)
  have no: "storage_finish rid en em mp st \<noteq> (st', out)" for en em mp
    using assms(2) by (auto simp: storage_finish_def split: option.splits)
  have adv: "storage_advance rid fresh
      (set_requests (hash_insert rid (r\<lparr>rq_step := ''''\<rparr>) (sc_requests st)) st) = (st', out)"
    using assms(1,2) find no unfolding storage_reply_def by (auto split: if_splits)
  show thesis
    using find_Some_member [OF find] assms(3) adv by (intro that [of rid r]) (simp_all add: hash_in_set_iff)
qed

lemma finish_no_command [simp]: "BackendExecute s op t \<notin> set (snd (storage_finish rid en em mp st))"
  by (simp add: storage_finish_def split: option.split)

lemma finish_each_no_command [simp]: "BackendExecute s op t \<notin> set (snd (finish_each ids st))"
  by (induction ids arbitrary: st) (auto simp: split_beta Let_def)

lemma advance_command:
  assumes "BackendExecute s op t \<in> set (snd (storage_advance rid fresh st))"
  obtains r r' where "hash_value (sc_requests st) rid = Some r" "step_allowed st r op t r'" "s = fresh"
    "hash_value (sc_requests (fst (storage_advance rid fresh st))) rid = Some r'" "rq_step r' = s"
    "rq_result r' = rq_result r" "rq_scope r' = rq_scope r"
proof (cases "hash_value (sc_requests st) rid")
  case None
  then show thesis using assms by (simp add: storage_advance_def)
next
  case (Some r)
  then show thesis
    using assms that by (cases rule: storage_advance_cases [OF Some, of fresh]) auto
qed

lemma step_command:
  assumes "storage_step ev st = (st', out)" and "BackendExecute s op t \<in> set out"
    and "hash_ok (sc_requests st)"
  obtains rid r r' where "hash_value (sc_requests st) rid = Some r" "step_allowed st r op t r'"
    "hash_value (sc_requests st') rid = Some r'" "rq_step r' = s"
    "rq_result r' = rq_result r" "rq_scope r' = rq_scope r"
proof (cases ev)
  case (EvTimer fresh)
  let ?st = "st\<lparr>sc_deferred := tl (sc_deferred st)\<rparr>"
  obtain rid where adv: "storage_advance rid fresh ?st = (st', out)"
    using assms(1,2) EvTimer by (metis timer_advances storage_step.simps(2))
  show thesis
    by (rule advance_command [of s op t rid fresh ?st])
      (use assms(2) adv that in \<open>auto simp: step_allowed_cong [of ?st st]\<close>)
next
  case (EvReply res fresh)
  obtain rid r where val: "hash_value (sc_requests st) rid = Some r"
    and adv: "storage_advance rid fresh
      (set_requests (hash_insert rid (r\<lparr>rq_step := ''''\<rparr>) (sc_requests st)) st) = (st', out)"
      (is "storage_advance _ _ ?st = _")
    using reply_advances assms EvReply by (metis storage_step.simps(3))
  show thesis
  proof (rule advance_command [of s op t rid fresh ?st])
    show "BackendExecute s op t \<in> set (snd (storage_advance rid fresh ?st))"
      using assms(2) adv by simp
  next
    fix r1 r' assume *: "hash_value (sc_requests ?st) rid = Some r1" "step_allowed ?st r1 op t r'"
      "hash_value (sc_requests (fst (storage_advance rid fresh ?st))) rid = Some r'" "rq_step r' = s"
      "rq_result r' = rq_result r1" "rq_scope r' = rq_scope r1"
    have r1: "r1 = r\<lparr>rq_step := ''''\<rparr>" using *(1) by simp
    show thesis
      by (rule that [OF val, of r']) (use * r1 adv in \<open>auto simp: step_allowed_cong [of ?st st]\<close>)
  qed
qed (use assms in \<open>auto simp: storage_begin_def storage_snapshot_def Let_def split_beta
      split: if_splits\<close>)


section \<open>Executable runs\<close>

text \<open>A list of events run from the start, for evaluating the theorems on concrete runs.\<close>

fun storage_exec ::
  "storage_event list \<Rightarrow> storage_state \<times> string list \<times> storage_trace \<Rightarrow>
   (storage_state \<times> string list \<times> storage_trace) option" where
  "storage_exec [] c = Some c"
| "storage_exec (ev # evs) (st, used, tr) =
     (if event_ok (set used) ev then
        (case storage_step ev st of (st', out) \<Rightarrow>
           storage_exec evs (st', (case ev of EvBegin _ _ _ rid \<Rightarrow> [rid] | EvTimer f \<Rightarrow> [f]
             | EvReply _ f \<Rightarrow> [f] | EvSnapshot _ _ _ \<Rightarrow> []) @ used, tr @ [(ev, out)]))
      else None)"

lemma storage_exec_run:
  "storage_exec evs (st, used, tr) = Some (st', used', tr') \<Longrightarrow> storage_run st (set used) tr \<Longrightarrow>
   storage_run st' (set used') tr'"
proof (induction evs arbitrary: st used tr)
  case Nil
  then show ?case by simp
next
  case (Cons ev evs)
  obtain s out where step: "storage_step ev st = (s, out)" by fastforce
  have ok: "event_ok (set used) ev" using Cons.prems(1) by (auto split: if_splits)
  have ids: "set ((case ev of EvBegin _ _ _ rid \<Rightarrow> [rid] | EvTimer f \<Rightarrow> [f]
      | EvReply _ f \<Rightarrow> [f] | EvSnapshot _ _ _ \<Rightarrow> []) @ used) = set used \<union> event_ids ev"
    by (cases ev) auto
  show ?case
    using Cons.prems(1) ok step
    by (intro Cons.IH [OF _ storage_run.step [OF Cons.prems(2) ok step, folded ids]]) simp
qed

lemmas storage_exec_start = storage_exec_run [of _ storage_init "[]" "[]", simplified, OF _ storage_run.start]

section \<open>Safety of the commands\<close>

lemma removal_scope_nonempty:
  "drive_model_find d (sc_drives st) = Some x \<Longrightarrow> removal_scope st d p \<noteq> []"
proof -
  assume "drive_model_find d (sc_drives st) = Some x"
  then have "d \<in> set (removal_scope st d p)" by (simp add: removal_scope_def Let_def set_insort_key)
  then show ?thesis by force
qed

text \<open>C1. Every command the controller sends to the backend is justified in the state that sends it.
  A mount or unmount names a volume that is present. An eject or power-off names a present drive that
  can be removed, no volume of its removal scope is mounted, and a power-off is only sent when the
  scope the user confirmed at the beginning is still exactly the drive's removal scope.\<close>

theorem storage_commands_justified:
  assumes "storage_run st used tr" and "storage_step ev st = (st', out)"
    and "BackendExecute s op target \<in> set out"
  shows "if is_removal op then
      (\<exists>d. drive_model_find target (sc_drives st) = Some d \<and> drive_capable op d) \<and>
      mounted_in_scope st (removal_scope st target (op = PowerOff)) = [] \<and>
      (op = PowerOff \<longrightarrow> (\<exists>confirmed rid. EvBegin PowerOff target confirmed rid \<in> fst ` set tr \<and>
         sort confirmed = removal_scope st target True))
    else (\<exists>v. volume_model_find target (sc_volumes st) = Some v)"
proof -
  note D = storage_invD [OF storage_run_inv [OF assms(1)]]
  obtain rid r r' where r: "hash_value (sc_requests st) rid = Some r" and ok: "step_allowed st r op target r'"
    using step_command [OF assms(2,3) D(1)] by metis
  have begun: "\<exists>confirmed. EvBegin (sr_operation (rq_result r)) (sr_target (rq_result r)) confirmed rid
      \<in> fst ` set tr \<and> (sr_operation (rq_result r) = PowerOff \<and> rq_scope r \<noteq> [] \<longrightarrow>
        sort confirmed = rq_scope r)"
    using requests_okD(1) [OF D(2) r] by (simp add: request_ok_def)
  show ?thesis
  proof (cases "is_removal op")
    case True
    then have nil: "rq_unmounts r = []"
      using ok by (auto simp: step_allowed_def is_removal_def split: list.splits)
    then have "op = sr_operation (rq_result r)" "target = sr_target (rq_result r)"
      "removal_scope st target (op = PowerOff) = rq_scope r"
      "mounted_in_scope st (rq_scope r) = []"
      and d: "\<exists>d. drive_model_find target (sc_drives st) = Some d \<and> drive_capable op d"
      using ok True by (auto simp: step_allowed_def scope_current_def)
    moreover have "removal_scope st target (op = PowerOff) \<noteq> []"
      using d removal_scope_nonempty by blast
    ultimately have "op = PowerOff \<Longrightarrow>
        \<exists>confirmed. EvBegin PowerOff target confirmed rid \<in> fst ` set tr \<and>
          sort confirmed = removal_scope st target True"
      using begun by metis
    moreover have "mounted_in_scope st (removal_scope st target (op = PowerOff)) = []"
      by (simp add: \<open>removal_scope st target (op = PowerOff) = rq_scope r\<close>
          \<open>mounted_in_scope st (rq_scope r) = []\<close>)
    ultimately show ?thesis using True d by (simp only: if_True) blast
  next
    case False
    then show ?thesis using ok by (auto simp: step_allowed_def scope_current_def split: list.splits)
  qed
qed

section \<open>Every request completes exactly once\<close>

text \<open>C2. At every point of every run the requests that were begun are, each exactly once, either
  completed or still pending, and no request identifier is begun twice.\<close>

theorem storage_exactly_once:
  assumes "storage_run st used tr"
  shows "distinct (begun tr) \<and>
    mset (begun tr) = mset (finished tr) + mset (hash_keys (sc_requests st))"
  using storage_invD(7) [OF storage_run_inv [OF assms]] by (simp add: accounted_def hash_keys_def)

text \<open>C3. The scopes of two pending requests never share a drive or a volume, so no two requests act
  on the same hardware at the same time.\<close>

theorem storage_exclusive:
  assumes "storage_run st used tr"
    and "hash_value (sc_requests st) rid = Some r" and "hash_value (sc_requests st) rid' = Some r'"
    and "rid \<noteq> rid'"
  shows "set (rq_scope r) \<inter> set (rq_scope r') = {}"
  by (rule scopes_disjointD [OF storage_invD(4) [OF storage_run_inv [OF assms(1)]] assms(2-4)])


section \<open>Progress\<close>

lemma reply_target:
  assumes "storage_inv st used tr" and "hash_value (sc_requests st) rid = Some r"
    and "rq_step r \<noteq> ''''"
  shows "find (\<lambda>(_, r'). rq_step r' = rq_step r) (sc_requests st) = Some (rid, r)"
proof -
  note D = storage_invD [OF assms(1)]
  have "(rid, r) \<in> set (sc_requests st)" using hash_in_set_iff [OF D(1)] assms(2) by simp
  then obtain k r' where found: "find (\<lambda>(_, r'). rq_step r' = rq_step r) (sc_requests st) = Some (k, r')"
    by (cases "find (\<lambda>(_, r'). rq_step r' = rq_step r) (sc_requests st)")
      (auto simp: find_None_iff)
  note k = find_request [OF D(1) found]
  have "k = rid" using steps_distinctD [OF D(3) k(1) assms(2)] k(2) assms(3) by simp
  with k(1) assms(2) found show ?thesis by simp
qed

text \<open>The steps a pending request still needs: its unmounts and its final operation.\<close>

definition storage_work :: "storage_request \<Rightarrow> nat" where
  "storage_work r = (if rq_final r then 0 else Suc (length (rq_unmounts r)))"

lemma step_allowed_work: "step_allowed st r op t r' \<Longrightarrow> rq_final r = False \<Longrightarrow> storage_work r' < storage_work r"
  by (cases "rq_unmounts r") (auto simp: step_allowed_def storage_work_def)

lemma reply_progress:
  assumes inv: "storage_inv st used tr" and r: "hash_value (sc_requests st) rid = Some r"
    and s: "rq_step r \<noteq> ''''" "sr_request res = rq_step r"
    and step: "storage_reply res fresh st = (st', out)"
  shows "rid \<in> set (finished_ids out) \<and> hash_value (sc_requests st') rid = None \<or>
    result_succeeded res \<and> (\<exists>r' op t. hash_value (sc_requests st') rid = Some r' \<and>
      rq_step r' = fresh \<and> storage_work r' < storage_work r \<and> BackendExecute fresh op t \<in> set out)"
proof -
  note D = storage_invD [OF inv]
  have rid: "rid \<noteq> ''''" "sr_request (rq_result r) = rid"
    using requests_okD(1) [OF D(2) r] by (simp_all add: request_ok_def)
  let ?r = "r\<lparr>rq_step := ''''\<rparr>"
  let ?st1 = "set_requests (hash_insert rid ?r (sc_requests st)) st"
  have find: "find (\<lambda>(_, r'). rq_step r' = sr_request res) (sc_requests st) = Some (rid, r)"
    unfolding s(2) by (rule reply_target [OF inv r s(1)])
  show ?thesis
  proof (cases "result_succeeded res \<and> \<not> rq_final r")
    case False
    then show ?thesis
      using step find rid r by (auto simp: storage_reply_def storage_finish_Some split: if_splits)
  next
    case True
    have adv: "storage_advance rid fresh ?st1 = (st', out)"
      using step find rid True by (simp add: storage_reply_def)
    have r1: "hash_value (sc_requests ?st1) rid = Some ?r" by simp
    show ?thesis
    proof (cases rule: storage_advance_cases [OF r1, of fresh])
      case (1 r' en em)
      then show ?thesis using adv rid by auto
    next
      case (2 r' op t)
      then show ?thesis using adv True step_allowed_work [of st r op t r']
        by (auto simp: step_allowed_cong [of ?st1 st])
    qed
  qed
qed

text \<open>A reply of the backend to the step in flight of a pending request either completes the
  request, or it is a success that starts the request's next step and leaves it strictly less work.\<close>

theorem storage_reply_progress:
  assumes "storage_run st used tr" and "hash_value (sc_requests st) rid = Some r"
    and "rid \<notin> set (queued st)" and "sr_request res = rq_step r"
    and "storage_step (EvReply res fresh) st = (st', out)"
  shows "rid \<in> set (finished_ids out) \<and> hash_value (sc_requests st') rid = None \<or>
    result_succeeded res \<and> (\<exists>r' op t. hash_value (sc_requests st') rid = Some r' \<and>
      rq_step r' = fresh \<and> storage_work r' < storage_work r \<and> BackendExecute fresh op t \<in> set out)"
proof -
  note inv = storage_run_inv [OF assms(1)]
  have "rq_step r \<noteq> ''''" using requests_okD(2) [OF storage_invD(2) [OF inv] assms(2)] assms(3) by simp
  then show ?thesis using reply_progress [OF inv assms(2) _ assms(4)] assms(5) by simp
qed

text \<open>A backend that answers every step of one request with success, \<open>fresh\<close> being the identifiers
  the controller draws on the way.\<close>

definition success_of :: "string \<Rightarrow> storage_result" where
  "success_of s = \<lparr>sr_request = s, sr_target = '''', sr_operation = Mount, sr_mount_path = '''',
     sr_error_name = '''', sr_error_message = ''''\<rparr>"

fun storage_serve :: "string \<Rightarrow> string list \<Rightarrow> storage_state \<Rightarrow> storage_state" where
  "storage_serve rid [] st = st"
| "storage_serve rid (fresh # ids) st =
     (case hash_value (sc_requests st) rid of
        None \<Rightarrow> st
      | Some r \<Rightarrow> storage_serve rid ids (fst (storage_step (EvReply (success_of (rq_step r)) fresh) st)))"

lemma serve_finishes:
  "storage_run st used tr \<Longrightarrow> hash_value (sc_requests st) rid = Some r \<Longrightarrow> rq_step r \<noteq> '''' \<Longrightarrow>
   distinct ids \<Longrightarrow> set ids \<inter> used = {} \<Longrightarrow> '''' \<notin> set ids \<Longrightarrow> storage_work r < length ids \<Longrightarrow>
   hash_value (sc_requests (storage_serve rid ids st)) rid = None"
proof (induction ids arbitrary: st used tr r)
  case Nil
  then show ?case by simp
next
  case (Cons fresh ids)
  let ?ev = "EvReply (success_of (rq_step r)) fresh"
  obtain st' out where step: "storage_step ?ev st = (st', out)" by fastforce
  have run: "storage_run st' (used \<union> event_ids ?ev) (tr @ [(?ev, out)])"
    by (rule storage_run.step [OF Cons.prems(1) _ step]) (use Cons.prems in \<open>auto simp: success_of_def\<close>)
  have serve: "storage_serve rid (fresh # ids) st = storage_serve rid ids st'"
    using Cons.prems(2) step by simp
  have "hash_value (sc_requests st') rid = None \<or> (\<exists>r'. hash_value (sc_requests st') rid = Some r' \<and>
      rq_step r' = fresh \<and> storage_work r' < storage_work r)"
    using reply_progress [OF storage_run_inv [OF Cons.prems(1)] Cons.prems(2,3), of "success_of (rq_step r)"
        fresh st' out] step by (auto simp: success_of_def)
  then show ?case
  proof
    assume "hash_value (sc_requests st') rid = None"
    then show ?thesis unfolding serve by (cases ids) simp_all
  next
    assume "\<exists>r'. hash_value (sc_requests st') rid = Some r' \<and> rq_step r' = fresh \<and>
      storage_work r' < storage_work r"
    then obtain r' where r': "hash_value (sc_requests st') rid = Some r'" "rq_step r' = fresh"
      "storage_work r' < storage_work r" by blast
    show ?thesis
      unfolding serve by (rule Cons.IH [OF run r'(1)]) (use Cons.prems r' in auto)
  qed
qed

text \<open>C4. A request whose timer has fired completes: when the backend answers every step with success,
  one reply more than the request's remaining work is enough, whatever it is.\<close>

theorem storage_completes:
  assumes "storage_run st used tr" and "hash_value (sc_requests st) rid = Some r"
    and "rid \<notin> set (queued st)"
    and "distinct ids" and "set ids \<inter> used = {}" and "'''' \<notin> set ids"
    and "storage_work r < length ids"
  shows "hash_value (sc_requests (storage_serve rid ids st)) rid = None"
proof -
  have "rq_step r \<noteq> ''''"
    using requests_okD(2) [OF storage_invD(2) [OF storage_run_inv [OF assms(1)]] assms(2)] assms(3) by simp
  then show ?thesis using serve_finishes assms by blast
qed


section \<open>Loss of the service, snapshots and views\<close>

lemma service_lost_effect:
  assumes "storage_run st used tr" and "storage_step (EvSnapshot ds vs False) st = (st', out)"
  shows "sc_requests st' = [] \<and> sc_drives st' = [] \<and> sc_volumes st' = [] \<and>
    finished_ids out = hash_keys (sc_requests st) \<and>
    (\<forall>res. OperationFinished res \<in> set out \<longrightarrow> sr_error_name res = storage_error ''Unavailable'')"
proof -
  note D = storage_invD [OF storage_run_inv [OF assms(1)]]
  let ?st1 = "st\<lparr>sc_drives := [], sc_volumes := [], sc_available := False\<rparr>"
  obtain st2 out2 where fin: "finish_each (hash_keys (sc_requests st)) ?st1 = (st2, out2)" by fastforce
  have known: "\<exists>r. hash_value (sc_requests ?st1) k = Some r \<and> sr_request (rq_result r) = k"
    if "k \<in> set (hash_keys (sc_requests st))" for k
    using that requests_okD(1) [OF D(2), of k]
    by (auto simp: hash_keys_def request_ok_def hash_in_set_iff [OF D(1)])
  have none: "filter (\<lambda>(k, _). k \<notin> fst ` set rs) rs = []" for rs :: "(string, storage_request) qhash"
    by (auto simp: filter_empty_conv rev_image_eqI)
  have all: "st2 = set_requests [] ?st1" "finished_ids out2 = hash_keys (sc_requests st)"
    "\<forall>res. OperationFinished res \<in> set out2 \<longrightarrow> sr_error_name res = storage_error ''Unavailable''"
    using finish_each_all [OF _ _ known fin] D(1)
    by (auto simp: hash_keys_def hash_ok_def set_requests_def none)
  have "st' = st2" "finished_ids out = finished_ids out2"
    "\<forall>res. OperationFinished res \<in> set out \<longleftrightarrow> OperationFinished res \<in> set out2"
    using assms(2) fin
    by (auto simp: storage_snapshot_def split_beta Let_def drive_model_apply_def volume_model_apply_def)
  then show ?thesis using all by simp
qed

text \<open>C5. When the backend reports that the service is gone, every pending request completes once with
  the error Unavailable, nothing stays pending and both models are empty.\<close>

theorem storage_service_lost:
  assumes "storage_run st used tr" and "storage_step (EvSnapshot ds vs False) st = (st', out)"
  shows "sc_requests st' = [] \<and> sc_drives st' = [] \<and> sc_volumes st' = [] \<and>
    finished_ids out = hash_keys (sc_requests st) \<and>
    (\<forall>res. OperationFinished res \<in> set out \<longrightarrow> sr_error_name res = storage_error ''Unavailable'')"
  by (rule service_lost_effect [OF assms])

text \<open>A snapshot of an available service replaces the models by exactly the snapshot's records:
  rows that stay keep their place, new ones follow in the snapshot's order, and no pending request
  is completed, because the controller infers no success from a removal.\<close>

theorem storage_snapshot_models:
  assumes "storage_run st used tr" and "event_ok used (EvSnapshot ds vs True)"
    and "storage_step (EvSnapshot ds vs True) st = (st', out)"
  shows "sc_drives st' = merged_rows sd_id ds (filter (\<lambda>d. sd_id d \<in> sd_id ` set ds) (sc_drives st)) \<and>
    sc_volumes st' = merged_rows sv_id vs (filter (\<lambda>v. sv_id v \<in> sv_id ` set vs) (sc_volumes st)) \<and>
    set (sc_drives st') = set ds \<and> set (sc_volumes st') = set vs \<and>
    sc_requests st' = sc_requests st \<and> finished_ids out = []"
proof -
  have d: "distinct (map sd_id (sc_drives st))" "distinct (map sv_id (sc_volumes st))"
    using storage_invD(6) [OF storage_run_inv [OF assms(1)]] by (simp_all add: models_ok_def)
  have "distinct (map sd_id ds)" "distinct (map sv_id vs)" using assms(2) by simp_all
  note facts = apply_rows_merged [OF d(1) this(1)] apply_rows_merged [OF d(2) this(2)]
    set_apply_rows [OF d(1) this(1)] set_apply_rows [OF d(2) this(2)]
  have "sc_drives st' = fst (apply_rows sd_id ds (sc_drives st))"
    "sc_volumes st' = fst (apply_rows sv_id vs (sc_volumes st))"
    "sc_requests st' = sc_requests st \<and> finished_ids out = []"
    using assms(3) by (auto simp: storage_snapshot_def split_beta Let_def drive_model_apply_def
        volume_model_apply_def split: if_splits)
  then show ?thesis using facts by simp
qed

fun drive_signals :: "storage_output list \<Rightarrow> storage_drive row_signal list" where
  "drive_signals [] = []"
| "drive_signals (DriveRows sigs # out) = sigs @ drive_signals out"
| "drive_signals (_ # out) = drive_signals out"

fun volume_signals :: "storage_output list \<Rightarrow> storage_volume row_signal list" where
  "volume_signals [] = []"
| "volume_signals (VolumeRows sigs # out) = sigs @ volume_signals out"
| "volume_signals (_ # out) = volume_signals out"

lemma signals_append [simp]:
  "drive_signals (xs @ ys) = drive_signals xs @ drive_signals ys"
  "volume_signals (xs @ ys) = volume_signals xs @ volume_signals ys"
  by (induction xs rule: drive_signals.induct) auto

definition no_rows :: "storage_state \<Rightarrow> storage_state \<times> storage_output list \<Rightarrow> bool" where
  "no_rows st r \<longleftrightarrow> sc_drives (fst r) = sc_drives st \<and> sc_volumes (fst r) = sc_volumes st \<and>
     drive_signals (snd r) = [] \<and> volume_signals (snd r) = []"

lemma no_rows_finish: "no_rows st (storage_finish rid en em mp st)"
  by (simp add: no_rows_def storage_finish_def split: option.split)

lemma no_rows_advance: "no_rows st (storage_advance rid fresh st)"
proof (cases "hash_value (sc_requests st) rid")
  case None
  then show ?thesis by (simp add: no_rows_def storage_advance_def)
next
  case (Some r)
  then show ?thesis by (cases rule: storage_advance_cases [OF Some, of fresh]) (simp_all add: no_rows_def)
qed

lemma no_rows_finish_each: "no_rows st (finish_each ids st)"
  using no_rows_finish by (induction ids arbitrary: st) (auto simp: no_rows_def split_beta Let_def)

lemma no_rows_cong:
  "sc_drives st' = sc_drives st \<Longrightarrow> sc_volumes st' = sc_volumes st \<Longrightarrow> no_rows st' r = no_rows st r"
  by (simp add: no_rows_def)

lemma no_rows_timer: "no_rows st (storage_timer fresh st)"
proof (cases "sc_deferred st")
  case Nil
  then show ?thesis by (simp add: no_rows_def storage_timer_def)
next
  case (Cons p rest)
  have "no_rows st (storage_finish rid en em mp (st\<lparr>sc_deferred := rest\<rparr>))"
    "no_rows st (storage_advance rid fresh (st\<lparr>sc_deferred := rest\<rparr>))"
    "no_rows st (st\<lparr>sc_deferred := rest\<rparr>, [])" for rid en em mp
    using no_rows_finish [of "st\<lparr>sc_deferred := rest\<rparr>"] no_rows_advance [of "st\<lparr>sc_deferred := rest\<rparr>"]
    by (simp_all add: no_rows_def)
  then show ?thesis using Cons by (simp add: storage_timer_def Let_def split_beta)
qed

lemma no_rows_reply: "no_rows st (storage_reply res fresh st)"
proof -
  have "no_rows st (storage_advance rid fresh (set_requests rs st))" "no_rows st (st, [])" for rid rs
    using no_rows_advance [of "set_requests rs st"] by (simp_all add: no_rows_def)
  then show ?thesis
    using no_rows_finish [of st] by (simp add: storage_reply_def split: option.split)
qed

lemma storage_step_rows:
  "replay (drive_signals (snd (storage_step ev st))) (sc_drives st) = sc_drives (fst (storage_step ev st)) \<and>
   replay (volume_signals (snd (storage_step ev st))) (sc_volumes st) = sc_volumes (fst (storage_step ev st))"
proof (cases ev)
  case (EvSnapshot ds vs a)
  have "no_rows st' (finish_each ids st')" for ids st' by (rule no_rows_finish_each)
  then show ?thesis
    using drive_view.replay_perform [of "if a then ds else []" "sc_drives st"]
      volume_view.replay_perform [of "if a then vs else []" "sc_volumes st"]
    unfolding EvSnapshot storage_step.simps storage_snapshot_def Let_def split_beta no_rows_def
    by (cases a) auto
qed (use no_rows_timer [of st] no_rows_reply [of st] in
    \<open>simp_all add: no_rows_def storage_begin_def Let_def\<close>)

text \<open>A view that starts empty and follows the row signals of the two models shows, after every
  run, exactly the controller's drives and volumes.\<close>

theorem storage_views_follow:
  assumes "storage_run st used tr"
  shows "replay (drive_signals (concat (map snd tr))) [] = sc_drives st \<and>
    replay (volume_signals (concat (map snd tr))) [] = sc_volumes st"
  using assms
proof (induction rule: storage_run.induct)
  case start
  then show ?case by (simp add: storage_init_def)
next
  case (step st used tr ev st' out)
  then show ?case using storage_step_rows [of ev st] by simp
qed simp

text \<open>While the service is gone a new request never fails with the error Unavailable: with empty
  models the later check replaces it.\<close>

theorem storage_begin_unavailable:
  assumes "storage_run st used tr" and "\<not> sc_available st"
  shows "begin_failure op target confirmed st \<in> {''Disappeared'', ''Busy''}"
proof -
  have "sc_drives st = []" "sc_volumes st = []"
    using storage_invD(6) [OF storage_run_inv [OF assms(1)]] assms(2) by (simp_all add: models_ok_def)
  then have "drive_model_find target (sc_drives st) = None" "volume_model_find target (sc_volumes st) = None"
    by (simp_all add: drive_model_find_def volume_model_find_def)
  then show ?thesis by (simp add: begin_failure_def Let_def)
qed


section \<open>A concrete run\<close>

text \<open>A drive with one mounted volume is powered off: the volume is unmounted first, the next snapshot
  shows it unmounted, and the reply to the unmount starts the power-off.\<close>

definition demo_drive :: storage_drive where
  "demo_drive = default_drive\<lparr>sd_id := ''d'', sd_can_power_off := True\<rparr>"

definition demo_volume :: storage_volume where
  "demo_volume = default_volume\<lparr>sv_id := ''v'', sv_drive := ''d'', sv_mount_points := [''/m''],
     sv_can_unmount := True\<rparr>"

definition demo_events :: "storage_event list" where
  "demo_events = [EvSnapshot [demo_drive] [demo_volume] True,
     EvBegin PowerOff ''d'' [''v'', ''d''] ''r'', EvTimer ''s1'',
     EvSnapshot [demo_drive] [demo_volume\<lparr>sv_mount_points := []\<rparr>] True]"

definition demo_end :: "storage_state \<times> string list \<times> storage_trace" where
  "demo_end = the (storage_exec demo_events (storage_init, [], []))"

abbreviation "demo_state \<equiv> fst demo_end"
abbreviation "demo_used \<equiv> fst (snd demo_end)"
abbreviation "demo_trace \<equiv> snd (snd demo_end)"

lemma demo_exec: "storage_exec demo_events (storage_init, [], []) = Some (demo_state, demo_used, demo_trace)"
  by code_simp

lemma demo_run: "storage_run demo_state (set demo_used) demo_trace"
  using storage_exec_start [OF demo_exec] .

abbreviation "demo_reply \<equiv> EvReply (success_of ''s1'') ''s2''"

lemma storage_commands_justified_witness:
  "BackendExecute ''s2'' PowerOff ''d'' \<in> set (snd (storage_step demo_reply demo_state)) \<and>
   (\<exists>confirmed rid. EvBegin PowerOff ''d'' confirmed rid \<in> fst ` set demo_trace \<and>
      sort confirmed = removal_scope demo_state ''d'' True)"
proof
  show exe: "BackendExecute ''s2'' PowerOff ''d'' \<in> set (snd (storage_step demo_reply demo_state))"
    by code_simp
  show "\<exists>confirmed rid. EvBegin PowerOff ''d'' confirmed rid \<in> fst ` set demo_trace \<and>
      sort confirmed = removal_scope demo_state ''d'' True"
    using storage_commands_justified [OF demo_run surjective_pairing exe] by (simp add: is_removal_def)
qed


lemma storage_exactly_once_witness:
  "begun demo_trace = [''r''] \<and> mset (begun demo_trace) =
     mset (finished demo_trace) + mset (hash_keys (sc_requests demo_state))"
proof
  show "begun demo_trace = [''r'']" by code_simp
qed (rule storage_exactly_once [OF demo_run, THEN conjunct2])

text \<open>A second drive is being mounted beside the power-off.\<close>

definition demo_pair_events :: "storage_event list" where
  "demo_pair_events = [EvSnapshot [demo_drive] [demo_volume, default_volume\<lparr>sv_id := ''w'',
       sv_drive := ''e'', sv_can_mount := True\<rparr>] True,
     EvBegin PowerOff ''d'' [''v'', ''d''] ''r'', EvBegin Mount ''w'' [] ''q'']"

definition demo_pair :: "storage_state \<times> string list \<times> storage_trace" where
  "demo_pair = the (storage_exec demo_pair_events (storage_init, [], []))"

lemma demo_pair_exec: "storage_exec demo_pair_events (storage_init, [], []) =
    Some (fst demo_pair, fst (snd demo_pair), snd (snd demo_pair))"
  by code_simp

lemmas demo_pair_run = storage_exec_start [OF demo_pair_exec]

definition pending :: "storage_state \<Rightarrow> string \<Rightarrow> storage_request" where
  "pending st rid = the (hash_value (sc_requests st) rid)"

lemma storage_exclusive_witness:
  "set (rq_scope (pending (fst demo_pair) ''r'')) \<inter> set (rq_scope (pending (fst demo_pair) ''q'')) = {} \<and>
   rq_scope (pending (fst demo_pair) ''q'') = [''w'', ''e'']"
proof
  have "hash_value (sc_requests (fst demo_pair)) ''r'' = Some (pending (fst demo_pair) ''r'')"
    "hash_value (sc_requests (fst demo_pair)) ''q'' = Some (pending (fst demo_pair) ''q'')"
    by code_simp+
  then show "set (rq_scope (pending (fst demo_pair) ''r'')) \<inter>
      set (rq_scope (pending (fst demo_pair) ''q'')) = {}"
    by (rule storage_exclusive [OF demo_pair_run]) simp
  show "rq_scope (pending (fst demo_pair) ''q'') = [''w'', ''e'']" by code_simp
qed

lemma demo_pending: "hash_value (sc_requests demo_state) ''r'' = Some (pending demo_state ''r'')"
  "''r'' \<notin> set (queued demo_state)" "rq_step (pending demo_state ''r'') = ''s1''"
  "storage_work (pending demo_state ''r'') = 1"
  "set [''s2'', ''s3''] \<inter> set demo_used = {}"
  by code_simp+

lemma storage_reply_progress_witness:
  "hash_value (sc_requests (fst (storage_step demo_reply demo_state))) ''r'' \<noteq> None \<and>
   (\<exists>r'. hash_value (sc_requests (fst (storage_step demo_reply demo_state))) ''r'' = Some r' \<and>
     storage_work r' < 1)"
proof -
  have pend: "hash_value (sc_requests (fst (storage_step demo_reply demo_state))) ''r'' \<noteq> None"
    by code_simp
  have "sr_request (success_of ''s1'') = rq_step (pending demo_state ''r'')"
    using demo_pending by (simp add: success_of_def)
  then show ?thesis
    using storage_reply_progress [OF demo_run demo_pending(1,2) _ surjective_pairing] pend demo_pending(4)
    by metis
qed

lemma storage_completes_witness:
  "hash_value (sc_requests (storage_serve ''r'' [''s2'', ''s3''] demo_state)) ''r'' = None"
  by (rule storage_completes [OF demo_run demo_pending(1,2) _ demo_pending(5)])
    (simp_all add: demo_pending(4))

abbreviation "demo_lost \<equiv> storage_step (EvSnapshot [] [] False) demo_state"

lemma storage_service_lost_witness:
  "sc_requests (fst demo_lost) = [] \<and> finished_ids (snd demo_lost) = [''r'']"
proof -
  have "hash_keys (sc_requests demo_state) = [''r'']" by code_simp
  then show ?thesis using storage_service_lost [OF demo_run surjective_pairing] by simp
qed

abbreviation "demo_empty \<equiv> storage_step (EvSnapshot [] [demo_volume] True) demo_state"

lemma storage_snapshot_models_witness:
  "set (sc_drives (fst demo_empty)) = {} \<and> set (sc_volumes (fst demo_empty)) = {demo_volume} \<and>
   hash_keys (sc_requests (fst demo_empty)) = [''r'']"
proof -
  have "hash_keys (sc_requests demo_state) = [''r'']" by code_simp
  moreover have ok: "event_ok (set demo_used) (EvSnapshot [] [demo_volume] True)" by simp
  have "set (sc_drives (fst demo_empty)) = set []" "set (sc_volumes (fst demo_empty)) = set [demo_volume]"
    "sc_requests (fst demo_empty) = sc_requests demo_state"
    using storage_snapshot_models [OF demo_run ok surjective_pairing] by blast+
  ultimately show ?thesis by (simp del: storage_step.simps)
qed

lemma storage_views_follow_witness:
  "replay (volume_signals (concat (map snd demo_trace))) [] = [demo_volume\<lparr>sv_mount_points := []\<rparr>]"
proof -
  have "sc_volumes demo_state = [demo_volume\<lparr>sv_mount_points := []\<rparr>]" by code_simp
  then show ?thesis using storage_views_follow [OF demo_run] by simp
qed

lemma storage_begin_unavailable_witness:
  "begin_failure Eject ''d'' [] storage_init \<in> {''Disappeared'', ''Busy''}"
  by (rule storage_begin_unavailable [OF storage_run.start]) (simp add: storage_init_def)

end
