(* ===== verification/DBus_Values.thy ===== *)
theory DBus_Values
  imports Qt_Prelude "HOL-Library.Word"
begin

text \<open>
  The values that arrive over D-Bus. \<open>QVariant\<close>, its conversions and \<open>QFile::decodeName\<close> belong to
  Qt: they are the fields of one parameter, a record of functions over an unspecified type of values.
  \<open>QMap\<close>s are association lists in key order.
\<close>

record 'v qvariant_ops =
  qv_invalid :: 'v
  qv_string :: "'v \<Rightarrow> string"
  qv_bool :: "'v \<Rightarrow> bool"
  qv_int :: "'v \<Rightarrow> int"
  qv_uint :: "'v \<Rightarrow> 32 word"
  qv_ushort :: "'v \<Rightarrow> 16 word"
  qv_ulonglong :: "'v \<Rightarrow> 64 word"
  qv_strings :: "'v \<Rightarrow> string list"
  qv_path :: "'v \<Rightarrow> string"
  qv_bytes :: "'v \<Rightarrow> string"
  qv_byte_arrays :: "'v \<Rightarrow> string list"
  qv_decode_name :: "string \<Rightarrow> string"

type_synonym 'v dbus_properties = "(string \<times> 'v) list"
type_synonym 'v dbus_interfaces = "(string \<times> 'v dbus_properties) list"
type_synonym 'v dbus_objects = "(string \<times> 'v dbus_interfaces) list"

definition prop_value :: "'v qvariant_ops \<Rightarrow> 'v dbus_properties \<Rightarrow> string \<Rightarrow> 'v" where
  "prop_value q props name = (case map_of props name of Some v \<Rightarrow> v | None \<Rightarrow> qv_invalid q)"

definition has_key :: "(string \<times> 'b) list \<Rightarrow> string \<Rightarrow> bool" where
  "has_key m name = (map_of m name \<noteq> None)"

text \<open>\<open>QMap::value\<close> with the default of an empty map.\<close>

definition map_value :: "(string \<times> ('a \<times> 'b) list) list \<Rightarrow> string \<Rightarrow> ('a \<times> 'b) list" where
  "map_value m name = (case map_of m name of Some v \<Rightarrow> v | None \<Rightarrow> [])"

text \<open>A reply to a method call: an error with its name and message, or the returned arguments.\<close>

datatype 'v dbus_reply = ReplyError string string | ReplyValues "'v list"

text \<open>Values of a small concrete service, for evaluating theorems that have the conversions as a
  parameter.\<close>

datatype demo_value = DInvalid | DText string | DFlag bool | DNumber int | DTexts "string list"

definition demo_ops :: "demo_value qvariant_ops" where
  "demo_ops = \<lparr>qv_invalid = DInvalid,
     qv_string = (\<lambda>v. case v of DText s \<Rightarrow> s | _ \<Rightarrow> ''''),
     qv_bool = (\<lambda>v. case v of DFlag b \<Rightarrow> b | _ \<Rightarrow> False),
     qv_int = (\<lambda>v. case v of DNumber n \<Rightarrow> n | _ \<Rightarrow> 0),
     qv_uint = (\<lambda>v. case v of DNumber n \<Rightarrow> word_of_int n | _ \<Rightarrow> 0),
     qv_ushort = (\<lambda>v. case v of DNumber n \<Rightarrow> word_of_int n | _ \<Rightarrow> 0),
     qv_ulonglong = (\<lambda>v. case v of DNumber n \<Rightarrow> word_of_int n | _ \<Rightarrow> 0),
     qv_strings = (\<lambda>v. case v of DTexts ss \<Rightarrow> ss | _ \<Rightarrow> []),
     qv_path = (\<lambda>v. case v of DText s \<Rightarrow> s | _ \<Rightarrow> ''''),
     qv_bytes = (\<lambda>v. case v of DText s \<Rightarrow> s | _ \<Rightarrow> ''''),
     qv_byte_arrays = (\<lambda>v. case v of DTexts ss \<Rightarrow> ss | _ \<Rightarrow> []),
     qv_decode_name = id\<rparr>"

definition demo_fresh :: "nat \<Rightarrow> string" where
  "demo_fresh n = replicate (Suc n) (CHR ''i'')"

end
