(* ===== verification/Refresh_Protocol.thy ===== *)
theory Refresh_Protocol
  imports Qt_Prelude "HOL-Library.Word"
begin

text \<open>
  The refresh protocol that \<open>UDisks2Backend\<close> and \<open>BlueZBackend\<close> share. A change notification bumps
  a revision and asks for one \<open>GetManagedObjects\<close> call unless one is in flight; a reply is used only
  when no notification arrived since its call was sent, otherwise a new call is sent; a change of the
  service's owner bumps a generation that retires every call in flight. This theory states the
  protocol on its own variables, proves its invariant, and gives the contract \<open>refreshing_client\<close> that
  both backends are shown to satisfy.
\<close>

section \<open>The abstract protocol\<close>

text \<open>\<open>rv_calls\<close> are the calls in flight, each with the generation and revision it captured;
  \<open>rv_live\<close> says that the service has an owner.\<close>

record refresh_view =
  rv_gen :: "64 word"
  rv_rev :: "64 word"
  rv_busy :: bool
  rv_live :: bool
  rv_calls :: "(64 word \<times> 64 word) list"

definition refresh_start :: refresh_view where
  "refresh_start = \<lparr>rv_gen = 0, rv_rev = 0, rv_busy = False, rv_live = False, rv_calls = []\<rparr>"

definition refresh_go :: "refresh_view \<Rightarrow> refresh_view" where
  "refresh_go v = (if rv_busy v \<or> \<not> rv_live v then v
     else v\<lparr>rv_busy := True, rv_calls := rv_calls v @ [(rv_gen v, rv_rev v)]\<rparr>)"

text \<open>The reply to the \<open>i\<close>-th call; the flag says that the reply is used.\<close>

definition refresh_answer :: "nat \<Rightarrow> refresh_view \<Rightarrow> refresh_view \<times> bool" where
  "refresh_answer i v =
     (let (g, r) = rv_calls v ! i; v' = v\<lparr>rv_calls := remove_row i (rv_calls v)\<rparr>
      in if g \<noteq> rv_gen v then (v', False)
         else if r \<noteq> rv_rev v then (refresh_go (v'\<lparr>rv_busy := False\<rparr>), False)
         else (v'\<lparr>rv_busy := False\<rparr>, True))"

inductive refresh_step :: "bool \<Rightarrow> refresh_view \<Rightarrow> refresh_view \<Rightarrow> bool" where
  quiet: "refresh_step False v v"
| notified: "refresh_step False v (refresh_go (v\<lparr>rv_rev := rv_rev v + 1\<rparr>))"
| owner: "refresh_step False v (refresh_go (v\<lparr>rv_gen := rv_gen v + 1, rv_rev := rv_rev v + 1,
    rv_busy := False, rv_live := live\<rparr>))"
| answered: "i < length (rv_calls v) \<Longrightarrow> refresh_answer i v = (v', used) \<Longrightarrow> refresh_step used v v'"

definition current_calls :: "refresh_view \<Rightarrow> (64 word \<times> 64 word) list" where
  "current_calls v = filter (\<lambda>c. fst c = rv_gen v) (rv_calls v)"

text \<open>\<open>n\<close> bounds the number of steps so far, so that the counters have not wrapped around.\<close>

definition refresh_inv :: "nat \<Rightarrow> refresh_view \<Rightarrow> bool" where
  "refresh_inv n v \<longleftrightarrow> unat (rv_gen v) \<le> n \<and> unat (rv_rev v) \<le> n \<and>
     (\<forall>c \<in> set (rv_calls v). fst c \<le> rv_gen v \<and> snd c \<le> rv_rev v) \<and>
     length (current_calls v) = (if rv_busy v then 1 else 0) \<and> (rv_busy v \<longrightarrow> rv_live v)"

lemma word_next:
  fixes x :: "64 word"
  assumes "unat x \<le> n" and "Suc n < 2 ^ 64"
  shows "unat (x + 1) = Suc (unat x)" and "y \<le> x \<Longrightarrow> y \<le> x + 1" and "y \<le> x \<Longrightarrow> y \<noteq> x + 1"
proof -
  have "unat (x + 1) = (unat x + 1) mod 2 ^ 64"
    using unat_word_ariths(1) [of x 1] by simp
  then show 1: "unat (x + 1) = Suc (unat x)" using assms by simp
  show "y \<le> x \<Longrightarrow> y \<le> x + 1" "y \<le> x \<Longrightarrow> y \<noteq> x + 1"
    using 1 by (auto simp: word_le_nat_alt)
qed

lemma refresh_go_inv:
  assumes "refresh_inv n v \<or> \<not> rv_busy v \<and> current_calls v = [] \<and>
      unat (rv_gen v) \<le> n \<and> unat (rv_rev v) \<le> n \<and>
      (\<forall>c \<in> set (rv_calls v). fst c \<le> rv_gen v \<and> snd c \<le> rv_rev v)"
  shows "refresh_inv n (refresh_go v)"
  using assms by (auto simp: refresh_inv_def refresh_go_def current_calls_def)

lemma refresh_inv_mono: "refresh_inv n v \<Longrightarrow> n \<le> m \<Longrightarrow> refresh_inv m v"
  by (auto simp: refresh_inv_def)

lemma remove_row_filter:
  assumes "i < length xs"
  shows "length (filter P xs) = length (filter P (remove_row i xs)) + (if P (xs ! i) then 1 else 0)"
proof -
  have "filter P xs = filter P (take i xs @ xs ! i # drop (Suc i) xs)"
    using assms by (simp flip: id_take_nth_drop)
  then show ?thesis by (simp add: remove_row_def)
qed

lemma remove_row_set: "set (remove_row i xs) \<subseteq> set xs"
  using set_take_subset set_drop_subset by (force simp: remove_row_def)

lemma refresh_step_inv:
  assumes "refresh_step used v v'" and inv: "refresh_inv n v" and "Suc n < 2 ^ 64"
  shows "refresh_inv (Suc n) v'"
  using assms(1)
proof cases
  case quiet
  then show ?thesis using refresh_inv_mono [OF inv] by simp
next
  case notified
  have "refresh_inv (Suc n) (v\<lparr>rv_rev := rv_rev v + 1\<rparr>)"
    using inv word_next [of "rv_rev v" n] assms(3)
    by (auto simp: refresh_inv_def current_calls_def)
  then show ?thesis using notified refresh_go_inv by blast
next
  case (owner live)
  have none: "filter (\<lambda>c. fst c = rv_gen v + 1) (rv_calls v) = []"
    using inv word_next(3) [of "rv_gen v" n] assms(3) by (auto simp: refresh_inv_def filter_empty_conv)
  show ?thesis
    unfolding owner
    using inv none word_next [of "rv_gen v" n] word_next [of "rv_rev v" n] assms(3)
    by (intro refresh_go_inv) (auto simp: refresh_inv_def current_calls_def)
next
  case (answered i)
  obtain g r where c: "rv_calls v ! i = (g, r)" by fastforce
  let ?v = "v\<lparr>rv_calls := remove_row i (rv_calls v)\<rparr>"
  have count: "length (current_calls v) = length (current_calls ?v) + (if g = rv_gen v then 1 else 0)"
    using remove_row_filter [OF answered(1), of "\<lambda>c. fst c = rv_gen v"] c by (simp add: current_calls_def)
  have sub: "\<forall>c \<in> set (remove_row i (rv_calls v)). fst c \<le> rv_gen v \<and> snd c \<le> rv_rev v"
    using inv remove_row_set [of i "rv_calls v"] by (auto simp: refresh_inv_def)
  show ?thesis
  proof (cases "g = rv_gen v")
    case False
    then have "v' = ?v" using answered(2) c by (simp add: refresh_answer_def Let_def)
    then show ?thesis using inv count sub False by (auto simp: refresh_inv_def)
  next
    case True
    then have "current_calls (?v\<lparr>rv_busy := False\<rparr>) = []"
      using inv count by (auto simp: refresh_inv_def current_calls_def split: if_splits)
    then have idle: "refresh_inv (Suc n) (?v\<lparr>rv_busy := False\<rparr>)"
      using inv sub unfolding refresh_inv_def by auto
    then have "refresh_inv (Suc n) (refresh_go (?v\<lparr>rv_busy := False\<rparr>))"
      by (rule refresh_go_inv [OF disjI1])
    with idle show ?thesis
      using answered(2) c True by (auto simp: refresh_answer_def Let_def split: if_splits)
  qed
qed

lemma refresh_answer_cases:
  assumes "refresh_answer i v = (v', used)"
  obtains (stale) "\<not> used" "v' = v\<lparr>rv_calls := remove_row i (rv_calls v)\<rparr>" "fst (rv_calls v ! i) \<noteq> rv_gen v"
    | (outdated) "\<not> used" "v' = refresh_go (v\<lparr>rv_calls := remove_row i (rv_calls v), rv_busy := False\<rparr>)"
        "fst (rv_calls v ! i) = rv_gen v"
    | (current) "used" "v' = v\<lparr>rv_calls := remove_row i (rv_calls v), rv_busy := False\<rparr>"
        "rv_calls v ! i = (rv_gen v, rv_rev v)"
proof -
  obtain g r where c: "rv_calls v ! i = (g, r)" by fastforce
  show thesis
    using assms c stale outdated current
    by (auto simp: refresh_answer_def Let_def split: if_splits)
qed

lemma refresh_go_simps [simp]:
  "rv_gen (refresh_go v) = rv_gen v" "rv_rev (refresh_go v) = rv_rev v"
  "rv_live (refresh_go v) = rv_live v" "rv_busy (refresh_go v) = (rv_busy v \<or> rv_live v)"
  by (auto simp: refresh_go_def)

lemma refresh_step_busy:
  assumes "refresh_step used v v'" and "rv_live v'"
  shows "rv_rev v' \<noteq> rv_rev v \<Longrightarrow> rv_busy v'"
    and "rv_busy v \<Longrightarrow> \<not> rv_busy v' \<Longrightarrow> used"
    and "rv_rev v' = rv_rev v \<or> rv_rev v' = rv_rev v + 1"
proof -
  have "(rv_rev v' \<noteq> rv_rev v \<longrightarrow> rv_busy v') \<and> (rv_busy v \<longrightarrow> \<not> rv_busy v' \<longrightarrow> used) \<and>
      (rv_rev v' = rv_rev v \<or> rv_rev v' = rv_rev v + 1)"
    using assms
  proof cases
    case (answered i)
    then show ?thesis using assms(2) by (cases rule: refresh_answer_cases [OF answered(2)]) auto
  qed auto
  then show "rv_rev v' \<noteq> rv_rev v \<Longrightarrow> rv_busy v'"
    and "rv_busy v \<Longrightarrow> \<not> rv_busy v' \<Longrightarrow> used"
    and "rv_rev v' = rv_rev v \<or> rv_rev v' = rv_rev v + 1" by blast+
qed

lemma refresh_step_used:
  assumes "refresh_step True v v'"
  obtains i where "i < length (rv_calls v)" "rv_calls v ! i = (rv_gen v, rv_rev v)" "rv_rev v' = rv_rev v"
  using assms
proof cases
  case (answered i)
  then show ?thesis using that [of i] by (cases rule: refresh_answer_cases [OF answered(2)]) auto
qed simp_all

lemma refresh_step_rev_mono:
  assumes "refresh_step used v v'" and "refresh_inv n v" and "Suc n < 2 ^ 64"
  shows "rv_rev v \<le> rv_rev v'"
proof -
  have "rv_rev v' = rv_rev v \<or> rv_rev v' = rv_rev v + 1"
    using assms(1)
  proof cases
    case (answered i)
    then show ?thesis by (cases rule: refresh_answer_cases [OF answered(2)]) auto
  qed auto
  then show ?thesis
    using word_next(2) [of "rv_rev v" n "rv_rev v"] assms(2,3) by (auto simp: refresh_inv_def)
qed

text \<open>Two answers to the protocol's own call are enough when no notification comes between.\<close>

lemma current_call_index:
  assumes "refresh_inv n v" and "rv_busy v"
  obtains i r where "i < length (rv_calls v)" "rv_calls v ! i = (rv_gen v, r)"
proof -
  obtain c where "c \<in> set (current_calls v)"
    using assms by (cases "current_calls v") (auto simp: refresh_inv_def)
  then show thesis using that by (auto simp: current_calls_def in_set_conv_nth) (metis prod.collapse)
qed

lemma refresh_answer_own:
  assumes "i < length (rv_calls v)" and "rv_calls v ! i = (rv_gen v, r)" and "rv_live v"
    and "refresh_answer i v = (v', used)"
  shows "used \<and> \<not> rv_busy v' \<or>
    \<not> used \<and> rv_live v' \<and> rv_busy v' \<and> rv_gen v' = rv_gen v \<and>
      rv_calls v' \<noteq> [] \<and> last (rv_calls v') = (rv_gen v', rv_rev v')"
  using assms by (auto simp: refresh_answer_def refresh_go_def Let_def split: if_splits)


lemma refresh_answer_last:
  "rv_calls v ! j = (rv_gen v, rv_rev v) \<Longrightarrow> refresh_answer j v = (v', used) \<Longrightarrow> \<not> rv_busy v'"
  by (auto simp: refresh_answer_def Let_def)

section \<open>The contract of a backend that follows the protocol\<close>

text \<open>\<open>view\<close> reads the protocol's variables off the backend's state, \<open>answer i r\<close> is the event that
  delivers the reply \<open>r\<close> to the \<open>i\<close>-th call in flight, and \<open>publishes\<close> says that the outputs of a step
  announce the state of the service to the application. \<open>notifies ev st\<close> says that the event reports
  a change of the service's objects to the state \<open>st\<close>.\<close>

locale refreshing_client =
  fixes view :: "'s \<Rightarrow> refresh_view"
    and good :: "'s \<Rightarrow> bool"
    and step :: "'e \<Rightarrow> 's \<Rightarrow> 's \<times> 'o list"
    and init :: 's
    and answer :: "nat \<Rightarrow> 'r \<Rightarrow> 'e"
    and publishes :: "'o list \<Rightarrow> bool"
    and notifies :: "'e \<Rightarrow> 's \<Rightarrow> bool"
  assumes view_init: "view init = refresh_start"
    and good_init: "good init"
    and step_good: "good st \<Longrightarrow> good (fst (step ev st))"
    and step_view: "good st \<Longrightarrow> step ev st = (st', out) \<Longrightarrow>
      \<exists>used. refresh_step used (view st) (view st') \<and> (used \<longrightarrow> publishes out)"
    and answer_view: "good st \<Longrightarrow> i < length (rv_calls (view st)) \<Longrightarrow>
      \<exists>used. refresh_answer i (view st) = (view (fst (step (answer i r) st)), used)"
    and notified_view: "good st \<Longrightarrow> rv_live (view st) \<Longrightarrow> notifies ev st \<Longrightarrow>
      view (fst (step ev st)) = refresh_go (view st\<lparr>rv_rev := rv_rev (view st) + 1\<rparr>)"
    and refresh_ends: "good st \<Longrightarrow> step ev st = (st', out) \<Longrightarrow> rv_busy (view st) \<Longrightarrow> rv_live (view st) \<Longrightarrow>
      \<not> rv_busy (view st') \<Longrightarrow> publishes out \<and> (\<not> rv_live (view st') \<or> (\<exists>i r. ev = answer i r \<and> i < length (rv_calls (view st)) \<and>
        rv_calls (view st) ! i = (rv_gen (view st), rv_rev (view st))))"
begin

definition run :: "'e list \<Rightarrow> 's" where
  "run evs = fold (\<lambda>ev st. fst (step ev st)) evs init"

lemma run_snoc: "run (evs @ [ev]) = fst (step ev (run evs))"
  by (simp add: run_def)

lemma run_good: "good (run evs)"
  by (induction evs rule: rev_induct) (simp_all add: run_snoc step_good, simp add: run_def good_init)

lemma run_inv: "length evs < 2 ^ 64 \<Longrightarrow> refresh_inv (length evs) (view (run evs))"
proof (induction evs rule: rev_induct)
  case Nil
  then show ?case by (simp add: run_def view_init refresh_start_def refresh_inv_def current_calls_def)
next
  case (snoc ev evs)
  obtain used where "refresh_step used (view (run evs)) (view (run (evs @ [ev])))"
    unfolding run_snoc using step_view [OF run_good [of evs] surjective_pairing] by blast
  then show ?case
    using refresh_step_inv snoc by auto
qed

text \<open>No notification is lost: a notification leaves a call in flight, and the last call in flight is
  given up only by a step that publishes, as long as the service has an owner.\<close>

lemma notification_refreshes:
  assumes "step ev (run evs) = (st', out)" and "rv_live (view st')"
    and "rv_rev (view st') \<noteq> rv_rev (view (run evs))"
  shows "rv_busy (view st')"
  using step_view [OF run_good assms(1)] refresh_step_busy(1) assms(2,3) by blast

lemma refresh_ends_published:
  assumes "step ev (run evs) = (st', out)" and "rv_live (view st')"
    and "rv_busy (view (run evs))" and "\<not> rv_busy (view st')"
  shows "publishes out"
  using step_view [OF run_good assms(1)] refresh_step_busy(2) assms(2-4) by blast

lemma refreshing_iff_call:
  assumes "length evs < 2 ^ 64"
  shows "length (current_calls (view (run evs))) = (if rv_busy (view (run evs)) then 1 else 0)"
  using run_inv [OF assms] by (simp add: refresh_inv_def)

text \<open>A reply that is used answers a call sent after every earlier notification.\<close>

lemma run_rev_mono:
  "length (evs @ evs') < 2 ^ 64 \<Longrightarrow> rv_rev (view (run evs)) \<le> rv_rev (view (run (evs @ evs')))"
proof (induction evs' rule: rev_induct)
  case Nil
  then show ?case by simp
next
  case (snoc ev evs')
  obtain used where "refresh_step used (view (run (evs @ evs'))) (view (run ((evs @ evs') @ [ev])))"
    unfolding run_snoc using step_view [OF run_good surjective_pairing] by blast
  then have "rv_rev (view (run (evs @ evs'))) \<le> rv_rev (view (run ((evs @ evs') @ [ev])))"
    using refresh_step_rev_mono [OF _ run_inv] snoc.prems by auto
  then show ?case using snoc by simp
qed

text \<open>A change is reported: from the notification on a refresh is under way, until the application is told
  that the service is lost or of the reply to a call that was sent after the notification.\<close>

lemma busy_until:
  "rv_busy (view (run evs)) \<Longrightarrow> rv_busy (view (run (evs @ evs'))) \<or>
   (\<exists>us e vs. evs' = us @ e # vs \<and> rv_busy (view (run (evs @ us))) \<and> \<not> rv_busy (view (run (evs @ us @ [e]))))"
proof (induction evs' rule: rev_induct)
  case (snoc e evs')
  show ?case
  proof (cases "rv_busy (view (run (evs @ evs')))")
    case True
    then show ?thesis by fastforce
  next
    case False
    then obtain us d vs where "evs' = us @ d # vs" "rv_busy (view (run (evs @ us)))"
        "\<not> rv_busy (view (run (evs @ us @ [d])))"
      using snoc by blast
    then show ?thesis by (intro disjI2 exI [of _ us] exI [of _ d] exI [of _ "vs @ [e]"]) simp
  qed
qed simp

definition reports_since :: "64 word \<Rightarrow> 'e list \<Rightarrow> 'e \<Rightarrow> bool" where
  "reports_since since evs ev \<longleftrightarrow> publishes (snd (step ev (run evs))) \<and>
     (\<not> rv_live (view (fst (step ev (run evs)))) \<or>
      (\<exists>i r. ev = answer i r \<and> i < length (rv_calls (view (run evs))) \<and> since \<le> snd (rv_calls (view (run evs)) ! i)))"

lemma refresh_reported:
  assumes "length (evs @ evs') < 2 ^ 64" and "rv_busy (view (run evs))"
  shows "rv_busy (view (run (evs @ evs'))) \<or>
    (\<exists>us e vs. evs' = us @ e # vs \<and> reports_since (rv_rev (view (run evs))) (evs @ us) e)"
proof (cases "rv_busy (view (run (evs @ evs')))")
  case False
  then obtain us e vs where split: "evs' = us @ e # vs" and busy: "rv_busy (view (run (evs @ us)))"
      "\<not> rv_busy (view (run ((evs @ us) @ [e])))"
    using busy_until [OF assms(2), of evs'] by auto
  let ?st = "run (evs @ us)"
  have live: "rv_live (view ?st)"
    using run_inv [of "evs @ us"] busy(1) assms(1) split by (simp add: refresh_inv_def)
  have "rv_rev (view (run evs)) \<le> rv_rev (view ?st)" using run_rev_mono [of evs us] assms(1) split by simp
  moreover have "publishes (snd (step e ?st)) \<and> (\<not> rv_live (view (fst (step e ?st))) \<or>
      (\<exists>i r. e = answer i r \<and> i < length (rv_calls (view ?st)) \<and>
        rv_calls (view ?st) ! i = (rv_gen (view ?st), rv_rev (view ?st))))"
    using refresh_ends [OF run_good surjective_pairing busy(1) live] busy(2) unfolding run_snoc .
  ultimately have "reports_since (rv_rev (view (run evs))) (evs @ us) e" unfolding reports_since_def by auto
  then show ?thesis using split by blast
qed simp

lemma change_reported:
  assumes "length (evs @ ev # evs') < 2 ^ 64" and "notifies ev (run evs)" and "rv_live (view (run evs))"
  shows "(\<forall>c \<in> set (rv_calls (view (run evs))). snd c < rv_rev (view (run (evs @ [ev])))) \<and>
    (rv_busy (view (run (evs @ ev # evs'))) \<or>
     (\<exists>us e vs. evs' = us @ e # vs \<and> reports_since (rv_rev (view (run (evs @ [ev])))) (evs @ ev # us) e))"
proof
  have "refresh_inv (length evs) (view (run evs))" by (rule run_inv) (use assms(1) in simp)
  moreover have now: "view (run (evs @ [ev])) = refresh_go (view (run evs)\<lparr>rv_rev := rv_rev (view (run evs)) + 1\<rparr>)"
    unfolding run_snoc by (rule notified_view [OF run_good assms(3,2)])
  ultimately show "\<forall>c \<in> set (rv_calls (view (run evs))). snd c < rv_rev (view (run (evs @ [ev])))"
    using word_next [of "rv_rev (view (run evs))" "length evs"] assms(1)
    by (auto simp: refresh_inv_def order_le_less)
  have "rv_busy (view (run (evs @ [ev])))" using assms(3) by (simp add: now)
  then show "rv_busy (view (run (evs @ ev # evs'))) \<or>
      (\<exists>us e vs. evs' = us @ e # vs \<and> reports_since (rv_rev (view (run (evs @ [ev])))) (evs @ ev # us) e)"
    using refresh_reported [of "evs @ [ev]" evs'] assms(1) by simp
qed

lemma busy_call:
  assumes "length evs < 2 ^ 64" and "rv_busy (view (run evs))"
  shows "\<exists>r. (rv_gen (view (run evs)), r) \<in> set (rv_calls (view (run evs)))"
  using current_call_index [OF run_inv [OF assms(1)] assms(2)] by (metis nth_mem)

text \<open>Once notifications stop, two replies are enough.\<close>

lemma two_answers:
  assumes "length evs < 2 ^ 64" and "rv_busy (view (run evs))"
  shows "\<exists>i. \<forall>r. \<not> rv_busy (view (run (evs @ [answer i r]))) \<or>
    (\<exists>j. \<forall>r'. \<not> rv_busy (view (run (evs @ [answer i r, answer j r']))))"
proof -
  let ?v = "view (run evs)"
  note inv = run_inv [OF assms(1)]
  have live: "rv_live ?v" using inv assms(2) by (simp add: refresh_inv_def)
  obtain i c where i: "i < length (rv_calls ?v)" "rv_calls ?v ! i = (rv_gen ?v, c)"
    using current_call_index [OF inv assms(2)] by blast
  have "\<not> rv_busy (view (run (evs @ [answer i r]))) \<or>
      (\<exists>j. \<forall>r'. \<not> rv_busy (view (run (evs @ [answer i r, answer j r']))))" for r
  proof -
    let ?v1 = "view (run (evs @ [answer i r]))"
    obtain used where "refresh_answer i ?v = (?v1, used)"
      using answer_view [OF run_good i(1)] by (auto simp: run_snoc)
    note first = refresh_answer_own [OF i live this]
    show ?thesis
    proof (cases "rv_busy ?v1")
      case True
      with first have again: "rv_live ?v1" "rv_calls ?v1 \<noteq> []" "last (rv_calls ?v1) = (rv_gen ?v1, rv_rev ?v1)"
        by auto
      let ?j = "length (rv_calls ?v1) - 1"
      have j: "?j < length (rv_calls ?v1)" "rv_calls ?v1 ! ?j = (rv_gen ?v1, rv_rev ?v1)"
        using again by (simp_all add: last_conv_nth)
      have "\<not> rv_busy (view (run (evs @ [answer i r, answer ?j r'])))" for r'
      proof -
        obtain used' where "refresh_answer ?j ?v1 = (view (fst (step (answer ?j r') (run (evs @ [answer i r])))), used')"
          using answer_view [OF run_good j(1)] by blast
        moreover have "run (evs @ [answer i r, answer ?j r']) = fst (step (answer ?j r') (run (evs @ [answer i r])))"
          using run_snoc [of "evs @ [answer i r]" "answer ?j r'"] by simp
        ultimately show ?thesis using refresh_answer_last [OF j(2)] by simp
      qed
      then show ?thesis by blast
    qed simp
  qed
  then show ?thesis by blast
qed

end

end
