(* ===== verification/UDisks2_Backend.thy ===== *)
theory UDisks2_Backend
  imports Storage_Safety DBus_Values Refresh_Protocol
begin

text \<open>
  \<open>UDisks2Backend\<close>: the D-Bus client that publishes the drives and volumes of UDisks2. The calls in
  flight and the zero timers are part of the state, with the values their lambdas captured; a reply is
  an event that names the call it answers. Identifiers drawn from \<open>QUuid\<close> while a reply is handled
  are a function \<open>fresh\<close> that the event carries.
\<close>

section \<open>State\<close>

record udisks_state =
  ud_service :: string
  ud_owner :: string
  ud_started :: bool
  ud_refreshing :: bool
  ud_generation :: "64 word"
  ud_revision :: "64 word"
  ud_ids :: "(string, string) qhash"
  ud_completions :: "storage_result list"
  ud_owner_calls :: "64 word list"
  ud_refresh_calls :: "(64 word \<times> 64 word) list"
  ud_exec_calls :: "(64 word \<times> storage_result) list"
  ud_timers :: "storage_result list"

datatype udisks_output =
    UdSubscribe string
  | UdUnsubscribe string
  | UdGetNameOwner string
  | UdGetManagedObjects string
  | UdCall string string string string
  | UdSnapshot "storage_drive list" "storage_volume list" bool
  | UdFinished storage_result

definition udisks_init :: "string \<Rightarrow> udisks_state" where
  "udisks_init service = \<lparr>ud_service = service, ud_owner = '''', ud_started = False,
     ud_refreshing = False, ud_generation = 0, ud_revision = 0, ud_ids = [], ud_completions = [],
     ud_owner_calls = [], ud_refresh_calls = [], ud_exec_calls = [], ud_timers = []\<rparr>"

definition drive_interface :: string where
  "drive_interface = ''org.freedesktop.UDisks2.Drive''"
definition block_interface :: string where
  "block_interface = ''org.freedesktop.UDisks2.Block''"
definition filesystem_interface :: string where
  "filesystem_interface = ''org.freedesktop.UDisks2.Filesystem''"
definition partition_interface :: string where
  "partition_interface = ''org.freedesktop.UDisks2.Partition''"
definition encrypted_interface :: string where
  "encrypted_interface = ''org.freedesktop.UDisks2.Encrypted''"
definition loop_interface :: string where
  "loop_interface = ''org.freedesktop.UDisks2.Loop''"
definition table_interface :: string where
  "table_interface = ''org.freedesktop.UDisks2.PartitionTable''"

lemmas interface_defs = drive_interface_def block_interface_def filesystem_interface_def
  partition_interface_def encrypted_interface_def loop_interface_def table_interface_def

definition udisks_key :: "string \<Rightarrow> string \<Rightarrow> string" where
  "udisks_key path interface = path @ CHR ''#'' # interface"

section \<open>Refreshing\<close>

definition udisks_refresh :: "udisks_state \<Rightarrow> udisks_state \<times> udisks_output list" where
  "udisks_refresh st =
     (if ud_refreshing st \<or> ud_owner st = '''' then (st, [])
      else (st\<lparr>ud_refreshing := True,
               ud_refresh_calls := ud_refresh_calls st @ [(ud_generation st, ud_revision st)]\<rparr>,
            [UdGetManagedObjects (ud_owner st)]))"

definition udisks_changed :: "udisks_state \<Rightarrow> udisks_state \<times> udisks_output list" where
  "udisks_changed st =
     (let st' = st\<lparr>ud_revision := ud_revision st + 1\<rparr>
      in if ud_started st' \<and> ud_owner st' \<noteq> '''' then udisks_refresh st' else (st', []))"

definition udisks_set_owner :: "string \<Rightarrow> udisks_state \<Rightarrow> udisks_state \<times> udisks_output list" where
  "udisks_set_owner owner st =
     (let st' = st\<lparr>ud_generation := ud_generation st + 1, ud_revision := ud_revision st + 1,
                   ud_refreshing := False, ud_owner := owner, ud_ids := [], ud_completions := []\<rparr>;
          (st'', out) = (if owner \<noteq> '''' then udisks_refresh st' else (st', []))
      in (st'', UdSnapshot [] [] False # out))"

definition udisks_start :: "udisks_state \<Rightarrow> udisks_state \<times> udisks_output list" where
  "udisks_start st =
     (if ud_started st then (st, [])
      else (st\<lparr>ud_started := True, ud_owner_calls := ud_owner_calls st @ [ud_generation st]\<rparr>,
            [UdSubscribe ''InterfacesAdded'', UdSubscribe ''InterfacesRemoved'',
             UdSubscribe ''PropertiesChanged'', UdGetNameOwner (ud_service st)]))"

text \<open>The reply to \<open>GetNameOwner\<close>: the name of the error, or the owner.\<close>

definition udisks_owner_reply ::
  "nat \<Rightarrow> (string + string) \<Rightarrow> udisks_state \<Rightarrow> udisks_state \<times> udisks_output list" where
  "udisks_owner_reply i reply st =
     (if i < length (ud_owner_calls st) then
        (let generation = ud_owner_calls st ! i;
             st' = st\<lparr>ud_owner_calls := remove_row i (ud_owner_calls st)\<rparr>
         in if \<not> ud_started st' \<or> generation \<noteq> ud_generation st' then (st', [])
            else (case reply of
                    Inl name \<Rightarrow>
                      if name = ''org.freedesktop.DBus.Error.NameHasNoOwner''
                      then udisks_set_owner (ud_service st') st'
                      else (st', [UdSnapshot [] [] False])
                  | Inr owner \<Rightarrow> udisks_set_owner owner st'))
      else (st, []))"

definition udisks_stop :: "udisks_state \<Rightarrow> udisks_state \<times> udisks_output list" where
  "udisks_stop st =
     (if \<not> ud_started st then (st, [])
      else let (st', out) = udisks_set_owner '''' (st\<lparr>ud_started := False\<rparr>)
           in (st', [UdUnsubscribe ''InterfacesAdded'', UdUnsubscribe ''InterfacesRemoved'',
                     UdUnsubscribe ''PropertiesChanged''] @ out))"

definition udisks_owner_changed :: "string \<Rightarrow> udisks_state \<Rightarrow> udisks_state \<times> udisks_output list" where
  "udisks_owner_changed owner st = (if ud_started st then udisks_set_owner owner st else (st, []))"

definition udisks_interfaces_removed ::
  "string \<Rightarrow> string list \<Rightarrow> udisks_state \<Rightarrow> udisks_state \<times> udisks_output list" where
  "udisks_interfaces_removed path interfaces st =
     udisks_changed (st\<lparr>ud_ids := fold (\<lambda>i ids. hash_remove (udisks_key path i) ids) interfaces (ud_ids st)\<rparr>)"

section \<open>Decoding a snapshot\<close>

definition id_for ::
  "(nat \<Rightarrow> string) \<Rightarrow> string \<Rightarrow> (string, string) qhash \<times> nat \<Rightarrow> (string, string) qhash \<times> nat" where
  "id_for fresh k = (\<lambda>(ids, n).
     if (case hash_value ids k of Some i \<Rightarrow> i = '''' | None \<Rightarrow> True)
     then (hash_insert k (fresh n) ids, Suc n) else (ids, n))"

definition id_value :: "(string, string) qhash \<Rightarrow> string \<Rightarrow> string" where
  "id_value ids k = (case hash_value ids k of Some i \<Rightarrow> i | None \<Rightarrow> '''')"

definition live_keys :: "'v dbus_objects \<Rightarrow> string list" where
  "live_keys objects = concat (map (\<lambda>(path, interfaces).
     map (udisks_key path) (filter (has_key interfaces) [drive_interface, block_interface])) objects)"

definition publish_ids ::
  "(nat \<Rightarrow> string) \<Rightarrow> 'v dbus_objects \<Rightarrow> (string, string) qhash \<Rightarrow> (string, string) qhash" where
  "publish_ids fresh objects ids =
     (let live = live_keys objects
      in filter (\<lambda>(k, _). List.member live k) (fst (fold (id_for fresh) live (ids, 0))))"

definition byte_path :: "'v qvariant_ops \<Rightarrow> string \<Rightarrow> string" where
  "byte_path q value = qv_decode_name q (rev (dropWhile (\<lambda>c. c = CHR 0x00) (rev value)))"

definition mount_points :: "'v qvariant_ops \<Rightarrow> 'v \<Rightarrow> string list" where
  "mount_points q value = map (byte_path q) (qv_byte_arrays q value)"

definition decode_drive ::
  "'v qvariant_ops \<Rightarrow> (string, string) qhash \<Rightarrow> string \<Rightarrow> 'v dbus_interfaces \<Rightarrow> storage_drive" where
  "decode_drive q ids path interfaces =
     (let props = map_value interfaces drive_interface; text = (\<lambda>n. qv_string q (prop_value q props n));
          flag = (\<lambda>n. qv_bool q (prop_value q props n))
      in \<lparr>sd_id = id_value ids (udisks_key path drive_interface),
          sd_vendor = text ''Vendor'', sd_model = text ''Model'', sd_serial = text ''Serial'',
          sd_connection_bus = text ''ConnectionBus'', sd_sibling = text ''SiblingId'',
          sd_media = text ''Media'',
          sd_media_compatibility = qv_strings q (prop_value q props ''MediaCompatibility''),
          sd_removable = flag ''Removable'', sd_media_removable = flag ''MediaRemovable'',
          sd_media_present = flag ''MediaAvailable'', sd_optical = flag ''Optical'',
          sd_can_eject = flag ''Ejectable'', sd_can_power_off = flag ''CanPowerOff'',
          sd_rotation_rate = (if has_key props ''RotationRate''
            then Some (qv_int q (prop_value q props ''RotationRate'')) else None)\<rparr>)"

definition decode_volume ::
  "'v qvariant_ops \<Rightarrow> (string, string) qhash \<Rightarrow> 'v dbus_objects \<Rightarrow> string \<Rightarrow> 'v dbus_interfaces \<Rightarrow>
   storage_volume" where
  "decode_volume q ids objects path interfaces =
     (let props = map_value interfaces block_interface; text = (\<lambda>n. qv_string q (prop_value q props n));
          flag = (\<lambda>n. qv_bool q (prop_value q props n));
          partition = map_value interfaces partition_interface;
          table = qv_path q (prop_value q partition ''Table'');
          points = (if has_key interfaces filesystem_interface
            then mount_points q (prop_value q (map_value interfaces filesystem_interface) ''MountPoints'')
            else [])
      in \<lparr>sv_id = id_value ids (udisks_key path block_interface),
          sv_drive = id_value ids (udisks_key (qv_path q (prop_value q props ''Drive'')) drive_interface),
          sv_label = text ''IdLabel'',
          sv_device = byte_path q (qv_bytes q (prop_value q props ''PreferredDevice'')),
          sv_filesystem_type = text ''IdType'', sv_usage = text ''IdUsage'',
          sv_partition_type = qv_string q (prop_value q partition ''Type''),
          sv_partition_name = qv_string q (prop_value q partition ''Name''),
          sv_partition_number = qv_uint q (prop_value q partition ''Number''),
          sv_hint_name = text ''HintName'', sv_hint_icon_name = text ''HintIconName'',
          sv_hint_symbolic_icon_name = text ''HintSymbolicIconName'',
          sv_crypto_backing =
            id_value ids (udisks_key (qv_path q (prop_value q props ''CryptoBackingDevice'')) block_interface),
          sv_mount_points = points,
          sv_capacity = qv_ulonglong q (prop_value q props ''Size''),
          sv_hint_ignore = flag ''HintIgnore'', sv_hint_system = flag ''HintSystem'',
          sv_loop = (has_key interfaces loop_interface \<or>
            table \<noteq> '''' \<and> has_key (map_value objects table) loop_interface),
          sv_partition_container = (qv_bool q (prop_value q partition ''IsContainer'') \<or>
            has_key interfaces table_interface \<and> \<not> has_key interfaces filesystem_interface),
          sv_locked = (has_key interfaces encrypted_interface \<and>
            qv_path q (prop_value q (map_value interfaces encrypted_interface) ''CleartextDevice'') = ''/''),
          sv_can_mount = (has_key interfaces filesystem_interface \<and> points = []),
          sv_can_unmount = (has_key interfaces filesystem_interface \<and> points \<noteq> [])\<rparr>)"

definition decode_drives :: "'v qvariant_ops \<Rightarrow> (string, string) qhash \<Rightarrow> 'v dbus_objects \<Rightarrow> storage_drive list" where
  "decode_drives q ids objects =
     map (\<lambda>(path, interfaces). decode_drive q ids path interfaces)
       (filter (\<lambda>(_, interfaces). has_key interfaces drive_interface) objects)"

definition decode_volumes :: "'v qvariant_ops \<Rightarrow> (string, string) qhash \<Rightarrow> 'v dbus_objects \<Rightarrow> storage_volume list" where
  "decode_volumes q ids objects =
     map (\<lambda>(path, interfaces). decode_volume q ids objects path interfaces)
       (filter (\<lambda>(_, interfaces). has_key interfaces block_interface) objects)"

section \<open>Crypto mappings\<close>

text \<open>The loops over \<open>volumes\<close> update the list in place, so a row may already have inherited when a
  later row reads it. Each function returns the list and the flag \<open>changed\<close>.\<close>

definition inherit_from :: "storage_volume \<Rightarrow> storage_volume \<Rightarrow> storage_volume \<times> bool" where
  "inherit_from backing v =
     (if sv_crypto_backing v \<noteq> '''' \<and> sv_id backing = sv_crypto_backing v then
        (let takeDrive = (sv_drive v = '''' \<and> sv_drive backing \<noteq> '''');
             v1 = (if takeDrive then v\<lparr>sv_drive := sv_drive backing\<rparr> else v);
             takeLoop = (\<not> sv_loop v \<and> sv_loop backing);
             v2 = (if takeLoop then v1\<lparr>sv_loop := True\<rparr> else v1)
         in (v2, takeDrive \<or> takeLoop))
      else (v, False))"

fun inherit_row :: "nat \<Rightarrow> nat list \<Rightarrow> storage_volume list \<times> bool \<Rightarrow> storage_volume list \<times> bool" where
  "inherit_row i [] (vs, c) = (vs, c)"
| "inherit_row i (j # js) (vs, c) =
     (let (v, c') = inherit_from (vs ! j) (vs ! i) in inherit_row i js (vs[i := v], c \<or> c'))"

fun inherit_rows :: "nat list \<Rightarrow> storage_volume list \<times> bool \<Rightarrow> storage_volume list \<times> bool" where
  "inherit_rows [] r = r"
| "inherit_rows (i # is) r = inherit_rows is (inherit_row i [0..<length (fst r)] r)"

definition inherit_pass :: "storage_volume list \<Rightarrow> storage_volume list \<times> bool" where
  "inherit_pass vs = inherit_rows [0..<length vs] (vs, False)"

fun inherit_passes :: "nat \<Rightarrow> storage_volume list \<Rightarrow> storage_volume list" where
  "inherit_passes 0 vs = vs"
| "inherit_passes (Suc n) vs =
     (let (vs', changed) = inherit_pass vs in if changed then inherit_passes n vs' else vs')"

definition inherit_drives :: "storage_volume list \<Rightarrow> storage_volume list" where
  "inherit_drives vs = inherit_passes (length vs) vs"

definition udisks_publish ::
  "'v qvariant_ops \<Rightarrow> (nat \<Rightarrow> string) \<Rightarrow> 'v dbus_objects \<Rightarrow> udisks_state \<Rightarrow>
   udisks_state \<times> udisks_output list" where
  "udisks_publish q fresh objects st =
     (let ids = publish_ids fresh objects (ud_ids st)
      in (st\<lparr>ud_ids := ids\<rparr>,
          [UdSnapshot (decode_drives q ids objects) (inherit_drives (decode_volumes q ids objects)) True]))"

section \<open>Replies and commands\<close>

definition disappeared_mount :: "(string, string) qhash \<Rightarrow> storage_result \<Rightarrow> storage_result" where
  "disappeared_mount ids result =
     (if sr_operation result = Mount \<and> \<not> List.member (map snd ids) (sr_target result)
      then result\<lparr>sr_error_name := ''org.holonight.Storage.Disappeared'',
             sr_error_message := ''Volume disappeared before mount completed'', sr_mount_path := ''''\<rparr>
      else result)"

text \<open>The reply to \<open>GetManagedObjects\<close>: \<open>None\<close> is an error.\<close>

definition udisks_refresh_reply ::
  "'v qvariant_ops \<Rightarrow> nat \<Rightarrow> 'v dbus_objects option \<Rightarrow> (nat \<Rightarrow> string) \<Rightarrow> udisks_state \<Rightarrow>
   udisks_state \<times> udisks_output list" where
  "udisks_refresh_reply q i reply fresh st =
     (if i < length (ud_refresh_calls st) then
        (let (generation, revision) = ud_refresh_calls st ! i;
             st1 = st\<lparr>ud_refresh_calls := remove_row i (ud_refresh_calls st)\<rparr>
         in if generation \<noteq> ud_generation st1 then (st1, [])
            else
              let st2 = st1\<lparr>ud_refreshing := False\<rparr> in
              if revision \<noteq> ud_revision st2 then udisks_refresh st2
              else
                (case reply of
                   None \<Rightarrow> (st2\<lparr>ud_ids := [], ud_completions := []\<rparr>, [UdSnapshot [] [] False])
                 | Some objects \<Rightarrow>
                     (let (st3, out) = udisks_publish q fresh objects st2
                      in (st3\<lparr>ud_completions := []\<rparr>,
                          out @ map (\<lambda>r. UdFinished (disappeared_mount (ud_ids st3) r))
                                  (ud_completions st3)))))
      else (st, []))"

definition key_path :: "string \<Rightarrow> string" where
  "key_path k = takeWhile (\<lambda>c. c \<noteq> CHR ''#'') k"

definition ends_with :: "string \<Rightarrow> string \<Rightarrow> bool" where
  "ends_with s suffix = (length suffix \<le> length s \<and> drop (length s - length suffix) s = suffix)"

definition target_path :: "string \<Rightarrow> string \<Rightarrow> (string, string) qhash \<Rightarrow> string" where
  "target_path targetId interface ids =
     fold (\<lambda>(k, i) path. if i = targetId \<and> ends_with k (CHR ''#'' # interface) then key_path k else path)
       ids ''''"

fun operation_method :: "storage_operation \<Rightarrow> string" where
  "operation_method Mount = ''Mount''"
| "operation_method Unmount = ''Unmount''"
| "operation_method Eject = ''Eject''"
| "operation_method PowerOff = ''PowerOff''"

definition udisks_execute ::
  "string \<Rightarrow> storage_operation \<Rightarrow> string \<Rightarrow> udisks_state \<Rightarrow> udisks_state \<times> udisks_output list" where
  "udisks_execute requestId op targetId st =
     (let drive = is_removal op;
          path = target_path targetId (if drive then drive_interface else block_interface) (ud_ids st);
          result = \<lparr>sr_request = requestId, sr_target = targetId, sr_operation = op, sr_mount_path = '''',
                    sr_error_name = '''', sr_error_message = ''''\<rparr>
      in if path = '''' \<or> ud_owner st = '''' then
           (st\<lparr>ud_timers := ud_timers st @ [result\<lparr>sr_error_name := ''org.holonight.Storage.Disappeared'',
                 sr_error_message := ''Storage target disappeared''\<rparr>]\<rparr>, [])
         else
           (st\<lparr>ud_exec_calls := ud_exec_calls st @ [(ud_generation st, result)]\<rparr>,
            [UdCall (ud_owner st) path (if drive then drive_interface else filesystem_interface)
               (operation_method op)]))"

definition udisks_exec_reply ::
  "'v qvariant_ops \<Rightarrow> nat \<Rightarrow> 'v dbus_reply \<Rightarrow> udisks_state \<Rightarrow> udisks_state \<times> udisks_output list" where
  "udisks_exec_reply q i reply st =
     (if i < length (ud_exec_calls st) then
        (let (generation, result) = ud_exec_calls st ! i;
             st1 = st\<lparr>ud_exec_calls := remove_row i (ud_exec_calls st)\<rparr>
         in if generation \<noteq> ud_generation st1 then (st1, [])
            else
              let result1 = (case reply of
                     ReplyError name message \<Rightarrow>
                       result\<lparr>sr_error_name := name, sr_error_message := message\<rparr>
                   | ReplyValues args \<Rightarrow>
                       if sr_operation result = Mount \<and> args \<noteq> []
                       then result\<lparr>sr_mount_path := qv_string q (hd args)\<rparr> else result);
                  result2 = disappeared_mount (ud_ids st1) result1
              in udisks_changed (st1\<lparr>ud_completions := ud_completions st1 @ [result2]\<rparr>))
      else (st, []))"

definition udisks_timer :: "udisks_state \<Rightarrow> udisks_state \<times> udisks_output list" where
  "udisks_timer st =
     (case ud_timers st of
        [] \<Rightarrow> (st, [])
      | result # rest \<Rightarrow> (st\<lparr>ud_timers := rest\<rparr>, [UdFinished result]))"

section \<open>Events\<close>

datatype 'v udisks_event =
    UdStart
  | UdStop
  | UdOwnerChanged string
  | UdInterfacesAdded
  | UdInterfacesRemoved string "string list"
  | UdPropertiesChanged
  | UdExecute string storage_operation string
  | UdOwnerReply nat "string + string"
  | UdRefreshReply nat "'v dbus_objects option" "nat \<Rightarrow> string"
  | UdExecReply nat "'v dbus_reply"
  | UdTimer

fun udisks_step :: "'v qvariant_ops \<Rightarrow> 'v udisks_event \<Rightarrow> udisks_state \<Rightarrow> udisks_state \<times> udisks_output list" where
  "udisks_step q UdStart st = udisks_start st"
| "udisks_step q UdStop st = udisks_stop st"
| "udisks_step q (UdOwnerChanged owner) st = udisks_owner_changed owner st"
| "udisks_step q UdInterfacesAdded st = udisks_changed st"
| "udisks_step q (UdInterfacesRemoved path interfaces) st = udisks_interfaces_removed path interfaces st"
| "udisks_step q UdPropertiesChanged st = udisks_changed st"
| "udisks_step q (UdExecute rid op target) st = udisks_execute rid op target st"
| "udisks_step q (UdOwnerReply i reply) st = udisks_owner_reply i reply st"
| "udisks_step q (UdRefreshReply i reply fresh) st = udisks_refresh_reply q i reply fresh st"
| "udisks_step q (UdExecReply i reply) st = udisks_exec_reply q i reply st"
| "udisks_step q UdTimer st = udisks_timer st"

end
