(* ===== verification/UDisks2_Refresh.thy ===== *)
theory UDisks2_Refresh
  imports UDisks2_Backend
begin

text \<open>
  \<open>UDisks2Backend\<close> follows the refresh protocol: the contract of \<open>refreshing_client\<close> is discharged on
  the model of the class, and the properties of its snapshots and completions rest on it.
\<close>

section \<open>The backend follows the refresh protocol\<close>

definition udisks_view :: "udisks_state \<Rightarrow> refresh_view" where
  "udisks_view st = \<lparr>rv_gen = ud_generation st, rv_rev = ud_revision st, rv_busy = ud_refreshing st,
     rv_live = (ud_owner st \<noteq> ''''), rv_calls = ud_refresh_calls st\<rparr>"

definition udisks_good :: "udisks_state \<Rightarrow> bool" where
  "udisks_good st \<longleftrightarrow> (ud_owner st \<noteq> '''' \<longrightarrow> ud_started st)"

definition udisks_publishes :: "udisks_output list \<Rightarrow> bool" where
  "udisks_publishes out = list_ex (\<lambda>o'. case o' of UdSnapshot _ _ _ \<Rightarrow> True | _ \<Rightarrow> False) out"

lemma udisks_view_sel [simp]:
  "rv_gen (udisks_view st) = ud_generation st" "rv_rev (udisks_view st) = ud_revision st"
  "rv_busy (udisks_view st) = ud_refreshing st" "rv_live (udisks_view st) = (ud_owner st \<noteq> '''')"
  "rv_calls (udisks_view st) = ud_refresh_calls st"
  by (simp_all add: udisks_view_def)

lemma udisks_refresh_view: "udisks_view (fst (udisks_refresh st)) = refresh_go (udisks_view st)"
  by (simp add: udisks_refresh_def refresh_go_def udisks_view_def)

lemma udisks_refresh_same [simp]:
  "ud_owner (fst (udisks_refresh st)) = ud_owner st" "ud_started (fst (udisks_refresh st)) = ud_started st"
  "ud_ids (fst (udisks_refresh st)) = ud_ids st" "ud_revision (fst (udisks_refresh st)) = ud_revision st"
  "ud_generation (fst (udisks_refresh st)) = ud_generation st"
  "ud_completions (fst (udisks_refresh st)) = ud_completions st"
  "ud_exec_calls (fst (udisks_refresh st)) = ud_exec_calls st"
  "ud_timers (fst (udisks_refresh st)) = ud_timers st"
  "ud_refreshing (fst (udisks_refresh st)) = (ud_refreshing st \<or> ud_owner st \<noteq> '''')"
  by (simp_all add: udisks_refresh_def)

lemma udisks_changed_same [simp]:
  "ud_owner (fst (udisks_changed st)) = ud_owner st" "ud_started (fst (udisks_changed st)) = ud_started st"
  "ud_ids (fst (udisks_changed st)) = ud_ids st"
  "ud_generation (fst (udisks_changed st)) = ud_generation st"
  "ud_completions (fst (udisks_changed st)) = ud_completions st"
  "ud_exec_calls (fst (udisks_changed st)) = ud_exec_calls st"
  "ud_timers (fst (udisks_changed st)) = ud_timers st"
  "ud_revision (fst (udisks_changed st)) = ud_revision st + 1"
  by (simp_all add: udisks_changed_def Let_def)

lemma udisks_changed_view:
  "udisks_good st \<Longrightarrow> udisks_view (fst (udisks_changed st)) =
     refresh_go (udisks_view st\<lparr>rv_rev := ud_revision st + 1\<rparr>)"
  by (auto simp: udisks_changed_def Let_def udisks_refresh_def udisks_good_def udisks_view_def refresh_go_def)

lemma udisks_set_owner_view:
  "udisks_view (fst (udisks_set_owner owner st)) =
     refresh_go (udisks_view st\<lparr>rv_gen := ud_generation st + 1, rv_rev := ud_revision st + 1,
       rv_busy := False, rv_live := (owner \<noteq> '''')\<rparr>)"
  by (auto simp: udisks_set_owner_def Let_def split_beta udisks_refresh_view)
    (simp_all add: udisks_view_def refresh_go_def)

lemma udisks_set_owner_same [simp]:
  "ud_owner (fst (udisks_set_owner owner st)) = owner"
  "ud_started (fst (udisks_set_owner owner st)) = ud_started st"
  "ud_ids (fst (udisks_set_owner owner st)) = []"
  "ud_completions (fst (udisks_set_owner owner st)) = []"
  "ud_exec_calls (fst (udisks_set_owner owner st)) = ud_exec_calls st"
  "ud_timers (fst (udisks_set_owner owner st)) = ud_timers st"
  "ud_generation (fst (udisks_set_owner owner st)) = ud_generation st + 1"
  by (auto simp: udisks_set_owner_def Let_def split_beta)

lemma udisks_publish_same [simp]:
  "ud_owner (fst (udisks_publish q fresh objects st)) = ud_owner st"
  "ud_started (fst (udisks_publish q fresh objects st)) = ud_started st"
  "ud_completions (fst (udisks_publish q fresh objects st)) = ud_completions st"
  "ud_exec_calls (fst (udisks_publish q fresh objects st)) = ud_exec_calls st"
  "ud_timers (fst (udisks_publish q fresh objects st)) = ud_timers st"
  "ud_generation (fst (udisks_publish q fresh objects st)) = ud_generation st"
  "ud_refreshing (fst (udisks_publish q fresh objects st)) = ud_refreshing st"
  "ud_ids (fst (udisks_publish q fresh objects st)) = publish_ids fresh objects (ud_ids st)"
  "udisks_view (fst (udisks_publish q fresh objects st)) = udisks_view st"
  by (simp_all add: udisks_publish_def udisks_view_def Let_def)

lemma udisks_good_view:
  "udisks_good st \<Longrightarrow> ud_owner st' = ud_owner st \<Longrightarrow> ud_started st' = ud_started st \<Longrightarrow> udisks_good st'"
  by (simp add: udisks_good_def)

lemma udisks_refresh_reply_view:
  assumes "i < length (ud_refresh_calls st)"
  shows "\<exists>used. refresh_answer i (udisks_view st) =
      (udisks_view (fst (udisks_refresh_reply q i reply fresh st)), used) \<and>
    (used \<longrightarrow> udisks_publishes (snd (udisks_refresh_reply q i reply fresh st)))"
proof -
  obtain g r where c: "ud_refresh_calls st ! i = (g, r)" by fastforce
  let ?st1 = "st\<lparr>ud_refresh_calls := remove_row i (ud_refresh_calls st)\<rparr>"
  let ?st2 = "?st1\<lparr>ud_refreshing := False\<rparr>"
  have v1: "udisks_view ?st1 = (udisks_view st)\<lparr>rv_calls := remove_row i (ud_refresh_calls st)\<rparr>"
    and v2: "udisks_view ?st2 = (udisks_view st)\<lparr>rv_calls := remove_row i (ud_refresh_calls st), rv_busy := False\<rparr>"
    and upd: "udisks_view (st'\<lparr>ud_ids := x\<rparr>) = udisks_view st'" "udisks_view (st'\<lparr>ud_completions := y\<rparr>) = udisks_view st'"
    for st' x y
    by (simp_all add: udisks_view_def)
  consider (stale) "g \<noteq> ud_generation st" | (outdated) "g = ud_generation st" "r \<noteq> ud_revision st"
    | (current) "g = ud_generation st" "r = ud_revision st" by blast
  then show ?thesis
  proof cases
    case stale
    then show ?thesis using assms c v1
      by (auto simp: udisks_refresh_reply_def refresh_answer_def Let_def)
  next
    case outdated
    then show ?thesis using assms c
      by (auto simp: udisks_refresh_reply_def refresh_answer_def Let_def udisks_refresh_view v2)
  next
    case current
    then show ?thesis using assms c
      by (cases reply) (auto simp: udisks_refresh_reply_def refresh_answer_def Let_def split_beta
          udisks_publishes_def udisks_publish_def v2 upd)
  qed
qed

lemma udisks_refresh_reply_same:
  "ud_owner (fst (udisks_refresh_reply q i reply fresh st)) = ud_owner st"
  "ud_started (fst (udisks_refresh_reply q i reply fresh st)) = ud_started st"
  by (auto simp: udisks_refresh_reply_def Let_def split_beta split: option.splits)

lemma udisks_owner_reply_cases:
  obtains (none) "udisks_view (fst (udisks_owner_reply i reply st)) = udisks_view st"
    | (set) o' c where "fst (udisks_owner_reply i reply st) = fst (udisks_set_owner o' (st\<lparr>ud_owner_calls := c\<rparr>))"
        "ud_started st"
proof -
  let ?st = "st\<lparr>ud_owner_calls := remove_row i (ud_owner_calls st)\<rparr>"
  have v: "udisks_view ?st = udisks_view st" by (simp add: udisks_view_def)
  show thesis
  proof (cases "i < length (ud_owner_calls st) \<and> ud_started st \<and> ud_owner_calls st ! i = ud_generation st")
    case True
    then show thesis
      using none set v
      by (cases "reply = Inl ''org.freedesktop.DBus.Error.NameHasNoOwner''"; cases reply)
        (auto simp: udisks_owner_reply_def Let_def)
  next
    case False
    then show thesis
      using none v by (auto simp: udisks_owner_reply_def Let_def)
  qed
qed

lemma udisks_exec_reply_cases:
  obtains (none) "udisks_view (fst (udisks_exec_reply q i reply st)) = udisks_view st"
    | (changed) c d where "fst (udisks_exec_reply q i reply st) =
        fst (udisks_changed (st\<lparr>ud_exec_calls := c, ud_completions := d\<rparr>))"
proof -
  have v: "udisks_view (st\<lparr>ud_exec_calls := c\<rparr>) = udisks_view st" for c by (simp add: udisks_view_def)
  show thesis
  proof (cases "i < length (ud_exec_calls st) \<and> fst (ud_exec_calls st ! i) = ud_generation st")
    case True
    show thesis
      by (rule changed) (use True in \<open>simp add: udisks_exec_reply_def Let_def split_beta\<close>)
  next
    case False
    show thesis
      by (rule none) (use False v in \<open>auto simp: udisks_exec_reply_def Let_def split_beta\<close>)
  qed
qed

lemma udisks_step_good:
  assumes "udisks_good st"
  shows "udisks_good (fst (udisks_step q ev st))"
  using assms
  by (cases ev) (auto simp: udisks_good_def udisks_start_def udisks_stop_def udisks_owner_changed_def
      udisks_interfaces_removed_def udisks_execute_def udisks_owner_reply_def udisks_exec_reply_def
      udisks_timer_def udisks_refresh_reply_same Let_def split_beta split: list.splits sum.splits)

lemma udisks_step_view:
  assumes good: "udisks_good st" and step: "udisks_step q ev st = (st', out)"
  shows "\<exists>used. refresh_step used (udisks_view st) (udisks_view st') \<and> (used \<longrightarrow> udisks_publishes out)"
proof -
  have same: "?thesis" if "udisks_view st' = udisks_view st"
    using that refresh_step.quiet [of "udisks_view st"] by auto
  have changed: "\<exists>used. refresh_step used (udisks_view st) (udisks_view (fst (udisks_changed st0))) \<and>
      (used \<longrightarrow> P)" if "udisks_good st0" "udisks_view st0 = udisks_view st" for st0 P
    using udisks_changed_view [OF that(1)] refresh_step.notified [of "udisks_view st"] that(2)
    by (metis udisks_view_sel(2))
  have owner: "\<exists>used. refresh_step used (udisks_view st) (udisks_view (fst (udisks_set_owner o' st0))) \<and>
      (used \<longrightarrow> P)" if "udisks_view st0 = udisks_view st" for o' st0 P
    using udisks_set_owner_view [of o' st0] refresh_step.owner [of "udisks_view st"] that
    by (metis udisks_view_sel(1,2))
  have st': "st' = fst (udisks_step q ev st)" "out = snd (udisks_step q ev st)" using step by simp_all
  show ?thesis
  proof (cases ev)
    case (UdRefreshReply i reply fresh)
    show ?thesis
    proof (cases "i < length (ud_refresh_calls st)")
      case True
      then show ?thesis
        unfolding st' UdRefreshReply udisks_step.simps
        using udisks_refresh_reply_view [of i st q reply fresh] refresh_step.answered [of i "udisks_view st"]
        by auto
    next
      case False
      then show ?thesis using same st' UdRefreshReply by (simp add: udisks_refresh_reply_def)
    qed
  next
    case (UdOwnerReply i reply)
    have v: "udisks_view (st\<lparr>ud_owner_calls := c\<rparr>) = udisks_view st" for c by (simp add: udisks_view_def)
    show ?thesis
      by (rule udisks_owner_reply_cases [of i reply st]) (use same owner [OF v] st' UdOwnerReply in auto)
  next
    case (UdExecReply i reply)
    have v: "udisks_view (st\<lparr>ud_exec_calls := c, ud_completions := d\<rparr>) = udisks_view st"
      for c d by (simp add: udisks_view_def)
    have g: "udisks_good (st\<lparr>ud_exec_calls := c, ud_completions := d\<rparr>)" for c d
      using good by (simp add: udisks_good_def)
    show ?thesis
      by (rule udisks_exec_reply_cases [of q i reply st]) (use same changed [OF g v] st' UdExecReply in auto)
  next
    case (UdInterfacesRemoved path interfaces)
    then show ?thesis unfolding st'
      by (simp add: udisks_interfaces_removed_def, intro changed)
        (use good in \<open>simp_all add: udisks_good_def udisks_view_def\<close>)
  next
    case UdStop
    have v: "udisks_view (st\<lparr>ud_started := False\<rparr>) = udisks_view st" by (simp add: udisks_view_def)
    show ?thesis unfolding st' UdStop
      using owner [OF v] refresh_step.quiet [of "udisks_view st"]
      by (auto simp: udisks_stop_def split_beta Let_def)
  next
    case (UdOwnerChanged o')
    show ?thesis unfolding st' UdOwnerChanged
      using owner [of st] refresh_step.quiet [of "udisks_view st"]
      by (auto simp: udisks_owner_changed_def)
  qed (use st' same changed [OF good] in \<open>auto simp: udisks_start_def udisks_execute_def udisks_timer_def
      udisks_view_def Let_def split: list.splits\<close>)
qed

text \<open>The events that report a change of the objects: the three signals of the service, and the reply to a
  command sent to the current owner.\<close>

definition udisks_notifies :: "'v udisks_event \<Rightarrow> udisks_state \<Rightarrow> bool" where
  "udisks_notifies ev st = (case ev of UdInterfacesAdded \<Rightarrow> True | UdInterfacesRemoved _ _ \<Rightarrow> True
     | UdPropertiesChanged \<Rightarrow> True
     | UdExecReply i _ \<Rightarrow> i < length (ud_exec_calls st) \<and> fst (ud_exec_calls st ! i) = ud_generation st
     | _ \<Rightarrow> False)"

lemma udisks_notified_view:
  assumes "udisks_good st" and "udisks_notifies ev st"
  shows "udisks_view (fst (udisks_step q ev st)) = refresh_go (udisks_view st\<lparr>rv_rev := ud_revision st + 1\<rparr>)"
proof -
  have changed: "udisks_view (fst (udisks_changed st0)) = refresh_go (udisks_view st\<lparr>rv_rev := ud_revision st + 1\<rparr>)"
    if "udisks_view st0 = udisks_view st" "ud_started st0 = ud_started st" for st0
  proof -
    have "udisks_good st0 = udisks_good st" using that by (simp add: udisks_good_def) (metis udisks_view_sel(4))
    then show ?thesis using udisks_changed_view [of st0] assms(1) that(1) by (metis udisks_view_sel(2))
  qed
  show ?thesis
  proof (cases ev)
    case (UdExecReply i reply)
    obtain c d where "fst (udisks_exec_reply q i reply st) =
        fst (udisks_changed (st\<lparr>ud_exec_calls := c, ud_completions := d\<rparr>))"
      using assms(2) UdExecReply by (auto simp: udisks_notifies_def udisks_exec_reply_def Let_def split_beta)
    moreover have "udisks_view (st\<lparr>ud_exec_calls := c, ud_completions := d\<rparr>) = udisks_view st"
      by (simp add: udisks_view_def)
    ultimately show ?thesis using changed UdExecReply by simp
  next
    case (UdInterfacesRemoved path interfaces)
    have "udisks_view (st\<lparr>ud_ids := x\<rparr>) = udisks_view st" for x by (simp add: udisks_view_def)
    then show ?thesis using changed UdInterfacesRemoved by (simp add: udisks_interfaces_removed_def)
  qed (use assms(2) changed in \<open>simp_all add: udisks_notifies_def\<close>)
qed

text \<open>A refresh ends with the loss of the owner or with the reply to a call that no change has outdated.\<close>

lemma udisks_refresh_ends:
  assumes "udisks_good st" and busy: "ud_refreshing st" and live: "ud_owner st \<noteq> ''''"
    and idle: "\<not> ud_refreshing (fst (udisks_step q ev st))"
  shows "udisks_publishes (snd (udisks_step q ev st)) \<and> (ud_owner (fst (udisks_step q ev st)) = '''' \<or>
    (\<exists>k reply fresh. ev = UdRefreshReply k reply fresh \<and> k < length (ud_refresh_calls st) \<and>
       ud_refresh_calls st ! k = (ud_generation st, ud_revision st)))"
proof -
  have changed: "ud_refreshing (fst (udisks_changed st0)) = (ud_refreshing st0 \<or> ud_started st0 \<and> ud_owner st0 \<noteq> '''')" for st0
    by (auto simp: udisks_changed_def Let_def)
  have owner: "ud_refreshing (fst (udisks_set_owner o' st0)) = (o' \<noteq> '''')"
    and pub: "udisks_publishes (snd (udisks_set_owner o' st0))" for o' st0
    by (auto simp: udisks_set_owner_def Let_def split_beta udisks_publishes_def)
  show ?thesis
  proof (cases ev)
    case (UdRefreshReply k reply fresh)
    let ?r = "udisks_refresh_reply q k reply fresh st"
    have k: "k < length (ud_refresh_calls st)"
      by (rule ccontr) (use busy idle UdRefreshReply in \<open>simp add: udisks_refresh_reply_def\<close>)
    obtain used where ans: "refresh_answer k (udisks_view st) = (udisks_view (fst ?r), used)"
        "used \<longrightarrow> udisks_publishes (snd ?r)"
      using udisks_refresh_reply_view [OF k] by blast
    have "\<not> rv_busy (udisks_view (fst ?r))" using idle UdRefreshReply by simp
    with ans(1) have "used \<and> ud_refresh_calls st ! k = (ud_generation st, ud_revision st)"
      using busy live by (cases rule: refresh_answer_cases) simp_all
    then show ?thesis using ans(2) k UdRefreshReply by simp
  next
    case (UdOwnerReply i reply)
    then show ?thesis using busy idle owner pub
      by (auto simp: udisks_owner_reply_def Let_def split: if_splits sum.splits)
  next
    case UdStop
    then show ?thesis using busy idle owner [of "[]"] pub [of "[]"]
      by (simp add: udisks_stop_def Let_def split_beta udisks_publishes_def split: if_splits)
  qed (use busy idle owner pub changed in \<open>auto simp: udisks_start_def udisks_owner_changed_def
      udisks_interfaces_removed_def udisks_execute_def udisks_exec_reply_def udisks_timer_def Let_def split_beta
      split: if_splits list.splits\<close>)
qed

interpretation udisks: refreshing_client udisks_view udisks_good "udisks_step q" "udisks_init service"
  "\<lambda>i (reply, fresh). UdRefreshReply i reply fresh" udisks_publishes udisks_notifies
  for q :: "'v qvariant_ops" and service
proof unfold_locales
  show "udisks_view (udisks_init service) = refresh_start"
    by (simp add: udisks_view_def udisks_init_def refresh_start_def)
  show "udisks_good (udisks_init service)" by (simp add: udisks_good_def udisks_init_def)
  show "udisks_good (fst (udisks_step q ev st))" if "udisks_good st" for ev st
    using udisks_step_good that .
  show "\<exists>used. refresh_step used (udisks_view st) (udisks_view st') \<and> (used \<longrightarrow> udisks_publishes out)"
    if "udisks_good st" "udisks_step q ev st = (st', out)" for ev st st' out
    using udisks_step_view that .
  show "\<exists>used. refresh_answer i (udisks_view st) =
      (udisks_view (fst (udisks_step q (case r of (reply, fresh) \<Rightarrow> UdRefreshReply i reply fresh) st)), used)"
    if "udisks_good st" "i < length (rv_calls (udisks_view st))" for st i r
    using that(2) udisks_refresh_reply_view [of i st q "fst r" "snd r"] by (auto simp: split_beta)
  show "udisks_view (fst (udisks_step q ev st)) = refresh_go (udisks_view st\<lparr>rv_rev := rv_rev (udisks_view st) + 1\<rparr>)"
    if "udisks_good st" "udisks_notifies ev st" for ev st
    using udisks_notified_view [OF that] by simp
  show "udisks_publishes out \<and> (\<not> rv_live (udisks_view st') \<or>
      (\<exists>i r. ev = (case r of (reply, fresh) \<Rightarrow> UdRefreshReply i reply fresh) \<and> i < length (rv_calls (udisks_view st)) \<and>
        rv_calls (udisks_view st) ! i = (rv_gen (udisks_view st), rv_rev (udisks_view st))))"
    if "udisks_good st" "udisks_step q ev st = (st', out)" "rv_busy (udisks_view st)" "rv_live (udisks_view st)" "\<not> rv_busy (udisks_view st')"
    for ev st st' out
    using udisks_refresh_ends [OF that(1), of q ev] that(2-5) by auto
qed


section \<open>Properties of the refresh\<close>

abbreviation udisks_run :: "'v qvariant_ops \<Rightarrow> string \<Rightarrow> 'v udisks_event list \<Rightarrow> udisks_state" where
  "udisks_run q service evs \<equiv> udisks.run q service evs"

lemma udisks_run_eq:
  "udisks_run q service evs = fold (\<lambda>ev st. fst (udisks_step q ev st)) evs (udisks_init service)"
  by (rule udisks.run_def)

lemma udisks_publishes_iff:
  "udisks_publishes out \<longleftrightarrow> (\<exists>ds vs a. UdSnapshot ds vs a \<in> set out)"
proof (induction out)
  case (Cons x out)
  then show ?case by (cases x) (auto simp: udisks_publishes_def)
qed (simp add: udisks_publishes_def)

text \<open>C6. No change of UDisks2 is lost. Take a change the service notifies, or the reply to a command of the
  current owner, and any events after it: the calls of GetManagedObjects in flight before carry an older
  revision, and afterwards either a call to the current owner is in flight, or in between the
  application was given a snapshot, either that the service is lost or that of the reply to a call sent
  after the change.\<close>

theorem udisks_no_lost_update:
  assumes "length (evs @ ev # evs') < 2 ^ 64" and "udisks_notifies ev (udisks_run q service evs)"
    and "ud_owner (udisks_run q service evs) \<noteq> ''''"
  shows "(\<forall>c \<in> set (ud_refresh_calls (udisks_run q service evs)).
      snd c < ud_revision (udisks_run q service (evs @ [ev]))) \<and>
    (ud_refreshing (udisks_run q service (evs @ ev # evs')) \<and>
       (\<exists>r. (ud_generation (udisks_run q service (evs @ ev # evs')), r)
          \<in> set (ud_refresh_calls (udisks_run q service (evs @ ev # evs')))) \<or>
     (\<exists>us e vs drives volumes available. evs' = us @ e # vs \<and>
        UdSnapshot drives volumes available \<in> set (snd (udisks_step q e (udisks_run q service (evs @ ev # us)))) \<and>
        (ud_owner (fst (udisks_step q e (udisks_run q service (evs @ ev # us)))) = '''' \<or>
         (\<exists>k reply fresh. e = UdRefreshReply k reply fresh \<and>
            k < length (ud_refresh_calls (udisks_run q service (evs @ ev # us))) \<and>
            ud_revision (udisks_run q service (evs @ [ev]))
              \<le> snd (ud_refresh_calls (udisks_run q service (evs @ ev # us)) ! k)))))"
  using udisks.change_reported [OF assms(1,2)] assms(3) udisks.busy_call [OF assms(1), of q service]
  by (auto simp: udisks.reports_since_def udisks_publishes_iff)

text \<open>The flag \<open>refreshing_\<close> is accurate and calls are coalesced: of the calls in flight exactly one
  belongs to the current owner while the flag is set, and none while it is clear.\<close>

theorem udisks_one_call:
  assumes "length evs < 2 ^ 64"
  shows "length (filter (\<lambda>c. fst c = ud_generation (udisks_run q service evs))
      (ud_refresh_calls (udisks_run q service evs))) =
    (if ud_refreshing (udisks_run q service evs) then 1 else 0)"
  using udisks.refreshing_iff_call [OF assms, of q service] by (simp add: current_calls_def)

text \<open>Refreshing comes to rest: whenever a refresh is under way, two replies end it if no
  notification arrives in between, whatever the replies hold.\<close>

theorem udisks_refresh_settles:
  assumes "length evs < 2 ^ 64" and "ud_refreshing (udisks_run q service evs)"
  shows "\<exists>i. \<forall>reply fresh. \<not> ud_refreshing (udisks_run q service (evs @ [UdRefreshReply i reply fresh])) \<or>
    (\<exists>j. \<forall>reply' fresh'. \<not> ud_refreshing
       (udisks_run q service (evs @ [UdRefreshReply i reply fresh, UdRefreshReply j reply' fresh'])))"
  using udisks.two_answers [OF assms(1), of q service] assms(2) by simp

lemma udisks_exec_reply_bumps:
  assumes "i < length (ud_exec_calls st)" and "fst (ud_exec_calls st ! i) = ud_generation st"
  shows "ud_revision (fst (udisks_exec_reply q i reply st)) = ud_revision st + 1"
  using assms by (simp add: udisks_exec_reply_def Let_def split_beta)

lemma refresh_no_finished [simp]: "UdFinished r \<notin> set (snd (udisks_refresh st))"
  by (simp add: udisks_refresh_def)

lemma changed_no_finished [simp]: "UdFinished r \<notin> set (snd (udisks_changed st))"
  by (simp add: udisks_changed_def Let_def)

lemma set_owner_no_finished [simp]: "UdFinished r \<notin> set (snd (udisks_set_owner owner st))"
  by (auto simp: udisks_set_owner_def Let_def split_beta)

lemma udisks_finished_cases:
  assumes "UdFinished r \<in> set (snd (udisks_step q ev st))" and "ev \<noteq> UdTimer"
  obtains k reply fresh where "ev = UdRefreshReply k reply fresh" "k < length (ud_refresh_calls st)"
    "ud_refresh_calls st ! k = (ud_generation st, ud_revision st)"
proof (cases ev)
  case (UdRefreshReply k reply fresh)
  then have mem: "UdFinished r \<in> set (snd (udisks_refresh_reply q k reply fresh st))" using assms(1) by simp
  obtain g rv where c: "ud_refresh_calls st ! k = (g, rv)" by fastforce
  have "k < length (ud_refresh_calls st)" "g = ud_generation st" "rv = ud_revision st"
    using mem c by (auto simp: udisks_refresh_reply_def Let_def split: if_splits)
  then show thesis using that UdRefreshReply c by blast
next
  case (UdOwnerReply i reply)
  have "snd (udisks_owner_reply i reply st) = [] \<or> snd (udisks_owner_reply i reply st) = [UdSnapshot [] [] False] \<or>
      (\<exists>o' st0. snd (udisks_owner_reply i reply st) = snd (udisks_set_owner o' st0))"
    by (auto simp: udisks_owner_reply_def Let_def split: sum.split)
  then show thesis using assms(1) UdOwnerReply by auto
next
  case (UdExecReply i reply)
  have "snd (udisks_exec_reply q i reply st) = [] \<or>
      (\<exists>st0. snd (udisks_exec_reply q i reply st) = snd (udisks_changed st0))"
    by (auto simp: udisks_exec_reply_def Let_def split_beta)
  then show thesis using assms(1) UdExecReply by auto
qed (use assms in \<open>auto simp: udisks_start_def udisks_stop_def udisks_owner_changed_def
    udisks_interfaces_removed_def udisks_execute_def Let_def split_beta split: if_splits\<close>)

text \<open>The calls of GetManagedObjects in flight when the reply to a command arrives are older than the revision of
  every later state.\<close>

lemma exec_reply_later:
  assumes "length (evs @ [UdExecReply i reply] @ evs') < 2 ^ 64"
    and "i < length (ud_exec_calls (udisks_run q service evs))"
    and "fst (ud_exec_calls (udisks_run q service evs) ! i) = ud_generation (udisks_run q service evs)"
  shows "\<forall>c \<in> set (ud_refresh_calls (udisks_run q service evs)).
      snd c < ud_revision (udisks_run q service (evs @ [UdExecReply i reply]))"
    and "ud_revision (udisks_run q service (evs @ [UdExecReply i reply]))
      \<le> ud_revision (udisks_run q service (evs @ [UdExecReply i reply] @ evs'))"
proof -
  let ?st = "udisks_run q service evs"
  have inv: "refresh_inv (length evs) (udisks_view ?st)"
    using udisks.run_inv [of evs q service] assms(1) by simp
  have bump: "ud_revision (udisks_run q service (evs @ [UdExecReply i reply])) = ud_revision ?st + 1"
    using udisks_exec_reply_bumps [OF assms(2,3)] by (simp add: udisks.run_snoc)
  show "\<forall>c \<in> set (ud_refresh_calls ?st). snd c < ud_revision (udisks_run q service (evs @ [UdExecReply i reply]))"
    unfolding bump
    using inv word_next [of "ud_revision ?st" "length evs"] assms(1)
    by (auto simp: refresh_inv_def order_le_less)
  show "ud_revision (udisks_run q service (evs @ [UdExecReply i reply]))
      \<le> ud_revision (udisks_run q service (evs @ [UdExecReply i reply] @ evs'))"
    using udisks.run_rev_mono [of "evs @ [UdExecReply i reply]" evs' q service] assms(1) by simp
qed

text \<open>A result that waits for a refresh comes from the reply to a command sent to the owner of that time; a
  successful one does not come from an error.\<close>

definition completes_command :: "udisks_state \<Rightarrow> nat \<Rightarrow> 'v dbus_reply \<Rightarrow> storage_result \<Rightarrow> bool" where
  "completes_command st i reply r \<longleftrightarrow> i < length (ud_exec_calls st) \<and> fst (ud_exec_calls st ! i) = ud_generation st \<and>
     sr_request (snd (ud_exec_calls st ! i)) = sr_request r \<and> sr_target (snd (ud_exec_calls st ! i)) = sr_target r \<and>
     sr_operation (snd (ud_exec_calls st ! i)) = sr_operation r \<and>
     (result_succeeded r \<longrightarrow> (\<forall>name message. reply = ReplyError name message \<longrightarrow> name = ''''))"

lemma disappeared_mount_same [simp]:
  "sr_request (disappeared_mount ids r) = sr_request r" "sr_target (disappeared_mount ids r) = sr_target r"
  "sr_operation (disappeared_mount ids r) = sr_operation r"
  by (simp_all add: disappeared_mount_def)

lemma disappeared_mount_success: "sr_error_name (disappeared_mount ids r) = '''' \<Longrightarrow> sr_error_name r = ''''"
  by (auto simp: disappeared_mount_def split: if_splits)

lemma exec_reply_completions:
  assumes "r \<in> set (ud_completions (fst (udisks_exec_reply q i reply st)))"
  shows "r \<in> set (ud_completions st) \<or> completes_command st i reply r"
  using assms
  by (auto simp: udisks_exec_reply_def Let_def split_beta completes_command_def result_succeeded_def
      split: if_splits dbus_reply.splits dest!: disappeared_mount_success)

lemma step_completions:
  assumes "r \<in> set (ud_completions (fst (udisks_step q ev st)))"
  shows "r \<in> set (ud_completions st) \<or> (\<exists>i reply. ev = UdExecReply i reply \<and> completes_command st i reply r)"
proof (cases ev)
  case (UdExecReply i reply)
  then show ?thesis using assms exec_reply_completions [of r q i reply st] by auto
next
  case (UdRefreshReply i reply fresh)
  then show ?thesis using assms
    by (auto simp: udisks_refresh_reply_def Let_def split_beta split: if_splits option.splits)
next
  case (UdOwnerReply i reply)
  then show ?thesis using assms by (auto simp: udisks_owner_reply_def Let_def split: if_splits sum.splits)
qed (use assms in \<open>auto simp: udisks_start_def udisks_stop_def udisks_owner_changed_def udisks_interfaces_removed_def
    udisks_execute_def udisks_timer_def Let_def split_beta split: if_splits list.splits\<close>)

lemma completion_origin:
  "r \<in> set (ud_completions (udisks_run q service evs)) \<Longrightarrow>
   \<exists>us i reply vs. evs = us @ [UdExecReply i reply] @ vs \<and> completes_command (udisks_run q service us) i reply r"
proof (induction evs rule: rev_induct)
  case Nil
  then show ?case unfolding udisks_run_eq by (simp add: udisks_init_def)
next
  case (snoc ev evs)
  from step_completions [OF snoc.prems [unfolded udisks.run_snoc]]
  consider "r \<in> set (ud_completions (udisks_run q service evs))"
    | i reply where "ev = UdExecReply i reply" "completes_command (udisks_run q service evs) i reply r" by blast
  then show ?case
  proof cases
    case 1
    then obtain us i reply vs where "evs = us @ [UdExecReply i reply] @ vs"
        "completes_command (udisks_run q service us) i reply r"
      using snoc.IH by blast
    then show ?thesis by (intro exI [of _ us] exI [of _ i] exI [of _ reply] exI [of _ "vs @ [ev]"]) simp
  next
    case 2
    then show ?thesis by (intro exI [of _ evs] exI [of _ i] exI [of _ reply] exI [of _ "[]"]) simp
  qed
qed

text \<open>A command in flight was sent by a call of \<open>execute\<close> that names its request, operation and target.\<close>

definition sent_by :: "'v udisks_event list \<Rightarrow> storage_result \<Rightarrow> bool" where
  "sent_by evs r \<longleftrightarrow> UdExecute (sr_request r) (sr_operation r) (sr_target r) \<in> set evs"

lemma step_commands:
  assumes "c \<in> set (ud_exec_calls (fst (udisks_step q ev st)))"
  shows "c \<in> set (ud_exec_calls st) \<or> sent_by [ev] (snd c)"
proof (cases ev)
  case (UdExecReply i reply)
  then show ?thesis using assms set_remove_row [of i "ud_exec_calls st"]
    by (auto simp: udisks_exec_reply_def Let_def split_beta split: if_splits)
next
  case (UdExecute rid op target)
  then show ?thesis using assms by (auto simp: udisks_execute_def Let_def sent_by_def split: if_splits)
next
  case (UdOwnerReply i reply)
  then show ?thesis using assms by (auto simp: udisks_owner_reply_def Let_def split: if_splits sum.splits)
next
  case (UdRefreshReply i reply fresh)
  then show ?thesis using assms
    by (auto simp: udisks_refresh_reply_def Let_def split_beta split: if_splits option.splits)
qed (use assms in \<open>auto simp: udisks_start_def udisks_stop_def udisks_owner_changed_def udisks_interfaces_removed_def
    udisks_timer_def Let_def split_beta split: if_splits list.splits\<close>)

lemma command_origin: "c \<in> set (ud_exec_calls (udisks_run q service evs)) \<Longrightarrow> sent_by evs (snd c)"
proof (induction evs rule: rev_induct)
  case Nil
  then show ?case unfolding udisks_run_eq by (simp add: udisks_init_def)
next
  case (snoc ev evs)
  from step_commands [OF snoc.prems [unfolded udisks.run_snoc]] snoc.IH
  show ?case by (auto simp: sent_by_def)
qed

text \<open>C7. The result of a D-Bus command is reported only together with a snapshot that was asked for
  after the command's reply: calls already in flight when the reply arrives carry an older revision,
  and the step that reports completions answers a call with this revision or a later one.\<close>

theorem udisks_completion_after_refresh:
  assumes "length (evs @ [UdExecReply i reply] @ evs') < 2 ^ 64"
    and "i < length (ud_exec_calls (udisks_run q service evs))"
    and "fst (ud_exec_calls (udisks_run q service evs) ! i) = ud_generation (udisks_run q service evs)"
    and "UdFinished r \<in> set (snd (udisks_step q ev (udisks_run q service (evs @ [UdExecReply i reply] @ evs'))))"
    and "ev \<noteq> UdTimer"
  shows "(\<forall>c \<in> set (ud_refresh_calls (udisks_run q service evs)).
      snd c < ud_revision (udisks_run q service (evs @ [UdExecReply i reply]))) \<and>
    (\<exists>k answer fresh c. ev = UdRefreshReply k answer fresh \<and>
      c = ud_refresh_calls (udisks_run q service (evs @ [UdExecReply i reply] @ evs')) ! k \<and>
      ud_revision (udisks_run q service (evs @ [UdExecReply i reply])) \<le> snd c)"
proof
  show "\<forall>c \<in> set (ud_refresh_calls (udisks_run q service evs)).
      snd c < ud_revision (udisks_run q service (evs @ [UdExecReply i reply]))"
    by (rule exec_reply_later(1) [OF assms(1-3)])
  let ?st2 = "udisks_run q service (evs @ [UdExecReply i reply] @ evs')"
  obtain k answer fresh where k: "ev = UdRefreshReply k answer fresh"
      "ud_refresh_calls ?st2 ! k = (ud_generation ?st2, ud_revision ?st2)"
    using udisks_finished_cases [OF assms(4,5)] by metis
  have "ud_revision (udisks_run q service (evs @ [UdExecReply i reply])) \<le> ud_revision ?st2"
    by (rule exec_reply_later(2) [OF assms(1-3)])
  with k show "\<exists>k answer fresh c. ev = UdRefreshReply k answer fresh \<and>
      c = ud_refresh_calls ?st2 ! k \<and>
      ud_revision (udisks_run q service (evs @ [UdExecReply i reply])) \<le> snd c"
    by auto
qed


section \<open>A concrete run\<close>

text \<open>The service has one owner and one unmounted block device, which is then mounted.\<close>

definition demo_objects :: "demo_value dbus_objects" where
  "demo_objects = [(''/b'', [(block_interface, [(''IdLabel'', DText ''usb'')]),
     (filesystem_interface, [(''MountPoints'', DTexts [])])])]"

definition demo_owned :: "demo_value udisks_event list" where
  "demo_owned = [UdStart, UdOwnerReply 0 (Inr '':1'')]"

definition demo_mounting :: "demo_value udisks_event list" where
  "demo_mounting = demo_owned @ [UdRefreshReply 0 (Some demo_objects) demo_fresh,
     UdExecute ''r'' Mount ''i'', UdPropertiesChanged]"

abbreviation "demo_ud evs \<equiv> udisks_run demo_ops ''org.freedesktop.UDisks2'' evs"

abbreviation "demo_answer \<equiv> (UdRefreshReply 0 (Some demo_objects) demo_fresh :: demo_value udisks_event)"

text \<open>While the first reply is outstanding a change is notified: that reply is not published.\<close>

lemma udisks_no_lost_update_witness:
  "\<exists>r. (ud_generation (demo_ud (demo_owned @ [UdPropertiesChanged, demo_answer])), r)
     \<in> set (ud_refresh_calls (demo_ud (demo_owned @ [UdPropertiesChanged, demo_answer])))"
proof -
  have owner: "ud_owner (demo_ud demo_owned) \<noteq> ''''" and
    quiet: "snd (udisks_step demo_ops demo_answer (demo_ud (demo_owned @ [UdPropertiesChanged]))) = [UdGetManagedObjects '':1'']"
    unfolding udisks_run_eq by code_simp+
  have len: "length (demo_owned @ [UdPropertiesChanged, demo_answer]) < 2 ^ 64" by (simp add: demo_owned_def)
  have change: "udisks_notifies UdPropertiesChanged (demo_ud demo_owned)" by (simp add: udisks_notifies_def)
  show ?thesis
    using conjunct2 [OF udisks_no_lost_update [OF len change owner]] quiet
    by (auto simp: Cons_eq_append_conv)
qed

lemma udisks_one_call_witness:
  "length (filter (\<lambda>c. fst c = ud_generation (demo_ud demo_owned)) (ud_refresh_calls (demo_ud demo_owned))) = 1"
proof -
  have "ud_refreshing (demo_ud demo_owned)" unfolding udisks_run_eq by code_simp
  then show ?thesis using udisks_one_call [of demo_owned] by (simp add: demo_owned_def)
qed

lemma udisks_refresh_settles_witness:
  "\<exists>i. \<forall>reply fresh. \<not> ud_refreshing (demo_ud (demo_owned @ [UdRefreshReply i reply fresh])) \<or>
    (\<exists>j. \<forall>reply' fresh'. \<not> ud_refreshing
       (demo_ud (demo_owned @ [UdRefreshReply i reply fresh, UdRefreshReply j reply' fresh'])))"
proof (rule udisks_refresh_settles)
  show "ud_refreshing (demo_ud demo_owned)" unfolding udisks_run_eq by code_simp
qed (simp add: demo_owned_def)

abbreviation "demo_done \<equiv> (UdExecReply 0 (ReplyValues [DText ''/run/media/usb'']) :: demo_value udisks_event)"

lemma udisks_completion_after_refresh_witness:
  "\<exists>r. UdFinished r \<in> set (snd (udisks_step demo_ops demo_answer
      (demo_ud (demo_mounting @ [demo_done] @ [demo_answer])))) \<and> sr_mount_path r = ''/run/media/usb'' \<and>
   (\<forall>c \<in> set (ud_refresh_calls (demo_ud demo_mounting)).
      snd c < ud_revision (demo_ud (demo_mounting @ [demo_done])))"
proof -
  let ?r = "(success_of ''r'')\<lparr>sr_target := ''i'', sr_mount_path := ''/run/media/usb''\<rparr>"
  have fin: "UdFinished ?r \<in> set (snd (udisks_step demo_ops demo_answer
      (demo_ud (demo_mounting @ [demo_done] @ [demo_answer]))))"
    and call: "0 < length (ud_exec_calls (demo_ud demo_mounting))"
      "fst (ud_exec_calls (demo_ud demo_mounting) ! 0) = ud_generation (demo_ud demo_mounting)"
    unfolding udisks_run_eq by code_simp+
  have len: "length (demo_mounting @ [demo_done] @ [demo_answer]) < 2 ^ 64"
    by (simp add: demo_mounting_def demo_owned_def)
  have "\<forall>c \<in> set (ud_refresh_calls (demo_ud demo_mounting)).
      snd c < ud_revision (demo_ud (demo_mounting @ [demo_done]))"
    using udisks_completion_after_refresh [OF len call fin] by simp
  moreover have "sr_mount_path ?r = ''/run/media/usb''" by simp
  ultimately show ?thesis using fin by blast
qed

end
