(* ===== verification/UDisks2_Snapshots.thy ===== *)
theory UDisks2_Snapshots
  imports UDisks2_Refresh
begin

text \<open>
  The contents of the snapshots of \<open>UDisks2Backend\<close>: the identifiers it assigns, the target a command
  is sent to, what a volume inherits from its crypto backing devices, and the accounting of commands.
\<close>

section \<open>Identifiers\<close>

definition ids_ok :: "(string, string) qhash \<Rightarrow> bool" where
  "ids_ok ids \<longleftrightarrow> hash_ok ids \<and> distinct (map snd ids) \<and> '''' \<notin> snd ` set ids"

lemma ids_ok_Nil [simp]: "ids_ok []"
  by (simp add: ids_ok_def hash_ok_def)

lemma ids_ok_filter: "ids_ok m \<Longrightarrow> ids_ok (filter P m)"
  by (auto simp: ids_ok_def hash_ok_def distinct_map_filter)

text \<open>\<open>QUuid::createUuid\<close> never repeats an identifier and never returns an empty one.\<close>

definition fresh_ok :: "(nat \<Rightarrow> string) \<Rightarrow> (string, string) qhash \<Rightarrow> bool" where
  "fresh_ok fresh ids \<longleftrightarrow> inj fresh \<and> '''' \<notin> range fresh \<and> range fresh \<inter> snd ` set ids = {}"

lemma hash_insert_absent: "hash_value m k = None \<Longrightarrow> hash_insert k v m = m @ [(k, v)]"
  by (induction m) (auto split: if_splits)

lemma id_for_ok:
  assumes "ids_ok ids"
  shows "id_for fresh k (ids, n) =
    (if hash_contains ids k then (ids, n) else (ids @ [(k, fresh n)], Suc n))"
proof (cases "hash_value ids k")
  case None
  then show ?thesis by (simp add: id_for_def hash_insert_absent)
next
  case (Some i)
  then have "i \<noteq> ''''" using assms map_of_SomeD [of ids k i] by (force simp: ids_ok_def)
  with Some show ?thesis by (simp add: id_for_def)
qed

text \<open>What the first loop of \<open>publish\<close> has established after some of the keys.\<close>

definition reserved ::
  "(nat \<Rightarrow> string) \<Rightarrow> (string, string) qhash \<Rightarrow> string list \<Rightarrow> (string, string) qhash \<times> nat \<Rightarrow> bool" where
  "reserved fresh ids0 keys = (\<lambda>(ids, n). ids_ok ids \<and>
     snd ` set ids \<subseteq> snd ` set ids0 \<union> fresh ` {..<n} \<and>
     (\<forall>k \<in> set keys. hash_contains ids k) \<and>
     (\<forall>k i. hash_value ids0 k = Some i \<longrightarrow> hash_value ids k = Some i))"

lemma reserved_step:
  assumes "reserved fresh ids0 keys r" and "fresh_ok fresh ids0"
  shows "reserved fresh ids0 (k # keys) (id_for fresh k r)"
proof -
  obtain ids n where r: "r = (ids, n)" by (cases r)
  have ok: "ids_ok ids" and vals: "snd ` set ids \<subseteq> snd ` set ids0 \<union> fresh ` {..<n}"
    using assms(1) r by (auto simp: reserved_def)
  show ?thesis
  proof (cases "hash_contains ids k")
    case True
    then show ?thesis using assms(1) r by (auto simp: id_for_ok [OF ok] reserved_def)
  next
    case False
    then have absent: "k \<notin> fst ` set ids" by (simp add: map_of_eq_None_iff)
    have new: "fresh n \<noteq> ''''" using assms(2) unfolding fresh_ok_def by (metis rangeI)
    have "fresh n \<notin> fresh ` {..<n}" "fresh n \<notin> snd ` set ids0"
      using assms(2) by (auto simp: fresh_ok_def inj_eq)
    then have new': "fresh n \<notin> snd ` set ids" using vals by blast
    have "ids_ok (ids @ [(k, fresh n)])"
      using ok new new' absent by (auto simp: ids_ok_def hash_ok_def)
    moreover have "snd ` set (ids @ [(k, fresh n)]) \<subseteq> snd ` set ids0 \<union> fresh ` {..<Suc n}"
      using vals by (auto simp: lessThan_Suc)
    moreover have "hash_contains (ids @ [(k, fresh n)]) k'" if "k' \<in> set (k # keys)" for k'
      using that assms(1) r by (auto simp: reserved_def map_add_def split: option.split)
    moreover have "hash_value (ids @ [(k, fresh n)]) k' = Some i" if "hash_value ids0 k' = Some i" for k' i
    proof -
      have "hash_value ids k' = Some i" using that assms(1) r by (simp add: reserved_def)
      then show ?thesis using False by (cases "k' = k") (auto simp: map_add_def)
    qed
    ultimately have "reserved fresh ids0 (k # keys) (ids @ [(k, fresh n)], Suc n)"
      unfolding reserved_def prod.case by blast
    then show ?thesis using False unfolding r id_for_ok [OF ok] by simp
  qed
qed

lemma reserved_fold:
  assumes "reserved fresh ids0 done r" and "fresh_ok fresh ids0"
  shows "reserved fresh ids0 (rev keys @ done) (fold (id_for fresh) keys r)"
  using assms(1)
proof (induction keys arbitrary: "done" r)
  case (Cons k keys)
  then show ?case
    using Cons.IH [OF reserved_step [OF Cons.prems assms(2)], of k] by simp
qed simp

lemma map_of_filter_keys:
  "map_of (filter (\<lambda>(k, _). P k) m) k = (if P k then map_of m k else None)"
  by (induction m) auto

lemma publish_ids_facts:
  assumes "ids_ok ids" and "fresh_ok fresh ids"
  shows "ids_ok (publish_ids fresh objects ids)"
    and "k \<in> set (live_keys objects) \<Longrightarrow> hash_contains (publish_ids fresh objects ids) k"
    and "k \<notin> set (live_keys objects) \<Longrightarrow> hash_value (publish_ids fresh objects ids) k = None"
    and "k \<in> set (live_keys objects) \<Longrightarrow> hash_value ids k = Some i \<Longrightarrow>
      hash_value (publish_ids fresh objects ids) k = Some i"
proof -
  let ?r = "fold (id_for fresh) (live_keys objects) (ids, 0)"
  have "reserved fresh ids [] (ids, 0)" using assms(1) by (auto simp: reserved_def)
  from reserved_fold [OF this assms(2)]
  have res: "reserved fresh ids (rev (live_keys objects)) (fst ?r, snd ?r)" by simp
  have eq: "publish_ids fresh objects ids = filter (\<lambda>(k, _). k \<in> set (live_keys objects)) (fst ?r)"
    by (simp add: publish_ids_def Let_def)
  have "ids_ok (fst ?r)" using res by (simp add: reserved_def split_beta)
  then show "ids_ok (publish_ids fresh objects ids)"
    unfolding eq ids_ok_def hash_ok_def by (auto simp: distinct_map_filter)
  show "k \<in> set (live_keys objects) \<Longrightarrow> hash_contains (publish_ids fresh objects ids) k"
    "k \<notin> set (live_keys objects) \<Longrightarrow> hash_value (publish_ids fresh objects ids) k = None"
    "k \<in> set (live_keys objects) \<Longrightarrow> hash_value ids k = Some i \<Longrightarrow>
      hash_value (publish_ids fresh objects ids) k = Some i"
    using res unfolding eq map_of_filter_keys by (auto simp: reserved_def split_beta)
qed

lemma key_path_key: "CHR ''#'' \<notin> set p \<Longrightarrow> key_path (udisks_key p i) = p"
  by (induction p) (auto simp: key_path_def udisks_key_def)

lemma udisks_key_inj:
  assumes "CHR ''#'' \<notin> set p" and "CHR ''#'' \<notin> set p'"
  shows "udisks_key p i = udisks_key p' i' \<longleftrightarrow> p = p' \<and> i = i'"
proof
  assume eq: "udisks_key p i = udisks_key p' i'"
  then have "p = p'" using key_path_key assms by metis
  with eq show "p = p' \<and> i = i'" by (simp add: udisks_key_def)
qed simp

lemma ids_ok_inj:
  assumes "ids_ok ids" and "hash_value ids k = Some i" and "hash_value ids k' = Some i"
  shows "k = k'"
proof -
  have "(k, i) \<in> set ids" "(k', i) \<in> set ids" using assms map_of_SomeD by metis+
  moreover have "inj_on snd (set ids)" using assms(1) by (simp add: ids_ok_def distinct_map)
  ultimately show ?thesis using inj_onD [of snd "set ids" "(k, i)" "(k', i)"] by simp
qed

text \<open>An object path and interface that are present: the key is live.\<close>

lemma live_key:
  "(path, interfaces) \<in> set objects \<Longrightarrow> has_key interfaces i \<Longrightarrow>
   i = drive_interface \<or> i = block_interface \<Longrightarrow> udisks_key path i \<in> set (live_keys objects)"
  by (auto simp: live_keys_def intro!: bexI [of _ "(path, interfaces)"])

lemma distinct_decoded:
  assumes "ids_ok ids" and "distinct (map fst objects)" and "\<forall>p \<in> set (map fst objects). CHR ''#'' \<notin> set p"
    and "\<forall>(path, interfaces) \<in> set objects. has_key interfaces i \<longrightarrow> hash_contains ids (udisks_key path i)"
  shows "distinct (map (\<lambda>(path, _). id_value ids (udisks_key path i))
      (filter (\<lambda>(_, interfaces). has_key interfaces i) objects))"
    and "'''' \<notin> set (map (\<lambda>(path, _). id_value ids (udisks_key path i))
      (filter (\<lambda>(_, interfaces). has_key interfaces i) objects))"
proof -
  let ?os = "filter (\<lambda>(_, interfaces). has_key interfaces i) objects"
  have known: "hash_value ids (udisks_key p i) = Some (id_value ids (udisks_key p i))"
    if "(p, f) \<in> set ?os" for p f
    using that assms(4) by (auto simp: id_value_def)
  have "inj_on (\<lambda>(p, _). id_value ids (udisks_key p i)) (set ?os)"
  proof (rule inj_onI, clarify)
    fix p f p' f'
    assume mem: "(p, f) \<in> set ?os" "(p', f') \<in> set ?os"
      and eq: "id_value ids (udisks_key p i) = id_value ids (udisks_key p' i)"
    have "udisks_key p i = udisks_key p' i"
      using ids_ok_inj [OF assms(1)] known [OF mem(1)] known [OF mem(2)] eq by metis
    moreover have "CHR ''#'' \<notin> set p" "CHR ''#'' \<notin> set p'" using mem assms(3) by force+
    ultimately have "p = p'" using udisks_key_inj by blast
    moreover have "f = f'" if "p = p'"
      using that mem assms(2) by (metis (no_types, lifting) eq_key_imp_eq_value filter_is_subset in_mono)
    ultimately show "p = p' \<and> f = f'" by simp
  qed
  moreover have "distinct ?os" using assms(2) by (simp add: distinct_map)
  ultimately show "distinct (map (\<lambda>(path, _). id_value ids (udisks_key path i)) ?os)"
    by (simp add: distinct_map)
  show "'''' \<notin> set (map (\<lambda>(path, _). id_value ids (udisks_key path i)) ?os)"
  proof
    assume "'''' \<in> set (map (\<lambda>(path, _). id_value ids (udisks_key path i)) ?os)"
    then obtain p f where "(p, f) \<in> set ?os" "id_value ids (udisks_key p i) = ''''" by auto
    with known have "hash_value ids (udisks_key p i) = Some ''''" by metis
    then show False using assms(1) map_of_SomeD by (force simp: ids_ok_def)
  qed
qed


section \<open>What a volume inherits\<close>

text \<open>The association a volume ends with, as a specification: its own drive, or else the nearest one
  along the chain of its crypto backing devices; it counts as a loop device when one of them does.\<close>

definition backing_of :: "storage_volume list \<Rightarrow> storage_volume \<Rightarrow> storage_volume option" where
  "backing_of vs v = (if sv_crypto_backing v = '''' then None else find_by sv_id (sv_crypto_backing v) vs)"

fun inherited :: "nat \<Rightarrow> storage_volume list \<Rightarrow> storage_volume \<Rightarrow> string \<times> bool" where
  "inherited 0 vs v = (sv_drive v, sv_loop v)"
| "inherited (Suc n) vs v =
     (case backing_of vs v of
        None \<Rightarrow> (sv_drive v, sv_loop v)
      | Some b \<Rightarrow> (if sv_drive v \<noteq> '''' then sv_drive v else fst (inherited n vs b),
                   sv_loop v \<or> snd (inherited n vs b)))"

definition with_inherited :: "storage_volume list \<Rightarrow> storage_volume \<Rightarrow> storage_volume" where
  "with_inherited vs v = v\<lparr>sv_drive := fst (inherited (length vs) vs v), sv_loop := snd (inherited (length vs) vs v)\<rparr>"

text \<open>Values are ordered by how much has been inherited.\<close>

definition below :: "string \<times> bool \<Rightarrow> string \<times> bool \<Rightarrow> bool" where
  "below x y \<longleftrightarrow> (fst x = '''' \<or> fst x = fst y) \<and> (snd x \<longrightarrow> snd y)"

definition join :: "string \<times> bool \<Rightarrow> string \<times> bool \<Rightarrow> string \<times> bool" where
  "join x y = (if fst x \<noteq> '''' then fst x else fst y, snd x \<or> snd y)"

definition val :: "storage_volume \<Rightarrow> string \<times> bool" where
  "val v = (sv_drive v, sv_loop v)"

lemma below_refl [simp]: "below x x" and below_trans: "below x y \<Longrightarrow> below y z \<Longrightarrow> below x z"
  and below_antisym: "below x y \<Longrightarrow> below y x \<Longrightarrow> x = y"
  and below_join [simp]: "below x (join x y)"
  by (auto simp: below_def join_def prod_eq_iff)

lemma inherited_Suc:
  "inherited (Suc n) vs v = (case backing_of vs v of None \<Rightarrow> val v | Some b \<Rightarrow> join (val v) (inherited n vs b))"
  by (simp add: val_def join_def split: option.split)

lemma inherited_mono: "below (inherited n vs v) (inherited (Suc n) vs v)"
proof (induction n arbitrary: v)
  case 0
  then show ?case by (auto simp: below_def split: option.split)
next
  case (Suc n)
  have "below y z \<Longrightarrow> below (join x y) (join x z)" for x y z
    by (auto simp: below_def join_def)
  with Suc show ?case
    unfolding inherited_Suc [of "Suc n"] inherited_Suc [of n] by (auto split: option.split simp del: inherited.simps)
qed

text \<open>\<open>length vs\<close> steps along the chain are enough: the devices that can be reached stop growing.\<close>

fun chain :: "nat \<Rightarrow> storage_volume list \<Rightarrow> storage_volume \<Rightarrow> storage_volume list" where
  "chain 0 vs v = []"
| "chain (Suc n) vs v = v # (case backing_of vs v of None \<Rightarrow> [] | Some b \<Rightarrow> chain n vs b)"

lemma inherited_chain:
  "inherited n vs v = (case find (\<lambda>b. sv_drive b \<noteq> '''') (chain (Suc n) vs v) of Some b \<Rightarrow> sv_drive b | None \<Rightarrow> '''',
     list_ex sv_loop (chain (Suc n) vs v))"
proof (induction n arbitrary: v)
  case 0
  then show ?case by (auto split: option.split)
next
  case (Suc n)
  show ?case
    by (cases "backing_of vs v") (use Suc in \<open>auto split: option.splits simp del: chain.simps(2)
      simp: chain.simps(2) [of "Suc n"]\<close>)
qed


definition backing_edges :: "storage_volume list \<Rightarrow> (storage_volume \<times> storage_volume) set" where
  "backing_edges vs = {(v, b). v \<in> set vs \<and> backing_of vs v = Some b}"

lemma backing_of_mem: "backing_of vs v = Some b \<Longrightarrow> b \<in> set vs"
  by (auto simp: backing_of_def split: if_splits dest: find_by_Some)

lemma backing_edges_finite: "finite (backing_edges vs)" "card (backing_edges vs) \<le> length vs"
proof -
  have sub: "backing_edges vs \<subseteq> (\<lambda>v. (v, the (backing_of vs v))) ` set vs"
    by (auto simp: backing_edges_def)
  then show "finite (backing_edges vs)" by (rule finite_subset) simp
  have "card (backing_edges vs) \<le> card ((\<lambda>v. (v, the (backing_of vs v))) ` set vs)"
    by (rule card_mono) (use sub in simp_all)
  also have "\<dots> \<le> card (set vs)" by (rule card_image_le) simp
  also have "\<dots> \<le> length vs" by (rule card_length)
  finally show "card (backing_edges vs) \<le> length vs" .
qed

lemma chain_reach: "v \<in> set vs \<Longrightarrow> b \<in> set (chain n vs v) \<Longrightarrow> (v, b) \<in> (backing_edges vs)\<^sup>*"
proof (induction n arbitrary: v)
  case (Suc n)
  then show ?case
  proof (cases "backing_of vs v")
    case (Some c)
    then have "(v, c) \<in> backing_edges vs" using Suc.prems(1) by (simp add: backing_edges_def)
    moreover have "b = v \<or> (c, b) \<in> (backing_edges vs)\<^sup>*"
      using Suc Some backing_of_mem by auto
    ultimately show ?thesis by (meson converse_rtrancl_into_rtrancl rtrancl.rtrancl_refl)
  qed auto
qed simp

lemma reach_chain: "(v, b) \<in> backing_edges vs ^^ m \<Longrightarrow> m < n \<Longrightarrow> b \<in> set (chain n vs v)"
proof (induction m arbitrary: v n)
  case 0
  then show ?case by (cases n) auto
next
  case (Suc m)
  obtain c where c: "(v, c) \<in> backing_edges vs" "(c, b) \<in> backing_edges vs ^^ m"
    using Suc.prems(1) by (meson relpow_Suc_D2)
  then show ?case
    using Suc.IH [OF c(2), of "n - 1"] Suc.prems(2) by (cases n) (auto simp: backing_edges_def)
qed

lemma chain_bounded:
  assumes "v \<in> set vs"
  shows "set (chain n vs v) \<subseteq> set (chain (Suc (length vs)) vs v)"
proof
  fix b assume "b \<in> set (chain n vs v)"
  then have "(v, b) \<in> (backing_edges vs)\<^sup>*" by (rule chain_reach [OF assms])
  then obtain m where "m \<le> card (backing_edges vs)" "(v, b) \<in> backing_edges vs ^^ m"
    unfolding rtrancl_finite_eq_relpow [OF backing_edges_finite(1)] by blast
  then show "b \<in> set (chain (Suc (length vs)) vs v)"
    using reach_chain backing_edges_finite(2) [of vs] by (meson le_imp_less_Suc order_trans)
qed

lemma chain_prefix: "\<exists>rest. chain (n + d) vs v = chain n vs v @ rest"
  by (induction n arbitrary: v) (auto split: option.split)

lemma find_repeated:
  assumes "set ys \<subseteq> set xs"
  shows "find P (xs @ ys) = find P xs" "list_ex P (xs @ ys) = list_ex P xs"
proof -
  have "find P ys = None" if "find P xs = None" using that assms by (auto simp: find_None_iff)
  then show "find P (xs @ ys) = find P xs" by (auto simp: find_append split: option.split)
  show "list_ex P (xs @ ys) = list_ex P xs" using assms by (auto simp: list_ex_iff)
qed

lemma inherited_bounded:
  assumes "v \<in> set vs"
  shows "below (inherited n vs v) (inherited (length vs) vs v)"
proof (cases "n \<le> length vs")
  case True
  then show ?thesis
  proof (induction "length vs" arbitrary: n rule: nat_less_induct)
    case 1
    have "below (inherited n vs v) (inherited (n + d) vs v)" for d
      by (induction d) (auto intro: below_trans [OF _ inherited_mono] simp del: inherited.simps)
    then show ?case using 1 by (metis le_add_diff_inverse)
  qed
next
  case False
  let ?c = "chain (Suc (length vs)) vs v"
  obtain rest where rest: "chain (Suc n) vs v = ?c @ rest"
    using chain_prefix [of "Suc (length vs)" "n - length vs" vs v] False by auto
  have sub: "set rest \<subseteq> set ?c" using chain_bounded [OF assms, of "Suc n"] unfolding rest by simp
  show ?thesis
    unfolding inherited_chain rest find_repeated [OF sub] by simp
qed


text \<open>The loops, on lists that differ from the decoded volumes only in what was inherited.\<close>

definition same_rows :: "storage_volume list \<Rightarrow> storage_volume list \<Rightarrow> bool" where
  "same_rows vs ws \<longleftrightarrow> length ws = length vs \<and>
     (\<forall>i < length vs. ws ! i = (vs ! i)\<lparr>sv_drive := fst (val (ws ! i)), sv_loop := snd (val (ws ! i))\<rparr>)"

definition backs :: "storage_volume list \<Rightarrow> nat \<Rightarrow> nat \<Rightarrow> bool" where
  "backs vs j i \<longleftrightarrow> sv_crypto_backing (vs ! i) \<noteq> '''' \<and> sv_id (vs ! j) = sv_crypto_backing (vs ! i)"

lemma same_rows_sel:
  assumes "same_rows vs ws" and "i < length vs"
  shows "sv_id (ws ! i) = sv_id (vs ! i)" "sv_crypto_backing (ws ! i) = sv_crypto_backing (vs ! i)"
  using assms unfolding same_rows_def by (metis storage_volume.select_convs(1,13)
      storage_volume.surjective storage_volume.update_convs(2,18))+

lemma backs_unique:
  "distinct (map sv_id vs) \<Longrightarrow> backs vs j i \<Longrightarrow> backs vs j' i \<Longrightarrow> j < length vs \<Longrightarrow> j' < length vs \<Longrightarrow> j = j'"
  by (auto simp: backs_def distinct_conv_nth) (metis length_map nth_map)

lemma backing_of_nth:
  assumes "distinct (map sv_id vs)" and "i < length vs" and "j < length vs" and "backs vs j i"
  shows "backing_of vs (vs ! i) = Some (vs ! j)"
  using assms find_by_distinct [of sv_id vs "vs ! j"] by (auto simp: backing_of_def backs_def)

lemma backing_of_None:
  assumes "i < length vs" and "\<And>j. j < length vs \<Longrightarrow> \<not> backs vs j i"
  shows "backing_of vs (vs ! i) = None"
proof (rule ccontr)
  assume "backing_of vs (vs ! i) \<noteq> None"
  then obtain b where "backing_of vs (vs ! i) = Some b" by blast
  then have "b \<in> set vs" "sv_crypto_backing (vs ! i) \<noteq> ''''" "sv_id b = sv_crypto_backing (vs ! i)"
    by (auto simp: backing_of_def split: if_splits dest: find_by_Some)
  then show False using assms(2) by (auto simp: in_set_conv_nth backs_def)
qed

definition set_val :: "string \<times> bool \<Rightarrow> storage_volume \<Rightarrow> storage_volume" where
  "set_val x v = v\<lparr>sv_drive := fst x, sv_loop := snd x\<rparr>"

lemma set_val_simps [simp]: "val (set_val x v) = x" "set_val (val v) v = v"
  "sv_id (set_val x v) = sv_id v" "sv_crypto_backing (set_val x v) = sv_crypto_backing v"
  "set_val y (set_val x v) = set_val y v"
  by (simp_all add: set_val_def val_def)

lemma inherit_from_eq:
  "inherit_from b v =
     (if sv_crypto_backing v \<noteq> '''' \<and> sv_id b = sv_crypto_backing v
      then (set_val (join (val v) (val b)) v, join (val v) (val b) \<noteq> val v) else (v, False))"
  by (auto simp: inherit_from_def set_val_def join_def val_def Let_def)

lemma same_rows_update:
  assumes "same_rows vs ws" and "i < length vs"
  shows "same_rows vs (ws[i := set_val x (ws ! i)])"
proof -
  have "set_val x (ws ! i) = set_val x (vs ! i)"
    using assms unfolding same_rows_def by (metis set_val_def set_val_simps(5))
  then show ?thesis
    using assms by (auto simp: same_rows_def nth_list_update) (simp_all add: set_val_def val_def)
qed


text \<open>One row: it takes over from its backing row when the inner loop reaches that row.\<close>

lemma inherit_row_effect:
  assumes "distinct (map sv_id vs)" and "same_rows vs ws" and "i < length vs" and "set js \<subseteq> {..<length vs}"
    and "inherit_row i js (ws, c) = (ws', c')"
  shows "\<exists>x. ws' = ws[i := set_val x (ws ! i)] \<and> c' = (c \<or> x \<noteq> val (ws ! i)) \<and>
    x = (if \<exists>j \<in> set js. backs vs j i then join (val (ws ! i)) (val (ws ! (THE j. j < length vs \<and> backs vs j i)))
         else val (ws ! i))"
  using assms(2,4,5)
proof (induction js arbitrary: ws c)
  case Nil
  then show ?case by (intro exI [of _ "val (ws ! i)"]) simp
next
  case (Cons j js)
  let ?b = "THE j. j < length vs \<and> backs vs j i"
  have lens: "length ws = length vs" "j < length vs" using Cons.prems by (simp_all add: same_rows_def)
  have sel: "sv_crypto_backing (ws ! i) \<noteq> '''' \<and> sv_id (ws ! j) = sv_crypto_backing (ws ! i) \<longleftrightarrow> backs vs j i"
    using same_rows_sel [OF Cons.prems(1)] assms(3) lens(2) by (simp add: backs_def)
  have pick: "?b = k" if "backs vs k i" "k < length vs" for k
    using that backs_unique [OF assms(1)] by blast
  show ?case
  proof (cases "backs vs j i")
    case False
    then have "inherit_row i js (ws, c) = (ws', c')"
      using Cons.prems(3) sel lens assms(3) by (simp add: inherit_from_eq)
    then show ?thesis using Cons.IH [OF Cons.prems(1)] Cons.prems(2) False by auto
  next
    case True
    let ?x = "join (val (ws ! i)) (val (ws ! j))"
    let ?ws = "ws[i := set_val ?x (ws ! i)]"
    have rest: "inherit_row i js (?ws, c \<or> ?x \<noteq> val (ws ! i)) = (ws', c')"
      using Cons.prems(3) sel True by (simp add: inherit_from_eq)
    have again: "join ?x (val (?ws ! j)) = ?x"
      using lens assms(3) by (cases "i = j") (auto simp: join_def)
    have cur: "val (?ws ! i) = ?x" "?ws[i := set_val y (?ws ! i)] = ws[i := set_val y (ws ! i)]" for y
      using lens assms(3) by simp_all
    have "\<exists>x. ws' = ?ws[i := set_val x (?ws ! i)] \<and> c' = ((c \<or> ?x \<noteq> val (ws ! i)) \<or> x \<noteq> val (?ws ! i)) \<and>
        x = (if \<exists>j \<in> set js. backs vs j i then join (val (?ws ! i)) (val (?ws ! ?b)) else val (?ws ! i))"
      by (rule Cons.IH [OF same_rows_update [OF Cons.prems(1) assms(3)] _ rest]) (use Cons.prems(2) in simp)
    then have "ws' = ws[i := set_val ?x (ws ! i)] \<and> c' = (c \<or> ?x \<noteq> val (ws ! i))"
      unfolding cur pick [OF True lens(2)] again by auto
    then show ?thesis using True pick [OF True lens(2)] by (intro exI [of _ ?x]) auto
  qed
qed

text \<open>What is known of the rows: \<open>P\<close> are the rows already handled in this pass.\<close>

definition progress :: "storage_volume list \<Rightarrow> nat \<Rightarrow> nat set \<Rightarrow> storage_volume list \<Rightarrow> bool" where
  "progress vs k P ws \<longleftrightarrow> same_rows vs ws \<and>
     (\<forall>i < length vs. below (inherited (if i \<in> P then Suc k else k) vs (vs ! i)) (val (ws ! i)) \<and>
        below (val (ws ! i)) (inherited (length vs) vs (vs ! i)))"

lemma join_between:
  "below a x \<Longrightarrow> below b y \<Longrightarrow> below (join a b) u \<Longrightarrow> below x u \<Longrightarrow> below (join a b) (join x y)"
  by (auto simp: below_def join_def)

lemma join_upper: "below x u \<Longrightarrow> below (join a b) u \<Longrightarrow> below a x \<Longrightarrow> below y b \<Longrightarrow> below (join x y) u"
  by (auto simp: below_def join_def split: if_splits)

lemma inherited_backing:
  assumes "distinct (map sv_id vs)" and "i < length vs" and "j < length vs" and "backs vs j i"
  shows "inherited (Suc n) vs (vs ! i) = join (val (vs ! i)) (inherited n vs (vs ! j))"
  using backing_of_nth [OF assms] by (simp add: inherited_Suc del: inherited.simps)

lemma inherited_no_backing:
  "i < length vs \<Longrightarrow> (\<And>j. j < length vs \<Longrightarrow> \<not> backs vs j i) \<Longrightarrow> inherited n vs (vs ! i) = val (vs ! i)"
  using backing_of_None [of i vs] by (cases n) (simp_all add: val_def)

lemma below_val_inherited: "below (val v) (inherited n vs v)"
  by (induction n) (auto simp: val_def intro: below_trans [OF _ inherited_mono] simp del: inherited.simps(2))

lemma progress_row:
  assumes d: "distinct (map sv_id vs)" and pr: "progress vs k P ws" and i: "i < length vs"
    and step: "inherit_row i [0..<length vs] (ws, c) = (ws', c')"
  shows "progress vs k (insert i P) ws'" and "\<not> c' \<Longrightarrow> \<not> c \<and> ws' = ws \<and>
    (\<forall>j < length vs. backs vs j i \<longrightarrow> join (val (ws ! i)) (val (ws ! j)) = val (ws ! i))"
proof -
  have same: "same_rows vs ws" and len: "length ws = length vs"
    using pr by (simp_all add: progress_def same_rows_def)
  have lo: "below (inherited k vs (vs ! j)) (val (ws ! j))"
    and hi: "below (val (ws ! j)) (inherited (length vs) vs (vs ! j))" if "j < length vs" for j
    using pr that below_trans [OF inherited_mono [of k vs "vs ! j"], of "val (ws ! j)"]
    by (auto simp: progress_def split: if_splits simp del: inherited.simps)
  have js: "set [0..<length vs] \<subseteq> {..<length vs}" by auto
  obtain x where x: "ws' = ws[i := set_val x (ws ! i)]" "c' = (c \<or> x \<noteq> val (ws ! i))"
    "x = (if \<exists>j \<in> set [0..<length vs]. backs vs j i
       then join (val (ws ! i)) (val (ws ! (THE j. j < length vs \<and> backs vs j i))) else val (ws ! i))"
    using inherit_row_effect [OF d same i js step] by blast
  have xj: "x = join (val (ws ! i)) (val (ws ! j))" if "j < length vs" "backs vs j i" for j
  proof -
    have "(THE j. j < length vs \<and> backs vs j i) = j" using that backs_unique [OF d] by blast
    then show ?thesis using x(3) that by auto
  qed
  have bounds: "below (inherited (Suc k) vs (vs ! i)) x \<and> below x (inherited (length vs) vs (vs ! i))"
  proof (cases "\<exists>j < length vs. backs vs j i")
    case True
    then obtain j where j: "j < length vs" "backs vs j i" by blast
    note S = inherited_backing [OF d i j(1) j(2)]
    have a: "below (val (vs ! i)) (val (ws ! i))"
      by (rule below_trans [OF below_val_inherited lo [OF i]])
    have "below (inherited (Suc k) vs (vs ! i)) x"
      unfolding S xj [OF j]
      by (rule join_between [OF a lo [OF j(1)] _ hi [OF i]])
        (use inherited_bounded [of "vs ! i" vs "Suc k"] i in \<open>simp add: S del: inherited.simps\<close>)
    moreover have "below x (inherited (length vs) vs (vs ! i))"
      unfolding xj [OF j]
      by (rule join_upper [OF hi [OF i] _ a hi [OF j(1)]])
        (use inherited_bounded [of "vs ! i" vs "Suc (length vs)"] i in \<open>simp add: S del: inherited.simps\<close>)
    ultimately show ?thesis by blast
  next
    case False
    then have "x = val (ws ! i)" using x(3) by auto
    then show ?thesis
      using lo [OF i] hi [OF i] False inherited_no_backing [OF i] by (simp del: inherited.simps)
  qed
  show "progress vs k (insert i P) ws'"
    unfolding progress_def
  proof (intro conjI allI impI)
    show "same_rows vs ws'" unfolding x(1) by (rule same_rows_update [OF same i])
  next
    fix j assume "j < length vs"
    then show "below (inherited (if j \<in> insert i P then Suc k else k) vs (vs ! j)) (val (ws' ! j))"
      "below (val (ws' ! j)) (inherited (length vs) vs (vs ! j))"
      using pr bounds len unfolding x(1) progress_def
      by (cases "j = i"; simp del: inherited.simps)+
  qed
  show "\<not> c \<and> ws' = ws \<and>
      (\<forall>j < length vs. backs vs j i \<longrightarrow> join (val (ws ! i)) (val (ws ! j)) = val (ws ! i))" if "\<not> c'"
    using that x(1,2) xj len i by auto
qed


lemma inherit_rows_progress:
  assumes d: "distinct (map sv_id vs)"
  shows "progress vs k P ws \<Longrightarrow> set is \<subseteq> {..<length vs} \<Longrightarrow> inherit_rows is (ws, c) = (ws', c') \<Longrightarrow>
    progress vs k (set is \<union> P) ws' \<and> (\<not> c' \<longrightarrow> \<not> c \<and> ws' = ws \<and>
      (\<forall>i \<in> set is. \<forall>j < length vs. backs vs j i \<longrightarrow> join (val (ws ! i)) (val (ws ! j)) = val (ws ! i)))"
proof (induction "is" arbitrary: ws c P)
  case Nil
  then show ?case by simp
next
  case (Cons i "is")
  have len: "length ws = length vs" using Cons.prems(1) by (simp add: progress_def same_rows_def)
  obtain ws1 c1 where row: "inherit_row i [0..<length vs] (ws, c) = (ws1, c1)" by fastforce
  have i: "i < length vs" using Cons.prems(2) by simp
  have rest: "inherit_rows is (ws1, c1) = (ws', c')" using Cons.prems(3) row len by simp
  note first = progress_row [OF d Cons.prems(1) i row]
  have "set is \<subseteq> {..<length vs}" using Cons.prems(2) by simp
  note later = Cons.IH [OF first(1) this rest]
  show ?case using first(2) later by auto
qed

lemma progress_complete:
  assumes d: "distinct (map sv_id vs)" and pr: "progress vs k P ws"
    and stable: "\<And>i j. i < length vs \<Longrightarrow> j < length vs \<Longrightarrow> backs vs j i \<Longrightarrow>
      join (val (ws ! i)) (val (ws ! j)) = val (ws ! i)"
    and "i < length vs"
  shows "below (inherited n vs (vs ! i)) (val (ws ! i))"
  using assms(4)
proof (induction n arbitrary: i)
  case 0
  have "below (val (vs ! i)) (inherited (if i \<in> P then Suc k else k) vs (vs ! i))" by (rule below_val_inherited)
  also have "below \<dots> (val (ws ! i))" using pr 0 by (simp add: progress_def del: inherited.simps)
  finally (below_trans) show ?case by (simp add: val_def)
next
  case (Suc n)
  show ?case
  proof (cases "\<exists>j < length vs. backs vs j i")
    case True
    then obtain j where j: "j < length vs" "backs vs j i" by blast
    note S = inherited_backing [OF d Suc.prems j]
    have a: "below (val (vs ! i)) (val (ws ! i))"
      by (rule below_trans [OF below_val_inherited [of _ "if i \<in> P then Suc k else k" vs]])
        (use pr Suc.prems in \<open>simp add: progress_def del: inherited.simps\<close>)
    have u: "below (join (val (vs ! i)) (inherited n vs (vs ! j))) (inherited (length vs) vs (vs ! i))"
      using inherited_bounded [of "vs ! i" vs "Suc n"] Suc.prems by (simp add: S del: inherited.simps)
    have "below (join (val (vs ! i)) (inherited n vs (vs ! j))) (join (val (ws ! i)) (val (ws ! j)))"
      by (rule join_between [OF a Suc.IH [OF j(1)] u])
        (use pr Suc.prems in \<open>simp add: progress_def del: inherited.simps\<close>)
    then show ?thesis unfolding S stable [OF Suc.prems j] .
  next
    case False
    then have "inherited (Suc n) vs (vs ! i) = inherited n vs (vs ! i)"
      using inherited_no_backing [OF Suc.prems] by metis
    then show ?thesis using Suc by (simp del: inherited.simps)
  qed
qed

lemma inherit_passes_complete:
  assumes d: "distinct (map sv_id vs)"
  shows "progress vs k {} ws \<Longrightarrow> \<exists>k' P. progress vs k' P (inherit_passes m ws) \<and>
    (\<forall>i < length vs. below (inherited (k + m) vs (vs ! i)) (val (inherit_passes m ws ! i)))"
proof (induction m arbitrary: k ws)
  case 0
  then show ?case by (auto simp: progress_def simp del: inherited.simps intro!: exI [of _ k] exI [of _ "{}"])
next
  case (Suc m)
  obtain ws' c where pass: "inherit_pass ws = (ws', c)" by fastforce
  have len: "length ws = length vs" using Suc.prems by (simp add: progress_def same_rows_def)
  have "set [0..<length vs] \<subseteq> {..<length vs}" by auto
  from inherit_rows_progress [OF d Suc.prems this] pass len
  have row: "progress vs k {..<length vs} ws'" and stable: "\<not> c \<Longrightarrow> ws' = ws \<and>
      (\<forall>i < length vs. \<forall>j < length vs. backs vs j i \<longrightarrow> join (val (ws ! i)) (val (ws ! j)) = val (ws ! i))"
    by (auto simp: inherit_pass_def atLeast0LessThan)
  show ?case
  proof (cases c)
    case True
    have "progress vs (Suc k) {} ws'" using row by (simp add: progress_def del: inherited.simps)
    from Suc.IH [OF this] show ?thesis using pass True by simp
  next
    case False
    then have "inherit_passes (Suc m) ws = ws" using pass stable by simp
    then show ?thesis
      using progress_complete [OF d Suc.prems] stable False Suc.prems by metis
  qed
qed

lemma inherit_drives_eq:
  assumes d: "distinct (map sv_id vs)"
  shows "inherit_drives vs = map (with_inherited vs) vs"
proof -
  have "same_rows vs vs" by (simp add: same_rows_def val_def)
  moreover have "below (val (vs ! i)) (inherited (length vs) vs (vs ! i))" for i by (rule below_val_inherited)
  ultimately have start: "progress vs 0 {} vs"
    by (simp add: progress_def) (simp add: val_def)
  obtain k P where pr: "progress vs k P (inherit_drives vs)"
    and lo: "\<forall>i < length vs. below (inherited (length vs) vs (vs ! i)) (val (inherit_drives vs ! i))"
    using inherit_passes_complete [OF d start, of "length vs"] by (auto simp: inherit_drives_def)
  have same: "same_rows vs (inherit_drives vs)" using pr by (simp add: progress_def)
  show ?thesis
  proof (rule nth_equalityI)
    show "length (inherit_drives vs) = length (map (with_inherited vs) vs)"
      using same by (simp add: same_rows_def)
    fix i assume "i < length (inherit_drives vs)"
    then have i: "i < length vs" using same by (simp add: same_rows_def)
    have "val (inherit_drives vs ! i) = inherited (length vs) vs (vs ! i)"
      using pr lo i below_antisym by (simp add: progress_def)
    moreover have "inherit_drives vs ! i = (vs ! i)\<lparr>sv_drive := fst (val (inherit_drives vs ! i)),
        sv_loop := snd (val (inherit_drives vs ! i))\<rparr>"
      using same i unfolding same_rows_def by blast
    ultimately show "inherit_drives vs ! i = map (with_inherited vs) vs ! i"
      using i by (simp add: with_inherited_def)
  qed
qed


text \<open>C11. The bounded in-place loop of \<open>publish\<close> computes exactly the inheritance along crypto backing
  devices: afterwards every volume has its own drive or that of the nearest device below it that has
  one, is a loop device when one of them is, and is otherwise unchanged. As many passes as there are
  volumes always suffice.\<close>

theorem udisks_inherit_drives:
  assumes "distinct (map sv_id vs)"
  shows "inherit_drives vs = map (with_inherited vs) vs \<and>
    (\<forall>v \<in> set vs. \<forall>n \<ge> length vs. inherited n vs v = (sv_drive (with_inherited vs v), sv_loop (with_inherited vs v)))"
proof (intro conjI ballI allI impI)
  show "inherit_drives vs = map (with_inherited vs) vs" by (rule inherit_drives_eq [OF assms])
  fix v n assume v: "v \<in> set vs" and n: "length vs \<le> n"
  have "below (inherited (length vs) vs v) (inherited (length vs + d) vs v)" for d
    by (induction d) (auto intro: below_trans [OF _ inherited_mono] simp del: inherited.simps)
  then have "below (inherited (length vs) vs v) (inherited n vs v)"
    using n by (metis le_add_diff_inverse)
  then have "inherited n vs v = inherited (length vs) vs v"
    using inherited_bounded [OF v] below_antisym by blast
  then show "inherited n vs v = (sv_drive (with_inherited vs v), sv_loop (with_inherited vs v))"
    by (simp add: with_inherited_def)
qed

definition demo_crypto :: "storage_volume list" where
  "demo_crypto = [default_volume\<lparr>sv_id := ''c'', sv_crypto_backing := ''b''\<rparr>,
     default_volume\<lparr>sv_id := ''b'', sv_crypto_backing := ''a''\<rparr>,
     default_volume\<lparr>sv_id := ''a'', sv_drive := ''d'', sv_loop := True\<rparr>]"

lemma udisks_inherit_drives_witness:
  "map sv_drive (inherit_drives demo_crypto) = [''d'', ''d'', ''d'']"
proof -
  have "distinct (map sv_id demo_crypto)"
    "map sv_drive (map (with_inherited demo_crypto) demo_crypto) = [''d'', ''d'', ''d'']" by code_simp+
  then show ?thesis using udisks_inherit_drives by metis
qed

section \<open>Snapshots\<close>

lemma with_inherited_id [simp]: "sv_id (with_inherited vs v) = sv_id v"
  by (simp add: with_inherited_def)

lemma decode_ids [simp]:
  "sd_id (decode_drive q ids path interfaces) = id_value ids (udisks_key path drive_interface)"
  "sv_id (decode_volume q ids objects path interfaces) = id_value ids (udisks_key path block_interface)"
  by (simp_all add: decode_drive_def decode_volume_def Let_def)

text \<open>A published snapshot keeps the contract the controller builds on: no identifier is empty or
  used twice, an object that stays keeps its identifier, and one that is gone loses it. So the
  snapshot is an admissible event of \<open>StorageController\<close>.\<close>

theorem udisks_snapshot_ids:
  assumes "ids_ok (ud_ids st)" and "fresh_ok fresh (ud_ids st)"
    and "distinct (map fst objects)" and "\<forall>p \<in> set (map fst objects). CHR ''#'' \<notin> set p"
    and "udisks_publish q fresh objects st = (st', [UdSnapshot ds vs available])"
  shows "event_ok used (EvSnapshot ds vs available) \<and> '''' \<notin> set (map sd_id ds @ map sv_id vs) \<and>
    ids_ok (ud_ids st') \<and>
    (\<forall>k \<in> set (live_keys objects). \<forall>i. hash_value (ud_ids st) k = Some i \<longrightarrow> hash_value (ud_ids st') k = Some i) \<and>
    (\<forall>k. k \<notin> set (live_keys objects) \<longrightarrow> hash_value (ud_ids st') k = None)"
proof -
  let ?ids = "publish_ids fresh objects (ud_ids st)"
  note facts = publish_ids_facts [OF assms(1,2)]
  have st': "ud_ids st' = ?ids" and ds: "ds = decode_drives q ?ids objects"
    and vs: "vs = inherit_drives (decode_volumes q ?ids objects)"
    using assms(5) by (auto simp: udisks_publish_def Let_def)
  have live: "\<forall>(path, interfaces) \<in> set objects. has_key interfaces i \<longrightarrow> hash_contains ?ids (udisks_key path i)"
    if "i = drive_interface \<or> i = block_interface" for i
    using that facts(2) [of _ objects] live_key by fast
  have drives: "distinct (map sd_id ds) \<and> '''' \<notin> set (map sd_id ds)"
    using distinct_decoded [OF facts(1) assms(3,4) live, of drive_interface]
    by (simp add: ds decode_drives_def comp_def case_prod_unfold)
  have volumes: "distinct (map sv_id (decode_volumes q ?ids objects)) \<and>
      '''' \<notin> set (map sv_id (decode_volumes q ?ids objects))"
    using distinct_decoded [OF facts(1) assms(3,4) live, of block_interface]
    by (simp add: decode_volumes_def comp_def case_prod_unfold)
  then have "map sv_id vs = map sv_id (decode_volumes q ?ids objects)"
    by (simp add: vs inherit_drives_eq comp_def)
  with drives volumes show ?thesis
    unfolding st' using facts(1,3,4) by (auto simp del: map_map)
qed

lemma udisks_snapshot_ids_witness:
  "\<exists>ds vs. snd (udisks_publish demo_ops demo_fresh demo_objects (udisks_init ''s'')) = [UdSnapshot ds vs True] \<and>
     map sv_id vs = [''i''] \<and> event_ok {} (EvSnapshot ds vs True)"
proof -
  let ?r = "udisks_publish demo_ops demo_fresh demo_objects (udisks_init ''s'')"
  obtain st' ds vs where r: "?r = (st', [UdSnapshot ds vs True])" by (simp add: udisks_publish_def Let_def)
  have ids: "ids_ok (ud_ids (udisks_init ''s''))" by (simp add: udisks_init_def ids_ok_def)
  have fresh: "fresh_ok demo_fresh (ud_ids (udisks_init ''s''))"
    by (auto simp: fresh_ok_def udisks_init_def demo_fresh_def inj_def replicate_eq_replicate)
  have "distinct (map fst demo_objects)" "\<forall>p \<in> set (map fst demo_objects). CHR ''#'' \<notin> set p"
    by (simp_all add: demo_objects_def)
  from udisks_snapshot_ids [OF ids fresh this r, of "{}"] have "event_ok {} (EvSnapshot ds vs True)" by blast
  moreover have "(case snd ?r of [UdSnapshot ds vs a] \<Rightarrow> map sv_id vs | _ \<Rightarrow> []) = [''i'']" by code_simp
  ultimately show ?thesis using r by auto
qed


section \<open>Commands\<close>

lemma fold_pick:
  assumes "\<And>k i. (k, i) \<in> set xs \<Longrightarrow> Q k i \<Longrightarrow> g k = c" and "\<exists>(k, i) \<in> set xs. Q k i"
  shows "fold (\<lambda>(k, i) p. if Q k i then g k else p) xs p0 = c"
proof -
  have "fold (\<lambda>(k, i) p. if Q k i then g k else p) ys c = c" if "set ys \<subseteq> set xs" for ys
    using that assms(1) by (induction ys) (auto split: prod.split)
  moreover obtain ys x zs where "xs = ys @ x # zs" "case x of (k, i) \<Rightarrow> Q k i"
    using assms(2) by (auto simp: in_set_conv_decomp)
  ultimately show ?thesis using assms(1) by (auto split: prod.splits)
qed

lemma ends_with_key: "ends_with (udisks_key path i) (CHR ''#'' # i)"
  by (simp add: ends_with_def udisks_key_def)

lemma target_path_key:
  assumes "ids_ok ids" and "hash_value ids (udisks_key path i) = Some target" and "CHR ''#'' \<notin> set path"
  shows "target_path target i ids = path"
  unfolding target_path_def
proof (rule fold_pick)
  fix k j assume kj: "(k, j) \<in> set ids" "j = target \<and> ends_with k (CHR ''#'' # i)"
  then have "hash_value ids k = Some target"
    using assms(1) by (simp add: ids_ok_def hash_ok_def)
  then have "k = udisks_key path i" using ids_ok_inj [OF assms(1) _ assms(2)] by blast
  then show "key_path k = path" using key_path_key [OF assms(3)] by simp
next
  show "\<exists>(k, j) \<in> set ids. j = target \<and> ends_with k (CHR ''#'' # i)"
    using assms(2) ends_with_key map_of_SomeD by fastforce
qed

text \<open>A command finds the object behind the identifier: for an identifier the backend has assigned
  to a path, the method of the operation is called on that path, at the current owner, on the drive
  interface for removals and on the filesystem interface otherwise.\<close>

theorem udisks_execute_target:
  assumes "ids_ok (ud_ids st)" and "CHR ''#'' \<notin> set path" and "path \<noteq> ''''" and "ud_owner st \<noteq> ''''"
    and "hash_value (ud_ids st)
      (udisks_key path (if is_removal op then drive_interface else block_interface)) = Some target"
  shows "snd (udisks_execute rid op target st) =
    [UdCall (ud_owner st) path (if is_removal op then drive_interface else filesystem_interface)
       (operation_method op)]"
  using target_path_key [OF assms(1) assms(5) assms(2)] assms(3,4)
  by (simp add: udisks_execute_def Let_def)

lemma udisks_execute_target_witness:
  "snd (udisks_execute ''r'' Mount ''i'' ((udisks_init ''s'')\<lparr>ud_owner := '':1'',
      ud_ids := [(udisks_key ''/b'' block_interface, ''i'')]\<rparr>)) =
   [UdCall '':1'' ''/b'' filesystem_interface ''Mount'']"
  by (subst udisks_execute_target [of _ "''/b''"]) (simp_all add: ids_ok_def hash_ok_def is_removal_def)

fun udisks_outputs :: "'v qvariant_ops \<Rightarrow> 'v udisks_event list \<Rightarrow> udisks_state \<Rightarrow> udisks_output list" where
  "udisks_outputs q [] st = []"
| "udisks_outputs q (ev # evs) st =
     (let (st', out) = udisks_step q ev st in out @ udisks_outputs q evs st')"

fun udisks_reported :: "udisks_output list \<Rightarrow> string list" where
  "udisks_reported [] = []"
| "udisks_reported (UdFinished r # out) = sr_request r # udisks_reported out"
| "udisks_reported (_ # out) = udisks_reported out"

definition udisks_commanded :: "'v udisks_event list \<Rightarrow> string list" where
  "udisks_commanded evs = concat (map (\<lambda>ev. case ev of UdExecute rid _ _ \<Rightarrow> [rid] | _ \<Rightarrow> []) evs)"

definition udisks_open :: "udisks_state \<Rightarrow> string multiset" where
  "udisks_open st = mset (map sr_request (ud_timers st)) + mset (map (sr_request \<circ> snd) (ud_exec_calls st)) +
     mset (map sr_request (ud_completions st))"

lemma udisks_reported_append [simp]:
  "udisks_reported (xs @ ys) = udisks_reported xs @ udisks_reported ys"
  by (induction xs rule: udisks_reported.induct) auto

lemma udisks_reported_none: "(\<And>r. UdFinished r \<notin> set out) \<Longrightarrow> udisks_reported out = []"
  by (induction out rule: udisks_reported.induct) auto

lemma udisks_reported_map [simp]: "udisks_reported (map (\<lambda>r. UdFinished (f r)) rs) = map (sr_request \<circ> f) rs"
  by (induction rs) auto

lemma disappeared_mount_request [simp]: "sr_request (disappeared_mount ids r) = sr_request r"
  by (simp add: disappeared_mount_def)


lemma udisks_open_simps [simp]:
  "udisks_open (fst (udisks_refresh st)) = udisks_open st"
  "udisks_open (fst (udisks_changed st)) = udisks_open st"
  "udisks_open (st\<lparr>ud_ids := x\<rparr>) = udisks_open st"
  "udisks_open (st\<lparr>ud_refreshing := b\<rparr>) = udisks_open st"
  "udisks_open (st\<lparr>ud_refresh_calls := c\<rparr>) = udisks_open st"
  "udisks_open (st\<lparr>ud_owner_calls := d\<rparr>) = udisks_open st"
  "udisks_open (st\<lparr>ud_started := b\<rparr>) = udisks_open st"
  "udisks_open (fst (udisks_set_owner owner st)) \<subseteq># udisks_open st"
  by (simp_all add: udisks_open_def)

lemma udisks_reported_simps [simp]:
  "udisks_reported (snd (udisks_refresh st)) = []" "udisks_reported (snd (udisks_changed st)) = []"
  "udisks_reported (snd (udisks_set_owner owner st)) = []"
  by (simp_all add: udisks_reported_none)

lemma udisks_refresh_reply_open:
  "mset (udisks_reported (snd (udisks_refresh_reply q i reply fresh st))) +
     udisks_open (fst (udisks_refresh_reply q i reply fresh st)) \<subseteq># udisks_open st"
proof (cases "i < length (ud_refresh_calls st)")
  case True
  obtain g r where c: "ud_refresh_calls st ! i = (g, r)" by fastforce
  show ?thesis
  proof (cases "g = ud_generation st \<and> r = ud_revision st")
    case True
    then show ?thesis using \<open>i < _\<close> c
      by (cases reply) (simp_all add: udisks_refresh_reply_def Let_def split_beta udisks_publish_def
          udisks_open_def comp_def)
  next
    case False
    then show ?thesis using \<open>i < _\<close> c
      by (auto simp: udisks_refresh_reply_def Let_def)
  qed
qed (simp add: udisks_refresh_reply_def)

lemma udisks_exec_reply_open:
  "mset (udisks_reported (snd (udisks_exec_reply q i reply st))) +
     udisks_open (fst (udisks_exec_reply q i reply st)) \<subseteq># udisks_open st"
proof (cases "i < length (ud_exec_calls st)")
  case True
  obtain g r where c: "ud_exec_calls st ! i = (g, r)" by fastforce
  have calls: "mset (map (sr_request \<circ> snd) (ud_exec_calls st)) =
      add_mset (sr_request r) (mset (map (sr_request \<circ> snd) (remove_row i (ud_exec_calls st))))"
    using mset_remove_row [OF True] c by (simp add: mset_map)
  show ?thesis
    using True c calls by (cases reply) (auto simp: udisks_exec_reply_def Let_def udisks_open_def)
qed (simp add: udisks_exec_reply_def)

lemma udisks_step_open:
  "mset (udisks_reported (snd (udisks_step q ev st))) + udisks_open (fst (udisks_step q ev st))
   \<subseteq># udisks_open st + mset (udisks_commanded [ev])"
proof (cases ev)
  case (UdOwnerReply i reply)
  then show ?thesis
    by (cases reply) (auto simp: udisks_owner_reply_def Let_def udisks_commanded_def
        intro: subset_mset.order_trans [OF udisks_open_simps(8)])
next
  case (UdExecute rid op target)
  then show ?thesis by (simp add: udisks_execute_def Let_def udisks_commanded_def udisks_open_def)
next
  case UdTimer
  then show ?thesis by (cases "ud_timers st") (simp_all add: udisks_timer_def udisks_commanded_def udisks_open_def)
qed (use udisks_refresh_reply_open udisks_exec_reply_open in
    \<open>auto simp: udisks_commanded_def udisks_start_def udisks_stop_def udisks_owner_changed_def
      udisks_interfaces_removed_def udisks_execute_def udisks_timer_def Let_def split_beta
      split: list.split intro: subset_mset.order_trans [OF udisks_open_simps(8)]\<close>)


lemma udisks_outputs_open:
  "mset (udisks_reported (udisks_outputs q evs st)) \<subseteq># udisks_open st + mset (udisks_commanded evs)"
proof (induction evs arbitrary: st)
  case Nil
  then show ?case by simp
next
  case (Cons ev evs)
  obtain st' out where step: "udisks_step q ev st = (st', out)" by fastforce
  have "mset (udisks_reported out) + udisks_open st' \<subseteq># udisks_open st + mset (udisks_commanded [ev])"
    using udisks_step_open [of q ev st] step by simp
  from subset_mset.add_mono [OF this Cons.IH [of st']]
  have "mset (udisks_reported out) + mset (udisks_reported (udisks_outputs q evs st')) \<subseteq>#
      udisks_open st + mset (udisks_commanded [ev]) + mset (udisks_commanded evs)"
    by (simp add: ac_simps)
  then show ?case using step by (simp add: udisks_commanded_def add.assoc)
qed

text \<open>No command is answered twice and no answer is invented: in every sequence of events, the
  operations the backend reports finished are, counted with multiplicity, among those it was asked
  to execute.\<close>

theorem udisks_at_most_once:
  "mset (udisks_reported (udisks_outputs q evs (udisks_init service))) \<subseteq># mset (udisks_commanded evs)"
  using udisks_outputs_open [of q evs "udisks_init service"] by (simp add: udisks_open_def udisks_init_def)

end
