(* ===== verification/Storage_System.thy ===== *)
theory Storage_System
  imports UDisks2_Snapshots
begin

text \<open>
  \<open>StorageController\<close> with the \<open>UDisks2Backend\<close> it creates. A request of the application and a zero timer
  of the controller end in calls of \<open>execute\<close>; what the backend emits, when a D-Bus message arrives or its
  own zero timer fires, reaches the slots of the controller at once and may make it call \<open>execute\<close> again.
\<close>

section \<open>The composed system\<close>

record storage_system =
  ss_controller :: storage_state
  ss_backend :: udisks_state

text \<open>\<open>FromUDisks\<close> is an event of the backend, with the identifiers the controller draws while it handles
  the results the backend reports.\<close>

datatype 'v storage_system_event =
    AppBegin storage_operation string "string list" string
  | ControllerTimer string
  | FromUDisks "'v udisks_event" "nat \<Rightarrow> string"

text \<open>The calls of \<open>execute\<close> among the outputs of the controller, run on the backend. They emit nothing.\<close>

fun run_commands :: "storage_output list \<Rightarrow> udisks_state \<Rightarrow> udisks_state" where
  "run_commands [] b = b"
| "run_commands (BackendExecute rid op target # out) b =
     run_commands out (fst (udisks_execute rid op target b))"
| "run_commands (_ # out) b = run_commands out b"

text \<open>The slots of the controller that the outputs of the backend reach, in order.\<close>

fun slot_events :: "(nat \<Rightarrow> string) \<Rightarrow> nat \<Rightarrow> udisks_output list \<Rightarrow> storage_event list" where
  "slot_events fresh n [] = []"
| "slot_events fresh n (UdSnapshot ds vs a # out) = EvSnapshot ds vs a # slot_events fresh n out"
| "slot_events fresh n (UdFinished r # out) = EvReply r (fresh n) # slot_events fresh (Suc n) out"
| "slot_events fresh n (_ # out) = slot_events fresh n out"

definition controller_step ::
  "storage_event \<Rightarrow> storage_system \<Rightarrow> storage_system \<times> storage_output list" where
  "controller_step ev sys =
     (let (c, out) = storage_step ev (ss_controller sys)
      in (\<lparr>ss_controller = c, ss_backend = run_commands out (ss_backend sys)\<rparr>, out))"

fun controller_steps ::
  "storage_event list \<Rightarrow> storage_system \<Rightarrow> storage_system \<times> storage_trace" where
  "controller_steps [] sys = (sys, [])"
| "controller_steps (ev # evs) sys =
     (let (s1, out) = controller_step ev sys; (s2, tr) = controller_steps evs s1 in (s2, (ev, out) # tr))"

text \<open>The slots a step of the system reaches, after the backend has moved.\<close>

fun backend_moved :: "'v qvariant_ops \<Rightarrow> 'v storage_system_event \<Rightarrow> storage_system \<Rightarrow> storage_system" where
  "backend_moved q (FromUDisks ev fresh) sys = sys\<lparr>ss_backend := fst (udisks_step q ev (ss_backend sys))\<rparr>"
| "backend_moved q _ sys = sys"

fun reached_slots :: "'v qvariant_ops \<Rightarrow> 'v storage_system_event \<Rightarrow> storage_system \<Rightarrow> storage_event list" where
  "reached_slots q (AppBegin op target confirmed rid) sys = [EvBegin op target confirmed rid]"
| "reached_slots q (ControllerTimer fresh) sys = [EvTimer fresh]"
| "reached_slots q (FromUDisks ev fresh) sys = slot_events fresh 0 (snd (udisks_step q ev (ss_backend sys)))"

definition storage_system_step ::
  "'v qvariant_ops \<Rightarrow> 'v storage_system_event \<Rightarrow> storage_system \<Rightarrow> storage_system \<times> storage_trace" where
  "storage_system_step q ev sys = controller_steps (reached_slots q ev sys) (backend_moved q ev sys)"

text \<open>The constructor connects the signals and starts the backend, which emits nothing yet.\<close>

definition storage_system_init :: "string \<Rightarrow> storage_system" where
  "storage_system_init service =
     \<lparr>ss_controller = storage_init, ss_backend = fst (udisks_start (udisks_init service))\<rparr>"

section \<open>Runs\<close>

text \<open>What is assumed of the outside: identifiers drawn from \<open>QUuid\<close> are new and not empty, and the reply
  to \<open>GetManagedObjects\<close> is a map whose keys are D-Bus object paths. Commands reach the backend only
  through the controller.\<close>

definition uuids_ok :: "string set \<Rightarrow> (nat \<Rightarrow> string) \<Rightarrow> bool" where
  "uuids_ok used fresh \<longleftrightarrow> inj fresh \<and> '''' \<notin> range fresh \<and> range fresh \<inter> used = {}"

fun udisks_event_ok :: "'v udisks_event \<Rightarrow> udisks_state \<Rightarrow> bool" where
  "udisks_event_ok (UdExecute _ _ _) b = False"
| "udisks_event_ok UdStart b = False"
| "udisks_event_ok (UdRefreshReply _ (Some objects) fresh) b \<longleftrightarrow>
     fresh_ok fresh (ud_ids b) \<and> distinct (map fst objects) \<and>
     (\<forall>p \<in> set (map fst objects). CHR ''#'' \<notin> set p)"
| "udisks_event_ok _ b = True"

fun system_event_ok :: "string set \<Rightarrow> 'v storage_system_event \<Rightarrow> storage_system \<Rightarrow> bool" where
  "system_event_ok used (AppBegin op target confirmed rid) sys \<longleftrightarrow> rid \<noteq> '''' \<and> rid \<notin> used"
| "system_event_ok used (ControllerTimer fresh) sys \<longleftrightarrow> fresh \<noteq> '''' \<and> fresh \<notin> used"
| "system_event_ok used (FromUDisks ev fresh) sys \<longleftrightarrow>
     uuids_ok used fresh \<and> udisks_event_ok ev (ss_backend sys)"

definition trace_ids :: "storage_trace \<Rightarrow> string set" where
  "trace_ids tr = (\<Union>(ev, out) \<in> set tr. event_ids ev)"

text \<open>The calls the backend receives in a step, as events of the backend on its own.\<close>

fun command_events :: "storage_output list \<Rightarrow> 'v udisks_event list" where
  "command_events [] = []"
| "command_events (BackendExecute rid op target # out) = UdExecute rid op target # command_events out"
| "command_events (_ # out) = command_events out"

fun moving_events :: "'v storage_system_event \<Rightarrow> 'v udisks_event list" where
  "moving_events (FromUDisks ev fresh) = [ev]"
| "moving_events _ = []"

text \<open>A run with the identifiers in use, the trace of the controller and the events of the backend. The
  order of the request hash may change between steps.\<close>

inductive storage_system_run ::
  "'v qvariant_ops \<Rightarrow> string \<Rightarrow> storage_system \<Rightarrow> string set \<Rightarrow> storage_trace \<Rightarrow> 'v udisks_event list \<Rightarrow> bool"
  for q service where
  start: "storage_system_run q service (storage_system_init service) {} [] [UdStart]"
| step: "storage_system_run q service sys used tr evs \<Longrightarrow> system_event_ok used ev sys \<Longrightarrow>
    storage_system_step q ev sys = (sys', new) \<Longrightarrow>
    storage_system_run q service sys' (used \<union> trace_ids new) (tr @ new)
      (evs @ moving_events ev @ command_events (concat (map snd new)))"
| rehash: "storage_system_run q service sys used tr evs \<Longrightarrow>
    mset (sc_requests (ss_controller sys)) = mset rs \<Longrightarrow>
    storage_system_run q service (sys\<lparr>ss_controller := set_requests rs (ss_controller sys)\<rparr>) used tr evs"

section \<open>Both components run as they do alone\<close>

lemma command_events_append [simp]: "command_events (xs @ ys) = command_events xs @ command_events ys"
  by (induction xs rule: command_events.induct) simp_all

lemma run_commands_eq:
  "run_commands out b = fold (\<lambda>ev st. fst (udisks_step q ev st)) (command_events out) b"
  by (induction out b rule: run_commands.induct) simp_all

lemma run_commands_append [simp]: "run_commands (xs @ ys) b = run_commands ys (run_commands xs b)"
  by (induction xs b rule: run_commands.induct) simp_all

lemma controller_step_backend: "ss_backend (fst (controller_step ev sys)) =
    run_commands (snd (controller_step ev sys)) (ss_backend sys)"
  by (simp add: controller_step_def split_beta)

lemma controller_steps_backend:
  "ss_backend (fst (controller_steps evs sys)) =
     run_commands (concat (map snd (snd (controller_steps evs sys)))) (ss_backend sys)"
  by (induction evs arbitrary: sys) (simp_all add: split_beta controller_step_backend)

lemma backend_moved_eq:
  "ss_backend (backend_moved q ev sys) = fold (\<lambda>e st. fst (udisks_step q e st)) (moving_events ev) (ss_backend sys)"
  "ss_controller (backend_moved q ev sys) = ss_controller sys"
  by (cases ev; simp)+

lemma system_backend_run:
  "storage_system_run q service sys used tr evs \<Longrightarrow> ss_backend sys = udisks_run q service evs"
proof (induction rule: storage_system_run.induct)
  case start
  then show ?case by (simp add: storage_system_init_def udisks_run_eq)
next
  case (step sys used tr evs ev sys' new)
  have "sys' = fst (storage_system_step q ev sys)" "new = snd (storage_system_step q ev sys)"
    using step.hyps(3) by simp_all
  then show ?case
    using step.IH
    by (simp add: storage_system_step_def controller_steps_backend backend_moved_eq run_commands_eq [of _ _ q]
        udisks_run_eq)
qed simp

text \<open>A sequence of slots the controller may see, each with new identifiers.\<close>

fun events_ok :: "string set \<Rightarrow> storage_event list \<Rightarrow> bool" where
  "events_ok used [] = True"
| "events_ok used (ev # evs) \<longleftrightarrow> event_ok used ev \<and> events_ok (used \<union> event_ids ev) evs"

lemma trace_ids_Cons [simp]: "trace_ids ((ev, out) # tr) = event_ids ev \<union> trace_ids tr"
  and trace_ids_Nil [simp]: "trace_ids [] = {}"
  by (auto simp: trace_ids_def)

lemma controller_steps_run:
  "storage_run (ss_controller sys) used tr \<Longrightarrow> events_ok used evs \<Longrightarrow> controller_steps evs sys = (sys', new) \<Longrightarrow>
   storage_run (ss_controller sys') (used \<union> trace_ids new) (tr @ new)"
proof (induction evs arbitrary: sys used tr new)
  case Nil
  then show ?case by simp
next
  case (Cons ev evs)
  obtain c out where c: "storage_step ev (ss_controller sys) = (c, out)" by fastforce
  let ?s1 = "\<lparr>ss_controller = c, ss_backend = run_commands out (ss_backend sys)\<rparr>"
  obtain rest where rest: "controller_steps evs ?s1 = (sys', rest)" and new: "new = (ev, out) # rest"
    using Cons.prems(3) c by (auto simp: controller_step_def split: prod.splits)
  have "storage_run c (used \<union> event_ids ev) (tr @ [(ev, out)])"
    by (rule storage_run.step [OF Cons.prems(1) _ c]) (use Cons.prems(2) in simp)
  from Cons.IH [OF _ _ rest, of "used \<union> event_ids ev" "tr @ [(ev, out)]"] this Cons.prems(2)
  show ?case by (simp add: new Un_assoc)
qed

text \<open>What the backend must keep for its signals to be admissible.\<close>

definition results_named :: "storage_result list \<Rightarrow> bool" where
  "results_named rs = list_all (\<lambda>r. sr_request r \<noteq> '''') rs"

definition backend_named :: "udisks_state \<Rightarrow> bool" where
  "backend_named b \<longleftrightarrow> ids_ok (ud_ids b) \<and> results_named (ud_timers b) \<and>
     list_all (\<lambda>r. \<not> result_succeeded r) (ud_timers b) \<and>
     results_named (map snd (ud_exec_calls b)) \<and> results_named (ud_completions b)"

fun output_ok :: "udisks_output \<Rightarrow> bool" where
  "output_ok (UdSnapshot ds vs a) \<longleftrightarrow> distinct (map sd_id ds) \<and> distinct (map sv_id vs)"
| "output_ok (UdFinished r) \<longleftrightarrow> sr_request r \<noteq> ''''"
| "output_ok _ = True"


lemma results_named_Nil [simp]: "results_named []"
  by (simp add: results_named_def)

lemma results_named_append [simp]: "results_named (xs @ ys) = (results_named xs \<and> results_named ys)"
  by (simp add: results_named_def)


lemma ids_ok_remove: "ids_ok m \<Longrightarrow> ids_ok (hash_remove k m)"
  by (simp add: AList.delete_eq ids_ok_filter)

lemma ids_ok_removes: "ids_ok m \<Longrightarrow> ids_ok (fold (\<lambda>i ids. hash_remove (udisks_key path i) ids) interfaces m)"
  by (induction interfaces arbitrary: m) (simp_all add: ids_ok_remove)

lemma list_all_remove_row: "list_all P xs \<Longrightarrow> list_all P (remove_row i xs)"
  by (auto simp: remove_row_def list_all_iff dest: in_set_takeD in_set_dropD)

lemma results_named_remove_row: "results_named xs \<Longrightarrow> results_named (remove_row i xs)"
  by (simp add: results_named_def list_all_remove_row)

lemma refresh_outputs_ok [simp]:
  "list_all output_ok (snd (udisks_refresh b))" "list_all output_ok (snd (udisks_changed b))"
  "list_all output_ok (snd (udisks_set_owner owner b))"
  by (simp_all add: udisks_refresh_def udisks_changed_def udisks_set_owner_def Let_def)

lemma changed_named [simp]:
  "backend_named (fst (udisks_refresh b)) = backend_named b"
  "backend_named (fst (udisks_changed b)) = backend_named b"
  by (simp_all add: backend_named_def)

lemma set_owner_named: "backend_named b \<Longrightarrow> backend_named (fst (udisks_set_owner owner b))"
  by (simp add: backend_named_def)

lemma execute_named: "backend_named b \<Longrightarrow> rid \<noteq> '''' \<Longrightarrow> backend_named (fst (udisks_execute rid op target b))"
  by (simp add: backend_named_def udisks_execute_def Let_def results_named_def result_succeeded_def)

lemma publish_named:
  assumes "backend_named b" and "fresh_ok fresh (ud_ids b)" and "distinct (map fst objects)"
    and "\<forall>p \<in> set (map fst objects). CHR ''#'' \<notin> set p"
  shows "ids_ok (publish_ids fresh objects (ud_ids b)) \<and>
    list_all output_ok (snd (udisks_publish q fresh objects b))"
proof -
  have ids: "ids_ok (ud_ids b)" using assms(1) by (simp add: backend_named_def)
  obtain ds vs where out: "snd (udisks_publish q fresh objects b) = [UdSnapshot ds vs True]"
    by (simp add: udisks_publish_def Let_def)
  then have "udisks_publish q fresh objects b = (fst (udisks_publish q fresh objects b), [UdSnapshot ds vs True])"
    by (metis prod.collapse)
  from udisks_snapshot_ids [OF ids assms(2-4) this, of "{}"] show ?thesis by (simp add: out)
qed

lemma refresh_reply_named:
  assumes named: "backend_named b" and ok: "udisks_event_ok (UdRefreshReply i reply fresh) b"
  shows "backend_named (fst (udisks_refresh_reply q i reply fresh b)) \<and>
    list_all output_ok (snd (udisks_refresh_reply q i reply fresh b))"
proof (cases "i < length (ud_refresh_calls b)")
  case True
  let ?b1 = "b\<lparr>ud_refresh_calls := remove_row i (ud_refresh_calls b)\<rparr>"
  let ?b2 = "?b1\<lparr>ud_refreshing := False\<rparr>"
  have n: "backend_named ?b1" "backend_named ?b2" using named by (simp_all add: backend_named_def)
  obtain g r where c: "ud_refresh_calls b ! i = (g, r)" by fastforce
  show ?thesis
  proof (cases "g = ud_generation b \<and> r = ud_revision b")
    case False
    then show ?thesis using True c n by (auto simp: udisks_refresh_reply_def Let_def)
  next
    case current: True
    show ?thesis
    proof (cases reply)
      case None
      then show ?thesis using True c current n by (simp add: udisks_refresh_reply_def backend_named_def)
    next
      case (Some objects)
      then have "ids_ok (publish_ids fresh objects (ud_ids ?b2)) \<and>
          list_all output_ok (snd (udisks_publish q fresh objects ?b2))"
        using ok by (intro publish_named [OF n(2)]) simp_all
      then show ?thesis using True c current n Some
        by (simp add: udisks_refresh_reply_def backend_named_def split_beta results_named_def Let_def)
          (auto simp: list_all_iff)
    qed
  qed
qed (use named in \<open>simp add: udisks_refresh_reply_def\<close>)

lemma exec_reply_named:
  assumes named: "backend_named b"
  shows "backend_named (fst (udisks_exec_reply q i reply b)) \<and>
    list_all output_ok (snd (udisks_exec_reply q i reply b))"
proof (cases "i < length (ud_exec_calls b)")
  case True
  obtain g r where c: "ud_exec_calls b ! i = (g, r)" by fastforce
  have "sr_request r \<noteq> ''''"
    using named nth_mem [OF True] c by (force simp: backend_named_def results_named_def list_all_iff)
  moreover have "results_named (map snd (remove_row i (ud_exec_calls b)))"
    using named by (simp add: backend_named_def map_remove_row results_named_remove_row)
  ultimately show ?thesis
    using True c named by (cases reply)
      (auto simp: udisks_exec_reply_def Let_def backend_named_def results_named_def)
qed (use named in \<open>simp add: udisks_exec_reply_def\<close>)

lemma owner_reply_named:
  assumes "backend_named b"
  shows "backend_named (fst (udisks_owner_reply i reply b)) \<and>
    list_all output_ok (snd (udisks_owner_reply i reply b))"
proof -
  have "backend_named (b\<lparr>ud_owner_calls := c\<rparr>)" for c using assms by (simp add: backend_named_def)
  then show ?thesis
    using assms set_owner_named by (cases reply) (auto simp: udisks_owner_reply_def Let_def)
qed

lemma udisks_step_named:
  assumes named: "backend_named b" and ok: "udisks_event_ok ev b"
  shows "backend_named (fst (udisks_step q ev b)) \<and> list_all output_ok (snd (udisks_step q ev b))"
proof (cases ev)
  case (UdRefreshReply i reply fresh)
  then show ?thesis using refresh_reply_named named ok by simp
next
  case (UdInterfacesRemoved path interfaces)
  have "backend_named (b\<lparr>ud_ids := fold (\<lambda>i ids. hash_remove (udisks_key path i) ids) interfaces (ud_ids b)\<rparr>)"
    using named by (simp add: backend_named_def ids_ok_removes)
  then show ?thesis using UdInterfacesRemoved by (simp add: udisks_interfaces_removed_def)
next
  case UdStop
  have "backend_named (b\<lparr>ud_started := False\<rparr>)" using named by (simp add: backend_named_def)
  then show ?thesis using UdStop named by (simp add: udisks_stop_def split_beta set_owner_named)
next
  case UdTimer
  then show ?thesis using named
    by (cases "ud_timers b") (simp_all add: udisks_timer_def backend_named_def results_named_def)
qed (use named ok exec_reply_named [of b q] owner_reply_named [of b] in
    \<open>simp_all add: udisks_owner_changed_def set_owner_named\<close>)

lemma commands_named:
  "backend_named b \<Longrightarrow> (\<And>rid op t. BackendExecute rid op t \<in> set out \<Longrightarrow> rid \<noteq> '''') \<Longrightarrow>
   backend_named (run_commands out b)"
proof (induction out b rule: run_commands.induct)
  case (2 rid op target out b)
  have rest: "s \<noteq> ''''" if "BackendExecute s op' t \<in> set out" for s op' t
    using 2(3) that by auto
  have "backend_named (fst (udisks_execute rid op target b))" using 2(2,3) by (auto intro!: execute_named)
  then show ?case using 2(1) rest by auto
qed auto

lemma controller_command_named:
  assumes "storage_inv c used tr" and "event_ok used ev" and "BackendExecute s op t \<in> set (snd (storage_step ev c))"
  shows "s \<noteq> ''''"
proof -
  obtain rid r r' where r': "hash_value (sc_requests (fst (storage_step ev c))) rid = Some r'" "rq_step r' = s"
    using step_command [OF surjective_pairing assms(3)] storage_invD(1) [OF assms(1)] by metis
  show ?thesis
  proof (cases ev)
    case (EvTimer fresh)
    then have "s = fresh" using assms(3) timer_advances [OF surjective_pairing] advance_command
      by (metis storage_step.simps(2) snd_conv)
    then show ?thesis using assms(2) EvTimer by simp
  next
    case (EvReply res fresh)
    then have "s = fresh" using assms(3) reply_advances [OF surjective_pairing] advance_command
        storage_invD(1) [OF assms(1)]
      by (metis storage_step.simps(3) snd_conv)
    then show ?thesis using assms(2) EvReply by simp
  qed (use assms(3) in \<open>auto simp: storage_begin_def storage_snapshot_def Let_def split_beta split: if_splits\<close>)
qed

lemma steps_named:
  "storage_run (ss_controller sys) used tr \<Longrightarrow> events_ok used evs \<Longrightarrow> backend_named (ss_backend sys) \<Longrightarrow>
   backend_named (ss_backend (fst (controller_steps evs sys)))"
proof (induction evs arbitrary: sys used tr)
  case (Cons ev evs)
  obtain c out where c: "storage_step ev (ss_controller sys) = (c, out)" by fastforce
  let ?s1 = "\<lparr>ss_controller = c, ss_backend = run_commands out (ss_backend sys)\<rparr>"
  have "storage_run c (used \<union> event_ids ev) (tr @ [(ev, out)])"
    by (rule storage_run.step [OF Cons.prems(1) _ c]) (use Cons.prems(2) in simp)
  moreover have "backend_named (ss_backend ?s1)"
    using commands_named [OF Cons.prems(3), of out]
      controller_command_named [OF storage_run_inv [OF Cons.prems(1)], of ev] Cons.prems(2) c by simp
  ultimately have "backend_named (ss_backend (fst (controller_steps evs ?s1)))"
    using Cons.IH [of ?s1 "used \<union> event_ids ev" "tr @ [(ev, out)]"] Cons.prems(2) by simp
  then show ?case using c by (simp add: controller_step_def split_beta)
qed simp

lemma slot_events_ok:
  assumes "list_all output_ok out" and "inj fresh" and "'''' \<notin> range fresh" and "fresh ` {n..} \<inter> used = {}"
  shows "events_ok used (slot_events fresh n out)"
  using assms
proof (induction fresh n out arbitrary: used rule: slot_events.induct)
  case (3 fresh n r out)
  have "fresh ` {Suc n..} \<inter> (used \<union> {fresh n}) = {}"
    using 3(3,5) by (auto simp: inj_eq) (metis IntI Suc_leD atLeast_iff empty_iff image_eqI)
  with 3 show ?case by (auto simp: image_iff) metis
qed simp_all

lemma reached_slots_ok:
  assumes "backend_named (ss_backend sys)" and "system_event_ok used ev sys"
  shows "events_ok used (reached_slots q ev sys)"
proof (cases ev)
  case (FromUDisks e fresh)
  then have "uuids_ok used fresh" "list_all output_ok (snd (udisks_step q e (ss_backend sys)))"
    using assms udisks_step_named by auto
  then show ?thesis unfolding FromUDisks reached_slots.simps uuids_ok_def
    by (intro slot_events_ok) auto
qed (use assms(2) in simp_all)

lemma system_components:
  "storage_system_run q service sys used tr evs \<Longrightarrow>
   storage_run (ss_controller sys) used tr \<and> backend_named (ss_backend sys)"
proof (induction rule: storage_system_run.induct)
  case start
  then show ?case
    by (simp add: storage_system_init_def storage_run.start udisks_start_def udisks_init_def backend_named_def)
next
  case (step sys used tr evs ev sys' new)
  let ?moved = "backend_moved q ev sys"
  have moved: "backend_named (ss_backend ?moved)"
    using step.IH step.hyps(2) udisks_step_named by (cases ev) auto
  have ok: "events_ok used (reached_slots q ev sys)" using reached_slots_ok step.IH step.hyps(2) by blast
  have steps: "controller_steps (reached_slots q ev sys) ?moved = (sys', new)"
    using step.hyps(3) by (simp add: storage_system_step_def)
  show ?case
    using controller_steps_run [of ?moved used tr, OF _ ok steps] steps_named [of ?moved used tr, OF _ ok moved]
      steps step.IH
    by (simp add: backend_moved_eq)
next
  case (rehash sys used tr evs rs)
  then show ?case by (simp add: storage_run.rehash)
qed

end
