(* ===== verification/Storage_System_Runs.thy ===== *)
theory Storage_System_Runs
  imports Storage_System
begin

text \<open>
  What the storage controller and the UDisks2 backend guarantee together: each keeps the assumptions made
  about it, no step of a request is lost between them, and the success of a request is reported with the models
  of a snapshot that was asked for after UDisks2 answered its command.
\<close>

section \<open>No step of a request is lost\<close>

text \<open>The steps of the controller's requests that wait for a result, and the operations the backend still
  answers for: its zero timers, the commands whose replies it will use, and the results that wait for the
  next snapshot.\<close>

definition in_flight :: "storage_state \<Rightarrow> string \<Rightarrow> bool" where
  "in_flight c s \<longleftrightarrow> s \<noteq> '''' \<and> (\<exists>rid r. hash_value (sc_requests c) rid = Some r \<and> rq_step r = s)"

definition in_service :: "udisks_state \<Rightarrow> string \<Rightarrow> bool" where
  "in_service b s = list_ex (\<lambda>r. sr_request r = s) (ud_timers b @ ud_completions b @
     map snd (filter (\<lambda>c. fst c = ud_generation b) (ud_exec_calls b)))"

lemma in_service_iff:
  "in_service b s \<longleftrightarrow> (\<exists>r \<in> set (ud_timers b). sr_request r = s) \<or> (\<exists>r \<in> set (ud_completions b). sr_request r = s) \<or>
     (\<exists>r. (ud_generation b, r) \<in> set (ud_exec_calls b) \<and> sr_request r = s)"
  by (auto simp: in_service_def list_ex_iff image_iff)

definition told_lost :: "udisks_output list \<Rightarrow> bool" where
  "told_lost out = list_ex (\<lambda>o'. case o' of UdSnapshot _ _ a \<Rightarrow> \<not> a | _ \<Rightarrow> False) out"

lemma told_lost_simps [simp]:
  "told_lost [] = False" "told_lost (xs @ ys) = (told_lost xs \<or> told_lost ys)"
  "told_lost (UdSnapshot ds vs a # out) = (\<not> a \<or> told_lost out)"
  "told_lost (UdFinished r # out) = told_lost out" "told_lost (UdGetManagedObjects s # out) = told_lost out"
  "told_lost (UdSubscribe s # out) = told_lost out" "told_lost (UdUnsubscribe s # out) = told_lost out"
  "told_lost (UdGetNameOwner s # out) = told_lost out" "told_lost (UdCall s1 s2 s3 s4 # out) = told_lost out"
  by (auto simp: told_lost_def)

definition keeps_service :: "udisks_state \<Rightarrow> udisks_state \<times> udisks_output list \<Rightarrow> bool" where
  "keeps_service b r \<longleftrightarrow> told_lost (snd r) \<or>
     (\<forall>s. in_service b s \<longrightarrow> in_service (fst r) s \<or> s \<in> set (udisks_reported (snd r)))"

lemma in_service_cong:
  "ud_timers b = ud_timers b' \<Longrightarrow> ud_completions b = ud_completions b' \<Longrightarrow> ud_exec_calls b = ud_exec_calls b' \<Longrightarrow>
   ud_generation b = ud_generation b' \<Longrightarrow> in_service b = in_service b'"
  by (simp add: in_service_def fun_eq_iff)

lemma in_service_refresh [simp]:
  "in_service (fst (udisks_refresh b)) = in_service b" "in_service (fst (udisks_changed b)) = in_service b"
  by (rule in_service_cong; simp)+

lemma set_owner_lost [simp]: "told_lost (snd (udisks_set_owner owner b))"
  by (auto simp: udisks_set_owner_def Let_def split_beta)

lemma keeps_service_unchanged: "in_service (fst r) = in_service b \<Longrightarrow> keeps_service b r"
  by (simp add: keeps_service_def)

lemma refresh_reply_keeps: "keeps_service b (udisks_refresh_reply q i reply fresh b)"
proof (cases "i < length (ud_refresh_calls b)")
  case True
  let ?b1 = "b\<lparr>ud_refresh_calls := remove_row i (ud_refresh_calls b)\<rparr>"
  let ?b2 = "?b1\<lparr>ud_refreshing := False\<rparr>"
  have same: "in_service ?b1 = in_service b" "in_service ?b2 = in_service b"
    by (rule in_service_cong; simp)+
  obtain g r where c: "ud_refresh_calls b ! i = (g, r)" by fastforce
  show ?thesis
  proof (cases "g = ud_generation b \<and> r = ud_revision b")
    case False
    then show ?thesis using True c same
      by (intro keeps_service_unchanged) (auto simp: udisks_refresh_reply_def Let_def)
  next
    case current: True
    show ?thesis
    proof (cases reply)
      case None
      then show ?thesis using True c current by (simp add: udisks_refresh_reply_def keeps_service_def)
    next
      case (Some objects)
      then show ?thesis using True c current
        by (auto simp: udisks_refresh_reply_def Let_def split_beta keeps_service_def in_service_def
            list_ex_iff comp_def)
    qed
  qed
qed (simp add: udisks_refresh_reply_def keeps_service_def)

lemma filter_remove_row_other:
  assumes "i < length xs" and "\<not> P (xs ! i)"
  shows "filter P (remove_row i xs) = filter P xs"
proof -
  have "filter P xs = filter P (take i xs @ xs ! i # drop (Suc i) xs)" using id_take_nth_drop [OF assms(1)] by simp
  then show ?thesis using assms(2) by (simp add: remove_row_def)
qed

lemma exec_reply_keeps: "keeps_service b (udisks_exec_reply q i reply b)"
proof (cases "i < length (ud_exec_calls b)")
  case True
  obtain g r where c: "ud_exec_calls b ! i = (g, r)" by fastforce
  show ?thesis
  proof (cases "g = ud_generation b")
    case False
    then have "filter (\<lambda>c. fst c = ud_generation b) (remove_row i (ud_exec_calls b)) =
        filter (\<lambda>c. fst c = ud_generation b) (ud_exec_calls b)"
      using filter_remove_row_other [OF True] c by simp
    then show ?thesis using True c False
      by (auto simp: udisks_exec_reply_def keeps_service_def in_service_def)
  next
    case current: True
    have "set (ud_exec_calls b) = insert (g, r) (set (remove_row i (ud_exec_calls b)))"
      using set_remove_row_insert [OF True] c by simp
    then have "in_service b s \<longleftrightarrow> sr_request r = s \<or>
        in_service (b\<lparr>ud_exec_calls := remove_row i (ud_exec_calls b)\<rparr>) s" for s
      using current by (auto simp: in_service_iff)
    then show ?thesis using True c current
      by (cases reply) (auto simp: udisks_exec_reply_def Let_def keeps_service_def in_service_iff)
  qed
qed (simp add: udisks_exec_reply_def keeps_service_def)

lemma owner_reply_keeps: "keeps_service b (udisks_owner_reply i reply b)"
proof -
  have "in_service (b\<lparr>ud_owner_calls := c\<rparr>) = in_service b" for c by (rule in_service_cong) simp_all
  then show ?thesis
    by (cases reply) (auto simp: udisks_owner_reply_def Let_def keeps_service_def)
qed

lemma execute_serves:
  "in_service (fst (udisks_execute rid op target b)) s \<longleftrightarrow> s = rid \<or> in_service b s"
  by (auto simp: udisks_execute_def Let_def in_service_iff)

lemma udisks_step_keeps: "keeps_service b (udisks_step q ev b)"
proof (cases ev)
  case (UdInterfacesRemoved path interfaces)
  have "in_service (b\<lparr>ud_ids := x\<rparr>) = in_service b" for x by (rule in_service_cong) simp_all
  then show ?thesis using UdInterfacesRemoved by (simp add: udisks_interfaces_removed_def keeps_service_def)
next
  case UdStart
  have "in_service (b\<lparr>ud_started := True, ud_owner_calls := c\<rparr>) = in_service b" for c
    by (rule in_service_cong) simp_all
  then show ?thesis using UdStart by (simp add: udisks_start_def keeps_service_def)
next
  case UdTimer
  then show ?thesis
    by (cases "ud_timers b") (auto simp: udisks_timer_def keeps_service_def in_service_def)
next
  case UdStop
  then show ?thesis by (simp add: udisks_stop_def split_beta keeps_service_def)
next
  case (UdOwnerChanged owner)
  then show ?thesis by (simp add: udisks_owner_changed_def keeps_service_def)
qed (simp_all add: refresh_reply_keeps exec_reply_keeps owner_reply_keeps,
    simp_all add: keeps_service_def execute_serves)

lemma commands_serve:
  "in_service (run_commands out b) s \<longleftrightarrow> in_service b s \<or> (\<exists>op t. BackendExecute s op t \<in> set out)"
  by (induction out b rule: run_commands.induct) (auto simp: execute_serves)

text \<open>What a slot of the controller does to the steps in flight: a step it leaves in flight was in flight
  before and has not been answered, or its command has just been sent.\<close>

lemma finish_flight:
  "in_flight (fst (storage_finish rid en em mp c)) s \<Longrightarrow>
   s \<noteq> '''' \<and> (\<exists>k r. k \<noteq> rid \<and> hash_value (sc_requests c) k = Some r \<and> rq_step r = s)"
proof (cases "hash_value (sc_requests c) rid")
  case None
  assume "in_flight (fst (storage_finish rid en em mp c)) s"
  then have "in_flight c s" using None by (simp add: storage_finish_None)
  then show ?thesis using None unfolding in_flight_def by (metis option.distinct(1))
next
  case (Some r)
  assume "in_flight (fst (storage_finish rid en em mp c)) s"
  then show ?thesis using Some by (auto simp: in_flight_def storage_finish_Some split: if_splits)
qed

lemma advance_flight:
  assumes "in_flight (fst (storage_advance rid fresh c)) s"
  shows "(\<exists>op t. BackendExecute s op t \<in> set (snd (storage_advance rid fresh c))) \<or>
    s \<noteq> '''' \<and> (\<exists>k r. k \<noteq> rid \<and> hash_value (sc_requests c) k = Some r \<and> rq_step r = s)"
proof (cases "hash_value (sc_requests c) rid")
  case None
  then have "in_flight c s" using assms by (simp add: storage_advance_def)
  then obtain k r where "s \<noteq> ''''" "hash_value (sc_requests c) k = Some r" "rq_step r = s"
    by (auto simp: in_flight_def)
  moreover from this have "k \<noteq> rid" using None by auto
  ultimately show ?thesis by blast
next
  case (Some r)
  then show ?thesis
    using assms by (cases rule: storage_advance_cases [OF Some, of fresh]) (auto simp: in_flight_def split: if_splits)
qed

lemma timer_flight:
  assumes "in_flight (fst (storage_timer fresh c)) s"
  shows "(\<exists>op t. BackendExecute s op t \<in> set (snd (storage_timer fresh c))) \<or> in_flight c s"
proof (cases "sc_deferred c")
  case (Cons p rest)
  obtain rid f where p: "p = (rid, f)" by (cases p)
  let ?c1 = "c\<lparr>sc_deferred := rest\<rparr>"
  have same: "in_flight ?c1 s = in_flight c s" by (simp add: in_flight_def)
  have eq: "storage_timer fresh c = (if \<not> hash_contains (sc_requests c) rid then (?c1, [])
      else if f \<noteq> '''' then storage_finish rid (storage_error f) f '''' ?c1 else storage_advance rid fresh ?c1)"
    by (simp add: storage_timer_def Cons p Let_def)
  have other: "in_flight c s" if "s \<noteq> '''' \<and> (\<exists>k r. k \<noteq> rid \<and> hash_value (sc_requests ?c1) k = Some r \<and> rq_step r = s)"
    using that unfolding in_flight_def by auto
  show ?thesis
  proof (cases "hash_contains (sc_requests c) rid")
    case False
    then have "storage_timer fresh c = (?c1, [])" by (simp only: eq) simp
    then show ?thesis using assms same by simp
  next
    case True
    show ?thesis
    proof (cases "f = ''''")
      case False
      then have "storage_timer fresh c = storage_finish rid (storage_error f) f '''' ?c1" using True by (simp only: eq) simp
      then show ?thesis using assms finish_flight other by metis
    next
      case f: True
      then have "storage_timer fresh c = storage_advance rid fresh ?c1" using True by (simp only: eq) simp
      then show ?thesis using assms advance_flight other by metis
    qed
  qed
qed (use assms in \<open>simp add: storage_timer_def\<close>)

lemma reply_flight:
  assumes inv: "storage_inv c used tr" and res: "sr_request res \<noteq> ''''"
    and flight: "in_flight (fst (storage_reply res fresh c)) s"
  shows "(\<exists>op t. BackendExecute s op t \<in> set (snd (storage_reply res fresh c))) \<or>
    in_flight c s \<and> sr_request res \<noteq> s"
proof (cases "find (\<lambda>(_, r). rq_step r = sr_request res) (sc_requests c)")
  case None
  have "\<not> (\<exists>rid r. hash_value (sc_requests c) rid = Some r \<and> rq_step r = sr_request res)"
    using None map_of_SomeD by (fastforce simp: find_None_iff)
  moreover have "in_flight c s" using None flight by (simp add: storage_reply_def)
  ultimately show ?thesis unfolding in_flight_def by blast
next
  case (Some p)
  note D = storage_invD [OF inv]
  obtain rid r where p: "p = (rid, r)" by (cases p)
  note r = find_request [OF D(1) Some [unfolded p]]
  have rid: "rid \<noteq> ''''" using requests_okD(1) [OF D(2) r(1)] by (simp add: request_ok_def)
  let ?c1 = "set_requests (hash_insert rid (r\<lparr>rq_step := ''''\<rparr>) (sc_requests c)) c"
  have others: "in_flight c s \<and> sr_request res \<noteq> s"
    if "s \<noteq> ''''" "k \<noteq> rid" "hash_value (sc_requests c) k = Some r'" "rq_step r' = s" for k r'
    using that steps_distinctD [OF D(3) r(1) that(3)] r(2) by (auto simp: in_flight_def)
  have "(\<exists>en em mp. storage_reply res fresh c = storage_finish rid en em mp c) \<or>
      storage_reply res fresh c = storage_advance rid fresh ?c1"
    using Some p rid by (cases "result_succeeded res"; cases "rq_final r") (auto simp: storage_reply_def)
  then consider (finish) en em mp where "storage_reply res fresh c = storage_finish rid en em mp c"
    | (advance) "storage_reply res fresh c = storage_advance rid fresh ?c1"
    by blast
  then show ?thesis
  proof cases
    case finish
    then show ?thesis using flight finish_flight others by metis
  next
    case advance
    have "hash_value (sc_requests ?c1) k = hash_value (sc_requests c) k" if "k \<noteq> rid" for k
      using that by simp
    then show ?thesis using flight advance_flight others unfolding advance by metis
  qed
qed

lemma begin_flight: "in_flight (fst (storage_begin op target confirmed rid c)) s \<Longrightarrow> in_flight c s"
  by (auto simp: storage_begin_def in_flight_def Let_def split: if_splits)

lemma snapshot_flight:
  assumes "storage_run c used tr" and "in_flight (fst (storage_snapshot ds vs a c)) s"
  shows "in_flight c s \<and> a"
proof (cases a)
  case False
  then have "sc_requests (fst (storage_snapshot ds vs a c)) = []"
    using service_lost_effect [OF assms(1), of ds vs] by (cases "storage_snapshot ds vs a c") simp
  then show ?thesis using assms(2) by (simp add: in_flight_def)
next
  case True
  then show ?thesis using assms(2) by (simp add: storage_snapshot_def Let_def split_beta in_flight_def)
qed

lemma step_flight:
  assumes "storage_run c used tr" and "event_ok used ev" and "in_flight (fst (storage_step ev c)) s"
  shows "(\<exists>op t. BackendExecute s op t \<in> set (snd (storage_step ev c))) \<or>
    in_flight c s \<and> (\<forall>res fresh. ev = EvReply res fresh \<longrightarrow> sr_request res \<noteq> s) \<and>
    (\<forall>ds vs. ev \<noteq> EvSnapshot ds vs False)"
proof (cases ev)
  case (EvTimer fresh)
  then show ?thesis using assms(3) timer_flight by fastforce
next
  case (EvReply res fresh)
  then show ?thesis using assms(2,3) reply_flight [OF storage_run_inv [OF assms(1)]] by fastforce
next
  case (EvSnapshot ds vs a)
  then have "in_flight c s \<and> a" using assms(3) by (intro snapshot_flight [OF assms(1)]) simp
  then show ?thesis using EvSnapshot by simp
qed (use assms begin_flight in auto)

text \<open>Between the step of the backend and the last slot, a step in flight is in the care of the backend or
  of a slot still to come.\<close>

definition covered :: "storage_system \<Rightarrow> storage_event list \<Rightarrow> bool" where
  "covered sys slots \<longleftrightarrow> (\<exists>ds vs. EvSnapshot ds vs False \<in> set slots) \<or>
     (\<forall>s. in_flight (ss_controller sys) s \<longrightarrow> in_service (ss_backend sys) s \<or>
        (\<exists>res fresh. EvReply res fresh \<in> set slots \<and> sr_request res = s))"

lemma controller_step_covered:
  assumes "storage_run (ss_controller sys) used tr" and "event_ok used ev" and "covered sys (ev # slots)"
  shows "covered (fst (controller_step ev sys)) slots"
proof (cases "\<exists>ds vs. EvSnapshot ds vs False \<in> set slots")
  case False
  have "in_service (ss_backend (fst (controller_step ev sys))) s \<or>
      (\<exists>res fresh. EvReply res fresh \<in> set slots \<and> sr_request res = s)"
    if "in_flight (ss_controller (fst (controller_step ev sys))) s" for s
  proof -
    have "in_flight (fst (storage_step ev (ss_controller sys))) s"
      using that by (simp add: controller_step_def split_beta)
    from step_flight [OF assms(1,2) this] show ?thesis
    proof
      assume "in_flight (ss_controller sys) s \<and> (\<forall>res fresh. ev = EvReply res fresh \<longrightarrow> sr_request res \<noteq> s) \<and>
        (\<forall>ds vs. ev \<noteq> EvSnapshot ds vs False)"
      then have "in_service (ss_backend sys) s \<or> (\<exists>res fresh. EvReply res fresh \<in> set slots \<and> sr_request res = s)"
        using assms(3) False unfolding covered_def by (metis set_ConsD)
      then show ?thesis by (auto simp: controller_step_def split_beta commands_serve)
    qed (auto simp: controller_step_def split_beta commands_serve)
  qed
  then show ?thesis by (simp add: covered_def)
qed (simp add: covered_def)

lemma controller_steps_covered:
  "storage_run (ss_controller sys) used tr \<Longrightarrow> events_ok used evs \<Longrightarrow> covered sys evs \<Longrightarrow>
   covered (fst (controller_steps evs sys)) []"
proof (induction evs arbitrary: sys used tr)
  case (Cons ev evs)
  obtain s1 out where s1: "controller_step ev sys = (s1, out)" by fastforce
  obtain c where c: "storage_step ev (ss_controller sys) = (c, out)" "ss_controller s1 = c"
    using s1 by (auto simp: controller_step_def split: prod.splits)
  have "storage_run (ss_controller s1) (used \<union> event_ids ev) (tr @ [(ev, out)])"
    unfolding c(2) by (rule storage_run.step [OF Cons.prems(1) _ c(1)]) (use Cons.prems(2) in simp)
  moreover have "covered s1 evs"
    using controller_step_covered [OF Cons.prems(1) _ Cons.prems(3)] Cons.prems(2) s1 by simp
  ultimately show ?case using Cons.IH Cons.prems(2) s1 by (simp add: split_beta)
qed simp

lemma slot_events_reply:
  "s \<in> set (udisks_reported out) \<Longrightarrow> \<exists>res f. EvReply res f \<in> set (slot_events fresh n out) \<and> sr_request res = s"
  by (induction fresh n out rule: slot_events.induct) auto

lemma slot_events_lost: "told_lost out \<Longrightarrow> \<exists>ds vs. EvSnapshot ds vs False \<in> set (slot_events fresh n out)"
  by (induction fresh n out rule: slot_events.induct) auto

lemma moved_covered:
  assumes "covered sys []"
  shows "covered (backend_moved q ev sys) (reached_slots q ev sys)"
proof (cases ev)
  case (FromUDisks e fresh)
  have "keeps_service (ss_backend sys) (udisks_step q e (ss_backend sys))" by (rule udisks_step_keeps)
  then show ?thesis
    using assms slot_events_lost [of "snd (udisks_step q e (ss_backend sys))"]
      slot_events_reply [of _ "snd (udisks_step q e (ss_backend sys))"]
    by (simp add: FromUDisks covered_def keeps_service_def) meson
qed (use assms in \<open>auto simp: covered_def\<close>)

lemma covered_rehash:
  assumes "hash_ok (sc_requests (ss_controller sys))" and "mset (sc_requests (ss_controller sys)) = mset rs"
  shows "covered (sys\<lparr>ss_controller := set_requests rs (ss_controller sys)\<rparr>) [] = covered sys []"
  using hash_value_perm [OF assms(2,1)] by (simp add: covered_def in_flight_def)

lemma system_covered: "storage_system_run q service sys used tr evs \<Longrightarrow> covered sys []"
proof (induction rule: storage_system_run.induct)
  case start
  then show ?case by (simp add: storage_system_init_def covered_def in_flight_def storage_init_def)
next
  case (step sys used tr evs ev sys' new)
  note parts = system_components [OF step.hyps(1)]
  have ok: "events_ok used (reached_slots q ev sys)" by (rule reached_slots_ok [OF _ step.hyps(2)]) (use parts in simp)
  have "covered (fst (controller_steps (reached_slots q ev sys) (backend_moved q ev sys))) []"
    by (rule controller_steps_covered [OF _ ok moved_covered [OF step.IH], of tr])
      (use parts in \<open>simp add: backend_moved_eq\<close>)
  then show ?case using step.hyps(3) by (simp add: storage_system_step_def)
next
  case (rehash sys used tr evs rs)
  have "hash_ok (sc_requests (ss_controller sys))"
    using system_components [OF rehash.hyps(1)] storage_invD(1) [OF storage_run_inv] by blast
  then show ?case using covered_rehash rehash by blast
qed

section \<open>While the service is away\<close>

text \<open>While the service is not available the requests are those that failed at once and wait for their
  zero timer.\<close>

definition only_failed :: "storage_state \<Rightarrow> bool" where
  "only_failed c \<longleftrightarrow> (\<forall>rid r. hash_value (sc_requests c) rid = Some r \<longrightarrow> rq_step r = '''' \<and> rq_scope r = [])"

lemma finish_only_failed: "only_failed c \<Longrightarrow> only_failed (fst (storage_finish rid en em mp c))"
  by (simp add: storage_finish_def only_failed_def split: option.split)

lemma finish_available [simp]: "sc_available (fst (storage_finish rid en em mp c)) = sc_available c"
  by (simp add: storage_finish_def split: option.split)

lemma advance_available [simp]: "sc_available (fst (storage_advance rid fresh c)) = sc_available c"
proof (cases "hash_value (sc_requests c) rid")
  case None
  then show ?thesis by (simp add: storage_advance_def)
next
  case (Some r)
  then show ?thesis by (cases rule: storage_advance_cases [OF Some, of fresh]) simp_all
qed

lemma finish_each_available [simp]: "sc_available (fst (finish_each ids c)) = sc_available c"
  by (induction ids arbitrary: c) (simp_all add: split_beta Let_def)

lemma step_available:
  "sc_available (fst (storage_step ev c)) = (case ev of EvSnapshot _ _ a \<Rightarrow> a | _ \<Rightarrow> sc_available c)"
  by (cases ev) (auto simp: storage_begin_def storage_timer_def storage_reply_def storage_snapshot_def Let_def
      split_beta split: list.split option.split)

lemma timer_only_failed:
  assumes inv: "storage_inv c used tr" and only: "only_failed c"
  shows "only_failed (fst (storage_timer fresh c))"
proof (cases "sc_deferred c")
  case (Cons p rest)
  obtain rid f where p: "p = (rid, f)" by (cases p)
  let ?c1 = "c\<lparr>sc_deferred := rest\<rparr>"
  have only1: "only_failed ?c1" using only by (simp add: only_failed_def)
  show ?thesis
  proof (cases "hash_value (sc_requests c) rid")
    case None
    then show ?thesis using Cons p only1 by (simp add: storage_timer_def)
  next
    case (Some r)
    have "f \<noteq> ''''"
      using deferred_okD(3) [OF storage_invD(5) [OF inv], of rid f r] Some only Cons p by (simp add: only_failed_def)
    then show ?thesis using Cons p Some finish_only_failed [OF only1] by (simp add: storage_timer_def)
  qed
qed (use only in \<open>simp add: storage_timer_def\<close>)

lemma begin_only_failed:
  assumes "storage_run c used tr" and "\<not> sc_available c" and "only_failed c"
  shows "only_failed (fst (storage_begin op target confirmed rid c))"
proof -
  have "begin_failure op target confirmed c \<noteq> ''''"
    using storage_begin_unavailable [OF assms(1,2), of op target confirmed] by auto
  then show ?thesis using assms(3) by (simp add: storage_begin_def Let_def only_failed_def)
qed

lemma reply_only_failed:
  assumes "sr_request res \<noteq> ''''" and "only_failed c" and "hash_ok (sc_requests c)"
  shows "only_failed (fst (storage_reply res fresh c))"
proof -
  have "find (\<lambda>(_, r). rq_step r = sr_request res) (sc_requests c) = None"
  proof (rule ccontr)
    assume "find (\<lambda>(_, r). rq_step r = sr_request res) (sc_requests c) \<noteq> None"
    then obtain rid r where "find (\<lambda>(_, r). rq_step r = sr_request res) (sc_requests c) = Some (rid, r)" by auto
    from find_request [OF assms(3) this] show False using assms(1,2) by (auto simp: only_failed_def)
  qed
  then show ?thesis using assms(2) by (simp add: storage_reply_def)
qed

lemma run_only_failed: "storage_run c used tr \<Longrightarrow> \<not> sc_available c \<Longrightarrow> only_failed c"
proof (induction rule: storage_run.induct)
  case start
  then show ?case by (simp add: only_failed_def storage_init_def)
next
  case (step c used tr ev c' out)
  have c': "c' = fst (storage_step ev c)" using step.hyps(3) by simp
  note inv = storage_run_inv [OF step.hyps(1)]
  show ?case
  proof (cases ev)
    case (EvSnapshot ds vs a)
    then have "storage_step (EvSnapshot ds vs False) c = (c', out)"
      using step.prems step.hyps(3) step_available [of ev c] by (auto simp: c')
    from service_lost_effect [OF step.hyps(1) this] show ?thesis by (simp add: only_failed_def)
  next
    case (EvBegin op target confirmed rid)
    then show ?thesis using step begin_only_failed [OF step.hyps(1)] step_available [of ev c] by (simp add: c')
  next
    case (EvTimer fresh)
    then show ?thesis using step timer_only_failed [OF inv] step_available [of ev c] by (simp add: c')
  next
    case (EvReply res fresh)
    then show ?thesis using step reply_only_failed [OF _ _ storage_invD(1) [OF inv]] step_available [of ev c]
      by (simp add: c')
  qed
next
  case (rehash c used tr rs)
  have "hash_value rs = hash_value (sc_requests c)"
    using hash_value_perm [OF rehash.hyps(2) storage_invD(1) [OF storage_run_inv [OF rehash.hyps(1)]]]
    by (simp add: fun_eq_iff)
  then show ?case using rehash by (simp add: only_failed_def)
qed

lemma flight_available: "storage_run c used tr \<Longrightarrow> in_flight c s \<Longrightarrow> sc_available c"
  using run_only_failed by (fastforce simp: in_flight_def only_failed_def)

text \<open>The controller is not available while the backend knows no owner of the service.\<close>

fun last_told :: "bool \<Rightarrow> udisks_output list \<Rightarrow> bool" where
  "last_told a [] = a"
| "last_told a (UdSnapshot _ _ a' # out) = last_told a' out"
| "last_told a (_ # out) = last_told a out"

lemma last_told_append [simp]: "last_told a (xs @ ys) = last_told (last_told a xs) ys"
  by (induction a xs rule: last_told.induct) simp_all

lemma last_told_finished [simp]: "last_told a (map (\<lambda>r. UdFinished (f r)) rs) = a"
  by (induction rs) simp_all

lemma last_told_refresh [simp]:
  "last_told a (snd (udisks_refresh b)) = a" "last_told a (snd (udisks_changed b)) = a"
  "\<not> last_told a (snd (udisks_set_owner owner b))"
  by (simp_all add: udisks_refresh_def udisks_changed_def udisks_set_owner_def Let_def)

lemma steps_available:
  "sc_available (ss_controller (fst (controller_steps (slot_events fresh n out) sys))) =
     last_told (sc_available (ss_controller sys)) out"
  by (induction fresh n out arbitrary: sys rule: slot_events.induct)
    (simp_all add: split_beta controller_step_def step_available del: storage_step.simps)

lemma owner_away:
  assumes calls: "\<And>c. c \<in> set (ud_refresh_calls b) \<Longrightarrow> fst c = ud_generation b \<Longrightarrow> ud_owner b \<noteq> ''''"
    and away: "ud_owner (fst (udisks_step q ev b)) = ''''" and a: "ud_owner b = '''' \<Longrightarrow> \<not> a"
  shows "\<not> last_told a (snd (udisks_step q ev b))"
proof (cases ev)
  case (UdRefreshReply i reply fresh)
  have owner: "ud_owner b = ''''" using away UdRefreshReply by (simp add: udisks_refresh_reply_same)
  show ?thesis
  proof (cases "i < length (ud_refresh_calls b)")
    case True
    have "fst (ud_refresh_calls b ! i) \<noteq> ud_generation b" using calls [OF nth_mem [OF True]] owner by blast
    then show ?thesis using UdRefreshReply True a [OF owner] by (simp add: udisks_refresh_reply_def split_beta)
  qed (use UdRefreshReply a [OF owner] in \<open>simp add: udisks_refresh_reply_def\<close>)
next
  case (UdOwnerReply i reply)
  then show ?thesis using away a
    by (cases reply) (auto simp: udisks_owner_reply_def Let_def split: if_splits)
next
  case (UdExecReply i reply)
  then show ?thesis using away a
    by (auto simp: udisks_exec_reply_def Let_def split_beta split: if_splits)
qed (use away a in \<open>auto simp: udisks_start_def udisks_stop_def udisks_owner_changed_def udisks_execute_def
    udisks_interfaces_removed_def udisks_timer_def Let_def split_beta split: list.splits if_splits\<close>)

lemma backend_calls_owned:
  assumes "length evs < 2 ^ 64" and "c \<in> set (ud_refresh_calls (udisks_run q service evs))"
    and "fst c = ud_generation (udisks_run q service evs)"
  shows "ud_owner (udisks_run q service evs) \<noteq> ''''"
proof -
  have inv: "refresh_inv (length evs) (udisks_view (udisks_run q service evs))" by (rule udisks.run_inv [OF assms(1)])
  have "c \<in> set (current_calls (udisks_view (udisks_run q service evs)))"
    using assms(2,3) by (simp add: current_calls_def)
  then have "ud_refreshing (udisks_run q service evs)"
    using inv by (auto simp: refresh_inv_def split: if_splits)
  then show ?thesis using inv by (simp add: refresh_inv_def)
qed

lemma run_commands_same:
  "ud_owner (run_commands out b) = ud_owner b" "ud_completions (run_commands out b) = ud_completions b"
  "ud_refreshing (run_commands out b) = ud_refreshing b" "ud_started (run_commands out b) = ud_started b"
  "ud_ids (run_commands out b) = ud_ids b"
  by (induction out b rule: run_commands.induct) (simp_all add: udisks_execute_def Let_def)

lemma system_owner_available:
  "storage_system_run q service sys used tr evs \<Longrightarrow> length evs < 2 ^ 64 \<Longrightarrow> ud_owner (ss_backend sys) = '''' \<Longrightarrow>
   \<not> sc_available (ss_controller sys)"
proof (induction rule: storage_system_run.induct)
  case start
  then show ?case by (simp add: storage_system_init_def storage_init_def)
next
  case (step sys used tr evs ev sys' new)
  let ?b = "ss_backend sys" and ?c = "ss_controller sys"
  have sys': "sys' = fst (controller_steps (reached_slots q ev sys) (backend_moved q ev sys))"
    using step.hyps(3) by (simp add: storage_system_step_def)
  have owner: "ud_owner (ss_backend (backend_moved q ev sys)) = ''''"
    using step.prems(2) by (simp add: sys' controller_steps_backend run_commands_same)
  have IH: "ud_owner ?b = '''' \<Longrightarrow> \<not> sc_available ?c" using step.IH step.prems(1) by simp
  show ?case
  proof (cases ev)
    case (FromUDisks e fresh)
    have "\<not> last_told (sc_available ?c) (snd (udisks_step q e ?b))"
    proof (rule owner_away)
      show "ud_owner ?b \<noteq> ''''" if "c \<in> set (ud_refresh_calls ?b)" "fst c = ud_generation ?b" for c
        using that backend_calls_owned [of evs c q service] step.prems(1) system_backend_run [OF step.hyps(1)]
        by simp
    qed (use owner IH in \<open>simp_all add: FromUDisks\<close>)
    then show ?thesis by (simp add: sys' FromUDisks steps_available)
  qed (use IH owner in \<open>simp_all add: sys' split_beta controller_step_def step_available del: storage_step.simps\<close>)
qed simp

text \<open>Results never wait without a refresh under way.\<close>

definition completions_due :: "udisks_state \<Rightarrow> bool" where
  "completions_due b \<longleftrightarrow> (ud_completions b \<noteq> [] \<and> ud_owner b \<noteq> '''' \<longrightarrow> ud_refreshing b)"

lemma udisks_changed_refreshing:
  "udisks_good b \<Longrightarrow> ud_refreshing (fst (udisks_changed b)) = (ud_refreshing b \<or> ud_owner b \<noteq> '''')"
  by (auto simp: udisks_changed_def Let_def udisks_good_def)

lemma udisks_step_due:
  assumes good: "udisks_good b" and due: "completions_due b"
  shows "completions_due (fst (udisks_step q ev b))"
proof (cases ev)
  case (UdInterfacesRemoved path interfaces)
  have "udisks_good (b\<lparr>ud_ids := x\<rparr>)" for x using good by (simp add: udisks_good_def)
  then show ?thesis using UdInterfacesRemoved
    by (simp add: udisks_interfaces_removed_def completions_due_def udisks_changed_refreshing)
next
  case (UdOwnerReply i reply)
  then show ?thesis using due
    by (cases reply) (auto simp: udisks_owner_reply_def Let_def completions_due_def)
next
  case (UdExecReply i reply)
  have "udisks_good (b\<lparr>ud_exec_calls := x, ud_completions := y\<rparr>)" for x y using good by (simp add: udisks_good_def)
  then show ?thesis using UdExecReply due
    by (auto simp: udisks_exec_reply_def Let_def split_beta completions_due_def udisks_changed_refreshing)
next
  case (UdRefreshReply i reply fresh)
  obtain g r where c: "ud_refresh_calls b ! i = (g, r)" by fastforce
  then show ?thesis using UdRefreshReply due
    by (cases reply) (auto simp: udisks_refresh_reply_def Let_def split_beta completions_due_def)
qed (use due good in \<open>auto simp: completions_due_def udisks_start_def udisks_stop_def udisks_owner_changed_def
    udisks_changed_refreshing udisks_execute_def udisks_timer_def Let_def split_beta split: list.splits\<close>)

lemma udisks_run_due: "completions_due (udisks_run q service evs)"
proof (induction evs rule: rev_induct)
  case Nil
  have "ud_completions (udisks_run q service []) = []" unfolding udisks_run_eq by (simp add: udisks_init_def)
  then show ?case unfolding completions_due_def by blast
next
  case (snoc ev evs)
  then show ?case using udisks_step_due [OF udisks.run_good] by (simp add: udisks.run_snoc)
qed

section \<open>Properties of the composed system\<close>

text \<open>C8. Controller and backend keep the assumptions made about each other: whatever the application and
  UDisks2 do, the controller's part of a run of the composed system is a run of the controller on its
  own, in which no identifier is reused and every snapshot is admissible, and the backend's part is a run
  of the backend on its own. So the properties of the two components hold in the system.\<close>

theorem storage_system_contract:
  assumes "storage_system_run q service sys used tr evs"
  shows "storage_run (ss_controller sys) used tr \<and> ss_backend sys = udisks_run q service evs \<and>
    ids_ok (ud_ids (ss_backend sys))"
  using system_components [OF assms] system_backend_run [OF assms] by (simp add: backend_named_def)

text \<open>C9. No request hangs in the system: a pending request waits for its zero timer, or its current step
  is in the hands of the backend, as a D-Bus command whose reply will be used, as a result its zero timer
  will report, or as a result that waits for a snapshot while a call of GetManagedObjects is in flight
  whose reply will be used.\<close>

theorem storage_no_request_lost:
  assumes "storage_system_run q service sys used tr evs" and "length evs < 2 ^ 64"
    and "hash_value (sc_requests (ss_controller sys)) rid = Some r"
  shows "rid \<in> set (queued (ss_controller sys)) \<or>
    (\<exists>res. sr_request res = rq_step r \<and>
      ((ud_generation (ss_backend sys), res) \<in> set (ud_exec_calls (ss_backend sys)) \<or>
       res \<in> set (ud_timers (ss_backend sys)) \<or>
       res \<in> set (ud_completions (ss_backend sys)) \<and>
         (\<exists>rev. (ud_generation (ss_backend sys), rev) \<in> set (ud_refresh_calls (ss_backend sys)))))"
proof (cases "rq_step r = ''''")
  case True
  then show ?thesis
    using system_components [OF assms(1)] requests_okD(2) [OF storage_invD(2) [OF storage_run_inv] assms(3)]
    by blast
next
  case False
  let ?b = "ss_backend sys" and ?c = "ss_controller sys"
  have flight: "in_flight ?c (rq_step r)" using assms(3) False by (auto simp: in_flight_def)
  then have service: "in_service ?b (rq_step r)" using system_covered [OF assms(1)] by (auto simp: covered_def)
  have "sc_available ?c" using flight_available flight system_components [OF assms(1)] by blast
  then have owner: "ud_owner ?b \<noteq> ''''" using system_owner_available [OF assms(1,2)] by blast
  have run: "?b = udisks_run q service evs" by (rule system_backend_run [OF assms(1)])
  have "\<exists>rev. (ud_generation ?b, rev) \<in> set (ud_refresh_calls ?b)" if "ud_completions ?b \<noteq> []"
  proof -
    have "ud_refreshing ?b" using udisks_run_due [of q service evs] that owner by (simp add: completions_due_def run)
    then have "filter (\<lambda>c. fst c = ud_generation ?b) (ud_refresh_calls ?b) \<noteq> []"
      using udisks_one_call [OF assms(2), of q service] by (auto simp: run)
    then show ?thesis by (auto simp: filter_empty_conv)
  qed
  then show ?thesis using service unfolding in_service_iff by force
qed

text \<open>What the application is told: a successful result comes from a successful reply of the backend.\<close>

lemma finish_success:
  "OperationFinished res \<in> set (snd (storage_finish rid en em mp c)) \<Longrightarrow> sr_error_name res = en"
  by (auto simp: storage_finish_def split: option.splits)

lemma advance_success:
  assumes "OperationFinished res \<in> set (snd (storage_advance rid fresh c))"
  shows "\<not> result_succeeded res"
proof (cases "hash_value (sc_requests c) rid")
  case None
  then show ?thesis using assms by (simp add: storage_advance_def)
next
  case (Some r)
  then show ?thesis
    using assms by (cases rule: storage_advance_cases [OF Some, of fresh]) (auto simp: result_succeeded_def)
qed

lemma storage_error_not_empty [simp]: "storage_error e \<noteq> ''''"
  by (simp add: storage_error_def)

lemma reply_success:
  assumes "OperationFinished res \<in> set (snd (storage_reply reply fresh c))" and "result_succeeded res"
    and "hash_ok (sc_requests c)"
  obtains rid rq where "result_succeeded reply" "hash_value (sc_requests c) rid = Some rq"
    "rq_step rq = sr_request reply" "rq_final rq" "res = finished_result rq '''' '''' (sr_mount_path res)"
proof -
  obtain rid rq where find: "find (\<lambda>(_, r). rq_step r = sr_request reply) (sc_requests c) = Some (rid, rq)"
    using assms(1) by (auto simp: storage_reply_def split: option.splits)
  note rq = find_request [OF assms(3) find]
  have "result_succeeded reply"
    using assms(1,2) find finish_success by (auto simp: storage_reply_def result_succeeded_def split: if_splits)
  moreover from this have "rq_final rq"
    using assms(1,2) find advance_success by (auto simp: storage_reply_def split: if_splits)
  ultimately show thesis
    using that rq assms(1) find by (auto simp: storage_reply_def storage_finish_Some split: if_splits)
qed

lemma step_success:
  assumes "storage_run c used tr" and "OperationFinished res \<in> set (snd (storage_step ev c))"
    and "result_succeeded res"
  obtains reply fresh rid rq where "ev = EvReply reply fresh" "result_succeeded reply"
    "hash_value (sc_requests c) rid = Some rq" "rq_step rq = sr_request reply" "rq_final rq"
    "res = finished_result rq '''' '''' (sr_mount_path res)"
proof (cases ev)
  case (EvTimer fresh)
  have "OperationFinished res \<notin> set (snd (storage_timer fresh c))"
  proof (cases "sc_deferred c")
    case (Cons p rest)
    obtain rid f where p: "p = (rid, f)" by (cases p)
    show ?thesis
      using Cons p assms(3) advance_success [of res rid fresh "c\<lparr>sc_deferred := rest\<rparr>"]
        finish_success [of res rid "storage_error f" f "''''" "c\<lparr>sc_deferred := rest\<rparr>"]
      by (auto simp: storage_timer_def Let_def result_succeeded_def storage_error_not_empty [symmetric])
  qed (simp add: storage_timer_def)
  then show thesis using assms(2) EvTimer by simp
next
  case (EvReply reply fresh)
  have "OperationFinished res \<in> set (snd (storage_reply reply fresh c))" using assms(2) EvReply by simp
  then obtain rid rq where "result_succeeded reply" "hash_value (sc_requests c) rid = Some rq"
      "rq_step rq = sr_request reply" "rq_final rq" "res = finished_result rq '''' '''' (sr_mount_path res)"
    using reply_success assms(3) storage_invD(1) [OF storage_run_inv [OF assms(1)]] by metis
  then show thesis by (rule that [OF EvReply])
next
  case (EvSnapshot ds vs a)
  show thesis
  proof (cases a)
    case True
    then show ?thesis using assms(2) EvSnapshot by (auto simp: storage_snapshot_def Let_def split_beta)
  next
    case False
    then have "sr_error_name res = storage_error ''Unavailable''"
      using service_lost_effect [OF assms(1), of ds vs] assms(2) EvSnapshot
      by (cases "storage_step (EvSnapshot ds vs False) c") auto
    then show ?thesis using assms(3) by (simp add: result_succeeded_def)
  qed
qed (use assms(2) in \<open>simp add: storage_begin_def Let_def\<close>)

lemma slot_events_source: "EvReply r f \<in> set (slot_events fresh n out) \<Longrightarrow> UdFinished r \<in> set out"
  by (induction fresh n out rule: slot_events.induct) auto

lemma replies_keep_models:
  "(\<And>ev. ev \<in> set evs \<Longrightarrow> \<exists>r f. ev = EvReply r f) \<Longrightarrow>
   sc_drives (ss_controller (fst (controller_steps evs sys))) = sc_drives (ss_controller sys) \<and>
   sc_volumes (ss_controller (fst (controller_steps evs sys))) = sc_volumes (ss_controller sys)"
proof (induction evs arbitrary: sys)
  case (Cons ev evs)
  have "\<exists>r f. ev = EvReply r f" by (rule Cons.prems) simp
  then have "no_rows (ss_controller sys) (storage_step ev (ss_controller sys))" by (auto simp: no_rows_reply)
  then show ?case using Cons.IH [of "fst (controller_step ev sys)"] Cons.prems
    by (simp add: split_beta no_rows_def controller_step_def)
qed simp

lemma slot_events_finished: "ev \<in> set (slot_events fresh n (map (\<lambda>r. UdFinished (g r)) rs)) \<Longrightarrow> \<exists>r f. ev = EvReply r f"
  by (induction rs arbitrary: n) auto

section \<open>The command of a request\<close>

text \<open>What a slot does to the steps of the requests: a request whose step has been sent is left as it is, or
  its step is the one the slot sends, which is the request's own operation when it is the last step.\<close>

definition requests_moved ::
  "storage_state \<Rightarrow> storage_event \<Rightarrow> storage_state \<times> storage_output list \<Rightarrow> bool" where
  "requests_moved c ev r \<longleftrightarrow> (\<forall>s op t. BackendExecute s op t \<in> set (snd r) \<longrightarrow> s \<in> event_ids ev) \<and>
     (\<forall>k rq. hash_value (sc_requests (fst r)) k = Some rq \<longrightarrow> rq_step rq \<noteq> '''' \<or> rq_final rq \<longrightarrow>
        hash_value (sc_requests c) k = Some rq \<or> rq_step rq \<in> event_ids ev \<and>
          (rq_final rq \<longrightarrow> (\<forall>s op t. BackendExecute s op t \<in> set (snd r) \<longrightarrow>
             op = sr_operation (rq_result rq) \<and> t = sr_target (rq_result rq))))"

definition final_sent :: "storage_state \<Rightarrow> bool" where
  "final_sent c \<longleftrightarrow> (\<forall>k rq. hash_value (sc_requests c) k = Some rq \<longrightarrow> rq_final rq \<longrightarrow> rq_step rq \<noteq> '''')"

lemma moved_from:
  assumes "requests_moved c1 ev r" and "\<And>k rq. hash_value (sc_requests c1) k = Some rq \<Longrightarrow>
      rq_step rq \<noteq> '''' \<or> rq_final rq \<Longrightarrow> hash_value (sc_requests c) k = Some rq"
  shows "requests_moved c ev r"
  using assms unfolding requests_moved_def by blast

lemma finish_moved: "requests_moved c ev (storage_finish rid en em mp c)"
  by (auto simp: storage_finish_def requests_moved_def split: option.splits if_splits)

lemma advance_moved:
  assumes "fresh \<in> event_ids ev" and "\<And>r. hash_value (sc_requests c) rid = Some r \<Longrightarrow> \<not> rq_final r"
  shows "requests_moved c ev (storage_advance rid fresh c)"
proof (cases "hash_value (sc_requests c) rid")
  case None
  then show ?thesis by (simp add: storage_advance_def requests_moved_def)
next
  case (Some r)
  have "\<not> rq_final r" using assms(2) Some by blast
  then show ?thesis using assms(1)
    by (cases rule: storage_advance_cases [OF Some, of fresh])
      (auto simp: requests_moved_def step_allowed_def split: if_splits list.splits)
qed

lemma timer_moved:
  assumes inv: "storage_inv c used tr" and final: "final_sent c"
  shows "requests_moved c (EvTimer fresh) (storage_timer fresh c)"
proof (cases "sc_deferred c")
  case (Cons p rest)
  obtain rid f where p: "p = (rid, f)" by (cases p)
  let ?c1 = "c\<lparr>sc_deferred := rest\<rparr>"
  have queued: "rid \<in> set (queued c)" using Cons p by (simp add: queued_def)
  have "\<not> rq_final r" if "hash_value (sc_requests c) rid = Some r" for r
    using that requests_okD(2) [OF storage_invD(2) [OF inv]] queued final by (auto simp: final_sent_def)
  then have "requests_moved ?c1 (EvTimer fresh) (storage_advance rid fresh ?c1)"
    by (intro advance_moved) simp_all
  moreover have "storage_timer fresh c \<in> {(?c1, []), storage_finish rid (storage_error f) f '''' ?c1,
      storage_advance rid fresh ?c1}"
    by (simp add: storage_timer_def Cons p Let_def)
  moreover have "requests_moved ?c1 ev (?c1, [])" for ev by (simp add: requests_moved_def)
  ultimately have "requests_moved ?c1 (EvTimer fresh) (storage_timer fresh c)" using finish_moved by auto
  then show ?thesis by (rule moved_from) simp
qed (simp add: storage_timer_def requests_moved_def)

lemma reply_moved:
  assumes inv: "storage_inv c used tr"
  shows "requests_moved c (EvReply res fresh) (storage_reply res fresh c)"
proof (cases "find (\<lambda>(_, r). rq_step r = sr_request res) (sc_requests c)")
  case (Some p)
  obtain rid r where p: "p = (rid, r)" by (cases p)
  let ?c1 = "set_requests (hash_insert rid (r\<lparr>rq_step := ''''\<rparr>) (sc_requests c)) c"
  have same: "requests_moved c ev (c, [])" for ev by (simp add: requests_moved_def)
  have "requests_moved c (EvReply res fresh) (storage_advance rid fresh ?c1)" if "\<not> rq_final r"
    by (rule moved_from [OF advance_moved]) (use that in \<open>auto split: if_splits\<close>)
  then show ?thesis using Some p finish_moved same by (simp add: storage_reply_def)
qed (simp add: storage_reply_def requests_moved_def)

lemma finish_each_moved: "requests_moved c ev (finish_each ids c)"
proof (induction ids arbitrary: c)
  case (Cons rid ids)
  then show ?case using finish_moved [of c ev rid]
    unfolding requests_moved_def by (simp add: split_beta Let_def) blast
qed (simp add: requests_moved_def)

lemma step_moved:
  assumes "storage_inv c used tr" and "final_sent c"
  shows "requests_moved c ev (storage_step ev c)"
proof (cases ev)
  case (EvBegin op target confirmed rid)
  then show ?thesis by (auto simp: storage_begin_def Let_def requests_moved_def split: if_splits)
next
  case (EvSnapshot ds vs a)
  let ?c1 = "c\<lparr>sc_drives := fst (drive_model_apply (if a then ds else []) (sc_drives c)),
    sc_volumes := fst (volume_model_apply (if a then vs else []) (sc_volumes c)), sc_available := a\<rparr>"
  have "requests_moved ?c1 ev (finish_each ids ?c1)" for ids by (rule finish_each_moved)
  then have "requests_moved c ev (finish_each ids ?c1)" for ids by (rule moved_from) simp
  then show ?thesis using EvSnapshot
    by (auto simp: storage_snapshot_def Let_def split_beta requests_moved_def)
qed (use timer_moved [OF assms] reply_moved [OF assms(1)] in simp_all)

lemma run_final_sent: "storage_run c used tr \<Longrightarrow> final_sent c"
proof (induction rule: storage_run.induct)
  case start
  then show ?case by (simp add: final_sent_def storage_init_def)
next
  case (step c used tr ev c' out)
  have "'''' \<notin> event_ids ev" using step.hyps(2) by (cases ev) auto
  then show ?case using step_moved [OF storage_run_inv [OF step.hyps(1)] step.IH, of ev] step.IH step.hyps(3)
    unfolding requests_moved_def final_sent_def by (metis fst_conv)
next
  case (rehash c used tr rs)
  then show ?case
    using hash_value_perm [OF rehash.hyps(2) storage_invD(1) [OF storage_run_inv [OF rehash.hyps(1)]]]
    by (simp add: final_sent_def)
qed

text \<open>Each slot of a step is reached in a state of the controller whose requests with a step that was sent
  before were there, with this step, before the first slot.\<close>

definition kept_requests :: "string set \<Rightarrow> storage_state \<Rightarrow> storage_state \<Rightarrow> bool" where
  "kept_requests used c1 c \<longleftrightarrow> (\<forall>k rq. hash_value (sc_requests c1) k = Some rq \<longrightarrow> rq_step rq \<noteq> '''' \<longrightarrow>
     rq_step rq \<in> used \<longrightarrow> hash_value (sc_requests c) k = Some rq)"

lemma kept_trans:
  "kept_requests (used \<union> ids) c2 c1 \<Longrightarrow> kept_requests used c1 c \<Longrightarrow> kept_requests used c2 c"
  unfolding kept_requests_def by blast

lemma step_kept:
  assumes "storage_run c used tr" and "event_ok used ev"
  shows "kept_requests used (fst (storage_step ev c)) c"
proof -
  have "event_ids ev \<inter> used = {} \<or> (\<exists>ds vs a. ev = EvSnapshot ds vs a)" using assms(2) by (cases ev) auto
  then show ?thesis
    using step_moved [OF storage_run_inv [OF assms(1)] run_final_sent [OF assms(1)], of ev]
    unfolding requests_moved_def kept_requests_def by fastforce
qed

lemma controller_steps_entry:
  "storage_run (ss_controller sys) used tr \<Longrightarrow> events_ok used evs \<Longrightarrow> (ev, out) \<in> set (snd (controller_steps evs sys)) \<Longrightarrow>
   ev \<in> set evs \<and> (\<exists>c used' tr'. storage_run c used' tr' \<and> out = snd (storage_step ev c) \<and>
     kept_requests used c (ss_controller sys))"
proof (induction evs arbitrary: sys used tr)
  case (Cons e evs)
  obtain s1 out1 where s1: "controller_step e sys = (s1, out1)" by fastforce
  obtain c where c: "storage_step e (ss_controller sys) = (c, out1)" "ss_controller s1 = c"
    using s1 by (auto simp: controller_step_def split: prod.splits)
  have run: "storage_run (ss_controller s1) (used \<union> event_ids e) (tr @ [(e, out1)])"
    unfolding c(2) by (rule storage_run.step [OF Cons.prems(1) _ c(1)]) (use Cons.prems(2) in simp)
  have kept: "kept_requests used (ss_controller s1) (ss_controller sys)"
    using step_kept [OF Cons.prems(1), of e] Cons.prems(2) c by simp
  consider "ev = e" "out = out1" | "(ev, out) \<in> set (snd (controller_steps evs s1))"
    using Cons.prems(3) s1 by (auto simp: split_beta)
  then show ?case
  proof cases
    case 1
    then show ?thesis using Cons.prems(1) c(1) by (auto simp: kept_requests_def intro!: exI [of _ "ss_controller sys"])
  next
    case 2
    from Cons.IH [OF run _ 2] Cons.prems(2) obtain c1 used1 tr1 where "ev \<in> set evs" "storage_run c1 used1 tr1"
        "out = snd (storage_step ev c1)" "kept_requests (used \<union> event_ids e) c1 (ss_controller s1)" by auto
    then show ?thesis using kept_trans [OF _ kept] by auto
  qed
qed simp

text \<open>Every command the backend was given carries an identifier that is in use, and the last step of a
  request is the request's own operation on its target.\<close>

definition commands_match :: "storage_state \<Rightarrow> string set \<Rightarrow> 'v udisks_event list \<Rightarrow> bool" where
  "commands_match c used bevs \<longleftrightarrow> (\<forall>s op t. UdExecute s op t \<in> set bevs \<longrightarrow> s \<in> used) \<and>
     (\<forall>k rq op t. hash_value (sc_requests c) k = Some rq \<longrightarrow> rq_final rq \<longrightarrow>
        UdExecute (rq_step rq) op t \<in> set bevs \<longrightarrow> op = sr_operation (rq_result rq) \<and> t = sr_target (rq_result rq))"

lemma command_events_iff: "UdExecute s op t \<in> set (command_events out) \<longleftrightarrow> BackendExecute s op t \<in> set out"
  by (induction out rule: command_events.induct) auto

lemma step_match:
  assumes run: "storage_run c used tr" and ok: "event_ok used ev" and match: "commands_match c used bevs"
  shows "commands_match (fst (storage_step ev c)) (used \<union> event_ids ev)
    (bevs @ command_events (snd (storage_step ev c)))"
proof -
  note inv = storage_run_inv [OF run]
  note moved = step_moved [OF inv run_final_sent [OF run], of ev, unfolded requests_moved_def]
  have drawn: "s \<in> event_ids ev" if "BackendExecute s op t \<in> set (snd (storage_step ev c))" for s op t
    using moved that by blast
  have new: "s \<notin> event_ids ev" if "UdExecute s op t \<in> set bevs \<or> hash_value (sc_requests c) k = Some rq \<and>
      rq_final rq \<and> s = rq_step rq" for s op t k rq
  proof -
    have "s \<in> used" using that
    proof
      assume rq: "hash_value (sc_requests c) k = Some rq \<and> rq_final rq \<and> s = rq_step rq"
      then have "rq_step rq \<noteq> ''''" using run_final_sent [OF run] by (auto simp: final_sent_def)
      then show ?thesis
        using rq requests_okD(1) [OF storage_invD(2) [OF inv], of k rq] by (auto simp: request_ok_def)
    qed (use match in \<open>auto simp: commands_match_def\<close>)
    moreover have "event_ids ev \<inter> used = {} \<or> (\<exists>ds vs a. ev = EvSnapshot ds vs a)" using ok by (cases ev) auto
    ultimately show ?thesis by auto
  qed
  show ?thesis unfolding commands_match_def
  proof (intro conjI allI impI)
    fix s op t
    assume "UdExecute s op t \<in> set (bevs @ command_events (snd (storage_step ev c)))"
    then show "s \<in> used \<union> event_ids ev"
      using match drawn unfolding commands_match_def set_append Un_iff command_events_iff by blast
  next
    fix k rq op t
    assume rq: "hash_value (sc_requests (fst (storage_step ev c))) k = Some rq" "rq_final rq"
      and sent: "UdExecute (rq_step rq) op t \<in> set (bevs @ command_events (snd (storage_step ev c)))"
    from rq moved consider "hash_value (sc_requests c) k = Some rq"
      | "rq_step rq \<in> event_ids ev" "\<forall>s op t. BackendExecute s op t \<in> set (snd (storage_step ev c)) \<longrightarrow>
          op = sr_operation (rq_result rq) \<and> t = sr_target (rq_result rq)" by blast
    then have "op = sr_operation (rq_result rq) \<and> t = sr_target (rq_result rq)"
    proof cases
      case 1
      then have "rq_step rq \<notin> event_ids ev" using new rq(2) by blast
      then have "UdExecute (rq_step rq) op t \<in> set bevs"
        using sent drawn unfolding set_append Un_iff command_events_iff by blast
      then show ?thesis using match 1 rq(2) unfolding commands_match_def by blast
    next
      case 2
      then have "BackendExecute (rq_step rq) op t \<in> set (snd (storage_step ev c))"
        using sent new [of "rq_step rq" op t] by (auto simp: command_events_iff)
      then show ?thesis using 2 by blast
    qed
    then show "op = sr_operation (rq_result rq)" "t = sr_target (rq_result rq)" by simp_all
  qed
qed

lemma steps_match:
  "storage_run (ss_controller sys) used tr \<Longrightarrow> events_ok used evs \<Longrightarrow>
   commands_match (ss_controller sys) used bevs \<Longrightarrow> controller_steps evs sys = (sys', new) \<Longrightarrow>
   commands_match (ss_controller sys') (used \<union> trace_ids new) (bevs @ command_events (concat (map snd new)))"
proof (induction evs arbitrary: sys used tr bevs new)
  case (Cons ev evs)
  obtain c out where c: "storage_step ev (ss_controller sys) = (c, out)" by fastforce
  let ?s1 = "\<lparr>ss_controller = c, ss_backend = run_commands out (ss_backend sys)\<rparr>"
  obtain rest where rest: "controller_steps evs ?s1 = (sys', rest)" and new: "new = (ev, out) # rest"
    using Cons.prems(4) c by (auto simp: controller_step_def split: prod.splits)
  have "storage_run c (used \<union> event_ids ev) (tr @ [(ev, out)])"
    by (rule storage_run.step [OF Cons.prems(1) _ c]) (use Cons.prems(2) in simp)
  moreover have "commands_match c (used \<union> event_ids ev) (bevs @ command_events out)"
    using step_match [OF Cons.prems(1) _ Cons.prems(3), of ev] Cons.prems(2) c by simp
  ultimately show ?case
    using Cons.IH [OF _ _ _ rest, of "used \<union> event_ids ev" "tr @ [(ev, out)]" "bevs @ command_events out"]
      Cons.prems(2) by (simp add: new Un_assoc)
qed simp

lemma system_match:
  "storage_system_run q service sys used tr evs \<Longrightarrow> commands_match (ss_controller sys) used evs"
proof (induction rule: storage_system_run.induct)
  case start
  then show ?case by (simp add: storage_system_init_def storage_init_def commands_match_def)
next
  case (step sys used tr evs ev sys' new)
  note parts = system_components [OF step.hyps(1)]
  have ok: "events_ok used (reached_slots q ev sys)" by (rule reached_slots_ok [OF _ step.hyps(2)]) (use parts in simp)
  have "UdExecute s op t \<notin> set (moving_events ev)" for s op t using step.hyps(2) by (cases ev) auto
  then have "commands_match (ss_controller (backend_moved q ev sys)) used (evs @ moving_events ev)"
    using step.IH unfolding commands_match_def by (auto simp: backend_moved_eq)
  from steps_match [OF _ ok this, of tr sys' new] show ?case
    using step.hyps(3) parts by (simp add: storage_system_step_def backend_moved_eq)
next
  case (rehash sys used tr evs rs)
  have "hash_ok (sc_requests (ss_controller sys))"
    using system_components [OF rehash.hyps(1)] storage_invD(1) [OF storage_run_inv] by blast
  then show ?case using hash_value_perm [OF rehash.hyps(2)] rehash.IH by (simp add: commands_match_def)
qed

lemma final_sentD: "final_sent c \<Longrightarrow> hash_value (sc_requests c) k = Some rq \<Longrightarrow> rq_final rq \<Longrightarrow> rq_step rq \<noteq> ''''"
  unfolding final_sent_def by blast

text \<open>The reply to \<open>GetManagedObjects\<close> that reports a success answers a call sent after the reply to the
  command, and the snapshot published from it is what the models show.\<close>

lemma reported_success:
  assumes "storage_system_run q service sys used tr evs" and "UdFinished reply \<in> set (snd (udisks_step q e (ss_backend sys)))"
    and "result_succeeded reply"
  obtains k objects ids where "e = UdRefreshReply k (Some objects) ids" "k < length (ud_refresh_calls (ss_backend sys))"
    "ud_refresh_calls (ss_backend sys) ! k = (ud_generation (ss_backend sys), ud_revision (ss_backend sys))"
proof -
  let ?b = "ss_backend sys"
  have "e \<noteq> UdTimer"
    using assms(2,3) system_components [OF assms(1)]
    by (cases "ud_timers ?b") (auto simp: udisks_timer_def backend_named_def)
  with assms(2) obtain k answer ids where k: "e = UdRefreshReply k answer ids" "k < length (ud_refresh_calls ?b)"
      "ud_refresh_calls ?b ! k = (ud_generation ?b, ud_revision ?b)"
    using udisks_finished_cases by metis
  then have "answer \<noteq> None" using assms(2) by (cases answer) (simp_all add: udisks_refresh_reply_def)
  with k that show thesis by blast
qed

lemma refresh_reply_outputs:
  assumes "k < length (ud_refresh_calls b)" and "ud_refresh_calls b ! k = (ud_generation b, ud_revision b)"
  obtains ds vs where "snd (udisks_step q (UdRefreshReply k (Some objects) ids) b) = UdSnapshot ds vs True #
    map (\<lambda>r. UdFinished (disappeared_mount (publish_ids ids objects (ud_ids b)) r)) (ud_completions b)"
  using assms by (auto simp: udisks_refresh_reply_def udisks_publish_def Let_def)

lemma answered_command:
  assumes "storage_system_run q service sys used tr evs" and "UdFinished reply \<in> set (snd (udisks_step q e (ss_backend sys)))"
    and "result_succeeded reply" and "length evs < 2 ^ 64"
  obtains us i answer ws where "evs = us @ [UdExecReply i answer] @ ws"
    "completes_command (udisks_run q service us) i answer reply" "sent_by evs reply"
    "\<forall>c \<in> set (ud_refresh_calls (udisks_run q service us)). snd c < ud_revision (ss_backend sys)"
proof -
  let ?b = "ss_backend sys"
  have b: "?b = udisks_run q service evs" by (rule system_backend_run [OF assms(1)])
  obtain k objects ids where k: "e = UdRefreshReply k (Some objects) ids" "k < length (ud_refresh_calls ?b)"
      "ud_refresh_calls ?b ! k = (ud_generation ?b, ud_revision ?b)"
    using reported_success [OF assms(1-3)] by metis
  obtain ds vs where "snd (udisks_step q e ?b) = UdSnapshot ds vs True #
      map (\<lambda>r. UdFinished (disappeared_mount (publish_ids ids objects (ud_ids ?b)) r)) (ud_completions ?b)"
    using refresh_reply_outputs [OF k(2,3), of q objects ids] k(1) by metis
  then obtain r where r: "r \<in> set (ud_completions ?b)"
      "reply = disappeared_mount (publish_ids ids objects (ud_ids ?b)) r" using assms(2) by auto
  then have success: "result_succeeded r"
    using assms(3) disappeared_mount_success unfolding result_succeeded_def by blast
  obtain us i answer ws where evs: "evs = us @ [UdExecReply i answer] @ ws"
    and compl: "completes_command (udisks_run q service us) i answer r"
    using completion_origin r(1) unfolding b by blast
  note parts = compl [unfolded completes_command_def]
  have "sent_by us (snd (ud_exec_calls (udisks_run q service us) ! i))"
    using command_origin nth_mem parts by blast
  then have "sent_by evs reply" using parts by (simp add: sent_by_def evs r(2))
  moreover have "completes_command (udisks_run q service us) i answer reply"
    using parts success by (simp add: completes_command_def r(2))
  moreover have "snd c < ud_revision ?b" if "c \<in> set (ud_refresh_calls (udisks_run q service us))" for c
    using exec_reply_later [of us i answer ws q service] assms(4) parts that unfolding b evs by fastforce
  ultimately show thesis using that evs by blast
qed

lemma success_snapshot:
  assumes "storage_system_run q service sys used tr evs" and "system_event_ok used ev sys"
    and ev: "ev = FromUDisks e fresh" and "UdFinished reply \<in> set (snd (udisks_step q e (ss_backend sys)))"
    and "result_succeeded reply" and "storage_system_step q ev sys = (sys', new)"
  obtains k objects ids ds vs where "e = UdRefreshReply k (Some objects) ids" "k < length (ud_refresh_calls (ss_backend sys))"
    "ud_refresh_calls (ss_backend sys) ! k = (ud_generation (ss_backend sys), ud_revision (ss_backend sys))"
    "UdSnapshot ds vs True \<in> set (snd (udisks_step q e (ss_backend sys)))"
    "set (sc_drives (ss_controller sys')) = set ds" "set (sc_volumes (ss_controller sys')) = set vs"
    "sc_available (ss_controller sys')"
proof -
  let ?b = "ss_backend sys" and ?c = "ss_controller sys"
  note parts = system_components [OF assms(1)]
  have ok: "events_ok used (reached_slots q ev sys)" using reached_slots_ok parts assms(2) by blast
  obtain k objects ids where k: "e = UdRefreshReply k (Some objects) ids" "k < length (ud_refresh_calls ?b)"
      "ud_refresh_calls ?b ! k = (ud_generation ?b, ud_revision ?b)"
    using reported_success [OF assms(1,4,5)] by metis
  define g where "g = disappeared_mount (publish_ids ids objects (ud_ids ?b))"
  define rs where "rs = ud_completions ?b"
  obtain ds vs where outs: "snd (udisks_step q e ?b) = UdSnapshot ds vs True # map (\<lambda>r. UdFinished (g r)) rs"
    using refresh_reply_outputs [OF k(2,3), of q objects ids] k(1) unfolding g_def rs_def by metis
  let ?slots = "slot_events fresh 0 (map (\<lambda>r. UdFinished (g r)) rs)"
  let ?moved = "backend_moved q ev sys"
  let ?s1 = "fst (controller_step (EvSnapshot ds vs True) ?moved)"
  have slots: "reached_slots q ev sys = EvSnapshot ds vs True # ?slots" by (simp add: ev outs)
  have steps: "controller_steps (reached_slots q ev sys) ?moved = (sys', new)"
    using assms(6) by (simp add: storage_system_step_def)
  then have sys': "sys' = fst (controller_steps ?slots ?s1)" by (simp add: slots split_beta)
  have "event_ok used (EvSnapshot ds vs True)" using ok by (simp add: slots)
  from storage_snapshot_models [OF conjunct1 [OF parts] this surjective_pairing]
  have "set (sc_drives (fst (storage_step (EvSnapshot ds vs True) ?c))) = set ds \<and>
      set (sc_volumes (fst (storage_step (EvSnapshot ds vs True) ?c))) = set vs" by blast
  then have "set (sc_drives (ss_controller ?s1)) = set ds" "set (sc_volumes (ss_controller ?s1)) = set vs"
    by (simp_all add: controller_step_def split_beta backend_moved_eq del: storage_step.simps)
  moreover have "\<exists>r f. ev = EvReply r f" if "ev \<in> set ?slots" for ev using that by (rule slot_events_finished)
  then have "sc_drives (ss_controller sys') = sc_drives (ss_controller ?s1) \<and>
      sc_volumes (ss_controller sys') = sc_volumes (ss_controller ?s1)"
    unfolding sys' by (rule replies_keep_models)
  moreover have "sc_available (ss_controller sys')"
    using steps_available [of fresh 0 "snd (udisks_step q e ?b)" ?moved] steps by (simp add: ev outs)
  moreover have "UdSnapshot ds vs True \<in> set (snd (udisks_step q e ?b))" by (simp only: outs) simp
  ultimately show thesis by (intro that [OF k]) simp_all
qed

text \<open>C10. The application is told of a success only when the models show its effect. A successful result is
  that of a request whose last step was sent to UDisks2 as the D-Bus command of the request's own operation
  and target; the command was answered, not with an error; only after that answer the backend asked for the
  objects (every call in flight when the answer came has an older revision), and the result is emitted while
  the backend handles the reply to this later call. The controller is then available, and its models hold
  exactly the drives and volumes published from that reply.\<close>

theorem storage_success_shows_state:
  assumes "storage_system_run q service sys used tr evs" and "system_event_ok used ev sys"
    and "storage_system_step q ev sys = (sys', new)" and "(slot, out) \<in> set new"
    and "OperationFinished res \<in> set out" and "result_succeeded res" and "length evs < 2 ^ 64"
  shows "\<exists>k objects ids fresh ds vs rid rq us i answer ws. ev = FromUDisks (UdRefreshReply k (Some objects) ids) fresh \<and>
    hash_value (sc_requests (ss_controller sys)) rid = Some rq \<and> rq_final rq \<and>
    res = finished_result rq '''' '''' (sr_mount_path res) \<and>
    evs = us @ [UdExecReply i answer] @ ws \<and> i < length (ud_exec_calls (udisks_run q service us)) \<and>
    (let command = snd (ud_exec_calls (udisks_run q service us) ! i)
     in sr_request command = rq_step rq \<and> sr_operation command = sr_operation res \<and> sr_target command = sr_target res) \<and>
    (\<forall>name message. answer = ReplyError name message \<longrightarrow> name = '''') \<and>
    k < length (ud_refresh_calls (ss_backend sys)) \<and>
    ud_refresh_calls (ss_backend sys) ! k = (ud_generation (ss_backend sys), ud_revision (ss_backend sys)) \<and>
    (\<forall>c \<in> set (ud_refresh_calls (udisks_run q service us)). snd c < snd (ud_refresh_calls (ss_backend sys) ! k)) \<and>
    UdSnapshot ds vs True \<in> set (snd (udisks_step q (UdRefreshReply k (Some objects) ids) (ss_backend sys))) \<and>
    set (sc_drives (ss_controller sys')) = set ds \<and> set (sc_volumes (ss_controller sys')) = set vs \<and>
    sc_available (ss_controller sys')"
proof -
  let ?b = "ss_backend sys" and ?c = "ss_controller sys"
  note parts = system_components [OF assms(1)]
  have steps: "controller_steps (reached_slots q ev sys) (backend_moved q ev sys) = (sys', new)"
    using assms(3) by (simp add: storage_system_step_def)
  have ok: "events_ok used (reached_slots q ev sys)" using reached_slots_ok parts assms(2) by blast
  obtain c1 used1 tr1 where entry: "slot \<in> set (reached_slots q ev sys)" "storage_run c1 used1 tr1"
      "out = snd (storage_step slot c1)" and before: "kept_requests used c1 ?c"
    using controller_steps_entry [of "backend_moved q ev sys" used tr, OF _ ok, of slot out] parts assms(4) steps
    unfolding backend_moved_eq by auto
  obtain reply f rid rq where reply: "slot = EvReply reply f" "result_succeeded reply" and
    rq: "hash_value (sc_requests c1) rid = Some rq" "rq_step rq = sr_request reply" "rq_final rq"
      "res = finished_result rq '''' '''' (sr_mount_path res)"
    using step_success [OF entry(2) _ assms(6)] assms(5) entry(3) by metis
  obtain e fresh where ev: "ev = FromUDisks e fresh" using entry(1) reply by (cases ev) auto
  have fin: "UdFinished reply \<in> set (snd (udisks_step q e ?b))"
    using entry(1) reply slot_events_source by (simp add: ev)
  from answered_command [OF assms(1) fin reply(2) assms(7)]
  obtain us i answer ws where origin: "evs = us @ [UdExecReply i answer] @ ws"
    "completes_command (udisks_run q service us) i answer reply" "sent_by evs reply"
    "\<forall>c \<in> set (ud_refresh_calls (udisks_run q service us)). snd c < ud_revision ?b" by metis
  obtain k objects ids ds vs where k: "e = UdRefreshReply k (Some objects) ids" "k < length (ud_refresh_calls ?b)"
    "ud_refresh_calls ?b ! k = (ud_generation ?b, ud_revision ?b)"
    "UdSnapshot ds vs True \<in> set (snd (udisks_step q e ?b))"
    "set (sc_drives (ss_controller sys')) = set ds" "set (sc_volumes (ss_controller sys')) = set vs"
    "sc_available (ss_controller sys')"
    using success_snapshot [OF assms(1,2) ev fin reply(2) assms(3)] by metis
  note match = system_match [OF assms(1), unfolded commands_match_def]
  have "sr_request reply \<in> used" using match origin(3) unfolding sent_by_def by blast
  then have pending: "hash_value (sc_requests ?c) rid = Some rq"
    using before rq final_sentD [OF run_final_sent [OF entry(2)] rq(1,3)] unfolding kept_requests_def by metis
  then have "sr_operation reply = sr_operation (rq_result rq) \<and> sr_target reply = sr_target (rq_result rq)"
    using match origin(3) rq(2,3) unfolding sent_by_def by metis
  moreover have "sr_operation res = sr_operation (rq_result rq)" "sr_target res = sr_target (rq_result rq)"
    using arg_cong [OF rq(4), of sr_operation] arg_cong [OF rq(4), of sr_target] by simp_all
  ultimately have "let command = snd (ud_exec_calls (udisks_run q service us) ! i)
      in sr_request command = rq_step rq \<and> sr_operation command = sr_operation res \<and> sr_target command = sr_target res"
    using origin(2) rq(2) by (simp add: completes_command_def Let_def)
  moreover have "\<forall>name message. answer = ReplyError name message \<longrightarrow> name = ''''"
    and "i < length (ud_exec_calls (udisks_run q service us))"
    using origin(2) reply(2) by (simp_all add: completes_command_def)
  moreover have "\<forall>c \<in> set (ud_refresh_calls (udisks_run q service us)). snd c < snd (ud_refresh_calls ?b ! k)"
    using origin(4) by (simp only: k(3) snd_conv)
  ultimately show ?thesis
    by (intro exI [of _ k] exI [of _ objects] exI [of _ ids] exI [of _ fresh] exI [of _ ds] exI [of _ vs]
        exI [of _ rid] exI [of _ rq] exI [of _ us] exI [of _ i] exI [of _ answer] exI [of _ ws] conjI)
      (rule ev [unfolded k(1)] pending rq(3,4) origin(1) k(2,3,5-) k(4) [unfolded k(1)] | assumption)+
qed

section \<open>A concrete run\<close>

text \<open>Identifiers that consist of one letter, and an executable check of the assumptions for events that
  draw them.\<close>

definition letters :: "char \<Rightarrow> nat \<Rightarrow> string" where
  "letters c n = replicate (Suc n) c"

lemma letters_inj: "inj (letters c)"
  by (auto simp: inj_def letters_def replicate_eq_replicate)

lemma letters_uuids: "(\<forall>s \<in> used. s = '''' \<or> hd s \<noteq> c) \<Longrightarrow> uuids_ok used (letters c)"
  by (auto simp: uuids_ok_def letters_inj letters_def)

lemma letters_fresh: "(\<forall>s \<in> snd ` set ids. s = '''' \<or> hd s \<noteq> c) \<Longrightarrow> fresh_ok (letters c) ids"
  using letters_uuids [of "snd ` set ids" c] by (simp add: uuids_ok_def fresh_ok_def)

fun system_exec ::
  "'v qvariant_ops \<Rightarrow> 'v storage_system_event list \<Rightarrow> storage_system \<times> storage_trace \<times> 'v udisks_event list \<Rightarrow>
   storage_system \<times> storage_trace \<times> 'v udisks_event list" where
  "system_exec q [] r = r"
| "system_exec q (ev # evs) (sys, tr, bevs) =
     (let (s1, new) = storage_system_step q ev sys
      in system_exec q evs (s1, tr @ new, bevs @ moving_events ev @ command_events (concat (map snd new))))"

text \<open>The application mounts the only volume of the system; \<open>A\<close> to \<open>D\<close> are the letters of the identifiers.\<close>

definition mount_events :: "demo_value storage_system_event list" where
  "mount_events = [FromUDisks (UdOwnerReply 0 (Inr '':1'')) (letters CHR ''A''),
     FromUDisks (UdRefreshReply 0 (Some demo_objects) (letters CHR ''i'')) (letters CHR ''A''),
     AppBegin Mount ''i'' [] ''r'', ControllerTimer ''s'',
     FromUDisks (UdExecReply 0 (ReplyValues [DText ''/run/media/usb''])) (letters CHR ''A'')]"

abbreviation mount_reply :: "demo_value storage_system_event" where
  "mount_reply \<equiv> FromUDisks (UdRefreshReply 0 (Some demo_objects) (letters CHR ''j'')) (letters CHR ''A'')"

definition mount_run :: "nat \<Rightarrow> storage_system \<times> storage_trace \<times> demo_value udisks_event list" where
  "mount_run n = system_exec demo_ops (take n mount_events) (storage_system_init ''s'', [], [UdStart])"

definition exec_reached :: "'v qvariant_ops \<Rightarrow> string \<Rightarrow> storage_system \<times> storage_trace \<times> 'v udisks_event list \<Rightarrow> bool" where
  "exec_reached q service r \<longleftrightarrow>
     storage_system_run q service (fst r) (trace_ids (fst (snd r))) (fst (snd r)) (snd (snd r))"

lemma trace_ids_append: "trace_ids (xs @ ys) = trace_ids xs \<union> trace_ids ys"
  by (auto simp: trace_ids_def)

lemma system_exec_append: "system_exec q (xs @ ys) r = system_exec q ys (system_exec q xs r)"
  by (induction q xs r rule: system_exec.induct) (simp_all add: split_beta)

lemma exec_reached_step:
  assumes "exec_reached q service r" and "system_event_ok (trace_ids (fst (snd r))) ev (fst r)"
  shows "exec_reached q service (system_exec q [ev] r)"
proof -
  obtain sys tr bevs where r: "r = (sys, tr, bevs)" by (cases r)
  obtain s1 new where s1: "storage_system_step q ev sys = (s1, new)" by fastforce
  show ?thesis
    using storage_system_run.step [OF assms(1) [unfolded exec_reached_def] assms(2), of s1 new] s1
    by (simp add: r exec_reached_def trace_ids_append)
qed

lemma mount_run_Suc:
  assumes "n < 5" and "exec_reached demo_ops ''s'' (mount_run n)"
    and "system_event_ok (trace_ids (fst (snd (mount_run n)))) (mount_events ! n) (fst (mount_run n))"
  shows "exec_reached demo_ops ''s'' (mount_run (Suc n))"
proof -
  have "n < length mount_events" using assms(1) by (simp add: mount_events_def)
  then have "mount_run (Suc n) = system_exec demo_ops [mount_events ! n] (mount_run n)"
    by (simp add: mount_run_def take_Suc_conv_app_nth system_exec_append)
  then show ?thesis using exec_reached_step [OF assms(2,3)] by simp
qed

lemma mount_uuids: "n \<in> {0, 1, 4, 5} \<Longrightarrow> uuids_ok (trace_ids (fst (snd (mount_run n)))) (letters CHR ''A'')"
proof (rule letters_uuids)
  have "\<forall>n \<in> {0, 1, 4, 5}. \<forall>s \<in> trace_ids (fst (snd (mount_run n))). s = '''' \<or> hd s \<noteq> CHR ''A''"
    by code_simp
  then show "\<forall>s \<in> trace_ids (fst (snd (mount_run n))). s = '''' \<or> hd s \<noteq> CHR ''A''" if "n \<in> {0, 1, 4, 5}"
    using that by blast
qed

lemma mount_objects: "distinct (map fst demo_objects) \<and> (\<forall>p \<in> set (map fst demo_objects). CHR ''#'' \<notin> set p)"
  by (simp add: demo_objects_def)

lemma mount_reached:
  "exec_reached demo_ops ''s'' (mount_run 4)" "exec_reached demo_ops ''s'' (mount_run 5)"
proof -
  have 0: "exec_reached demo_ops ''s'' (mount_run 0)"
    by (simp add: mount_run_def exec_reached_def storage_system_run.start)
  have 1: "exec_reached demo_ops ''s'' (mount_run (Suc 0))"
    by (rule mount_run_Suc [OF _ 0]) (use mount_uuids [of 0] in \<open>simp_all add: mount_events_def\<close>)
  have "fresh_ok (letters CHR ''i'') (ud_ids (ss_backend (fst (mount_run (Suc 0)))))"
    by (rule letters_fresh) code_simp
  then have 2: "exec_reached demo_ops ''s'' (mount_run (Suc (Suc 0)))"
    by (intro mount_run_Suc [OF _ 1]) (use mount_uuids [of 1] mount_objects in \<open>simp_all add: mount_events_def\<close>)
  have "''r'' \<notin> trace_ids (fst (snd (mount_run 2)))" "''s'' \<notin> trace_ids (fst (snd (mount_run 3)))"
    by code_simp+
  then have 3: "exec_reached demo_ops ''s'' (mount_run (Suc 2))" and
    s: "''s'' \<notin> trace_ids (fst (snd (mount_run 3)))"
    using mount_run_Suc [of 2] 2 by (simp_all add: mount_events_def numeral_2_eq_2)
  from 3 show 4: "exec_reached demo_ops ''s'' (mount_run 4)"
    using mount_run_Suc [of 3] s by (simp add: mount_events_def eval_nat_numeral)
  then show "exec_reached demo_ops ''s'' (mount_run 5)"
    using mount_run_Suc [of 4] mount_uuids [of 4] by (simp add: mount_events_def eval_nat_numeral)
qed

lemma storage_system_contract_witness:
  "\<exists>used. storage_run (ss_controller (fst (mount_run 5))) used (fst (snd (mount_run 5))) \<and>
     ss_backend (fst (mount_run 5)) = udisks_run demo_ops ''s'' (snd (snd (mount_run 5))) \<and>
     sc_drives (ss_controller (fst (mount_run 5))) = []"
proof -
  have "sc_drives (ss_controller (fst (mount_run 5))) = []" by code_simp
  then show ?thesis
    using storage_system_contract [OF mount_reached(2) [unfolded exec_reached_def]] by blast
qed

lemma storage_no_request_lost_witness:
  "\<exists>res. sr_request res = ''s'' \<and> sr_operation res = Mount \<and>
     (ud_generation (ss_backend (fst (mount_run 4))), res) \<in> set (ud_exec_calls (ss_backend (fst (mount_run 4))))"
proof -
  let ?sys = "fst (mount_run 4)"
  have r: "hash_value (sc_requests (ss_controller ?sys)) ''r'' = Some (pending (ss_controller ?sys) ''r'')"
    and s: "''r'' \<notin> set (queued (ss_controller ?sys))" "rq_step (pending (ss_controller ?sys) ''r'') = ''s''"
    and len: "length (snd (snd (mount_run 4))) = 4"
    and none: "ud_timers (ss_backend ?sys) = []" "ud_completions (ss_backend ?sys) = []"
    and op: "\<forall>c \<in> set (ud_exec_calls (ss_backend ?sys)). sr_operation (snd c) = Mount"
    by code_simp+
  have "length (snd (snd (mount_run 4))) < 2 ^ 64" by (simp add: len)
  from storage_no_request_lost [OF mount_reached(1) [unfolded exec_reached_def] this r] show ?thesis
    using s none op by fastforce
qed

definition mount_done :: "storage_system \<times> storage_trace" where
  "mount_done = storage_system_step demo_ops mount_reply (fst (mount_run 5))"

lemma storage_success_shows_state_witness:
  "\<exists>us i answer ws. snd (snd (mount_run 5)) = us @ [UdExecReply i answer] @ ws \<and>
     sr_operation (snd (ud_exec_calls (udisks_run demo_ops ''s'' us) ! i)) = Mount \<and>
     (\<forall>c \<in> set (ud_refresh_calls (udisks_run demo_ops ''s'' us)).
        snd c < snd (ud_refresh_calls (ss_backend (fst (mount_run 5))) ! 0)) \<and>
     sc_available (ss_controller (fst mount_done))"
proof -
  let ?sys = "fst (mount_run 5)"
  let ?res = "(success_of ''r'')\<lparr>sr_target := ''i'', sr_mount_path := ''/run/media/usb''\<rparr>"
  let ?slot = "snd mount_done ! 1"
  have "fresh_ok (letters CHR ''j'') (ud_ids (ss_backend ?sys))" by (rule letters_fresh) code_simp
  then have ok: "system_event_ok (trace_ids (fst (snd (mount_run 5)))) mount_reply ?sys"
    using mount_uuids [of 5] mount_objects by simp
  have step: "storage_system_step demo_ops mount_reply ?sys = (fst mount_done, snd mount_done)"
    by (simp add: mount_done_def)
  have told: "OperationFinished ?res \<in> set (snd ?slot)" "result_succeeded ?res" "1 < length (snd mount_done)"
    and len: "length (snd (snd (mount_run 5))) = 5" and op: "sr_operation ?res = Mount"
    by code_simp+
  have slot: "(fst ?slot, snd ?slot) \<in> set (snd mount_done)" using told(3) by simp
  have short: "length (snd (snd (mount_run 5))) < 2 ^ 64" by (simp add: len)
  from storage_success_shows_state [OF mount_reached(2) [unfolded exec_reached_def] ok step slot told(1,2) short]
  obtain k objects ids fresh us i answer ws where run: "mount_reply = FromUDisks (UdRefreshReply k (Some objects) ids) fresh"
    "snd (snd (mount_run 5)) = us @ [UdExecReply i answer] @ ws"
    "sr_operation (snd (ud_exec_calls (udisks_run demo_ops ''s'' us) ! i)) = sr_operation ?res"
    "\<forall>c \<in> set (ud_refresh_calls (udisks_run demo_ops ''s'' us)). snd c < snd (ud_refresh_calls (ss_backend ?sys) ! k)"
    "sc_available (ss_controller (fst mount_done))"
    unfolding Let_def by metis
  from run(1) have "k = 0" by simp
  then show ?thesis using run(2,3,4,5) unfolding op by blast
qed

end
