(* ===== verification/Bluetooth_Controller.thy ===== *)
theory Bluetooth_Controller
  imports Qt_Prelude "HOL-Library.Word"
begin

text \<open>
  The records of \<open>BluetoothTypes.h\<close>, the two list models, which answer property-only changes with one
  \<open>dataChanged\<close> and everything else with a reset, and \<open>BluetoothController\<close>, which queues operations,
  forwards them to a \<open>BluetoothBackend\<close> and completes each of them once.
\<close>

section \<open>Records\<close>

record bt_adapter =
  ad_id :: string
  ad_address :: string
  ad_alias :: string
  ad_powered :: bool
  ad_discoverable :: bool
  ad_discovering :: bool

record bt_device =
  dv_id :: string
  dv_adapter :: string
  dv_address :: string
  dv_address_type :: string
  dv_name :: string
  dv_alias :: string
  dv_icon :: string
  dv_class :: "32 word"
  dv_appearance :: "16 word"
  dv_paired :: bool
  dv_bonded :: bool
  dv_trusted :: bool
  dv_blocked :: bool
  dv_connected :: bool
  dv_rssi :: "int option"
  dv_battery :: "int option"
  dv_uuids :: "string list"

datatype bt_operation =
    Power | AdapterAlias | Discoverable | StartDiscovery | StopDiscovery | PairDevice | CancelPairing
  | Connect | Disconnect | DeviceAlias | Trust | Block | Forget

record bt_result =
  br_request :: string
  br_target :: string
  br_operation :: bt_operation
  br_error_name :: string
  br_error_message :: string

datatype bt_interaction =
    PinEntry | PinDisplay | PasskeyEntry | PasskeyDisplay | Confirmation | PairingAuthorization
  | ServiceAuthorization

record bt_agent_request =
  ar_request :: string
  ar_device :: string
  ar_interaction :: bt_interaction
  ar_code :: string
  ar_service_uuid :: string
  ar_entered :: "16 word"

section \<open>List models\<close>

definition reset_rows :: "('a \<Rightarrow> string) \<Rightarrow> 'a list \<Rightarrow> 'a list \<Rightarrow> 'a list \<times> 'a row_signal list" where
  "reset_rows idf items rows =
     (if rows = items then (rows, [])
      else if length rows = length items \<and>
          list_all (\<lambda>i. idf (rows ! i) = idf (items ! i)) [0..<length items]
      then (items, map (\<lambda>i. RowChanged i (items ! i)) [0..<length items])
      else (items, [ModelReset items]))"

definition adapter_model_apply :: "bt_adapter list \<Rightarrow> bt_adapter list \<Rightarrow> bt_adapter list \<times> bt_adapter row_signal list" where
  "adapter_model_apply items rows = reset_rows ad_id items rows"

definition device_model_apply :: "bt_device list \<Rightarrow> bt_device list \<Rightarrow> bt_device list \<times> bt_device row_signal list" where
  "device_model_apply items rows = reset_rows dv_id items rows"

definition adapter_model_find :: "string \<Rightarrow> bt_adapter list \<Rightarrow> bt_adapter option" where
  "adapter_model_find identifier rows = find_by ad_id identifier rows"

definition device_model_find :: "string \<Rightarrow> bt_device list \<Rightarrow> bt_device option" where
  "device_model_find identifier rows = find_by dv_id identifier rows"

lemma replay_changed:
  "length xs = length ys \<Longrightarrow> n \<le> length ys \<Longrightarrow>
   replay (map (\<lambda>i. RowChanged i (ys ! i)) [0..<n]) xs = take n ys @ drop n xs"
proof (induction n)
  case 0
  then show ?case by simp
next
  case (Suc n)
  then have "replay (map (\<lambda>i. RowChanged i (ys ! i)) [0..<Suc n]) xs = (take n ys @ drop n xs)[n := ys ! n]"
    by (simp add: replay_def)
  also have "\<dots> = take (Suc n) ys @ drop (Suc n) xs"
    using Suc.prems by (simp add: list_update_append min_def take_Suc_conv_app_nth flip: Cons_nth_drop_Suc)
  finally show ?case .
qed

lemma replay_reset_rows: "replay (snd (reset_rows idf items rows)) rows = fst (reset_rows idf items rows)"
  using replay_changed [of rows items "length items"] by (auto simp: reset_rows_def)

lemma reset_rows_items [simp]: "fst (reset_rows idf items rows) = items"
  by (simp add: reset_rows_def)

interpretation adapter_view: row_observed adapter_model_apply
  by unfold_locales (simp add: adapter_model_apply_def replay_reset_rows)

interpretation device_view: row_observed device_model_apply
  by unfold_locales (simp add: device_model_apply_def replay_reset_rows)

section \<open>The controller\<close>

text \<open>\<open>bc_deferred\<close> holds the zero timers of \<open>execute\<close>, oldest first, with the result and the value
  they captured.\<close>

record 'v bt_state =
  bc_adapters :: "bt_adapter list"
  bc_devices :: "bt_device list"
  bc_available :: bool
  bc_pending :: "(string, bt_result) qhash"
  bc_deferred :: "(bt_result \<times> 'v) list"

datatype 'v bt_output =
    AdapterRows "bt_adapter row_signal list"
  | DeviceRows "bt_device row_signal list"
  | BtAvailableChanged
  | BtOperationStateChanged
  | BtOperationFinished bt_result
  | BtBackendExecute string bt_operation string 'v

definition bt_init :: "'v bt_state" where
  "bt_init = \<lparr>bc_adapters = [], bc_devices = [], bc_available = False, bc_pending = [], bc_deferred = []\<rparr>"

definition bt_known :: "'v bt_state \<Rightarrow> string \<Rightarrow> bool" where
  "bt_known st target = (adapter_model_find target (bc_adapters st) \<noteq> None \<or>
     device_model_find target (bc_devices st) \<noteq> None)"

definition bt_busy :: "'v bt_state \<Rightarrow> string \<Rightarrow> bool" where
  "bt_busy st target = list_ex (\<lambda>(_, r). br_target r = target \<and> br_error_name r = '''') (bc_pending st)"

definition bt_finish :: "bt_result \<Rightarrow> 'v bt_state \<Rightarrow> 'v bt_state \<times> 'v bt_output list" where
  "bt_finish result st =
     (if hash_contains (bc_pending st) (br_request result)
      then (st\<lparr>bc_pending := hash_remove (br_request result) (bc_pending st)\<rparr>,
            [BtOperationStateChanged, BtOperationFinished result])
      else (st, []))"

definition bt_execute ::
  "bt_operation \<Rightarrow> string \<Rightarrow> 'v \<Rightarrow> string \<Rightarrow> 'v bt_state \<Rightarrow> 'v bt_state \<times> 'v bt_output list" where
  "bt_execute op target v rid st =
     (let error = (if \<not> bc_available st \<or> \<not> bt_known st target then ''org.holonight.Bluetooth.Unavailable''
                   else if bt_busy st target \<and> op \<noteq> CancelPairing then ''org.holonight.Bluetooth.Busy''
                   else '''');
          result = \<lparr>br_request = rid, br_target = target, br_operation = op, br_error_name = error,
                    br_error_message = ''''\<rparr>
      in (st\<lparr>bc_pending := hash_insert rid result (bc_pending st),
             bc_deferred := bc_deferred st @ [(result, v)]\<rparr>,
          [BtOperationStateChanged]))"

definition bt_timer :: "'v bt_state \<Rightarrow> 'v bt_state \<times> 'v bt_output list" where
  "bt_timer st =
     (case bc_deferred st of
        [] \<Rightarrow> (st, [])
      | (result, v) # rest \<Rightarrow>
          let st' = st\<lparr>bc_deferred := rest\<rparr> in
          if \<not> hash_contains (bc_pending st') (br_request result) then (st', [])
          else if br_error_name result \<noteq> '''' then bt_finish result st'
          else (st', [BtBackendExecute (br_request result) (br_operation result) (br_target result) v]))"

definition bt_lost :: "bool \<Rightarrow> 'v bt_state \<Rightarrow> bt_result \<Rightarrow> bool" where
  "bt_lost available st r = ((\<not> available \<or> br_operation r \<noteq> Forget) \<and> \<not> bt_known st (br_target r))"

fun bt_finish_lost :: "bool \<Rightarrow> bt_result list \<Rightarrow> 'v bt_state \<Rightarrow> 'v bt_state \<times> 'v bt_output list" where
  "bt_finish_lost available [] st = (st, [])"
| "bt_finish_lost available (r # rs) st =
     (let (st', out) = (if bt_lost available st r
            then bt_finish (r\<lparr>br_error_name := ''org.holonight.Bluetooth.Disappeared'',
                   br_error_message := ''Bluetooth target is no longer available''\<rparr>) st
            else (st, []));
          (st'', out') = bt_finish_lost available rs st'
      in (st'', out @ out'))"

definition bt_snapshot ::
  "bt_adapter list \<Rightarrow> bt_device list \<Rightarrow> bool \<Rightarrow> 'v bt_state \<Rightarrow> 'v bt_state \<times> 'v bt_output list" where
  "bt_snapshot adapters devices available st =
     (let (as, asig) = adapter_model_apply (if available then adapters else []) (bc_adapters st);
          (ds, dsig) = device_model_apply (if available then devices else []) (bc_devices st);
          changed = (if bc_available st \<noteq> available then [BtAvailableChanged] else []);
          st' = st\<lparr>bc_adapters := as, bc_devices := ds, bc_available := available\<rparr>;
          (st'', out) = bt_finish_lost available (map snd (bc_pending st')) st'
      in (st'', [AdapterRows asig, DeviceRows dsig] @ changed @ out))"

datatype 'v bt_event =
    BtExecute bt_operation string 'v string
  | BtTimer
  | BtReply bt_result
  | BtSnapshot "bt_adapter list" "bt_device list" bool

fun bt_step :: "'v bt_event \<Rightarrow> 'v bt_state \<Rightarrow> 'v bt_state \<times> 'v bt_output list" where
  "bt_step (BtExecute op target v rid) st = bt_execute op target v rid st"
| "bt_step BtTimer st = bt_timer st"
| "bt_step (BtReply result) st = bt_finish result st"
| "bt_step (BtSnapshot adapters devices available) st = bt_snapshot adapters devices available st"

end
