(* ===== verification/Text_Numbers.thy ===== *)
theory Text_Numbers
  imports Main "HOL-Library.Char_ord"
begin

text \<open>
  Decimal text of numbers, as \<open>QString::number\<close> and \<open>QString::arg\<close> print it and \<open>toUInt\<close> reads it:
  printing is injective and reads back as the number printed.
\<close>

section \<open>Printing and reading\<close>

definition digit_char :: "nat \<Rightarrow> char" where
  "digit_char d = char_of (48 + d)"

fun decimal :: "nat \<Rightarrow> string" where
  "decimal n = (if n < 10 then [digit_char n] else decimal (n div 10) @ [digit_char (n mod 10)])"

definition is_digit :: "char \<Rightarrow> bool" where
  "is_digit c = (48 \<le> (of_char c :: nat) \<and> (of_char c :: nat) \<le> 57)"

definition digits_value :: "string \<Rightarrow> nat" where
  "digits_value s = foldl (\<lambda>n c. 10 * n + (of_char c - 48)) 0 s"

definition integer_text :: "int \<Rightarrow> string" where
  "integer_text n = (if n < 0 then CHR ''-'' # decimal (nat (- n)) else decimal (nat n))"

section \<open>Round trip\<close>

lemma of_char_digit: "d < 10 \<Longrightarrow> (of_char (digit_char d) :: nat) = 48 + d"
  by (simp add: digit_char_def)

declare decimal.simps [simp del]

lemma digits_value_snoc: "digits_value (s @ [c]) = 10 * digits_value s + (of_char c - 48)"
  by (simp add: digits_value_def)

lemma digits_value_decimal: "digits_value (decimal n) = n"
proof (induction n rule: decimal.induct)
  case (1 n)
  then show ?case
    by (cases "n < 10") (simp_all add: decimal.simps [of n] digits_value_snoc of_char_digit,
        simp add: digits_value_def of_char_digit)
qed

lemma decimal_digits: "list_all is_digit (decimal n)"
proof (induction n rule: decimal.induct)
  case (1 n)
  then show ?case
    by (cases "n < 10") (simp_all add: decimal.simps [of n] is_digit_def of_char_digit)
qed

lemma length_decimal: "0 < k \<Longrightarrow> n < 10 ^ k \<Longrightarrow> length (decimal n) \<le> k"
proof (induction n arbitrary: k rule: decimal.induct)
  case (1 n)
  show ?case
  proof (cases "n < 10")
    case True
    then show ?thesis using 1 by (simp add: decimal.simps [of n])
  next
    case False
    then have "k \<noteq> 1" using "1.prems" by auto
    then obtain j where k: "k = Suc j" "0 < j" using "1.prems" by (cases k) auto
    then have "n div 10 < 10 ^ j" using "1.prems" by (simp add: div_less_iff_less_mult mult.commute)
    then show ?thesis using 1(1) [OF False k(2)] False k by (simp add: decimal.simps [of n])
  qed
qed

lemma digits_value_zeros: "digits_value (replicate m (CHR ''0'') @ s) = digits_value s"
  by (induction m) (simp_all add: digits_value_def)

lemma digits_value_bound: "list_all is_digit s \<Longrightarrow> digits_value s < 10 ^ length s"
proof (induction s rule: rev_induct)
  case (snoc c s)
  then have "of_char c - 48 < (10::nat)" "digits_value s < 10 ^ length s" by (auto simp: is_digit_def)
  then show ?case by (simp add: digits_value_snoc)
qed (simp add: digits_value_def)

lemma decimal_eq_iff [simp]: "decimal m = decimal n \<longleftrightarrow> m = n"
  by (metis digits_value_decimal)

lemma decimal_not_Nil [simp]: "decimal n \<noteq> []"
  by (simp add: decimal.simps [of n])

lemma decimal_no_minus: "decimal n \<noteq> CHR ''-'' # s"
proof
  assume "decimal n = CHR ''-'' # s"
  moreover have "\<not> is_digit (CHR ''-'')" by (simp add: is_digit_def)
  ultimately show False using decimal_digits [of n] by simp
qed

lemma integer_text_eq_iff [simp]: "integer_text m = integer_text n \<longleftrightarrow> m = n"
  by (auto simp: integer_text_def decimal_no_minus decimal_no_minus [symmetric])

lemma integer_text_not_Nil [simp]: "integer_text n \<noteq> []"
  by (simp add: integer_text_def)

end
