(* ===== verification/BlueZ_Agent.thy ===== *)
theory BlueZ_Agent
  imports Bluetooth_Controller Text_Numbers
begin

text \<open>
  \<open>BlueZAgent\<close>: the pairing agent exported to BlueZ. A call of BlueZ becomes an interaction that the
  application answers, that is canceled, or that times out. A call's D-Bus message is its serial number
  and sender; \<open>caller\<close> is \<open>None\<close> when a slot is not called over D-Bus. The single-shot timers are the
  identifiers they captured.
\<close>

section \<open>State\<close>

record agent_pending =
  ap_request :: bt_agent_request
  ap_message :: nat
  ap_delayed :: bool

record agent_state =
  ag_owner :: string
  ag_devices :: "(string, string) qhash"
  ag_pending :: "(string, agent_pending) qhash"
  ag_timers :: "string list"

datatype agent_argument = ArgText string | ArgNumber "32 word"

datatype agent_output =
    AgRequested bt_agent_request
  | AgCanceled string
  | AgReply nat "agent_argument list"
  | AgReject nat string

definition agent_init :: agent_state where
  "agent_init = \<lparr>ag_owner = '''', ag_devices = [], ag_pending = [], ag_timers = []\<rparr>"

section \<open>Text of codes\<close>

text \<open>\<open>QStringLiteral("%1").arg(passkey, 6, 10, '0')\<close>.\<close>

definition passkey_text :: "32 word \<Rightarrow> string" where
  "passkey_text k = replicate (6 - length (decimal (unat k))) (CHR ''0'') @ decimal (unat k)"

definition pin_input_ok :: "string \<Rightarrow> bool" where
  "pin_input_ok input = (input \<noteq> '''' \<and> length input \<le> 16 \<and> \<not> List.member input (CHR 0x00))"

text \<open>The pattern \<open>^[0-9]{1,6}$\<close>: the anchor at the end also matches before a final newline, which
  \<open>toUInt\<close> then ignores.\<close>

definition strip_newline :: "string \<Rightarrow> string" where
  "strip_newline s = (if s \<noteq> '''' \<and> last s = CHR 0x0A then butlast s else s)"

definition passkey_input_ok :: "string \<Rightarrow> bool" where
  "passkey_input_ok input =
     (let d = strip_newline input in 1 \<le> length d \<and> length d \<le> 6 \<and> list_all is_digit d)"

definition input_number :: "string \<Rightarrow> 32 word" where
  "input_number input = of_nat (digits_value (strip_newline input))"

section \<open>Operations\<close>

definition agent_respond ::
  "string \<Rightarrow> bool \<Rightarrow> string \<Rightarrow> agent_state \<Rightarrow> agent_state \<times> agent_output list" where
  "agent_respond rid accept input st =
     (case hash_value (ag_pending st) rid of
        None \<Rightarrow> (st, [])
      | Some p \<Rightarrow>
          let kind = ar_interaction (ap_request p) in
          if accept \<and> kind = PinEntry \<and> \<not> pin_input_ok input then (st, [])
          else if accept \<and> kind = PasskeyEntry \<and> \<not> passkey_input_ok input then (st, [])
          else
            let arguments = (if accept \<and> kind = PinEntry then [ArgText input]
                  else if accept \<and> kind = PasskeyEntry then [ArgNumber (input_number input)] else []);
                reply = (if ap_delayed p
                  then [if accept then AgReply (ap_message p) arguments
                        else AgReject (ap_message p) ''Pairing canceled'']
                  else [])
            in (st\<lparr>ag_pending := hash_remove rid (ag_pending st)\<rparr>, reply @ [AgCanceled rid]))"

fun agent_refuse :: "string list \<Rightarrow> agent_state \<Rightarrow> agent_state \<times> agent_output list" where
  "agent_refuse [] st = (st, [])"
| "agent_refuse (rid # rids) st =
     (let (st', out) = agent_respond rid False '''' st; (st'', out') = agent_refuse rids st'
      in (st'', out @ out'))"

definition agent_clear :: "agent_state \<Rightarrow> agent_state \<times> agent_output list" where
  "agent_clear st = agent_refuse (hash_keys (ag_pending st)) st"

definition agent_set_owner :: "string \<Rightarrow> agent_state \<Rightarrow> agent_state \<times> agent_output list" where
  "agent_set_owner owner st = (let (st', out) = agent_clear st in (st'\<lparr>ag_owner := owner\<rparr>, out))"

definition agent_set_devices ::
  "(string, string) qhash \<Rightarrow> agent_state \<Rightarrow> agent_state \<times> agent_output list" where
  "agent_set_devices devices st =
     agent_refuse
       (map (\<lambda>(_, p). ar_request (ap_request p))
         (filter (\<lambda>(_, p). \<not> List.member (map snd devices) (ar_device (ap_request p))) (ag_pending st)))
       (st\<lparr>ag_devices := devices\<rparr>)"

definition agent_authorized :: "(nat \<times> string) option \<Rightarrow> agent_state \<Rightarrow> bool \<times> agent_output list" where
  "agent_authorized caller st =
     (case caller of
        None \<Rightarrow> (False, [])
      | Some (message, sender) \<Rightarrow>
          if ag_owner st \<noteq> '''' \<and> sender = ag_owner st then (True, [])
          else (False, [AgReject message ''Untrusted caller'']))"

text \<open>The device a call is about: a known one, or the identifier the resolver reserves for it.\<close>

definition agent_device :: "string \<Rightarrow> agent_state \<Rightarrow> string" where
  "agent_device path st = (case hash_value (ag_devices st) path of Some i \<Rightarrow> i | None \<Rightarrow> '''')"

definition display_match :: "string \<Rightarrow> bt_interaction \<Rightarrow> agent_pending \<Rightarrow> bool" where
  "display_match deviceId kind p =
     (\<not> ap_delayed p \<and> ar_device (ap_request p) = deviceId \<and> ar_interaction (ap_request p) = kind)"

fun update_display ::
  "string \<Rightarrow> bt_interaction \<Rightarrow> string \<Rightarrow> 16 word \<Rightarrow> (string, agent_pending) qhash \<Rightarrow>
   ((string, agent_pending) qhash \<times> bt_agent_request) option" where
  "update_display deviceId kind code entered [] = None"
| "update_display deviceId kind code entered ((k, p) # ps) =
     (if display_match deviceId kind p then
        let r = (ap_request p)\<lparr>ar_code := code, ar_entered := entered\<rparr>
        in Some ((k, p\<lparr>ap_request := r\<rparr>) # ps, r)
      else map_option (\<lambda>(ps', r). ((k, p) # ps', r)) (update_display deviceId kind code entered ps))"

text \<open>\<open>request\<close> once the caller is trusted and the device known.\<close>

definition agent_open ::
  "nat \<Rightarrow> string \<Rightarrow> bt_interaction \<Rightarrow> string \<Rightarrow> string \<Rightarrow> 16 word \<Rightarrow> bool \<Rightarrow> string \<Rightarrow> agent_state \<Rightarrow>
   agent_state \<times> agent_output list" where
  "agent_open message deviceId kind code uuid entered delayed fresh st =
     (case update_display deviceId kind code entered (ag_pending st) of
        Some (pending, r) \<Rightarrow> (st\<lparr>ag_pending := pending\<rparr>, [AgRequested r])
      | None \<Rightarrow>
          let r = \<lparr>ar_request = fresh, ar_device = deviceId, ar_interaction = kind, ar_code = code,
                   ar_service_uuid = uuid, ar_entered = entered\<rparr>
          in (st\<lparr>ag_pending := hash_insert fresh
                   \<lparr>ap_request = r, ap_message = message, ap_delayed = delayed\<rparr> (ag_pending st),
                 ag_timers := ag_timers st @ [fresh]\<rparr>,
              [AgRequested r]))"

text \<open>\<open>resolved\<close> is what the resolver returns for a device that is not known; the caller of this
  operation evaluates the resolver only when \<open>agent_needs_resolver\<close> holds.\<close>

definition agent_needs_resolver :: "(nat \<times> string) option \<Rightarrow> string \<Rightarrow> agent_state \<Rightarrow> bool" where
  "agent_needs_resolver caller path st = (fst (agent_authorized caller st) \<and> agent_device path st = '''')"

definition agent_request ::
  "(nat \<times> string) option \<Rightarrow> string \<Rightarrow> string \<Rightarrow> bt_interaction \<Rightarrow> string \<Rightarrow> string \<Rightarrow> 16 word \<Rightarrow> bool \<Rightarrow>
   string \<Rightarrow> agent_state \<Rightarrow> agent_state \<times> agent_output list" where
  "agent_request caller path resolved kind code uuid entered delayed fresh st =
     (case (agent_authorized caller st, caller) of
        ((True, _), Some (message, _)) \<Rightarrow>
          let known = agent_device path st;
              deviceId = (if known = '''' then resolved else known);
              st' = (if known = '''' \<and> resolved \<noteq> ''''
                     then st\<lparr>ag_devices := hash_insert path resolved (ag_devices st)\<rparr> else st)
          in if deviceId = '''' then (st', [AgReject message ''Unknown device''])
             else agent_open message deviceId kind code uuid entered delayed fresh st'
      | ((_, out), _) \<Rightarrow> (st, out))"

section \<open>The exported slots\<close>

datatype agent_method =
    Release
  | CancelCall
  | RequestPinCode string
  | DisplayPinCode string string
  | RequestPasskey string
  | DisplayPasskeyCall string "32 word" "16 word"
  | RequestConfirmation string "32 word"
  | RequestAuthorization string
  | AuthorizeService string string

fun call_path :: "agent_method \<Rightarrow> string option" where
  "call_path Release = None"
| "call_path CancelCall = None"
| "call_path (RequestPinCode path) = Some path"
| "call_path (DisplayPinCode path _) = Some path"
| "call_path (RequestPasskey path) = Some path"
| "call_path (DisplayPasskeyCall path _ _) = Some path"
| "call_path (RequestConfirmation path _) = Some path"
| "call_path (RequestAuthorization path) = Some path"
| "call_path (AuthorizeService path _) = Some path"

fun agent_call ::
  "(nat \<times> string) option \<Rightarrow> agent_method \<Rightarrow> string \<Rightarrow> string \<Rightarrow> agent_state \<Rightarrow> agent_state \<times> agent_output list" where
  "agent_call caller Release resolved fresh st =
     (case agent_authorized caller st of (True, _) \<Rightarrow> agent_clear st | (False, out) \<Rightarrow> (st, out))"
| "agent_call caller CancelCall resolved fresh st =
     (case agent_authorized caller st of (True, _) \<Rightarrow> agent_clear st | (False, out) \<Rightarrow> (st, out))"
| "agent_call caller (RequestPinCode path) resolved fresh st =
     agent_request caller path resolved PinEntry '''' '''' 0 True fresh st"
| "agent_call caller (DisplayPinCode path pin) resolved fresh st =
     agent_request caller path resolved PinDisplay pin '''' 0 False fresh st"
| "agent_call caller (RequestPasskey path) resolved fresh st =
     agent_request caller path resolved PasskeyEntry '''' '''' 0 True fresh st"
| "agent_call caller (DisplayPasskeyCall path passkey entered) resolved fresh st =
     agent_request caller path resolved PasskeyDisplay (passkey_text passkey) '''' entered False fresh st"
| "agent_call caller (RequestConfirmation path passkey) resolved fresh st =
     agent_request caller path resolved Confirmation (passkey_text passkey) '''' 0 True fresh st"
| "agent_call caller (RequestAuthorization path) resolved fresh st =
     agent_request caller path resolved PairingAuthorization '''' '''' 0 True fresh st"
| "agent_call caller (AuthorizeService path uuid) resolved fresh st =
     agent_request caller path resolved ServiceAuthorization '''' uuid 0 True fresh st"

text \<open>A timer fires: any of the running ones, since the timeout can be changed between requests.\<close>

definition agent_timeout :: "nat \<Rightarrow> agent_state \<Rightarrow> agent_state \<times> agent_output list" where
  "agent_timeout i st =
     (if i < length (ag_timers st)
      then agent_respond (ag_timers st ! i) False '''' (st\<lparr>ag_timers := remove_row i (ag_timers st)\<rparr>)
      else (st, []))"

section \<open>Events\<close>

datatype agent_event =
    AgSetOwner string
  | AgSetDevices "(string, string) qhash"
  | AgCall "(nat \<times> string) option" agent_method string string
  | AgRespond string bool string
  | AgTimeout nat
  | AgClear

fun agent_step :: "agent_event \<Rightarrow> agent_state \<Rightarrow> agent_state \<times> agent_output list" where
  "agent_step (AgSetOwner owner) st = agent_set_owner owner st"
| "agent_step (AgSetDevices devices) st = agent_set_devices devices st"
| "agent_step (AgCall caller call resolved fresh) st = agent_call caller call resolved fresh st"
| "agent_step (AgRespond rid accept input) st = agent_respond rid accept input st"
| "agent_step (AgTimeout i) st = agent_timeout i st"
| "agent_step AgClear st = agent_clear st"

end
