(* ===== verification/BlueZ_Agent_Runs.thy ===== *)
theory BlueZ_Agent_Runs
  imports BlueZ_Agent
begin

text \<open>What \<open>BlueZAgent\<close> guarantees to BlueZ and to the application.\<close>

section \<open>Codes\<close>

text \<open>The six-digit text of a passkey is faithful: it consists of digits, has at least six of them,
  exactly six for the passkeys Bluetooth allows, and reads back as the same number.\<close>

theorem passkey_text_roundtrip:
  "digits_value (passkey_text k) = unat k \<and> list_all is_digit (passkey_text k) \<and>
   6 \<le> length (passkey_text k) \<and> (unat k \<le> 999999 \<longrightarrow> length (passkey_text k) = 6)"
proof -
  have "unat k \<le> 999999 \<Longrightarrow> length (decimal (unat k)) \<le> 6"
    using length_decimal [of 6 "unat k"] by simp
  moreover have "is_digit (CHR ''0'')" by (simp add: is_digit_def)
  ultimately show ?thesis
    using decimal_digits [of "unat k"]
    by (auto simp: passkey_text_def digits_value_zeros digits_value_decimal list_all_iff)
qed

lemma passkey_text_roundtrip_witness: "passkey_text 42 = ''000042'' \<and> length (passkey_text 42) = 6"
proof
  show "passkey_text 42 = ''000042''" by code_simp
  show "length (passkey_text 42) = 6" using passkey_text_roundtrip [of 42] by simp
qed

lemma input_number_bound:
  assumes "passkey_input_ok input"
  shows "unat (input_number input) \<le> 999999"
proof -
  let ?d = "strip_newline input"
  have "digits_value ?d < 10 ^ length ?d" and len: "length ?d \<le> 6"
    using assms digits_value_bound by (auto simp: passkey_input_ok_def Let_def)
  moreover have "(10::nat) ^ length ?d \<le> 10 ^ 6" by (rule power_increasing [OF len]) simp
  ultimately have "digits_value ?d \<le> 999999" by simp
  then show ?thesis by (simp add: input_number_def unat_of_nat take_bit_eq_mod)
qed


section \<open>Trust and validity\<close>

text \<open>C15. A caller that is not the current owner of the Bluetooth service cannot do anything to the
  agent: its call is rejected and neither changes the agent nor reaches the application.\<close>

theorem agent_untrusted_call:
  assumes "sender \<noteq> ag_owner st \<or> ag_owner st = ''''"
  shows "agent_step (AgCall (Some (message, sender)) meth resolved fresh) st =
    (st, [AgReject message ''Untrusted caller''])"
proof -
  have "agent_authorized (Some (message, sender)) st = (False, [AgReject message ''Untrusted caller''])"
    using assms by (auto simp: agent_authorized_def)
  then show ?thesis by (cases meth) (simp_all add: agent_request_def)
qed

lemma agent_untrusted_call_witness:
  "agent_step (AgCall (Some (7, '':evil'')) (RequestPinCode ''/d'') ''dev'' ''r'') (agent_init\<lparr>ag_owner := '':1''\<rparr>) =
   (agent_init\<lparr>ag_owner := '':1''\<rparr>, [AgReject 7 ''Untrusted caller''])"
  by (rule agent_untrusted_call) simp

lemma agent_respond_cases:
  obtains (ignored) "agent_respond rid accept input st = (st, [])"
    | (closed) p args where "hash_value (ag_pending st) rid = Some p"
      "agent_respond rid accept input st = (st\<lparr>ag_pending := hash_remove rid (ag_pending st)\<rparr>,
         (if ap_delayed p then [if accept then AgReply (ap_message p) args
            else AgReject (ap_message p) ''Pairing canceled''] else []) @ [AgCanceled rid])"
      "args = (if accept \<and> ar_interaction (ap_request p) = PinEntry then [ArgText input]
         else if accept \<and> ar_interaction (ap_request p) = PasskeyEntry then [ArgNumber (input_number input)] else [])"
      "accept \<Longrightarrow> ar_interaction (ap_request p) = PinEntry \<Longrightarrow> pin_input_ok input"
      "accept \<Longrightarrow> ar_interaction (ap_request p) = PasskeyEntry \<Longrightarrow> passkey_input_ok input"
proof (cases "hash_value (ag_pending st) rid")
  case None
  then show thesis using ignored by (simp add: agent_respond_def)
next
  case (Some p)
  show thesis
  proof (cases "accept \<and> (ar_interaction (ap_request p) = PinEntry \<and> \<not> pin_input_ok input \<or>
      ar_interaction (ap_request p) = PasskeyEntry \<and> \<not> passkey_input_ok input)")
    case True
    then show thesis using ignored Some by (auto simp: agent_respond_def Let_def)
  next
    case False
    show thesis
      by (rule closed [OF Some _ refl]) (use False Some in \<open>auto simp: agent_respond_def Let_def\<close>)
  qed
qed

text \<open>C16. What the agent sends to BlueZ on behalf of the user is well formed: a PIN has between one and
  sixteen characters and no NUL, a passkey is at most 999999, and a PIN or passkey is only sent for an
  interaction of that kind that the user accepted.\<close>

theorem agent_answers_valid:
  assumes "agent_step (AgRespond rid accept input) st = (st', out)" and "AgReply message args \<in> set out"
  shows "accept \<and> (\<exists>p. hash_value (ag_pending st) rid = Some p \<and> ap_message p = message \<and>
      (\<forall>s. ArgText s \<in> set args \<longrightarrow> ar_interaction (ap_request p) = PinEntry \<and> s = input \<and>
         1 \<le> length s \<and> length s \<le> 16 \<and> CHR 0x00 \<notin> set s) \<and>
      (\<forall>n. ArgNumber n \<in> set args \<longrightarrow> ar_interaction (ap_request p) = PasskeyEntry \<and> unat n \<le> 999999))"
proof (cases rule: agent_respond_cases [of rid accept input st])
  case ignored
  then show ?thesis using assms by simp
next
  case (closed p args')
  then have args: "accept" "ap_message p = message" "args = args'"
    using assms by (auto split: if_splits)
  have "s = input \<and> ar_interaction (ap_request p) = PinEntry \<and> pin_input_ok s" if "ArgText s \<in> set args" for s
    using that closed args by (auto split: if_splits)
  moreover have "ar_interaction (ap_request p) = PasskeyEntry \<and> unat n \<le> 999999"
    if "ArgNumber n \<in> set args" for n
    using that closed args input_number_bound by (auto split: if_splits)
  ultimately show ?thesis
    using closed(1) args by (auto simp: pin_input_ok_def Suc_le_eq)
qed

definition demo_agent :: agent_state where
  "demo_agent = fst (agent_step (AgCall (Some (7, '':1'')) (RequestPasskey ''/d'') ''dev'' ''r'')
     (fst (agent_step (AgSetOwner '':1'') agent_init)))"

lemma agent_answers_valid_witness:
  "AgReply 7 [ArgNumber 42] \<in> set (snd (agent_step (AgRespond ''r'' True ''42'') demo_agent)) \<and>
   unat (42 :: 32 word) \<le> 999999"
proof -
  have mem: "AgReply 7 [ArgNumber 42] \<in> set (snd (agent_step (AgRespond ''r'' True ''42'') demo_agent))"
    by code_simp
  show ?thesis using agent_answers_valid [OF surjective_pairing mem] mem by auto
qed

section \<open>Every interaction ends once\<close>

lemma hash_insert_new: "hash_value m k = None \<Longrightarrow> hash_insert k v m = m @ [(k, v)]"
  by (induction m) (auto split: if_splits)

fun agent_canceled :: "agent_output list \<Rightarrow> string list" where
  "agent_canceled [] = []"
| "agent_canceled (AgCanceled rid # out) = rid # agent_canceled out"
| "agent_canceled (_ # out) = agent_canceled out"

fun agent_replied :: "agent_output list \<Rightarrow> nat list" where
  "agent_replied [] = []"
| "agent_replied (AgReply m _ # out) = m # agent_replied out"
| "agent_replied (AgReject m _ # out) = m # agent_replied out"
| "agent_replied (_ # out) = agent_replied out"

lemma agent_lists_append [simp]:
  "agent_canceled (xs @ ys) = agent_canceled xs @ agent_canceled ys"
  "agent_replied (xs @ ys) = agent_replied xs @ agent_replied ys"
  by (induction xs rule: agent_canceled.induct) auto

definition agent_inv :: "agent_state \<Rightarrow> bool" where
  "agent_inv st \<longleftrightarrow> hash_ok (ag_pending st) \<and> '''' \<notin> snd ` set (ag_devices st) \<and>
     (\<forall>k p. hash_value (ag_pending st) k = Some p \<longrightarrow>
        ar_request (ap_request p) = k \<and> k \<in> set (ag_timers st) \<and>
        ar_device (ap_request p) \<in> snd ` set (ag_devices st))"

lemma agent_invD:
  assumes "agent_inv st"
  shows "hash_ok (ag_pending st)" "'''' \<notin> snd ` set (ag_devices st)"
    "hash_value (ag_pending st) k = Some p \<Longrightarrow> ar_request (ap_request p) = k"
    "hash_value (ag_pending st) k = Some p \<Longrightarrow> k \<in> set (ag_timers st)"
    "hash_value (ag_pending st) k = Some p \<Longrightarrow> ar_device (ap_request p) \<in> snd ` set (ag_devices st)"
  using assms unfolding agent_inv_def by blast+

text \<open>The D-Bus calls that wait for a reply, as serial numbers.\<close>

definition agent_waiting :: "agent_state \<Rightarrow> nat multiset" where
  "agent_waiting st = image_mset (\<lambda>(_, p). ap_message p) (filter_mset (\<lambda>(_, p). ap_delayed p) (mset (ag_pending st)))"

definition agent_keys :: "agent_state \<Rightarrow> string multiset" where
  "agent_keys st = image_mset fst (mset (ag_pending st))"

lemma hash_remove_mset:
  assumes "hash_ok m" and "hash_value m k = Some v"
  shows "mset m = add_mset (k, v) (mset (hash_remove k m))"
  using assms
proof (induction m)
  case (Cons p m)
  obtain a b where p: "p = (a, b)" by (cases p)
  show ?case
  proof (cases "a = k")
    case True
    with Cons.prems p have "hash_value m k = None" by (auto simp: hash_ok_def map_of_eq_None_iff)
    with True Cons.prems p show ?thesis by (simp add: hash_remove_absent)
  next
    case False
    with Cons p show ?thesis by (simp add: hash_ok_def)
  qed
qed simp

text \<open>A response closes at most the one interaction it names.\<close>

lemma agent_respond_counts:
  assumes "agent_inv st"
  shows "mset (agent_canceled (snd (agent_respond rid accept input st))) + agent_keys (fst (agent_respond rid accept input st))
      = agent_keys st"
    and "mset (agent_replied (snd (agent_respond rid accept input st))) + agent_waiting (fst (agent_respond rid accept input st))
      = agent_waiting st"
    and "agent_inv (fst (agent_respond rid accept input st))"
proof -
  have ok: "hash_ok (ag_pending st)" using assms by (simp add: agent_inv_def)
  show "mset (agent_canceled (snd (agent_respond rid accept input st))) + agent_keys (fst (agent_respond rid accept input st))
      = agent_keys st"
    "mset (agent_replied (snd (agent_respond rid accept input st))) + agent_waiting (fst (agent_respond rid accept input st))
      = agent_waiting st"
    by (cases rule: agent_respond_cases [of rid accept input st];
        simp add: agent_keys_def agent_waiting_def hash_remove_mset [OF ok])+
  show "agent_inv (fst (agent_respond rid accept input st))"
    by (cases rule: agent_respond_cases [of rid accept input st])
      (use assms in \<open>auto simp: agent_inv_def split: if_splits\<close>)
qed

lemma agent_respond_false:
  "fst (agent_respond rid False input st) = st\<lparr>ag_pending := hash_remove rid (ag_pending st)\<rparr>"
  by (auto simp: agent_respond_def Let_def hash_remove_absent split: option.split)

lemma agent_refuse_counts:
  assumes "agent_inv st"
  shows "mset (agent_canceled (snd (agent_refuse rids st))) + agent_keys (fst (agent_refuse rids st)) = agent_keys st \<and>
    mset (agent_replied (snd (agent_refuse rids st))) + agent_waiting (fst (agent_refuse rids st)) = agent_waiting st \<and>
    agent_inv (fst (agent_refuse rids st)) \<and>
    (\<forall>k. hash_value (ag_pending (fst (agent_refuse rids st))) k =
       (if k \<in> set rids then None else hash_value (ag_pending st) k)) \<and>
    ag_timers (fst (agent_refuse rids st)) = ag_timers st \<and>
    ag_devices (fst (agent_refuse rids st)) = ag_devices st"
  using assms
proof (induction rids arbitrary: st)
  case Nil
  then show ?case by simp
next
  case (Cons rid rids)
  note C = agent_respond_counts [OF Cons.prems, of rid False "''''"]
  have step: "fst (agent_refuse (rid # rids) st) = fst (agent_refuse rids (fst (agent_respond rid False '''' st)))"
    "snd (agent_refuse (rid # rids) st) = snd (agent_respond rid False '''' st) @
       snd (agent_refuse rids (fst (agent_respond rid False '''' st)))"
    by (simp_all add: split_beta Let_def)
  note IH = Cons.IH [OF C(3)]
  show ?case
    unfolding step agent_lists_append mset_append add.assoc C(1) C(2)
    using IH C(1,2) by (auto simp: agent_respond_false)
qed


lemma update_display_facts:
  "update_display dev kind code entered ps = Some (ps', r) \<Longrightarrow>
   map fst ps' = map fst ps \<and>
   image_mset (\<lambda>(_, p). ap_message p) (filter_mset (\<lambda>(_, p). ap_delayed p) (mset ps')) =
     image_mset (\<lambda>(_, p). ap_message p) (filter_mset (\<lambda>(_, p). ap_delayed p) (mset ps)) \<and>
   (\<forall>k p'. hash_value ps' k = Some p' \<longrightarrow> (\<exists>p. hash_value ps k = Some p \<and>
      ar_request (ap_request p') = ar_request (ap_request p) \<and>
      ar_device (ap_request p') = ar_device (ap_request p))) \<and>
   (\<exists>k p. (k, p) \<in> set ps \<and> ar_request r = ar_request (ap_request p))"
proof (induction ps arbitrary: ps')
  case Nil
  then show ?case by simp
next
  case (Cons x ps)
  obtain k p where x: "x = (k, p)" by (cases x)
  show ?case
  proof (cases "display_match dev kind p")
    case True
    then have "ps' = (k, p\<lparr>ap_request := r\<rparr>) # ps" "r = (ap_request p)\<lparr>ar_code := code, ar_entered := entered\<rparr>"
      using Cons.prems x by (auto simp: Let_def)
    then show ?thesis using x True by (auto simp: display_match_def)
  next
    case False
    then obtain ps1 where ps1: "update_display dev kind code entered ps = Some (ps1, r)" "ps' = (k, p) # ps1"
      using Cons.prems x by auto
    from Cons.IH [OF ps1(1)] show ?thesis
      unfolding ps1(2) x by (intro conjI) (simp, simp, auto)
  qed
qed

lemma agent_open_facts:
  assumes inv: "agent_inv st" and new: "hash_value (ag_pending st) fresh = None"
    and dev: "dev \<in> snd ` set (ag_devices st)"
    and step: "agent_open m dev kind code uuid entered delayed fresh st = (st', out)"
  shows "agent_inv st' \<and> agent_canceled out = [] \<and> agent_replied out = [] \<and>
    agent_keys st' \<subseteq># agent_keys st + {#fresh#} \<and> agent_keys st \<subseteq># agent_keys st' \<and>
    agent_waiting st' \<subseteq># agent_waiting st + {#m#} \<and>
    (\<forall>r. AgRequested r \<in> set out \<longrightarrow> ar_request r \<in># agent_keys st')"
proof (cases "update_display dev kind code entered (ag_pending st)")
  case None
  define r where "r = \<lparr>ar_request = fresh, ar_device = dev, ar_interaction = kind, ar_code = code,
    ar_service_uuid = uuid, ar_entered = entered\<rparr>"
  define p where "p = \<lparr>ap_request = r, ap_message = m, ap_delayed = delayed\<rparr>"
  have st': "st' = st\<lparr>ag_pending := hash_insert fresh p (ag_pending st), ag_timers := ag_timers st @ [fresh]\<rparr>"
    "out = [AgRequested r]"
    using step None by (simp_all add: agent_open_def Let_def p_def r_def)
  have r: "ar_request r = fresh" "ar_device r = dev" "ap_request p = r" "ap_message p = m"
    by (simp_all add: r_def p_def)
  have "agent_inv st'"
    using inv dev r unfolding agent_inv_def st' by (auto split: if_splits)
  moreover have "agent_keys st' = agent_keys st + {#fresh#}"
    using new by (simp add: st' agent_keys_def keys_insert)
  moreover have "agent_waiting st' \<subseteq># agent_waiting st + {#m#}"
    using r by (simp add: st' agent_waiting_def hash_insert_new [OF new])
  ultimately show ?thesis using st' r by simp
next
  case (Some x)
  obtain ps r where x: "x = (ps, r)" by (cases x)
  have st': "st' = st\<lparr>ag_pending := ps\<rparr>" "out = [AgRequested r]"
    using step Some x by (simp_all add: agent_open_def)
  note U = update_display_facts [OF Some [unfolded x]]
  have keys: "agent_keys st' = agent_keys st"
    using U unfolding st' agent_keys_def by (simp flip: mset_map)
  have "agent_waiting st' = agent_waiting st" using U by (simp add: st' agent_waiting_def)
  moreover have "agent_inv st'"
    unfolding agent_inv_def
  proof (intro conjI allI impI)
    show "hash_ok (ag_pending st')" using inv U by (simp add: st' agent_inv_def hash_ok_def)
    show "'''' \<notin> snd ` set (ag_devices st')" using inv by (simp add: st' agent_inv_def)
    fix k p' assume "hash_value (ag_pending st') k = Some p'"
    then obtain p where "hash_value (ag_pending st) k = Some p"
        "ar_request (ap_request p') = ar_request (ap_request p)"
        "ar_device (ap_request p') = ar_device (ap_request p)"
      using U by (auto simp: st')
    then show "ar_request (ap_request p') = k" "k \<in> set (ag_timers st')"
      "ar_device (ap_request p') \<in> snd ` set (ag_devices st')"
      using inv by (simp_all add: st' agent_inv_def)
  qed
  moreover have "ar_request r \<in># agent_keys st"
  proof -
    obtain k p where "(k, p) \<in> set (ag_pending st)" "ar_request r = ar_request (ap_request p)" using U by blast
    moreover have "ar_request (ap_request p) = k"
      using calculation(1) inv hash_in_set_iff [of "ag_pending st" k p] by (simp add: agent_inv_def)
    ultimately have "ar_request r \<in> fst ` set (ag_pending st)" by (metis fst_conv imageI)
    then show ?thesis by (simp add: agent_keys_def)
  qed
  ultimately show ?thesis using keys st' by simp
qed


text \<open>What a step adds to the accounts: the identifier it may open, and the call it may keep waiting.\<close>

definition agent_fresh :: "agent_event list \<Rightarrow> string list" where
  "agent_fresh evs = concat (map (\<lambda>ev. case ev of AgCall _ _ _ fresh \<Rightarrow> [fresh] | _ \<Rightarrow> []) evs)"

definition agent_serials :: "agent_event list \<Rightarrow> nat list" where
  "agent_serials evs = concat (map (\<lambda>ev. case ev of AgCall (Some (m, _)) _ _ _ \<Rightarrow> [m] | _ \<Rightarrow> []) evs)"

definition agent_event_ok :: "agent_event \<Rightarrow> bool" where
  "agent_event_ok ev = (case ev of AgSetDevices devices \<Rightarrow> '''' \<notin> snd ` set devices | _ \<Rightarrow> True)"

text \<open>The account of one step: what was open is canceled or still open, except for the new identifiers
  \<open>ids\<close>, and likewise for the replies that are owed.\<close>

definition agent_account :: "string list \<Rightarrow> nat list \<Rightarrow> agent_state \<Rightarrow> agent_state \<times> agent_output list \<Rightarrow> bool" where
  "agent_account ids serials st r \<longleftrightarrow> agent_inv (fst r) \<and>
     mset (agent_canceled (snd r)) + agent_keys (fst r) \<subseteq># agent_keys st + mset ids \<and>
     agent_keys st \<subseteq># mset (agent_canceled (snd r)) + agent_keys (fst r) \<and>
     mset (agent_replied (snd r)) + agent_waiting (fst r) \<subseteq># agent_waiting st + mset serials \<and>
     (\<forall>q. AgRequested q \<in> set (snd r) \<longrightarrow> ar_request q \<in># agent_keys (fst r))"

lemma respond_not_requested [simp]: "AgRequested q \<notin> set (snd (agent_respond rid accept input st))"
  by (auto simp: agent_respond_def Let_def split: option.split)

lemma refuse_not_requested [simp]: "AgRequested q \<notin> set (snd (agent_refuse rids st))"
  by (induction rids arbitrary: st) (simp_all add: split_beta Let_def)

lemma agent_account_refuse: "agent_inv st \<Longrightarrow> agent_account [] [] st (agent_refuse rids st)"
  using agent_refuse_counts [of st rids] by (simp add: agent_account_def)

lemma agent_account_same: "agent_inv st \<Longrightarrow> agent_account [] [] st (st, [])"
  by (simp add: agent_account_def)

lemma agent_account_mono: "agent_account [] [] st r \<Longrightarrow> agent_account ids serials st r"
  unfolding agent_account_def
  by (metis (no_types, lifting) add.right_neutral mset.simps(1) mset_subset_eq_add_left subset_mset.order_trans)

lemma agent_account_request:
  assumes inv: "agent_inv st" and new: "hash_value (ag_pending st) fresh = None"
  shows "agent_account [fresh] (case caller of Some (m, _) \<Rightarrow> [m] | None \<Rightarrow> []) st
    (agent_request caller path resolved kind code uuid entered delayed fresh st)"
proof (cases "fst (agent_authorized caller st)")
  case False
  then show ?thesis
    using inv by (auto simp: agent_request_def agent_authorized_def agent_account_def split: option.split)
next
  case True
  then obtain m s where caller: "caller = Some (m, s)" and auth: "agent_authorized caller st = (True, [])"
    by (cases caller) (auto simp: agent_authorized_def split: if_splits)
  define st1 where "st1 = (if agent_device path st = '''' \<and> resolved \<noteq> ''''
    then st\<lparr>ag_devices := hash_insert path resolved (ag_devices st)\<rparr> else st)"
  define dev where "dev = (if agent_device path st = '''' then resolved else agent_device path st)"
  have eq: "agent_request caller path resolved kind code uuid entered delayed fresh st =
      (if dev = '''' then (st1, [AgReject m ''Unknown device''])
       else agent_open m dev kind code uuid entered delayed fresh st1)"
    using auth caller by (simp add: agent_request_def Let_def st1_def dev_def)
  have vals: "agent_device path st = '''' \<Longrightarrow> hash_value (ag_devices st) path = None"
    using inv map_of_SomeD [of "ag_devices st" path "''''"]
    by (force simp: agent_inv_def agent_device_def split: option.splits)
  have dev_mem: "dev \<in> snd ` set (ag_devices st1)" if "dev \<noteq> ''''"
  proof (cases "agent_device path st = ''''")
    case True
    then have "st1 = st\<lparr>ag_devices := hash_insert path resolved (ag_devices st)\<rparr>" "dev = resolved"
      using that by (simp_all add: st1_def dev_def)
    then show ?thesis using hash_insert_new [OF vals [OF True]] by simp
  next
    case False
    then have "hash_value (ag_devices st) path = Some dev" "st1 = st"
      by (simp_all add: st1_def dev_def agent_device_def split: option.splits)
    then show ?thesis using map_of_SomeD by force
  qed
  have inv1: "agent_inv st1"
    using inv vals by (auto simp: st1_def agent_inv_def hash_insert_new)
  have same: "agent_keys st1 = agent_keys st" "agent_waiting st1 = agent_waiting st" "ag_pending st1 = ag_pending st"
    by (simp_all add: st1_def agent_keys_def agent_waiting_def)
  show ?thesis
  proof (cases "dev = ''''")
    case True
    then show ?thesis unfolding eq using inv1 same caller by (simp add: agent_account_def)
  next
    case False
    obtain st' out where opened: "agent_open m dev kind code uuid entered delayed fresh st1 = (st', out)" by fastforce
    note F = agent_open_facts [OF inv1 _ dev_mem [OF False] opened]
    show ?thesis unfolding eq using False F new same caller opened by (simp add: agent_account_def)
  qed
qed

lemma agent_account_step:
  assumes inv: "agent_inv st" and ok: "agent_event_ok ev"
    and new: "\<And>caller meth resolved fresh. ev = AgCall caller meth resolved fresh \<Longrightarrow>
      hash_value (ag_pending st) fresh = None"
  shows "agent_account (agent_fresh [ev]) (agent_serials [ev]) st (agent_step ev st)"
proof (cases ev)
  case (AgSetOwner owner)
  let ?r = "agent_clear st"
  have acc: "agent_account [] [] st ?r" unfolding agent_clear_def by (rule agent_account_refuse [OF inv])
  have set: "agent_set_owner owner st = ((fst ?r)\<lparr>ag_owner := owner\<rparr>, snd ?r)"
    by (simp add: agent_set_owner_def split_beta Let_def)
  show ?thesis
    using acc unfolding AgSetOwner agent_step.simps set
    by (simp add: agent_account_def agent_inv_def agent_keys_def agent_waiting_def agent_fresh_def agent_serials_def)
next
  case (AgSetDevices devices)
  let ?gone = "map (\<lambda>(_, p). ar_request (ap_request p))
    (filter (\<lambda>(_, p). \<not> List.member (map snd devices) (ar_device (ap_request p))) (ag_pending st))"
  let ?r = "agent_refuse ?gone st"
  have R1: "agent_respond rid False '''' (s\<lparr>ag_devices := devices\<rparr>) =
      ((fst (agent_respond rid False '''' s))\<lparr>ag_devices := devices\<rparr>, snd (agent_respond rid False '''' s))"
    for rid s
    by (auto simp: Let_def agent_respond_def split: option.split)
  have R: "agent_refuse ids (s\<lparr>ag_devices := devices\<rparr>) = ((fst (agent_refuse ids s))\<lparr>ag_devices := devices\<rparr>,
      snd (agent_refuse ids s))" for ids s
    by (induction ids arbitrary: s) (simp_all add: split_beta Let_def R1)
  note all = agent_refuse_counts [OF inv, of ?gone]
  have F: "agent_inv (fst ?r)" "ag_timers (fst ?r) = ag_timers st"
    and Fv: "hash_value (ag_pending (fst ?r)) k = (if k \<in> set ?gone then None else hash_value (ag_pending st) k)" for k
    using all by blast+
  have "agent_inv ((fst ?r)\<lparr>ag_devices := devices\<rparr>)"
    unfolding agent_inv_def
  proof (intro conjI allI impI)
    show "hash_ok (ag_pending ((fst ?r)\<lparr>ag_devices := devices\<rparr>))" using agent_invD(1) [OF F(1)] by simp
    show "'''' \<notin> snd ` set (ag_devices ((fst ?r)\<lparr>ag_devices := devices\<rparr>))"
      using ok AgSetDevices by (simp add: agent_event_ok_def)
    fix k p assume "hash_value (ag_pending ((fst ?r)\<lparr>ag_devices := devices\<rparr>)) k = Some p"
    then have "hash_value (ag_pending (fst ?r)) k = Some p" by simp
    then have kp: "k \<notin> set ?gone" "hash_value (ag_pending st) k = Some p"
      unfolding Fv by (auto split: if_splits)
    then show "ar_request (ap_request p) = k" "k \<in> set (ag_timers ((fst ?r)\<lparr>ag_devices := devices\<rparr>))"
      using agent_invD(3,4) [OF inv kp(2)] F(2) by simp_all
    then show "ar_device (ap_request p) \<in> snd ` set (ag_devices ((fst ?r)\<lparr>ag_devices := devices\<rparr>))"
      using kp map_of_SomeD [OF kp(2)] by force
  qed
  then show ?thesis
    using agent_account_refuse [OF inv, of ?gone] unfolding AgSetDevices agent_step.simps agent_set_devices_def R
    by (simp add: agent_account_def agent_keys_def agent_waiting_def agent_fresh_def agent_serials_def)
next
  case (AgCall caller meth resolved fresh)
  have ids: "agent_fresh [ev] = [fresh]" "agent_serials [ev] = (case caller of Some (m, _) \<Rightarrow> [m] | None \<Rightarrow> [])"
    using AgCall by (simp_all add: agent_fresh_def agent_serials_def split: option.split)
  have clear: "agent_account [fresh] (case caller of Some (m, _) \<Rightarrow> [m] | None \<Rightarrow> []) st
      (case agent_authorized caller st of (True, _) \<Rightarrow> agent_clear st | (False, out) \<Rightarrow> (st, out))"
  proof (cases "fst (agent_authorized caller st)")
    case True
    then have "(case agent_authorized caller st of (True, _) \<Rightarrow> agent_clear st | (False, out) \<Rightarrow> (st, out)) =
        agent_refuse (hash_keys (ag_pending st)) st"
      by (cases "agent_authorized caller st") (simp add: agent_clear_def)
    then show ?thesis using agent_account_mono [OF agent_account_refuse [OF inv]] by simp
  next
    case False
    then show ?thesis
      using inv by (auto simp: agent_authorized_def agent_account_def split: option.split)
  qed
  show ?thesis
    unfolding ids unfolding AgCall
    using clear agent_account_request [OF inv new [OF AgCall]] by (cases meth) simp_all
next
  case (AgRespond rid accept input)
  then show ?thesis
    using agent_respond_counts [OF inv, of rid accept input]
    by (simp add: agent_account_def agent_fresh_def agent_serials_def)
next
  case (AgTimeout i)
  show ?thesis
  proof (cases "i < length (ag_timers st)")
    case True
    let ?rid = "ag_timers st ! i"
    let ?st = "st\<lparr>ag_timers := remove_row i (ag_timers st)\<rparr>"
    have R: "agent_respond ?rid False '''' ?st =
        ((fst (agent_respond ?rid False '''' st))\<lparr>ag_timers := remove_row i (ag_timers st)\<rparr>,
         snd (agent_respond ?rid False '''' st))"
      by (auto simp: agent_respond_def Let_def split: option.split)
    note F = agent_respond_counts [OF inv, of ?rid False "''''"]
    have keep: "k \<in> set (remove_row i (ag_timers st))" if "k \<in> set (ag_timers st)" "k \<noteq> ?rid" for k
      using that set_remove_row_insert [OF True] by blast
    have "agent_inv ((fst (agent_respond ?rid False '''' st))\<lparr>ag_timers := remove_row i (ag_timers st)\<rparr>)"
      using F(3) inv keep by (auto simp: agent_inv_def agent_respond_false split: if_splits)
    then show ?thesis
      using F True R AgTimeout
      by (simp add: agent_timeout_def agent_account_def agent_keys_def agent_waiting_def agent_fresh_def agent_serials_def)
  next
    case False
    then show ?thesis using AgTimeout inv
      by (simp add: agent_timeout_def agent_account_same agent_fresh_def agent_serials_def)
  qed
next
  case AgClear
  then show ?thesis using agent_account_refuse [OF inv]
    by (simp add: agent_clear_def agent_fresh_def agent_serials_def)
qed


fun agent_run :: "agent_event list \<Rightarrow> agent_state \<Rightarrow> agent_state \<times> agent_output list" where
  "agent_run [] st = (st, [])"
| "agent_run (ev # evs) st =
     (let (st', out) = agent_step ev st; (st'', out') = agent_run evs st' in (st'', out @ out'))"

lemma agent_run_snoc:
  "agent_run (evs @ [ev]) st = (fst (agent_step ev (fst (agent_run evs st))),
     snd (agent_run evs st) @ snd (agent_step ev (fst (agent_run evs st))))"
  by (induction evs arbitrary: st) (simp_all add: split_beta Let_def)

lemma agent_run_facts:
  assumes "list_all agent_event_ok evs" and "distinct (agent_fresh evs)"
  shows "agent_inv (fst (agent_run evs agent_init)) \<and>
    mset (agent_canceled (snd (agent_run evs agent_init))) + agent_keys (fst (agent_run evs agent_init)) \<subseteq>#
      mset (agent_fresh evs) \<and>
    mset (agent_replied (snd (agent_run evs agent_init))) + agent_waiting (fst (agent_run evs agent_init)) \<subseteq>#
      mset (agent_serials evs) \<and>
    (\<forall>q. AgRequested q \<in> set (snd (agent_run evs agent_init)) \<longrightarrow>
       ar_request q \<in># mset (agent_canceled (snd (agent_run evs agent_init))) + agent_keys (fst (agent_run evs agent_init)))"
  using assms
proof (induction evs rule: rev_induct)
  case Nil
  then show ?case by (simp add: agent_inv_def agent_init_def agent_keys_def agent_waiting_def)
next
  case (snoc ev evs)
  let ?st = "fst (agent_run evs agent_init)" and ?out = "snd (agent_run evs agent_init)"
  have app: "agent_fresh (evs @ [ev]) = agent_fresh evs @ agent_fresh [ev]"
    "agent_serials (evs @ [ev]) = agent_serials evs @ agent_serials [ev]"
    by (simp_all add: agent_fresh_def agent_serials_def)
  have ok: "list_all agent_event_ok evs" "agent_event_ok ev" "distinct (agent_fresh evs)"
    using snoc.prems by (auto simp: app)
  note IH = snoc.IH [OF ok(1,3)]
  have "hash_value (ag_pending ?st) fresh = None" if "ev = AgCall caller meth resolved fresh"
    for caller meth resolved fresh
  proof -
    have "fresh \<notin> set (agent_fresh evs)" using snoc.prems(2) that by (simp add: app) (simp add: agent_fresh_def)
    then have "fresh \<notin># agent_keys ?st" using IH by (metis mset_subset_eqD set_mset_mset union_iff)
    then show ?thesis by (auto simp: agent_keys_def map_of_eq_None_iff)
  qed
  then have acc: "agent_account (agent_fresh [ev]) (agent_serials [ev]) ?st (agent_step ev ?st)"
    by (intro agent_account_step [OF conjunct1 [OF IH] ok(2)])
  let ?st' = "fst (agent_step ev ?st)" and ?out' = "snd (agent_step ev ?st)"
  have "mset (agent_canceled ?out) + (mset (agent_canceled ?out') + agent_keys ?st') \<subseteq>#
      mset (agent_fresh evs) + mset (agent_fresh [ev])"
  proof -
    have "mset (agent_canceled ?out) + (mset (agent_canceled ?out') + agent_keys ?st') \<subseteq>#
        mset (agent_canceled ?out) + (agent_keys ?st + mset (agent_fresh [ev]))"
      using acc by (simp add: agent_account_def)
    also have "\<dots> \<subseteq># mset (agent_fresh evs) + mset (agent_fresh [ev])"
      using IH by (simp flip: add.assoc)
    finally show ?thesis .
  qed
  moreover have "mset (agent_replied ?out) + (mset (agent_replied ?out') + agent_waiting ?st') \<subseteq>#
      mset (agent_serials evs) + mset (agent_serials [ev])"
  proof -
    have "mset (agent_replied ?out) + (mset (agent_replied ?out') + agent_waiting ?st') \<subseteq>#
        mset (agent_replied ?out) + (agent_waiting ?st + mset (agent_serials [ev]))"
      using acc by (simp add: agent_account_def)
    also have "\<dots> \<subseteq># mset (agent_serials evs) + mset (agent_serials [ev])"
      using IH by (simp flip: add.assoc)
    finally show ?thesis .
  qed
  moreover have "ar_request q \<in># mset (agent_canceled (?out @ ?out')) + agent_keys ?st'"
    if "AgRequested q \<in> set (?out @ ?out')" for q
  proof (cases "AgRequested q \<in> set ?out'")
    case True
    then show ?thesis using acc by (simp add: agent_account_def)
  next
    case False
    then have "ar_request q \<in># mset (agent_canceled ?out) + agent_keys ?st" using that IH by simp
    moreover have "agent_keys ?st \<subseteq># mset (agent_canceled ?out') + agent_keys ?st'"
      using acc by (simp add: agent_account_def)
    ultimately show ?thesis by (auto dest: mset_subset_eqD)
  qed
  ultimately show ?case
    unfolding agent_run_snoc app using acc by (simp add: agent_account_def add.assoc)
qed

text \<open>C17. Every interaction the application is asked about ends at most once and is never forgotten: it
  has been canceled (which also announces an answer) or it is still open with its timeout running; and
  no call of BlueZ is replied to twice.\<close>

theorem agent_interactions:
  assumes "list_all agent_event_ok evs" and "distinct (agent_fresh evs)" and "distinct (agent_serials evs)"
    and "agent_run evs agent_init = (st, out)"
  shows "distinct (agent_canceled out @ hash_keys (ag_pending st)) \<and> distinct (agent_replied out) \<and>
    (\<forall>q. AgRequested q \<in> set out \<longrightarrow> ar_request q \<in> set (agent_canceled out @ hash_keys (ag_pending st))) \<and>
    set (hash_keys (ag_pending st)) \<subseteq> set (ag_timers st)"
proof -
  note F = agent_run_facts [OF assms(1,2), unfolded assms(4) fst_conv snd_conv]
  have keys: "agent_keys st = mset (hash_keys (ag_pending st))" by (simp add: agent_keys_def hash_keys_def)

  have "distinct (agent_canceled out @ hash_keys (ag_pending st))"
    by (rule distinct_submset [OF _ assms(2)]) (use F keys in simp)
  moreover have "distinct (agent_replied out)"
    by (rule distinct_submset [OF _ assms(3)])
      (rule subset_mset.order_trans [OF mset_subset_eq_add_left], use F in blast)
  moreover have "set (hash_keys (ag_pending st)) \<subseteq> set (ag_timers st)"
  proof
    fix k assume "k \<in> set (hash_keys (ag_pending st))"
    then have "hash_value (ag_pending st) k \<noteq> None" by (simp add: hash_keys_def map_of_eq_None_iff)
    then show "k \<in> set (ag_timers st)" using F agent_invD(4) by blast
  qed
  ultimately show ?thesis using F keys by auto
qed

definition demo_agent_events :: "agent_event list" where
  "demo_agent_events = [AgSetOwner '':1'', AgCall (Some (7, '':1'')) (RequestPasskey ''/d'') ''dev'' ''r1'',
     AgCall (Some (8, '':1'')) (RequestConfirmation ''/d'' 42) ''dev'' ''r2'', AgRespond ''r1'' True ''42'']"

lemma agent_interactions_witness:
  "let (st, out) = agent_run demo_agent_events agent_init in
    agent_canceled out = [''r1''] \<and> hash_keys (ag_pending st) = [''r2''] \<and>
    distinct (agent_canceled out @ hash_keys (ag_pending st)) \<and> ''r2'' \<in> set (ag_timers st)"
proof -
  let ?r = "agent_run demo_agent_events agent_init"
  have "list_all agent_event_ok demo_agent_events" "distinct (agent_fresh demo_agent_events)"
    "distinct (agent_serials demo_agent_events)"
    by (simp_all add: demo_agent_events_def agent_event_ok_def agent_fresh_def agent_serials_def)
  from agent_interactions [OF this surjective_pairing]
  have "distinct (agent_canceled (snd ?r) @ hash_keys (ag_pending (fst ?r)))"
    "set (hash_keys (ag_pending (fst ?r))) \<subseteq> set (ag_timers (fst ?r))" by blast+
  moreover have "agent_canceled (snd ?r) = [''r1'']" "hash_keys (ag_pending (fst ?r)) = [''r2'']" by code_simp+
  ultimately show ?thesis by (simp add: split_beta)
qed

end
