(* ===== verification/Bluetooth_Runs.thy ===== *)
theory Bluetooth_Runs
  imports Bluetooth_Controller
begin

text \<open>Runs of \<open>BluetoothController\<close> against an arbitrary application and backend, and what they keep.\<close>

fun bt_run :: "'v bt_event list \<Rightarrow> 'v bt_state \<Rightarrow> 'v bt_state \<times> 'v bt_output list" where
  "bt_run [] st = (st, [])"
| "bt_run (ev # evs) st =
     (let (st', out) = bt_step ev st; (st'', out') = bt_run evs st' in (st'', out @ out'))"

definition bt_begun :: "'v bt_event list \<Rightarrow> string list" where
  "bt_begun evs = concat (map (\<lambda>ev. case ev of BtExecute _ _ _ rid \<Rightarrow> [rid] | _ \<Rightarrow> []) evs)"

fun bt_finished :: "'v bt_output list \<Rightarrow> string list" where
  "bt_finished [] = []"
| "bt_finished (BtOperationFinished r # out) = br_request r # bt_finished out"
| "bt_finished (_ # out) = bt_finished out"

lemma bt_finished_append [simp]: "bt_finished (xs @ ys) = bt_finished xs @ bt_finished ys"
  by (induction xs rule: bt_finished.induct) auto

lemma bt_run_append:
  "bt_run (xs @ ys) st = (fst (bt_run ys (fst (bt_run xs st))), snd (bt_run xs st) @ snd (bt_run ys (fst (bt_run xs st))))"
  by (induction xs arbitrary: st) (simp_all add: split_beta Let_def)

lemma bt_begun_append [simp]: "bt_begun (xs @ ys) = bt_begun xs @ bt_begun ys"
  by (simp add: bt_begun_def)

section \<open>The invariant\<close>

abbreviation bt_value :: "'v bt_state \<Rightarrow> string \<Rightarrow> bt_result option" where
  "bt_value st k \<equiv> hash_value (bc_pending st) k"

definition bt_active :: "bt_result \<Rightarrow> bool" where
  "bt_active r \<longleftrightarrow> br_error_name r = ''''"

definition bt_keys_ok :: "'v bt_state \<Rightarrow> bool" where
  "bt_keys_ok st \<longleftrightarrow> hash_ok (bc_pending st) \<and> (\<forall>k r. bt_value st k = Some r \<longrightarrow> br_request r = k)"

definition bt_targets_ok :: "'v bt_state \<Rightarrow> bool" where
  "bt_targets_ok st \<longleftrightarrow> (\<forall>k r. bt_value st k = Some r \<longrightarrow> bt_active r \<longrightarrow> br_operation r \<noteq> Forget \<longrightarrow>
     bt_known st (br_target r))"

definition bt_exclusive :: "'v bt_state \<Rightarrow> bool" where
  "bt_exclusive st \<longleftrightarrow> (\<forall>k r k' r'. bt_value st k = Some r \<longrightarrow> bt_value st k' = Some r' \<longrightarrow>
     bt_active r \<longrightarrow> bt_active r' \<longrightarrow> br_operation r \<noteq> CancelPairing \<longrightarrow>
     br_operation r' \<noteq> CancelPairing \<longrightarrow> br_target r = br_target r' \<longrightarrow> k = k')"

definition bt_queued_ok :: "'v bt_state \<Rightarrow> bool" where
  "bt_queued_ok st \<longleftrightarrow> (\<forall>k r. bt_value st k = Some r \<longrightarrow> \<not> bt_active r \<longrightarrow> (\<exists>v. (r, v) \<in> set (bc_deferred st)))"

definition bt_models_ok :: "'v bt_state \<Rightarrow> bool" where
  "bt_models_ok st \<longleftrightarrow> (\<not> bc_available st \<longrightarrow> bc_adapters st = [] \<and> bc_devices st = [])"

definition bt_inv :: "'v bt_state \<Rightarrow> bool" where
  "bt_inv st \<longleftrightarrow> bt_keys_ok st \<and> bt_targets_ok st \<and> bt_exclusive st \<and> bt_queued_ok st \<and> bt_models_ok st"

lemmas bt_inv_defs = bt_inv_def bt_keys_ok_def bt_targets_ok_def bt_exclusive_def bt_queued_ok_def
  bt_models_ok_def bt_active_def

lemma bt_inv_init: "bt_inv bt_init"
  by (simp add: bt_inv_defs bt_init_def)

lemma bt_known_cong [simp]:
  "bt_known (st\<lparr>bc_pending := p\<rparr>) t = bt_known st t" "bt_known (st\<lparr>bc_deferred := d\<rparr>) t = bt_known st t"
  by (simp_all add: bt_known_def)

lemma bt_finish_cases:
  obtains (gone) "\<not> hash_contains (bc_pending st) (br_request r)" "bt_finish r st = (st, [])"
    | (removed) "hash_contains (bc_pending st) (br_request r)"
        "bt_finish r st = (st\<lparr>bc_pending := hash_remove (br_request r) (bc_pending st)\<rparr>,
           [BtOperationStateChanged, BtOperationFinished r])"
  by (cases "hash_contains (bc_pending st) (br_request r)") (simp_all add: bt_finish_def)

lemma bt_inv_subset:
  assumes inv: "bt_inv st" and sub: "\<And>k r. bt_value st' k = Some r \<Longrightarrow> bt_value st k = Some r"
    and ok: "hash_ok (bc_pending st')" and queue: "set (bc_deferred st) \<subseteq> set (bc_deferred st')"
    and models: "bc_adapters st' = bc_adapters st" "bc_devices st' = bc_devices st" "bc_available st' = bc_available st"
  shows "bt_inv st'"
proof -
  have known: "bt_known st' t = bt_known st t" for t using models by (simp add: bt_known_def)
  have "bt_keys_ok st'" using inv sub ok unfolding bt_inv_def bt_keys_ok_def by blast
  moreover have "bt_targets_ok st'" using inv sub known unfolding bt_inv_def bt_targets_ok_def by blast
  moreover have "bt_exclusive st'" using inv sub unfolding bt_inv_def bt_exclusive_def by blast
  moreover have "bt_queued_ok st'" using inv sub queue unfolding bt_inv_def bt_queued_ok_def by blast
  moreover have "bt_models_ok st'" using inv models unfolding bt_inv_def bt_models_ok_def by simp
  ultimately show ?thesis unfolding bt_inv_def by blast
qed

lemma bt_inv_remove:
  assumes "bt_inv st"
  shows "bt_inv (st\<lparr>bc_pending := hash_remove k (bc_pending st)\<rparr>)"
proof -
  have "hash_ok (bc_pending st)" using assms by (simp add: bt_inv_def bt_keys_ok_def)
  then show ?thesis by (intro bt_inv_subset [OF assms]) (auto split: if_splits)
qed

lemma bt_inv_finish: "bt_inv st \<Longrightarrow> bt_inv (fst (bt_finish r st))"
  by (cases rule: bt_finish_cases [of st r]) (simp_all add: bt_inv_remove)

text \<open>The steps keep the accounting of begun and completed requests.\<close>

definition bt_count :: "'v bt_state \<times> 'v bt_output list \<Rightarrow> string multiset" where
  "bt_count r = mset (bt_finished (snd r)) + image_mset fst (mset (bc_pending (fst r)))"

lemma bt_finish_count:
  assumes "hash_ok (bc_pending st)"
  shows "bt_count (bt_finish r st) = image_mset fst (mset (bc_pending st))"
  by (cases rule: bt_finish_cases [of st r])
    (simp_all add: bt_count_def keys_remove [OF assms])

lemma bt_finish_lost_facts:
  assumes "bt_keys_ok st"
  shows "bt_keys_ok (fst (bt_finish_lost a rs st)) \<and>
    bc_adapters (fst (bt_finish_lost a rs st)) = bc_adapters st \<and>
    bc_devices (fst (bt_finish_lost a rs st)) = bc_devices st \<and>
    bc_available (fst (bt_finish_lost a rs st)) = bc_available st \<and>
    bc_deferred (fst (bt_finish_lost a rs st)) = bc_deferred st \<and>
    bt_count (bt_finish_lost a rs st) = image_mset fst (mset (bc_pending st)) \<and>
    (\<forall>k. bt_value (fst (bt_finish_lost a rs st)) k =
       (if \<exists>r \<in> set rs. bt_lost a st r \<and> br_request r = k then None else bt_value st k))"
  using assms
proof (induction rs arbitrary: st)
  case Nil
  then show ?case by (simp add: bt_count_def)
next
  case (Cons r rs)
  let ?d = "r\<lparr>br_error_name := ''org.holonight.Bluetooth.Disappeared'',
      br_error_message := ''Bluetooth target is no longer available''\<rparr>"
  have lost: "bt_lost a (fst (bt_finish ?d st)) r' = bt_lost a st r'" for r'
    by (cases rule: bt_finish_cases [of st ?d]) (simp_all add: bt_lost_def)
  have keys: "bt_keys_ok (fst (bt_finish ?d st))"
    using Cons.prems by (cases rule: bt_finish_cases [of st ?d]) (auto simp: bt_keys_ok_def)
  have vals: "bt_value (fst (bt_finish ?d st)) k = (if k = br_request r then None else bt_value st k)" for k
    by (cases rule: bt_finish_cases [of st ?d]) auto
  have count: "bt_count (bt_finish ?d st) = image_mset fst (mset (bc_pending st))"
    using bt_finish_count Cons.prems by (auto simp: bt_keys_ok_def)
  have same: "bc_adapters (fst (bt_finish ?d st)) = bc_adapters st" "bc_devices (fst (bt_finish ?d st)) = bc_devices st"
    "bc_available (fst (bt_finish ?d st)) = bc_available st" "bc_deferred (fst (bt_finish ?d st)) = bc_deferred st"
    by (simp_all add: bt_finish_def)
  show ?case
  proof (cases "bt_lost a st r")
    case True
    have "bt_count (bt_finish_lost a (r # rs) st) =
        mset (bt_finished (snd (bt_finish ?d st))) + bt_count (bt_finish_lost a rs (fst (bt_finish ?d st)))"
      using True by (simp add: bt_count_def split_beta Let_def)
    also have "\<dots> = bt_count (bt_finish ?d st)"
      using Cons.IH [OF keys] by (simp add: bt_count_def)
    finally have total: "bt_count (bt_finish_lost a (r # rs) st) = image_mset fst (mset (bc_pending st))"
      using count by simp
    have step: "fst (bt_finish_lost a (r # rs) st) = fst (bt_finish_lost a rs (fst (bt_finish ?d st)))"
      using True by (simp add: split_beta Let_def)
    show ?thesis
      unfolding step total using True Cons.IH [OF keys] same vals lost by auto
  next
    case False
    then have "fst (bt_finish_lost a (r # rs) st) = fst (bt_finish_lost a rs st)"
      "bt_count (bt_finish_lost a (r # rs) st) = bt_count (bt_finish_lost a rs st)"
      by (simp_all add: split_beta Let_def bt_count_def)
    then show ?thesis
      using False Cons.IH [OF Cons.prems] by auto
  qed
qed

lemma bt_finish_lost_value:
  "bt_keys_ok st \<Longrightarrow> bt_value (fst (bt_finish_lost a rs st)) k =
     (if \<exists>r \<in> set rs. bt_lost a st r \<and> br_request r = k then None else bt_value st k)"
  using bt_finish_lost_facts by blast

lemma bt_pending_mem:
  assumes "bt_keys_ok st" and "bt_value st k = Some r"
  shows "r \<in> snd ` set (bc_pending st)" and "br_request r = k"
  using assms map_of_SomeD [of "bc_pending st" k r] by (force simp: bt_keys_ok_def)+

text \<open>The models and the pending requests after a snapshot.\<close>

definition bt_take :: "bt_adapter list \<Rightarrow> bt_device list \<Rightarrow> bool \<Rightarrow> 'v bt_state \<Rightarrow> 'v bt_state" where
  "bt_take adapters devices available st = st\<lparr>bc_adapters := (if available then adapters else []),
     bc_devices := (if available then devices else []), bc_available := available\<rparr>"

lemma bt_snapshot_eq:
  "fst (bt_snapshot adapters devices a st) =
     fst (bt_finish_lost a (map snd (bc_pending st)) (bt_take adapters devices a st))"
  "bt_finished (snd (bt_snapshot adapters devices a st)) =
     bt_finished (snd (bt_finish_lost a (map snd (bc_pending st)) (bt_take adapters devices a st)))"
  by (simp_all add: bt_snapshot_def bt_take_def adapter_model_apply_def device_model_apply_def split_beta Let_def)

lemma bt_snapshot_value:
  assumes "bt_keys_ok st" and "bt_value (fst (bt_snapshot adapters devices a st)) k = Some r"
  shows "bt_value st k = Some r" and "\<not> bt_lost a (fst (bt_snapshot adapters devices a st)) r"
proof -
  let ?st = "bt_take adapters devices a st"
  have keys: "bt_keys_ok ?st" and pend: "bc_pending ?st = bc_pending st"
    using assms(1) by (simp_all add: bt_keys_ok_def bt_take_def)
  note F = bt_finish_lost_facts [OF keys, of a "map snd (bc_pending st)"]
  have "bt_value (fst (bt_snapshot adapters devices a st)) k =
      (if \<exists>r \<in> set (map snd (bc_pending st)). bt_lost a ?st r \<and> br_request r = k then None else bt_value st k)"
    unfolding bt_snapshot_eq bt_finish_lost_value [OF keys] pend by (rule refl)
  with assms(2) have v: "bt_value st k = Some r"
    and no: "\<not> (\<exists>r \<in> set (map snd (bc_pending st)). bt_lost a ?st r \<and> br_request r = k)"
    by (auto split: if_splits)
  then show "bt_value st k = Some r" by simp
  have "\<not> bt_lost a ?st r" using no bt_pending_mem [OF assms(1) v] by auto
  then show "\<not> bt_lost a (fst (bt_snapshot adapters devices a st)) r"
    using F unfolding bt_snapshot_eq by (simp add: bt_lost_def bt_known_def)
qed

lemma bt_inv_snapshot:
  assumes "bt_inv st"
  shows "bt_inv (fst (bt_snapshot adapters devices a st))"
proof -
  let ?st' = "fst (bt_snapshot adapters devices a st)"
  have keys: "bt_keys_ok st" using assms by (simp add: bt_inv_def)
  note val = bt_snapshot_value [OF keys, of adapters devices a]
  have "bt_keys_ok (bt_take adapters devices a st)" using keys by (simp add: bt_keys_ok_def bt_take_def)
  note F = bt_finish_lost_facts [OF this, of a "map snd (bc_pending st)", folded bt_snapshot_eq]
  have "bc_deferred ?st' = bc_deferred st" "bc_available ?st' = a"
    "bc_adapters ?st' = (if a then adapters else [])" "bc_devices ?st' = (if a then devices else [])"
    using F by (simp_all add: bt_take_def)
  note parts = this
  have "bt_targets_ok ?st'"
    unfolding bt_targets_ok_def
  proof (intro allI impI)
    fix k r assume "bt_value ?st' k = Some r" "br_operation r \<noteq> Forget"
    then show "bt_known ?st' (br_target r)" using val(2) by (auto simp: bt_lost_def)
  qed
  moreover have "bt_exclusive ?st'" using assms val(1) unfolding bt_inv_def bt_exclusive_def by blast
  moreover have "bt_queued_ok ?st'"
    using assms val(1) unfolding bt_inv_def bt_queued_ok_def parts by blast
  moreover have "bt_models_ok ?st'" unfolding bt_models_ok_def parts by simp
  ultimately show ?thesis using F unfolding bt_inv_def by blast
qed


lemma bt_inv_execute:
  assumes inv: "bt_inv st" and new: "bt_value st rid = None"
  shows "bt_inv (fst (bt_execute op target v rid st))"
proof -
  define result where "result = \<lparr>br_request = rid, br_target = target, br_operation = op,
    br_error_name = (if \<not> bc_available st \<or> \<not> bt_known st target then ''org.holonight.Bluetooth.Unavailable''
      else if bt_busy st target \<and> op \<noteq> CancelPairing then ''org.holonight.Bluetooth.Busy'' else ''''),
    br_error_message = ''''\<rparr>"
  have res: "br_request result = rid" "br_target result = target" "br_operation result = op"
      "bt_active result \<longleftrightarrow> bc_available st \<and> bt_known st target \<and> (bt_busy st target \<longrightarrow> op = CancelPairing)"
    and st': "fst (bt_execute op target v rid st) =
      st\<lparr>bc_pending := hash_insert rid result (bc_pending st), bc_deferred := bc_deferred st @ [(result, v)]\<rparr>"
    by (auto simp: bt_execute_def Let_def bt_active_def result_def)
  let ?st' = "fst (bt_execute op target v rid st)"
  have val: "bt_value ?st' k = (if k = rid then Some result else bt_value st k)" for k
    by (simp add: st')
  have known: "bt_known ?st' t = bt_known st t" for t by (simp add: st')
  have "bt_keys_ok ?st'"
    using inv res by (auto simp: bt_inv_def bt_keys_ok_def st')
  moreover have "bt_targets_ok ?st'"
    using inv res unfolding bt_inv_def bt_targets_ok_def val known by auto
  moreover have "bt_exclusive ?st'"
  proof -
    have idle: "br_target r \<noteq> target"
      if "bt_value st k = Some r" "bt_active r" "bt_active result" "op \<noteq> CancelPairing" for k r
      using that res(4) map_of_SomeD [OF that(1)] by (auto simp: bt_busy_def list_ex_iff bt_active_def)
    show ?thesis
      using inv res(2,3) idle unfolding bt_inv_def bt_exclusive_def val
      by (simp split: if_splits) (metis option.inject)
  qed
  moreover have "bt_queued_ok ?st'"
    using inv unfolding bt_inv_def bt_queued_ok_def val by (auto simp: st' split: if_splits)
  moreover have "bt_models_ok ?st'"
    using inv by (simp add: bt_inv_def bt_models_ok_def st')
  ultimately show ?thesis unfolding bt_inv_def by blast
qed

lemma bt_inv_timer:
  assumes inv: "bt_inv st"
  shows "bt_inv (fst (bt_timer st))"
proof (cases "bc_deferred st")
  case Nil
  then show ?thesis using inv by (simp add: bt_timer_def)
next
  case (Cons p rest)
  obtain result v where p: "p = (result, v)" by (cases p)
  have ok: "hash_ok (bc_pending st)" and keys: "bt_value st k = Some r \<Longrightarrow> br_request r = k" for k r
    using inv by (auto simp: bt_inv_def bt_keys_ok_def)
  let ?drop = "st\<lparr>bc_deferred := rest\<rparr>"
  let ?st' = "fst (bt_timer st)"
  have val: "bt_value ?st' k = Some r \<Longrightarrow> bt_value st k = Some r" for k r
    using Cons p by (auto simp: bt_timer_def Let_def bt_finish_def split: if_splits)
  have gone: "r \<noteq> result" if "bt_value ?st' k = Some r" "\<not> bt_active r" for k r
    using that Cons p keys [OF val [OF that(1)]]
    by (auto simp: bt_timer_def Let_def bt_finish_def bt_active_def split: if_splits)
  have same: "bc_deferred ?st' = rest" "bc_adapters ?st' = bc_adapters st" "bc_devices ?st' = bc_devices st"
    "bc_available ?st' = bc_available st" "hash_ok (bc_pending ?st')"
    using Cons p ok by (auto simp: bt_timer_def Let_def bt_finish_def)
  have known: "bt_known ?st' t = bt_known st t" for t using same by (simp add: bt_known_def)
  have "bt_keys_ok ?st'" using inv val same(5) unfolding bt_inv_def bt_keys_ok_def by blast
  moreover have "bt_targets_ok ?st'" using inv val known unfolding bt_inv_def bt_targets_ok_def by blast
  moreover have "bt_exclusive ?st'" using inv val unfolding bt_inv_def bt_exclusive_def by blast
  moreover have "bt_queued_ok ?st'"
    unfolding bt_queued_ok_def same
  proof (intro allI impI)
    fix k r assume r: "bt_value ?st' k = Some r" "\<not> bt_active r"
    obtain w where "(r, w) \<in> set (bc_deferred st)"
      using inv val [OF r(1)] r(2) unfolding bt_inv_def bt_queued_ok_def by blast
    then show "\<exists>w. (r, w) \<in> set rest" using gone [OF r] Cons p by auto
  qed
  moreover have "bt_models_ok ?st'" using inv same by (simp add: bt_inv_def bt_models_ok_def)
  ultimately show ?thesis unfolding bt_inv_def by blast
qed

lemma bt_step_count:
  assumes "bt_inv st" and "\<And>op t v rid. ev = BtExecute op t v rid \<Longrightarrow> bt_value st rid = None"
  shows "bt_count (bt_step ev st) = image_mset fst (mset (bc_pending st)) + mset (bt_begun [ev])"
proof -
  have ok: "hash_ok (bc_pending st)" and keys: "bt_keys_ok st"
    using assms(1) by (simp_all add: bt_inv_def bt_keys_ok_def)
  show ?thesis
  proof (cases ev)
    case (BtExecute op t v rid)
    then show ?thesis
      using assms(2) by (simp add: bt_count_def bt_execute_def Let_def bt_begun_def keys_insert)
  next
    case BtTimer
    then show ?thesis
      using bt_finish_count [of "st\<lparr>bc_deferred := r\<rparr>" for r] ok
      by (auto simp: bt_timer_def Let_def bt_begun_def bt_count_def split: list.split)
  next
    case (BtReply result)
    then show ?thesis using bt_finish_count [OF ok] by (simp add: bt_begun_def)
  next
    case (BtSnapshot adapters devices a)
    have "bt_keys_ok (bt_take adapters devices a st)" using keys by (simp add: bt_keys_ok_def bt_take_def)
    then have "bt_count (bt_finish_lost a (map snd (bc_pending st)) (bt_take adapters devices a st)) =
        image_mset fst (mset (bc_pending st))"
      using bt_finish_lost_facts [of "bt_take adapters devices a st" a] by (simp add: bt_take_def)
    then show ?thesis unfolding BtSnapshot bt_step.simps bt_count_def bt_snapshot_eq by (simp add: bt_begun_def)
  qed
qed

lemma bt_step_inv:
  assumes "bt_inv st" and "\<And>op t v rid. ev = BtExecute op t v rid \<Longrightarrow> bt_value st rid = None"
  shows "bt_inv (fst (bt_step ev st))"
  using assms by (cases ev) (auto intro: bt_inv_execute bt_inv_timer bt_inv_finish bt_inv_snapshot)

lemma bt_run_facts:
  "distinct (bt_begun evs) \<Longrightarrow> bt_inv (fst (bt_run evs bt_init)) \<and>
   mset (bt_begun evs) = mset (bt_finished (snd (bt_run evs bt_init))) +
     image_mset fst (mset (bc_pending (fst (bt_run evs bt_init))))"
proof (induction evs rule: rev_induct)
  case Nil
  then show ?case using bt_inv_init by (simp add: bt_begun_def bt_init_def)
next
  case (snoc ev evs)
  let ?st = "fst (bt_run evs bt_init)"
  have IH: "bt_inv ?st" "mset (bt_begun evs) = mset (bt_finished (snd (bt_run evs bt_init))) +
     image_mset fst (mset (bc_pending ?st))"
    using snoc by auto
  have fresh: "bt_value ?st rid = None" if "ev = BtExecute op t v rid" for op t v rid
  proof -
    have "rid \<notin> set (bt_begun evs)" using snoc.prems that by (simp add: bt_begun_def)
    then have "rid \<notin># image_mset fst (mset (bc_pending ?st))"
      using IH(2) by (metis set_mset_mset union_iff)
    then show ?thesis by (auto simp: map_of_eq_None_iff)
  qed
  have "bt_run (evs @ [ev]) bt_init = (fst (bt_step ev ?st), snd (bt_run evs bt_init) @ snd (bt_step ev ?st))"
    by (simp add: bt_run_append split_beta Let_def)
  then show ?case
    using bt_step_inv [OF IH(1) fresh] bt_step_count [OF IH(1) fresh] IH(2)
    by (simp add: bt_count_def ac_simps)
qed


section \<open>Properties\<close>

text \<open>C12. Every Bluetooth operation is completed exactly once or still pending, in every run in which
  request identifiers are not repeated.\<close>

theorem bt_exactly_once:
  assumes "distinct (bt_begun evs)"
  shows "mset (bt_begun evs) = mset (bt_finished (snd (bt_run evs bt_init))) +
    mset (hash_keys (bc_pending (fst (bt_run evs bt_init))))"
  using bt_run_facts [OF assms] by (simp add: hash_keys_def)

text \<open>Two operations under way never share a target, with CancelPairing as the only exception; and
  an operation other than Forget is under way only while its target is in one of the models.\<close>

theorem bt_exclusive_targets:
  assumes "distinct (bt_begun evs)"
    and "bt_value (fst (bt_run evs bt_init)) rid = Some r" and "br_error_name r = ''''"
    and "br_operation r \<noteq> Forget" and "br_operation r \<noteq> CancelPairing"
  shows "bt_known (fst (bt_run evs bt_init)) (br_target r) \<and>
    (\<forall>rid' r'. bt_value (fst (bt_run evs bt_init)) rid' = Some r' \<and> br_error_name r' = '''' \<and>
       br_operation r' \<noteq> CancelPairing \<and> br_target r' = br_target r \<longrightarrow> rid' = rid)"
proof -
  have inv: "bt_inv (fst (bt_run evs bt_init))" using bt_run_facts [OF assms(1)] by blast
  have "bt_known (fst (bt_run evs bt_init)) (br_target r)"
    using inv assms(2-4) unfolding bt_inv_def bt_targets_ok_def bt_active_def by blast
  moreover have "rid' = rid" if "bt_value (fst (bt_run evs bt_init)) rid' = Some r'" "br_error_name r' = ''''"
       "br_operation r' \<noteq> CancelPairing" "br_target r' = br_target r" for rid' r'
    using inv assms(2,3,5) that unfolding bt_inv_def bt_exclusive_def bt_active_def by metis
  ultimately show ?thesis by blast
qed

text \<open>Losing the Bluetooth service completes every pending operation: nothing is left pending, the
  models are empty, and exactly the pending requests are reported.\<close>

theorem bt_service_lost:
  assumes "distinct (bt_begun evs)"
    and "bt_step (BtSnapshot adapters devices False) (fst (bt_run evs bt_init)) = (st', out)"
  shows "bc_pending st' = [] \<and> bc_adapters st' = [] \<and> bc_devices st' = [] \<and>
    mset (bt_finished out) = mset (hash_keys (bc_pending (fst (bt_run evs bt_init))))"
proof -
  let ?st = "fst (bt_run evs bt_init)"
  have inv: "bt_inv ?st" using bt_run_facts [OF assms(1)] by blast
  then have keys: "bt_keys_ok ?st" by (simp add: bt_inv_def)
  have st': "st' = fst (bt_snapshot adapters devices False ?st)" using assms(2) by simp
  have inv': "bt_inv st'" unfolding st' by (rule bt_inv_snapshot [OF inv])
  have "bt_keys_ok (bt_take adapters devices False ?st)" using keys by (simp add: bt_keys_ok_def bt_take_def)
  from bt_finish_lost_facts [OF this, of False "map snd (bc_pending ?st)", folded bt_snapshot_eq]
  have empty: "bc_adapters st' = []" "bc_devices st' = []" unfolding st' by (simp_all add: bt_take_def)
  have "bt_value st' k = None" for k
  proof (rule ccontr)
    assume "bt_value st' k \<noteq> None"
    then obtain r where "bt_value st' k = Some r" by blast
    then have "\<not> bt_lost False st' r" using bt_snapshot_value(2) [OF keys] st' by blast
    then show False using empty
      by (simp add: bt_lost_def bt_known_def adapter_model_find_def device_model_find_def)
  qed
  then have none: "bc_pending st' = []" by (metis (no_types) list.set_intros(1) map_of_eq_None_iff neq_Nil_conv
        list.set_map imageI)
  have "bt_count (st', out) = image_mset fst (mset (bc_pending ?st))"
    using bt_step_count [OF inv, of "BtSnapshot adapters devices False"] assms(2) by (simp add: bt_begun_def)
  then show ?thesis using none empty by (simp add: bt_count_def hash_keys_def)
qed

section \<open>A concrete run\<close>

definition demo_device :: bt_device where
  "demo_device = \<lparr>dv_id = ''dev'', dv_adapter = ''ad'', dv_address = '''', dv_address_type = '''', dv_name = ''mouse'',
     dv_alias = ''mouse'', dv_icon = '''', dv_class = 0, dv_appearance = 0, dv_paired = False, dv_bonded = False,
     dv_trusted = False, dv_blocked = False, dv_connected = False, dv_rssi = None, dv_battery = None, dv_uuids = []\<rparr>"

definition demo_bt :: "bool bt_event list" where
  "demo_bt = [BtSnapshot [] [demo_device] True, BtExecute Connect ''dev'' False ''r1'', BtTimer,
     BtExecute PairDevice ''dev'' False ''r2'', BtTimer]"

lemma demo_bt_distinct: "distinct (bt_begun demo_bt)"
  by (simp add: demo_bt_def bt_begun_def)

lemma bt_exactly_once_witness:
  "bt_finished (snd (bt_run demo_bt bt_init)) = [''r2''] \<and>
   mset [''r1'', ''r2''] = mset (bt_finished (snd (bt_run demo_bt bt_init))) +
     mset (hash_keys (bc_pending (fst (bt_run demo_bt bt_init))))"
proof -
  have "bt_begun demo_bt = [''r1'', ''r2'']" "bt_finished (snd (bt_run demo_bt bt_init)) = [''r2'']" by code_simp+
  then show ?thesis using bt_exactly_once [OF demo_bt_distinct] by metis
qed

lemma bt_exclusive_targets_witness:
  "bt_known (fst (bt_run demo_bt bt_init)) ''dev''"
proof -
  let ?r = "the (bt_value (fst (bt_run demo_bt bt_init)) ''r1'')"
  have "bt_value (fst (bt_run demo_bt bt_init)) ''r1'' = Some ?r" "br_error_name ?r = ''''"
    "br_operation ?r \<noteq> Forget" "br_operation ?r \<noteq> CancelPairing" "br_target ?r = ''dev''" by code_simp+
  then show ?thesis using bt_exclusive_targets [OF demo_bt_distinct] by metis
qed

lemma bt_service_lost_witness:
  "mset (bt_finished (snd (bt_step (BtSnapshot [] [] False) (fst (bt_run demo_bt bt_init))))) = {#''r1''#}"
proof -
  have "hash_keys (bc_pending (fst (bt_run demo_bt bt_init))) = [''r1'']" by code_simp
  then show ?thesis using bt_service_lost [OF demo_bt_distinct surjective_pairing] by (metis mset_single_iff_right)
qed

end
