(* ===== verification/BlueZ_Backend.thy ===== *)
theory BlueZ_Backend
  imports BlueZ_Agent_Runs Bluetooth_Runs DBus_Values Refresh_Protocol
begin

text \<open>
  \<open>BlueZBackend\<close>: the D-Bus client of BlueZ, with the pairing agent it owns. As for UDisks2, the calls
  in flight and the zero timers are part of the state with what their lambdas captured, and replies
  are events that name the call they answer. \<open>QSet\<close>s are lists without duplicates.
\<close>

section \<open>State\<close>

record 'v bluez_state =
  bz_service :: string
  bz_owner :: string
  bz_agent_path :: string
  bz_agent :: agent_state
  bz_started :: bool
  bz_refreshing :: bool
  bz_default_agent :: bool
  bz_registered :: bool
  bz_generation :: "64 word"
  bz_revision :: "64 word"
  bz_ids :: "(string, string) qhash"
  bz_device_adapters :: "(string, string) qhash"
  bz_adapters :: "string list"
  bz_discovery_owned :: "string list"
  bz_discovery_pending :: "string list"
  bz_owner_calls :: "64 word list"
  bz_register_calls :: "64 word list"
  bz_default_calls :: "64 word list"
  bz_refresh_calls :: "(64 word \<times> 64 word) list"
  bz_timeout_calls :: "(64 word \<times> bt_result \<times> 'v) list"
  bz_visible_calls :: "(64 word \<times> bt_result) list"
  bz_exec_calls :: "(64 word \<times> string \<times> bt_result \<times> bool) list"
  bz_timers :: "bt_result list"

datatype 'v bluez_argument = BzText string | BzPath string | BzVariant 'v | BzSeconds "32 word"

datatype 'v bluez_output =
    BzRegisterObject string
  | BzUnregisterObject string
  | BzSubscribe string
  | BzUnsubscribe string
  | BzGetNameOwner string
  | BzGetManagedObjects string
  | BzCall string string string string "'v bluez_argument list"
  | BzAgentOutput agent_output
  | BzSnapshot "bt_adapter list" "bt_device list" bool
  | BzFinished bt_result
  | BzDiagnostic string string

definition bluez_init :: "string \<Rightarrow> string \<Rightarrow> 'v bluez_state" where
  "bluez_init service path = \<lparr>bz_service = service, bz_owner = '''', bz_agent_path = path,
     bz_agent = agent_init, bz_started = False, bz_refreshing = False, bz_default_agent = False,
     bz_registered = False, bz_generation = 0, bz_revision = 0, bz_ids = [], bz_device_adapters = [],
     bz_adapters = [], bz_discovery_owned = [], bz_discovery_pending = [], bz_owner_calls = [],
     bz_register_calls = [], bz_default_calls = [], bz_refresh_calls = [], bz_timeout_calls = [],
     bz_visible_calls = [], bz_exec_calls = [], bz_timers = []\<rparr>"

definition properties_interface :: string where
  "properties_interface = ''org.freedesktop.DBus.Properties''"
definition adapter_interface :: string where
  "adapter_interface = ''org.bluez.Adapter1''"
definition device_interface :: string where
  "device_interface = ''org.bluez.Device1''"
definition agent_manager :: string where
  "agent_manager = ''org.bluez.AgentManager1''"
definition battery_interface :: string where
  "battery_interface = ''org.bluez.Battery1''"

definition set_insert :: "'a \<Rightarrow> 'a list \<Rightarrow> 'a list" where
  "set_insert x xs = (if List.member xs x then xs else xs @ [x])"

section \<open>The agent\<close>

text \<open>An operation of the agent, run on its part of the state.\<close>

definition with_agent ::
  "(agent_state \<Rightarrow> agent_state \<times> agent_output list) \<Rightarrow> 'v bluez_state \<Rightarrow> 'v bluez_state \<times> 'v bluez_output list" where
  "with_agent f st = (let (a, out) = f (bz_agent st) in (st\<lparr>bz_agent := a\<rparr>, map BzAgentOutput out))"

definition bluez_request_default :: "'v bluez_state \<Rightarrow> 'v bluez_state \<times> 'v bluez_output list" where
  "bluez_request_default st =
     (let st' = st\<lparr>bz_default_agent := True\<rparr>
      in if \<not> bz_registered st' then (st', [])
         else (st'\<lparr>bz_default_calls := bz_default_calls st' @ [bz_generation st']\<rparr>,
               [BzCall (bz_owner st') ''/org/bluez'' agent_manager ''RequestDefaultAgent''
                  [BzPath (bz_agent_path st')]]))"

definition bluez_register_agent :: "'v bluez_state \<Rightarrow> 'v bluez_state \<times> 'v bluez_output list" where
  "bluez_register_agent st =
     (st\<lparr>bz_register_calls := bz_register_calls st @ [bz_generation st]\<rparr>,
      [BzCall (bz_owner st) ''/org/bluez'' agent_manager ''RegisterAgent''
         [BzPath (bz_agent_path st), BzText ''KeyboardDisplay'']])"

text \<open>Replies that carry no value: \<open>None\<close> is success, otherwise the error's name and message.\<close>

definition bluez_register_reply ::
  "nat \<Rightarrow> (string \<times> string) option \<Rightarrow> 'v bluez_state \<Rightarrow> 'v bluez_state \<times> 'v bluez_output list" where
  "bluez_register_reply i error st =
     (if i < length (bz_register_calls st) then
        (let generation = bz_register_calls st ! i;
             st' = st\<lparr>bz_register_calls := remove_row i (bz_register_calls st)\<rparr>
         in if generation \<noteq> bz_generation st' then (st', [])
            else (case error of
                    Some (name, message) \<Rightarrow> (st', [BzDiagnostic name message])
                  | None \<Rightarrow>
                      let st'' = st'\<lparr>bz_registered := True\<rparr>
                      in if bz_default_agent st'' then bluez_request_default st'' else (st'', [])))
      else (st, []))"

definition bluez_default_reply ::
  "nat \<Rightarrow> (string \<times> string) option \<Rightarrow> 'v bluez_state \<Rightarrow> 'v bluez_state \<times> 'v bluez_output list" where
  "bluez_default_reply i error st =
     (if i < length (bz_default_calls st) then
        (let generation = bz_default_calls st ! i;
             st' = st\<lparr>bz_default_calls := remove_row i (bz_default_calls st)\<rparr>
         in (case error of
               Some (name, message) \<Rightarrow>
                 if generation = bz_generation st' then (st', [BzDiagnostic name message]) else (st', [])
             | None \<Rightarrow> (st', [])))
      else (st, []))"

section \<open>Refreshing\<close>

definition bluez_refresh :: "'v bluez_state \<Rightarrow> 'v bluez_state \<times> 'v bluez_output list" where
  "bluez_refresh st =
     (if bz_refreshing st \<or> bz_owner st = '''' then (st, [])
      else (st\<lparr>bz_refreshing := True,
               bz_refresh_calls := bz_refresh_calls st @ [(bz_generation st, bz_revision st)]\<rparr>,
            [BzGetManagedObjects (bz_owner st)]))"

definition bluez_changed :: "'v bluez_state \<Rightarrow> 'v bluez_state \<times> 'v bluez_output list" where
  "bluez_changed st =
     (let st' = st\<lparr>bz_revision := bz_revision st + 1\<rparr>
      in if bz_started st' \<and> bz_owner st' \<noteq> '''' then bluez_refresh st' else (st', []))"

definition bluez_set_owner :: "string \<Rightarrow> 'v bluez_state \<Rightarrow> 'v bluez_state \<times> 'v bluez_output list" where
  "bluez_set_owner owner st =
     (let st1 = st\<lparr>bz_generation := bz_generation st + 1, bz_revision := bz_revision st + 1,
                   bz_refreshing := False, bz_registered := False, bz_owner := owner, bz_ids := [],
                   bz_adapters := [], bz_device_adapters := [], bz_discovery_owned := [],
                   bz_discovery_pending := []\<rparr>;
          (st2, out2) = with_agent (agent_set_owner owner) st1;
          (st4, out4) = (if owner \<noteq> '''' then
               (let (st3, out3) = bluez_register_agent st2; (st4, out4) = bluez_refresh st3
                in (st4, out3 @ out4))
             else (st2, []))
      in (st4, out2 @ [BzSnapshot [] [] False] @ out4))"

definition bluez_start :: "'v bluez_state \<Rightarrow> 'v bluez_state \<times> 'v bluez_output list" where
  "bluez_start st =
     (if bz_started st then (st, [])
      else (st\<lparr>bz_started := True, bz_owner_calls := bz_owner_calls st @ [bz_generation st]\<rparr>,
            [BzRegisterObject (bz_agent_path st), BzSubscribe ''InterfacesAdded'',
             BzSubscribe ''InterfacesRemoved'', BzSubscribe ''PropertiesChanged'',
             BzGetNameOwner (bz_service st)]))"

text \<open>The reply to \<open>GetNameOwner\<close>: \<open>None\<close> is an error.\<close>

definition bluez_owner_reply ::
  "nat \<Rightarrow> string option \<Rightarrow> 'v bluez_state \<Rightarrow> 'v bluez_state \<times> 'v bluez_output list" where
  "bluez_owner_reply i reply st =
     (if i < length (bz_owner_calls st) then
        (let generation = bz_owner_calls st ! i;
             st' = st\<lparr>bz_owner_calls := remove_row i (bz_owner_calls st)\<rparr>
         in if \<not> bz_started st' \<or> generation \<noteq> bz_generation st' then (st', [])
            else bluez_set_owner (case reply of None \<Rightarrow> '''' | Some owner \<Rightarrow> owner) st')
      else (st, []))"

definition bluez_stop :: "'v bluez_state \<Rightarrow> 'v bluez_state \<times> 'v bluez_output list" where
  "bluez_stop st =
     (if \<not> bz_started st then (st, [])
      else
        let (st1, out1) = with_agent agent_clear st;
            paths = bz_discovery_owned st1 @
              filter (\<lambda>p. \<not> List.member (bz_discovery_owned st1) p) (bz_discovery_pending st1);
            stops = map (\<lambda>path. BzCall (bz_owner st1) path adapter_interface ''StopDiscovery'' []) paths;
            unregister = (if bz_registered st1
              then [BzCall (bz_owner st1) ''/org/bluez'' agent_manager ''UnregisterAgent''
                      [BzPath (bz_agent_path st1)]] else []);
            (st2, out2) = bluez_set_owner '''' (st1\<lparr>bz_started := False\<rparr>)
        in (st2, out1 @ stops @ unregister @
              [BzUnsubscribe ''InterfacesAdded'', BzUnsubscribe ''InterfacesRemoved'',
               BzUnsubscribe ''PropertiesChanged'', BzUnregisterObject (bz_agent_path st1)] @ out2))"

definition bluez_owner_changed :: "string \<Rightarrow> 'v bluez_state \<Rightarrow> 'v bluez_state \<times> 'v bluez_output list" where
  "bluez_owner_changed owner st = (if bz_started st then bluez_set_owner owner st else (st, []))"

definition bluez_notified :: "string \<Rightarrow> 'v bluez_state \<Rightarrow> 'v bluez_state \<times> 'v bluez_output list" where
  "bluez_notified sender st = (if sender = bz_owner st then bluez_changed st else (st, []))"

definition bluez_interfaces_removed ::
  "string \<Rightarrow> string list \<Rightarrow> string \<Rightarrow> 'v bluez_state \<Rightarrow> 'v bluez_state \<times> 'v bluez_output list" where
  "bluez_interfaces_removed path interfaces sender st =
     (if sender \<noteq> bz_owner st then (st, [])
      else
        let adapter = List.member interfaces adapter_interface;
            ids1 = (if adapter
              then fold (\<lambda>(device, a) ids. if a = path then hash_remove device ids else ids)
                     (bz_device_adapters st) (bz_ids st)
              else bz_ids st);
            ids2 = (if adapter \<or> List.member interfaces device_interface then hash_remove path ids1 else ids1)
        in bluez_changed (st\<lparr>bz_ids := ids2,
             bz_discovery_owned := (if adapter then removeAll path (bz_discovery_owned st) else bz_discovery_owned st),
             bz_discovery_pending := (if adapter then removeAll path (bz_discovery_pending st)
               else bz_discovery_pending st)\<rparr>))"


section \<open>Decoding a snapshot\<close>

definition bz_id_for ::
  "(nat \<Rightarrow> string) \<Rightarrow> string \<Rightarrow> (string, string) qhash \<times> nat \<Rightarrow> string \<times> (string, string) qhash \<times> nat" where
  "bz_id_for fresh path = (\<lambda>(ids, n).
     case hash_value ids path of
       Some i \<Rightarrow> (i, ids, n)
     | None \<Rightarrow> (fresh n, hash_insert path (fresh n) ids, Suc n))"

definition decode_adapter :: "'v qvariant_ops \<Rightarrow> string \<Rightarrow> 'v dbus_properties \<Rightarrow> bt_adapter" where
  "decode_adapter q i p = \<lparr>ad_id = i, ad_address = qv_string q (prop_value q p ''Address''),
     ad_alias = qv_string q (prop_value q p ''Alias''), ad_powered = qv_bool q (prop_value q p ''Powered''),
     ad_discoverable = qv_bool q (prop_value q p ''Discoverable''),
     ad_discovering = qv_bool q (prop_value q p ''Discovering'')\<rparr>"

fun decode_adapters ::
  "'v qvariant_ops \<Rightarrow> (nat \<Rightarrow> string) \<Rightarrow> 'v dbus_objects \<Rightarrow> (string, string) qhash \<times> nat \<Rightarrow>
   bt_adapter list \<times> (string, string) qhash \<times> nat" where
  "decode_adapters q fresh [] r = ([], r)"
| "decode_adapters q fresh ((path, interfaces) # objects) r =
     (if has_key interfaces adapter_interface then
        (let (i, r') = bz_id_for fresh path r; (as, r'') = decode_adapters q fresh objects r'
         in (decode_adapter q i (map_value interfaces adapter_interface) # as, r''))
      else decode_adapters q fresh objects r)"

definition decode_device ::
  "'v qvariant_ops \<Rightarrow> string \<Rightarrow> string \<Rightarrow> 'v dbus_interfaces \<Rightarrow> bt_device" where
  "decode_device q i adapterId interfaces =
     (let p = map_value interfaces device_interface; battery = map_value interfaces battery_interface;
          text = (\<lambda>n. qv_string q (prop_value q p n)); flag = (\<lambda>n. qv_bool q (prop_value q p n))
      in \<lparr>dv_id = i, dv_adapter = adapterId, dv_address = text ''Address'',
          dv_address_type = text ''AddressType'', dv_name = text ''Name'', dv_alias = text ''Alias'',
          dv_icon = text ''Icon'', dv_class = qv_uint q (prop_value q p ''Class''),
          dv_appearance = qv_ushort q (prop_value q p ''Appearance''), dv_paired = flag ''Paired'',
          dv_bonded = flag ''Bonded'', dv_trusted = flag ''Trusted'', dv_blocked = flag ''Blocked'',
          dv_connected = flag ''Connected'',
          dv_rssi = (if has_key p ''RSSI'' then Some (qv_int q (prop_value q p ''RSSI'')) else None),
          dv_battery = (if has_key battery ''Percentage''
            then Some (qv_int q (prop_value q battery ''Percentage'')) else None),
          dv_uuids = qv_strings q (prop_value q p ''UUIDs'')\<rparr>)"

text \<open>The devices of known adapters, with the path and adapter of each.\<close>

fun decode_devices ::
  "'v qvariant_ops \<Rightarrow> (nat \<Rightarrow> string) \<Rightarrow> string list \<Rightarrow> 'v dbus_objects \<Rightarrow> (string, string) qhash \<times> nat \<Rightarrow>
   (string \<times> string \<times> bt_device) list \<times> (string, string) qhash \<times> nat" where
  "decode_devices q fresh adapters [] r = ([], r)"
| "decode_devices q fresh adapters ((path, interfaces) # objects) r =
     (let adapter = qv_path q (prop_value q (map_value interfaces device_interface) ''Adapter'')
      in if has_key interfaces device_interface \<and> List.member adapters adapter then
           (let (i, r1) = bz_id_for fresh path r; (a, r2) = bz_id_for fresh adapter r1;
                (ds, r3) = decode_devices q fresh adapters objects r2
            in ((path, adapter, decode_device q i a interfaces) # ds, r3))
         else decode_devices q fresh adapters objects r)"

definition adapter_paths :: "'v dbus_objects \<Rightarrow> string list" where
  "adapter_paths objects = map fst (filter (\<lambda>(_, interfaces). has_key interfaces adapter_interface) objects)"

definition unpowered_paths :: "'v qvariant_ops \<Rightarrow> 'v dbus_objects \<Rightarrow> string list" where
  "unpowered_paths q objects = map fst (filter (\<lambda>(_, interfaces). has_key interfaces adapter_interface \<and>
     \<not> qv_bool q (prop_value q (map_value interfaces adapter_interface) ''Powered'')) objects)"

definition bluez_publish ::
  "'v qvariant_ops \<Rightarrow> (nat \<Rightarrow> string) \<Rightarrow> 'v dbus_objects \<Rightarrow> 'v bluez_state \<Rightarrow>
   'v bluez_state \<times> 'v bluez_output list" where
  "bluez_publish q fresh objects st =
     (let paths = adapter_paths objects;
          (adapters, r) = decode_adapters q fresh objects (bz_ids st, 0);
          (found, ids, _) = decode_devices q fresh paths objects r;
          live = paths @ map fst found;
          devices = map (\<lambda>(_, _, d). d) found;
          st1 = st\<lparr>bz_adapters := paths,
                   bz_device_adapters := map (\<lambda>(path, adapter, _). (path, adapter)) found,
                   bz_discovery_owned := filter (\<lambda>p. \<not> List.member (unpowered_paths q objects) p)
                     (bz_discovery_owned st),
                   bz_ids := filter (\<lambda>(path, _). List.member live path) ids\<rparr>;
          (st2, out) = with_agent (agent_set_devices (map (\<lambda>(path, _, d). (path, dv_id d)) found)) st1
      in (st2, out @ [BzSnapshot adapters devices True]))"

definition bluez_refresh_reply ::
  "'v qvariant_ops \<Rightarrow> nat \<Rightarrow> 'v dbus_objects option \<Rightarrow> (nat \<Rightarrow> string) \<Rightarrow> 'v bluez_state \<Rightarrow>
   'v bluez_state \<times> 'v bluez_output list" where
  "bluez_refresh_reply q i reply fresh st =
     (if i < length (bz_refresh_calls st) then
        (let (generation, revision) = bz_refresh_calls st ! i;
             st1 = st\<lparr>bz_refresh_calls := remove_row i (bz_refresh_calls st)\<rparr>
         in if generation \<noteq> bz_generation st1 then (st1, [])
            else
              let st2 = st1\<lparr>bz_refreshing := False\<rparr> in
              if revision \<noteq> bz_revision st2 then bluez_refresh st2
              else
                (case reply of
                   None \<Rightarrow>
                     (let stops = map (\<lambda>path. BzCall (bz_owner st2) path adapter_interface ''StopDiscovery'' [])
                            (bz_discovery_owned st2);
                          (st3, out) = with_agent (agent_set_devices [])
                            (st2\<lparr>bz_discovery_owned := [], bz_ids := []\<rparr>)
                      in (st3, stops @ out @ [BzSnapshot [] [] False]))
                 | Some objects \<Rightarrow> bluez_publish q fresh objects st2))
      else (st, []))"

section \<open>Operations\<close>

definition is_adapter_operation :: "bt_operation \<Rightarrow> bool" where
  "is_adapter_operation op = (case op of Power \<Rightarrow> True | AdapterAlias \<Rightarrow> True | Discoverable \<Rightarrow> True
     | StartDiscovery \<Rightarrow> True | StopDiscovery \<Rightarrow> True | _ \<Rightarrow> False)"

definition is_discovery :: "bt_operation \<Rightarrow> bool" where
  "is_discovery op = (op = StartDiscovery \<or> op = StopDiscovery)"

fun operation_property :: "bt_operation \<Rightarrow> string" where
  "operation_property Power = ''Powered''"
| "operation_property AdapterAlias = ''Alias''"
| "operation_property DeviceAlias = ''Alias''"
| "operation_property Discoverable = ''Discoverable''"
| "operation_property Trust = ''Trusted''"
| "operation_property Block = ''Blocked''"
| "operation_property _ = ''''"

fun operation_member :: "bt_operation \<Rightarrow> string" where
  "operation_member StartDiscovery = ''StartDiscovery''"
| "operation_member StopDiscovery = ''StopDiscovery''"
| "operation_member PairDevice = ''Pair''"
| "operation_member CancelPairing = ''CancelPairing''"
| "operation_member Connect = ''Connect''"
| "operation_member Disconnect = ''Disconnect''"
| "operation_member Forget = ''RemoveDevice''"
| "operation_member _ = ''Set''"

text \<open>\<open>QHash::key\<close>: a key with the value, or the empty string.\<close>

definition hash_key :: "(string, string) qhash \<Rightarrow> string \<Rightarrow> string" where
  "hash_key m v = (case find (\<lambda>(_, w). w = v) m of Some (k, _) \<Rightarrow> k | None \<Rightarrow> '''')"

definition hash_default :: "(string, string) qhash \<Rightarrow> string \<Rightarrow> string" where
  "hash_default m k = (case hash_value m k of Some v \<Rightarrow> v | None \<Rightarrow> '''')"

definition bluez_fail :: "string \<Rightarrow> bt_result \<Rightarrow> 'v bluez_state \<Rightarrow> 'v bluez_state \<times> 'v bluez_output list" where
  "bluez_fail error result st = (st\<lparr>bz_timers := bz_timers st @
     [result\<lparr>br_error_name := ''org.holonight.Bluetooth.'' @ error, br_error_message := error\<rparr>]\<rparr>, [])"

definition bluez_execute ::
  "'v qvariant_ops \<Rightarrow> string \<Rightarrow> bt_operation \<Rightarrow> string \<Rightarrow> 'v \<Rightarrow> 'v bluez_state \<Rightarrow>
   'v bluez_state \<times> 'v bluez_output list" where
  "bluez_execute q requestId op targetId v st =
     (let result = \<lparr>br_request = requestId, br_target = targetId, br_operation = op,
                    br_error_name = '''', br_error_message = ''''\<rparr>;
          path = hash_key (bz_ids st) targetId;
          adapter = is_adapter_operation op;
          discovery = is_discovery op
      in if path = '''' \<or> bz_owner st = '''' then bluez_fail ''Disappeared'' result st
         else if op = PairDevice \<and> \<not> bz_registered st then bluez_fail ''AgentUnavailable'' result st
         else if adapter \<noteq> List.member (bz_adapters st) path then bluez_fail ''InvalidTarget'' result st
         else if discovery \<and> List.member (bz_discovery_pending st) path then bluez_fail ''Busy'' result st
         else if discovery \<and> ((op = StartDiscovery) = List.member (bz_discovery_owned st) path) then
           (st\<lparr>bz_timers := bz_timers st @ [result]\<rparr>, [])
         else
           let (st1, out1) = (if op = CancelPairing then with_agent agent_clear st else (st, []));
               setter = (operation_property op \<noteq> '''');
               target_interface = (if adapter then adapter_interface else device_interface);
               callPath = (if op = Forget then hash_default (bz_device_adapters st1) path else path);
               interface = (if setter then properties_interface
                 else if op = Forget then adapter_interface else target_interface);
               arguments = (if op = Forget then [BzPath path]
                 else if setter then [BzText target_interface, BzText (operation_property op), BzVariant v]
                 else [])
           in if op = Discoverable \<and> qv_bool q v then
                (st1\<lparr>bz_timeout_calls := bz_timeout_calls st1 @ [(bz_generation st1, result, v)]\<rparr>,
                 out1 @ [BzCall (bz_owner st1) path properties_interface ''Set''
                   [BzText adapter_interface, BzText ''DiscoverableTimeout'', BzSeconds 180]])
              else
                (st1\<lparr>bz_discovery_pending := (if discovery then set_insert path (bz_discovery_pending st1)
                        else bz_discovery_pending st1),
                     bz_exec_calls := bz_exec_calls st1 @ [(bz_generation st1, path, result, discovery)]\<rparr>,
                 out1 @ [BzCall (bz_owner st1) callPath interface (operation_member op) arguments]))"

text \<open>The reply to the write of the visibility timeout.\<close>

definition bluez_timeout_reply ::
  "nat \<Rightarrow> (string \<times> string) option \<Rightarrow> 'v bluez_state \<Rightarrow> 'v bluez_state \<times> 'v bluez_output list" where
  "bluez_timeout_reply i error st =
     (if i < length (bz_timeout_calls st) then
        (let (generation, result, v) = bz_timeout_calls st ! i;
             st1 = st\<lparr>bz_timeout_calls := remove_row i (bz_timeout_calls st)\<rparr>
         in if generation \<noteq> bz_generation st1 then (st1, [])
            else (case error of
                    Some (name, message) \<Rightarrow>
                      (st1, [BzFinished (result\<lparr>br_error_name := name, br_error_message := message\<rparr>)])
                  | None \<Rightarrow>
                      let path = hash_key (bz_ids st1) (br_target result) in
                      if path = '''' then
                        (st1, [BzFinished (result\<lparr>br_error_name := ''org.holonight.Bluetooth.Disappeared'',
                                br_error_message := ''''\<rparr>)])
                      else
                        (st1\<lparr>bz_visible_calls := bz_visible_calls st1 @ [(generation, result)]\<rparr>,
                         [BzCall (bz_owner st1) path properties_interface ''Set''
                            [BzText adapter_interface, BzText ''Discoverable'', BzVariant v]])))
      else (st, []))"

definition result_error :: "(string \<times> string) option \<Rightarrow> bt_result \<Rightarrow> bt_result" where
  "result_error error result = (case error of
       Some (name, message) \<Rightarrow> result\<lparr>br_error_name := name, br_error_message := message\<rparr>
     | None \<Rightarrow> result\<lparr>br_error_name := '''', br_error_message := ''''\<rparr>)"

definition bluez_visible_reply ::
  "nat \<Rightarrow> (string \<times> string) option \<Rightarrow> 'v bluez_state \<Rightarrow> 'v bluez_state \<times> 'v bluez_output list" where
  "bluez_visible_reply i error st =
     (if i < length (bz_visible_calls st) then
        (let (generation, result) = bz_visible_calls st ! i;
             st1 = st\<lparr>bz_visible_calls := remove_row i (bz_visible_calls st)\<rparr>
         in if generation \<noteq> bz_generation st1 then (st1, [])
            else let (st2, out) = bluez_changed st1 in (st2, BzFinished (result_error error result) # out))
      else (st, []))"

definition bluez_exec_reply ::
  "nat \<Rightarrow> (string \<times> string) option \<Rightarrow> 'v bluez_state \<Rightarrow> 'v bluez_state \<times> 'v bluez_output list" where
  "bluez_exec_reply i error st =
     (if i < length (bz_exec_calls st) then
        (let (generation, path, result, discovery) = bz_exec_calls st ! i;
             st1 = st\<lparr>bz_exec_calls := remove_row i (bz_exec_calls st)\<rparr>
         in if generation \<noteq> bz_generation st1 then (st1, [])
            else
              let st2 = (if discovery
                    then st1\<lparr>bz_discovery_pending := removeAll path (bz_discovery_pending st1)\<rparr> else st1)
              in if hash_default (bz_ids st2) path \<noteq> br_target result \<and> br_operation result \<noteq> Forget then
                   (st2, if error = None \<and> br_operation result = StartDiscovery
                         then [BzCall (bz_owner st2) path adapter_interface ''StopDiscovery'' []] else [])
                 else
                   let st3 = (if error = None \<and> discovery
                         then (if br_operation result = StartDiscovery
                               then st2\<lparr>bz_discovery_owned := set_insert path (bz_discovery_owned st2)\<rparr>
                               else st2\<lparr>bz_discovery_owned := removeAll path (bz_discovery_owned st2)\<rparr>)
                         else st2);
                       result' = (case error of
                           Some (name, message) \<Rightarrow> result\<lparr>br_error_name := name, br_error_message := message\<rparr>
                         | None \<Rightarrow> result);
                       (st4, out4) = (if br_operation result = PairDevice then with_agent agent_clear st3 else (st3, []));
                       (st5, out5) = bluez_changed st4
                   in (st5, out4 @ [BzFinished result'] @ out5))
      else (st, []))"

definition bluez_timer :: "'v bluez_state \<Rightarrow> 'v bluez_state \<times> 'v bluez_output list" where
  "bluez_timer st =
     (case bz_timers st of
        [] \<Rightarrow> (st, [])
      | result # rest \<Rightarrow> (st\<lparr>bz_timers := rest\<rparr>, [BzFinished result]))"

text \<open>A call of BlueZ to the agent. For a device that is not known yet the resolver reserves its
  identifier and asks for a refresh before the interaction is shown.\<close>

definition bluez_agent_call ::
  "(nat \<times> string) option \<Rightarrow> agent_method \<Rightarrow> (nat \<Rightarrow> string) \<Rightarrow> 'v bluez_state \<Rightarrow>
   'v bluez_state \<times> 'v bluez_output list" where
  "bluez_agent_call caller meth fresh st =
     (case call_path meth of
        Some path \<Rightarrow>
          if agent_needs_resolver caller path (bz_agent st) then
            (let (i, ids, _) = bz_id_for fresh path (bz_ids st, 1);
                 (st1, out1) = bluez_changed (st\<lparr>bz_ids := ids\<rparr>);
                 (st2, out2) = with_agent (agent_call caller meth i (fresh 0)) st1
             in (st2, out1 @ out2))
          else with_agent (agent_call caller meth '''' (fresh 0)) st
      | None \<Rightarrow> with_agent (agent_call caller meth '''' (fresh 0)) st)"

section \<open>Events\<close>

datatype 'v bluez_event =
    BzStart
  | BzStop
  | BzOwnerChanged string
  | BzInterfacesAdded string
  | BzInterfacesRemoved string "string list" string
  | BzPropertiesChanged string
  | BzExecute string bt_operation string 'v
  | BzRespond string bool string
  | BzRequestDefault
  | BzOwnerReply nat "string option"
  | BzRegisterReply nat "(string \<times> string) option"
  | BzDefaultReply nat "(string \<times> string) option"
  | BzRefreshReply nat "'v dbus_objects option" "nat \<Rightarrow> string"
  | BzTimeoutReply nat "(string \<times> string) option"
  | BzVisibleReply nat "(string \<times> string) option"
  | BzExecReply nat "(string \<times> string) option"
  | BzTimer
  | BzAgentCall "(nat \<times> string) option" agent_method "nat \<Rightarrow> string"
  | BzAgentTimeout nat

fun bluez_step :: "'v qvariant_ops \<Rightarrow> 'v bluez_event \<Rightarrow> 'v bluez_state \<Rightarrow> 'v bluez_state \<times> 'v bluez_output list" where
  "bluez_step q BzStart st = bluez_start st"
| "bluez_step q BzStop st = bluez_stop st"
| "bluez_step q (BzOwnerChanged owner) st = bluez_owner_changed owner st"
| "bluez_step q (BzInterfacesAdded sender) st = bluez_notified sender st"
| "bluez_step q (BzInterfacesRemoved path interfaces sender) st = bluez_interfaces_removed path interfaces sender st"
| "bluez_step q (BzPropertiesChanged sender) st = bluez_notified sender st"
| "bluez_step q (BzExecute rid op target v) st = bluez_execute q rid op target v st"
| "bluez_step q (BzRespond rid accept input) st = with_agent (agent_respond rid accept input) st"
| "bluez_step q BzRequestDefault st = bluez_request_default st"
| "bluez_step q (BzOwnerReply i reply) st = bluez_owner_reply i reply st"
| "bluez_step q (BzRegisterReply i error) st = bluez_register_reply i error st"
| "bluez_step q (BzDefaultReply i error) st = bluez_default_reply i error st"
| "bluez_step q (BzRefreshReply i reply fresh) st = bluez_refresh_reply q i reply fresh st"
| "bluez_step q (BzTimeoutReply i error) st = bluez_timeout_reply i error st"
| "bluez_step q (BzVisibleReply i error) st = bluez_visible_reply i error st"
| "bluez_step q (BzExecReply i error) st = bluez_exec_reply i error st"
| "bluez_step q BzTimer st = bluez_timer st"
| "bluez_step q (BzAgentCall caller meth fresh) st = bluez_agent_call caller meth fresh st"
| "bluez_step q (BzAgentTimeout i) st = with_agent (agent_timeout i) st"

end
