(* ===== verification/BlueZ_Refresh.thy ===== *)
theory BlueZ_Refresh
  imports BlueZ_Backend
begin

text \<open>
  \<open>BlueZBackend\<close> follows the same refresh protocol as \<open>UDisks2Backend\<close>: the contract of
  \<open>refreshing_client\<close> is discharged on its model. Further properties are about the ownership of
  discovery sessions and the order of the writes that make an adapter visible.
\<close>

section \<open>The backend follows the refresh protocol\<close>

definition bluez_view :: "'v bluez_state \<Rightarrow> refresh_view" where
  "bluez_view st = \<lparr>rv_gen = bz_generation st, rv_rev = bz_revision st, rv_busy = bz_refreshing st,
     rv_live = (bz_owner st \<noteq> ''''), rv_calls = bz_refresh_calls st\<rparr>"

definition bluez_good :: "'v bluez_state \<Rightarrow> bool" where
  "bluez_good st \<longleftrightarrow> (bz_owner st \<noteq> '''' \<longrightarrow> bz_started st)"

definition bluez_publishes :: "'v bluez_output list \<Rightarrow> bool" where
  "bluez_publishes out \<longleftrightarrow> (\<exists>as ds a. BzSnapshot as ds a \<in> set out)"

text \<open>The part of the state the protocol reads, so that everything else can be ignored.\<close>

definition bluez_core :: "'v bluez_state \<Rightarrow> refresh_view \<times> bool" where
  "bluez_core st = (bluez_view st, bz_started st)"

lemma bluez_view_sel [simp]:
  "rv_gen (bluez_view st) = bz_generation st" "rv_rev (bluez_view st) = bz_revision st"
  "rv_busy (bluez_view st) = bz_refreshing st" "rv_live (bluez_view st) = (bz_owner st \<noteq> '''')"
  "rv_calls (bluez_view st) = bz_refresh_calls st"
  by (simp_all add: bluez_view_def)

lemma bluez_core_update [simp]:
  "bluez_core (st\<lparr>bz_agent := x1\<rparr>) = bluez_core st" "bluez_core (st\<lparr>bz_default_agent := b\<rparr>) = bluez_core st"
  "bluez_core (st\<lparr>bz_registered := b\<rparr>) = bluez_core st" "bluez_core (st\<lparr>bz_ids := x2\<rparr>) = bluez_core st"
  "bluez_core (st\<lparr>bz_device_adapters := x2\<rparr>) = bluez_core st" "bluez_core (st\<lparr>bz_adapters := x3\<rparr>) = bluez_core st"
  "bluez_core (st\<lparr>bz_discovery_owned := x3\<rparr>) = bluez_core st" "bluez_core (st\<lparr>bz_discovery_pending := x3\<rparr>) = bluez_core st"
  "bluez_core (st\<lparr>bz_owner_calls := x4\<rparr>) = bluez_core st" "bluez_core (st\<lparr>bz_register_calls := x4\<rparr>) = bluez_core st"
  "bluez_core (st\<lparr>bz_default_calls := x4\<rparr>) = bluez_core st" "bluez_core (st\<lparr>bz_timeout_calls := x5\<rparr>) = bluez_core st"
  "bluez_core (st\<lparr>bz_visible_calls := x6\<rparr>) = bluez_core st" "bluez_core (st\<lparr>bz_exec_calls := x7\<rparr>) = bluez_core st"
  "bluez_core (st\<lparr>bz_timers := x8\<rparr>) = bluez_core st"
  by (simp_all add: bluez_core_def bluez_view_def)

lemma bluez_core_agent [simp]: "bluez_core (fst (with_agent f st)) = bluez_core st"
  by (simp add: with_agent_def split_beta Let_def)

lemma bluez_core_register [simp]: "bluez_core (fst (bluez_register_agent st)) = bluez_core st"
  by (simp add: bluez_register_agent_def)

lemma bluez_core_default [simp]: "bluez_core (fst (bluez_request_default st)) = bluez_core st"
  by (simp add: bluez_request_default_def Let_def)

lemma bluez_good_core: "bluez_core st' = bluez_core st \<Longrightarrow> bluez_good st' = bluez_good st"
  by (simp add: bluez_core_def bluez_good_def bluez_view_def)

lemma bluez_view_core: "bluez_core st' = bluez_core st \<Longrightarrow> bluez_view st' = bluez_view st"
  by (simp add: bluez_core_def)

text \<open>The two ways in which the protocol's variables move.\<close>

definition bumped :: "refresh_view \<times> bool \<Rightarrow> refresh_view \<times> bool" where
  "bumped c = (refresh_go ((fst c)\<lparr>rv_rev := rv_rev (fst c) + 1\<rparr>), snd c)"

definition owned :: "string \<Rightarrow> refresh_view \<times> bool \<Rightarrow> refresh_view \<times> bool" where
  "owned owner c = (refresh_go ((fst c)\<lparr>rv_gen := rv_gen (fst c) + 1, rv_rev := rv_rev (fst c) + 1,
     rv_busy := False, rv_live := (owner \<noteq> '''')\<rparr>), snd c)"

lemma bluez_core_refresh: "bluez_core (fst (bluez_refresh st)) = (refresh_go (bluez_view st), bz_started st)"
  by (simp add: bluez_core_def bluez_refresh_def refresh_go_def bluez_view_def)

lemma bluez_core_changed: "bluez_good st \<Longrightarrow> bluez_core (fst (bluez_changed st)) = bumped (bluez_core st)"
  by (auto simp: bluez_changed_def Let_def bluez_refresh_def bluez_good_def bluez_core_def bluez_view_def
      bumped_def refresh_go_def)

lemma bluez_core_set_owner: "bluez_core (fst (bluez_set_owner owner st)) = owned owner (bluez_core st)"
proof -
  let ?st1 = "st\<lparr>bz_generation := bz_generation st + 1, bz_revision := bz_revision st + 1,
    bz_refreshing := False, bz_registered := False, bz_owner := owner, bz_ids := [], bz_adapters := [],
    bz_device_adapters := [], bz_discovery_owned := [], bz_discovery_pending := []\<rparr>"
  let ?st2 = "fst (with_agent (agent_set_owner owner) ?st1)"
  have core: "bluez_core ?st1 = ((fst (bluez_core st))\<lparr>rv_gen := bz_generation st + 1,
      rv_rev := bz_revision st + 1, rv_busy := False, rv_live := (owner \<noteq> '''')\<rparr>, bz_started st)"
    by (simp add: bluez_core_def bluez_view_def)
  have "fst (bluez_set_owner owner st) =
      (if owner \<noteq> '''' then fst (bluez_refresh (fst (bluez_register_agent ?st2))) else ?st2)"
    by (simp add: bluez_set_owner_def Let_def split_beta)
  moreover have "bluez_core (fst (bluez_refresh (fst (bluez_register_agent ?st2)))) =
      (refresh_go (fst (bluez_core ?st1)), bz_started st)"
    using bluez_core_register [of ?st2] bluez_core_agent [of "agent_set_owner owner" ?st1] core
    unfolding bluez_core_refresh by (simp add: bluez_core_def)
  ultimately show ?thesis
    using core bluez_core_agent [of "agent_set_owner owner" ?st1]
    by (auto simp: owned_def refresh_go_def bluez_core_def)
qed

lemma bluez_core_publish [simp]: "bluez_core (fst (bluez_publish q fresh objects st)) = bluez_core st"
  by (simp add: bluez_publish_def Let_def split_beta)

section \<open>Every step moves the core in one of these ways\<close>

definition core_step :: "'v bluez_state \<Rightarrow> 'v bluez_state \<Rightarrow> bool" where
  "core_step st st' \<longleftrightarrow> bluez_core st' = bluez_core st \<or> bluez_core st' = bumped (bluez_core st) \<or>
     (\<exists>owner. bluez_core st' = owned owner (bluez_core st) \<and> (owner \<noteq> '''' \<longrightarrow> bz_started st))"

lemma core_step_same: "bluez_core st' = bluez_core st \<Longrightarrow> core_step st st'"
  by (simp add: core_step_def)

lemma core_step_changed:
  "bluez_good st \<Longrightarrow> bluez_core st1 = bluez_core st \<Longrightarrow> core_step st (fst (bluez_changed st1))"
  using bluez_core_changed [of st1] bluez_good_core [of st1 st] by (simp add: core_step_def)

lemma core_step_owner:
  "bluez_core st1 = bluez_core st \<Longrightarrow> bz_started st \<or> owner = '''' \<Longrightarrow> core_step st (fst (bluez_set_owner owner st1))"
  unfolding core_step_def bluez_core_set_owner by metis

lemma core_step_register_reply: "core_step st (fst (bluez_register_reply i error st))"
  by (rule core_step_same)
    (auto simp: bluez_register_reply_def Let_def split: option.splits)

lemma core_step_default_reply: "core_step st (fst (bluez_default_reply i error st))"
  by (rule core_step_same) (auto simp: bluez_default_reply_def Let_def split: option.splits)

lemma core_step_owner_reply: "core_step st (fst (bluez_owner_reply i reply st))"
proof (cases "i < length (bz_owner_calls st) \<and> bz_started st \<and> bz_owner_calls st ! i = bz_generation st")
  case True
  then have "fst (bluez_owner_reply i reply st) = fst (bluez_set_owner
      (case reply of None \<Rightarrow> '''' | Some owner \<Rightarrow> owner) (st\<lparr>bz_owner_calls := remove_row i (bz_owner_calls st)\<rparr>))"
    by (simp add: bluez_owner_reply_def Let_def)
  then show ?thesis using True by (simp add: core_step_owner)
next
  case False
  then show ?thesis by (intro core_step_same) (auto simp: bluez_owner_reply_def Let_def)
qed

lemma core_step_execute: "core_step st (fst (bluez_execute q rid op target v st))"
  by (rule core_step_same)
    (auto simp: bluez_execute_def bluez_fail_def Let_def split_beta)

lemma core_step_timeout_reply: "core_step st (fst (bluez_timeout_reply i error st))"
  by (rule core_step_same) (auto simp: bluez_timeout_reply_def Let_def split_beta split: option.splits)

lemma core_step_visible_reply: "bluez_good st \<Longrightarrow> core_step st (fst (bluez_visible_reply i error st))"
  by (auto simp: bluez_visible_reply_def Let_def split_beta intro: core_step_same core_step_changed)

lemma core_step_exec_reply:
  assumes "bluez_good st"
  shows "core_step st (fst (bluez_exec_reply i error st))"
proof (cases "i < length (bz_exec_calls st)")
  case True
  obtain g path result discovery where c: "bz_exec_calls st ! i = (g, path, result, discovery)"
    by (cases "bz_exec_calls st ! i") auto
  show ?thesis
    using True c assms
    by (simp add: bluez_exec_reply_def Let_def split_beta core_step_same core_step_changed)
qed (simp add: bluez_exec_reply_def core_step_same)

lemma core_step_agent_call:
  assumes "bluez_good st"
  shows "core_step st (fst (bluez_agent_call caller meth fresh st))"
proof -
  have "core_step st (fst (with_agent f (fst (bluez_changed (st\<lparr>bz_ids := ids\<rparr>)))))" for f ids
    using core_step_changed [OF assms, of "st\<lparr>bz_ids := ids\<rparr>"]
    by (simp add: core_step_def)
  then show ?thesis
    by (auto simp: bluez_agent_call_def Let_def split_beta core_step_same split: option.split)
qed

text \<open>The reply to \<open>GetManagedObjects\<close>.\<close>

lemma bluez_refresh_reply_view:
  assumes "i < length (bz_refresh_calls st)"
  shows "\<exists>used. refresh_answer i (bluez_view st) =
      (bluez_view (fst (bluez_refresh_reply q i reply fresh st)), used) \<and>
    (used \<longrightarrow> bluez_publishes (snd (bluez_refresh_reply q i reply fresh st))) \<and>
    bz_started (fst (bluez_refresh_reply q i reply fresh st)) = bz_started st"
proof -
  obtain g r where c: "bz_refresh_calls st ! i = (g, r)" by fastforce
  let ?st1 = "st\<lparr>bz_refresh_calls := remove_row i (bz_refresh_calls st)\<rparr>"
  let ?st2 = "?st1\<lparr>bz_refreshing := False\<rparr>"
  let ?r = "bluez_refresh_reply q i reply fresh st"
  have v1: "bluez_core ?st1 = ((bluez_view st)\<lparr>rv_calls := remove_row i (bz_refresh_calls st)\<rparr>, bz_started st)"
    and v2: "bluez_core ?st2 = ((bluez_view st)\<lparr>rv_calls := remove_row i (bz_refresh_calls st), rv_busy := False\<rparr>, bz_started st)"
    by (simp_all add: bluez_core_def bluez_view_def)
  have core: "bluez_core (fst ?r) = (v, bz_started st) \<Longrightarrow> bluez_view (fst ?r) = v \<and> bz_started (fst ?r) = bz_started st" for v
    by (simp add: bluez_core_def)
  consider (stale) "g \<noteq> bz_generation st" | (outdated) "g = bz_generation st" "r \<noteq> bz_revision st"
    | (current) "g = bz_generation st" "r = bz_revision st" by blast
  then show ?thesis
  proof cases
    case stale
    then have "?r = (?st1, [])" using assms c by (simp add: bluez_refresh_reply_def Let_def)
    then show ?thesis using core v1 stale c by (auto simp: refresh_answer_def Let_def)
  next
    case outdated
    then have "?r = bluez_refresh ?st2" using assms c by (simp add: bluez_refresh_reply_def Let_def)
    then have "bluez_core (fst ?r) = (refresh_go (fst (bluez_core ?st2)), bz_started st)"
      by (simp add: bluez_core_refresh) (simp add: bluez_core_def)
    then show ?thesis using core v2 outdated c by (auto simp: refresh_answer_def Let_def)
  next
    case current
    have "bluez_core (fst ?r) = bluez_core ?st2 \<and> bluez_publishes (snd ?r)"
    proof (cases reply)
      case None
      then have r: "?r = (let (st3, out) = with_agent (agent_set_devices []) (?st2\<lparr>bz_discovery_owned := [], bz_ids := []\<rparr>)
          in (st3, map (\<lambda>path. BzCall (bz_owner ?st2) path adapter_interface ''StopDiscovery'' [])
            (bz_discovery_owned ?st2) @ out @ [BzSnapshot [] [] False]))"
        using assms c current by (simp add: bluez_refresh_reply_def Let_def)
      show ?thesis unfolding r
        by (simp add: split_beta Let_def bluez_publishes_def) blast
    next
      case (Some objects)
      then have r: "?r = bluez_publish q fresh objects ?st2"
        using assms c current by (simp add: bluez_refresh_reply_def Let_def)
      have "bluez_publishes (snd (bluez_publish q fresh objects ?st2))"
        by (simp add: bluez_publish_def split_beta Let_def bluez_publishes_def) blast
      then show ?thesis unfolding r by simp
    qed
    then show ?thesis using core v2 current c by (auto simp: refresh_answer_def Let_def)
  qed
qed



text \<open>Read as steps of the protocol.\<close>

lemma core_step_ok:
  assumes good: "bluez_good st" and step: "core_step st st'"
  shows "refresh_step False (bluez_view st) (bluez_view st') \<and> bluez_good st'"
proof -
  have live: "bluez_good x = (rv_live (fst (bluez_core x)) \<longrightarrow> snd (bluez_core x))" for x :: "'a bluez_state"
    by (simp add: bluez_good_def bluez_core_def)
  have v: "bluez_view x = fst (bluez_core x)" for x :: "'a bluez_state" by (simp add: bluez_core_def)
  have started: "snd (bluez_core st) = bz_started st" by (simp add: bluez_core_def)
  consider (same) "bluez_core st' = bluez_core st" | (bumped) "bluez_core st' = bumped (bluez_core st)"
    | (owned) owner where "bluez_core st' = owned owner (bluez_core st)" "owner \<noteq> '''' \<longrightarrow> bz_started st"
    using step by (auto simp: core_step_def)
  then show ?thesis
  proof cases
    case same
    then show ?thesis using good refresh_step.quiet by (simp add: v live)
  next
    case bumped
    then show ?thesis using good refresh_step.notified [of "bluez_view st"] by (simp add: v live bumped_def)
  next
    case (owned owner)
    then show ?thesis
      using refresh_step.owner [of "bluez_view st" "owner \<noteq> ''''"] started by (simp add: v live owned_def)
  qed
qed

lemma bluez_start_ok:
  "bluez_good st \<Longrightarrow> refresh_step False (bluez_view st) (bluez_view (fst (bluez_start st))) \<and> bluez_good (fst (bluez_start st))"
proof -
  assume "bluez_good st"
  then have "bluez_good (fst (bluez_start st))" by (simp add: bluez_good_def bluez_start_def)
  moreover have "bluez_view (fst (bluez_start st)) = bluez_view st"
    by (simp add: bluez_start_def bluez_view_def)
  ultimately show ?thesis
    using refresh_step.quiet [of "bluez_view st"] by simp
qed

lemma bluez_stop_ok:
  assumes "bluez_good st"
  shows "refresh_step False (bluez_view st) (bluez_view (fst (bluez_stop st))) \<and> bluez_good (fst (bluez_stop st))"
proof (cases "bz_started st")
  case True
  let ?st1 = "(fst (with_agent agent_clear st))\<lparr>bz_started := False\<rparr>"
  have core: "bluez_core ?st1 = (bluez_view st, False)"
    using bluez_core_agent [of agent_clear st] by (simp add: bluez_core_def bluez_view_def)
  have "fst (bluez_stop st) = fst (bluez_set_owner '''' ?st1)"
    using True by (simp add: bluez_stop_def split_beta Let_def)
  then have stop: "bluez_core (fst (bluez_stop st)) = owned '''' (bluez_view st, False)"
    by (simp add: bluez_core_set_owner core)
  then have "\<not> rv_live (bluez_view (fst (bluez_stop st)))"
    by (simp add: bluez_core_def owned_def del: bluez_view_sel)
  then show ?thesis
    using refresh_step.owner [of "bluez_view st" False] stop
    by (simp add: bluez_core_def owned_def bluez_good_def)
next
  case False
  then show ?thesis using assms refresh_step.quiet by (simp add: bluez_stop_def)
qed

lemma bluez_step_ok:
  assumes good: "bluez_good st"
    and other: "\<And>i reply fresh. ev = BzRefreshReply i reply fresh \<Longrightarrow> \<not> i < length (bz_refresh_calls st)"
  shows "refresh_step False (bluez_view st) (bluez_view (fst (bluez_step q ev st))) \<and>
    bluez_good (fst (bluez_step q ev st))"
proof -
  have ?thesis if "core_step st (fst (bluez_step q ev st))" by (rule core_step_ok [OF good that])
  moreover have "core_step st (fst (bluez_step q ev st))" if "ev \<noteq> BzStart" "ev \<noteq> BzStop"
    using that
  proof (cases ev)
    case (BzRefreshReply i reply fresh)
    then show ?thesis using other by (simp add: bluez_refresh_reply_def core_step_same)
  qed (use good in \<open>simp_all add: core_step_same core_step_register_reply core_step_default_reply
      core_step_owner_reply core_step_execute core_step_timeout_reply core_step_visible_reply
      core_step_exec_reply core_step_agent_call bluez_owner_changed_def core_step_owner
      bluez_notified_def core_step_changed bluez_interfaces_removed_def Let_def bluez_timer_def
      split: list.split\<close>)
  ultimately show ?thesis using bluez_start_ok [OF good] bluez_stop_ok [OF good] by (cases ev) auto
qed

lemma bluez_refresh_reply_good:
  assumes "bluez_good st" and "i < length (bz_refresh_calls st)"
  shows "bluez_good (fst (bluez_refresh_reply q i reply fresh st))"
proof -
  obtain used where "refresh_answer i (bluez_view st) =
      (bluez_view (fst (bluez_refresh_reply q i reply fresh st)), used)"
    "bz_started (fst (bluez_refresh_reply q i reply fresh st)) = bz_started st"
    using bluez_refresh_reply_view [OF assms(2)] by blast
  moreover have "rv_live v' = rv_live v" if "refresh_answer i v = (v', u)" for v v' u
    by (cases rule: refresh_answer_cases [OF that]) simp_all
  ultimately show ?thesis using assms(1) by (metis bluez_good_def bluez_view_sel(4))
qed

text \<open>The events that report a change of the objects: the three signals sent by the owner of the service, and
  the replies to commands after which the backend asks for the objects again.\<close>

definition bluez_notifies :: "'v bluez_event \<Rightarrow> 'v bluez_state \<Rightarrow> bool" where
  "bluez_notifies ev st = (case ev of BzInterfacesAdded sender \<Rightarrow> sender = bz_owner st
     | BzInterfacesRemoved _ _ sender \<Rightarrow> sender = bz_owner st | BzPropertiesChanged sender \<Rightarrow> sender = bz_owner st
     | BzVisibleReply i _ \<Rightarrow> i < length (bz_visible_calls st) \<and> fst (bz_visible_calls st ! i) = bz_generation st
     | BzExecReply i _ \<Rightarrow> i < length (bz_exec_calls st) \<and>
         (case bz_exec_calls st ! i of (g, path, r, _) \<Rightarrow> g = bz_generation st \<and>
            (hash_default (bz_ids st) path = br_target r \<or> br_operation r = Forget))
     | _ \<Rightarrow> False)"

lemma bluez_notified_view:
  assumes good: "bluez_good st" and "bluez_notifies ev st"
  shows "bluez_view (fst (bluez_step q ev st)) = refresh_go (bluez_view st\<lparr>rv_rev := bz_revision st + 1\<rparr>)"
proof -
  have view: "bluez_view st' = refresh_go (bluez_view st\<lparr>rv_rev := bz_revision st + 1\<rparr>)"
    if "bluez_core st' = bumped (bluez_core st)" for st' :: "'a bluez_state"
    using that by (simp add: bluez_core_def bumped_def)
  have changed: "bluez_core (fst (bluez_changed st1)) = bumped (bluez_core st)" if "bluez_core st1 = bluez_core st" for st1
    using bluez_core_changed [of st1] bluez_good_core [OF that] good that by simp
  have "bluez_core (fst (bluez_step q ev st)) = bumped (bluez_core st)"
  proof (cases ev)
    case (BzExecReply i error)
    obtain g path result discovery where c: "bz_exec_calls st ! i = (g, path, result, discovery)"
      by (cases "bz_exec_calls st ! i") auto
    then show ?thesis using assms(2) BzExecReply
      by (auto simp: bluez_notifies_def bluez_exec_reply_def Let_def split_beta intro!: changed)
  next
    case (BzVisibleReply i error)
    then show ?thesis using assms(2)
      by (auto simp: bluez_notifies_def bluez_visible_reply_def Let_def split_beta intro!: changed)
  qed (use assms(2) in \<open>auto simp: bluez_notifies_def bluez_notified_def bluez_interfaces_removed_def Let_def
      intro!: changed\<close>)
  then show ?thesis by (rule view)
qed

text \<open>Only an operation that tells the application of the loss gives up the owner.\<close>

lemma owner_same [simp]:
  "bz_owner (fst (with_agent f st)) = bz_owner st" "bz_owner (fst (bluez_register_agent st)) = bz_owner st"
  "bz_owner (fst (bluez_request_default st)) = bz_owner st" "bz_owner (fst (bluez_refresh st)) = bz_owner st"
  "bz_owner (fst (bluez_changed st)) = bz_owner st" "bz_owner (fst (bluez_start st)) = bz_owner st"
  "bz_owner (fst (bluez_notified sender st)) = bz_owner st"
  "bz_owner (fst (bluez_interfaces_removed path interfaces sender st)) = bz_owner st"
  "bz_owner (fst (bluez_register_reply i error st)) = bz_owner st"
  "bz_owner (fst (bluez_default_reply i error st)) = bz_owner st"
  "bz_owner (fst (bluez_timer st)) = bz_owner st" "bz_owner (fst (bluez_timeout_reply i error st)) = bz_owner st"
  "bz_owner (fst (bluez_visible_reply i error st)) = bz_owner st"
  "bz_owner (fst (bluez_agent_call caller meth fresh st)) = bz_owner st"
  by (simp_all add: with_agent_def bluez_register_agent_def bluez_request_default_def bluez_refresh_def
      bluez_changed_def bluez_start_def bluez_notified_def bluez_interfaces_removed_def bluez_register_reply_def
      bluez_default_reply_def bluez_timer_def bluez_timeout_reply_def bluez_visible_reply_def bluez_agent_call_def
      split_beta Let_def split: option.split list.split)

lemma owner_exec [simp]:
  "bz_owner (fst (bluez_exec_reply i error st)) = bz_owner st"
  "bz_owner (fst (bluez_execute q rid op target v st)) = bz_owner st"
  by (simp_all add: bluez_exec_reply_def bluez_execute_def bluez_fail_def split_beta Let_def)

lemma set_owner_publishes [simp]: "bluez_publishes (xs @ snd (bluez_set_owner owner st))"
  by (simp add: bluez_set_owner_def split_beta Let_def bluez_publishes_def) blast

lemma bluez_owner_lost:
  assumes "bz_owner st \<noteq> ''''" and "bz_owner (fst (bluez_step q ev st)) = ''''"
    and "\<And>i reply fresh. ev \<noteq> BzRefreshReply i reply fresh"
  shows "bluez_publishes (snd (bluez_step q ev st))"
proof -
  note own = set_owner_publishes [of "[]", simplified]
  show ?thesis
  proof (cases ev)
    case BzStop
    have "bluez_publishes (snd (bluez_stop st))" if "bz_started st"
    proof -
      have "\<exists>xs owner st0. snd (bluez_stop st) = xs @ snd (bluez_set_owner owner st0)"
        unfolding bluez_stop_def split_beta Let_def using that
        by (simp only: not_True_eq_False if_False snd_conv append_assoc [symmetric]) blast
      then show ?thesis by auto
    qed
    then show ?thesis using assms BzStop by (auto simp: bluez_stop_def)
  qed (use assms own in \<open>auto simp: bluez_owner_reply_def bluez_owner_changed_def Let_def split: if_splits\<close>)
qed

lemma bluez_refresh_ends:
  assumes good: "bluez_good st" and busy: "bz_refreshing st" and live: "bz_owner st \<noteq> ''''"
    and idle: "\<not> bz_refreshing (fst (bluez_step q ev st))"
  shows "bluez_publishes (snd (bluez_step q ev st)) \<and> (bz_owner (fst (bluez_step q ev st)) = '''' \<or>
    (\<exists>k reply fresh. ev = BzRefreshReply k reply fresh \<and> k < length (bz_refresh_calls st) \<and>
       bz_refresh_calls st ! k = (bz_generation st, bz_revision st)))"
proof (cases "\<exists>k reply fresh. ev = BzRefreshReply k reply fresh")
  case True
  then obtain k reply fresh where ev: "ev = BzRefreshReply k reply fresh" by blast
  let ?r = "bluez_refresh_reply q k reply fresh st"
  have k: "k < length (bz_refresh_calls st)"
    by (rule ccontr) (use busy idle ev in \<open>simp add: bluez_refresh_reply_def\<close>)
  obtain used where ans: "refresh_answer k (bluez_view st) = (bluez_view (fst ?r), used)"
      "used \<longrightarrow> bluez_publishes (snd ?r)"
    using bluez_refresh_reply_view [OF k] by blast
  have "\<not> rv_busy (bluez_view (fst ?r))" using idle ev by simp
  with ans(1) have "used \<and> bz_refresh_calls st ! k = (bz_generation st, bz_revision st)"
    using busy live by (cases rule: refresh_answer_cases) simp_all
  then show ?thesis using ans(2) k ev by simp
next
  case False
  then have step: "refresh_step False (bluez_view st) (bluez_view (fst (bluez_step q ev st)))"
    using bluez_step_ok [OF good, of ev q] by blast
  have "rv_live (bluez_view (fst (bluez_step q ev st))) \<Longrightarrow> False"
    using refresh_step_busy(2) [OF step] busy idle by simp
  then have "bz_owner (fst (bluez_step q ev st)) = ''''" by auto
  then show ?thesis using bluez_owner_lost [OF live, of q ev] False by blast
qed

interpretation bluez: refreshing_client bluez_view bluez_good "bluez_step q" "bluez_init service path"
  "\<lambda>i (reply, fresh). BzRefreshReply i reply fresh" bluez_publishes bluez_notifies
  for q :: "'v qvariant_ops" and service path
proof unfold_locales
  show "bluez_view (bluez_init service path) = refresh_start"
    by (simp add: bluez_view_def bluez_init_def refresh_start_def)
  show "bluez_good (bluez_init service path)" by (simp add: bluez_good_def bluez_init_def)
  fix st :: "'v bluez_state" assume good: "bluez_good st"
  have reply: "bluez_good (fst (bluez_step q ev st)) \<and>
      (\<exists>used. refresh_step used (bluez_view st) (bluez_view (fst (bluez_step q ev st))) \<and>
        (used \<longrightarrow> bluez_publishes (snd (bluez_step q ev st))))" for ev
  proof (cases "\<exists>i reply fresh. ev = BzRefreshReply i reply fresh \<and> i < length (bz_refresh_calls st)")
    case True
    then obtain i reply fresh where ev: "ev = BzRefreshReply i reply fresh" and i: "i < length (bz_refresh_calls st)"
      by blast
    obtain used where u: "refresh_answer i (bluez_view st) =
        (bluez_view (fst (bluez_refresh_reply q i reply fresh st)), used)"
      "used \<longrightarrow> bluez_publishes (snd (bluez_refresh_reply q i reply fresh st))"
      using bluez_refresh_reply_view [OF i, of q reply fresh] by blast
    have "refresh_step used (bluez_view st) (bluez_view (fst (bluez_refresh_reply q i reply fresh st)))"
      by (rule refresh_step.answered [OF _ u(1)]) (use i in simp)
    then show ?thesis
      unfolding ev bluez_step.simps using bluez_refresh_reply_good [OF good i] u(2) by blast
  next
    case False
    then show ?thesis using bluez_step_ok [OF good, of ev q] by blast
  qed
  show "bluez_good (fst (bluez_step q ev st))" for ev using reply by blast
  show "\<exists>used. refresh_step used (bluez_view st) (bluez_view st') \<and> (used \<longrightarrow> bluez_publishes out)"
    if "bluez_step q ev st = (st', out)" for ev st' out
    using reply [of ev] that by simp
  show "\<exists>used. refresh_answer i (bluez_view st) =
      (bluez_view (fst (bluez_step q (case r of (reply, fresh) \<Rightarrow> BzRefreshReply i reply fresh) st)), used)"
    if "i < length (rv_calls (bluez_view st))" for i r
    using that bluez_refresh_reply_view [of i st q "fst r" "snd r"] by (auto simp: split_beta)
  show "bluez_view (fst (bluez_step q ev st)) = refresh_go (bluez_view st\<lparr>rv_rev := rv_rev (bluez_view st) + 1\<rparr>)"
    if "bluez_notifies ev st" for ev
    using bluez_notified_view [OF good that] by simp
  show "bluez_publishes out \<and> (\<not> rv_live (bluez_view st') \<or>
      (\<exists>i r. ev = (case r of (reply, fresh) \<Rightarrow> BzRefreshReply i reply fresh) \<and> i < length (rv_calls (bluez_view st)) \<and>
        rv_calls (bluez_view st) ! i = (rv_gen (bluez_view st), rv_rev (bluez_view st))))"
    if "bluez_step q ev st = (st', out)" "rv_busy (bluez_view st)" "rv_live (bluez_view st)" "\<not> rv_busy (bluez_view st')"
    for ev st' out
    using bluez_refresh_ends [OF good, of q ev] that by auto
qed

end
