(* ===== verification/BlueZ_Runs.thy ===== *)
theory BlueZ_Runs
  imports BlueZ_Refresh
begin

text \<open>
  Properties of the runs of \<open>BlueZBackend\<close>: refreshes are never lost, at most one discovery call per
  adapter is in flight, and an adapter is made visible only after its visibility timeout is set.
\<close>

section \<open>Runs\<close>

abbreviation bluez_run :: "'v qvariant_ops \<Rightarrow> string \<Rightarrow> string \<Rightarrow> 'v bluez_event list \<Rightarrow> 'v bluez_state" where
  "bluez_run q service path evs \<equiv> bluez.run q service path evs"

lemma bluez_run_eq:
  "bluez_run q service path evs = fold (\<lambda>ev st. fst (bluez_step q ev st)) evs (bluez_init service path)"
  by (rule bluez.run_def)



section \<open>Discovery calls\<close>

text \<open>The adapters with a discovery call of the current owner in flight.\<close>

definition discovery_calls :: "'v bluez_state \<Rightarrow> string list" where
  "discovery_calls st =
     map (\<lambda>(_, path, _). path) (filter (\<lambda>(g, _, _, d). d \<and> g = bz_generation st) (bz_exec_calls st))"

definition bluez_disc :: "'v bluez_state \<Rightarrow> 64 word \<times> (64 word \<times> string \<times> bt_result \<times> bool) list \<times> string list" where
  "bluez_disc st = (bz_generation st, bz_exec_calls st, bz_discovery_pending st)"

definition discovery_inv :: "nat \<Rightarrow> 'v bluez_state \<Rightarrow> bool" where
  "discovery_inv n st \<longleftrightarrow> unat (bz_generation st) \<le> n \<and>
     (\<forall>c \<in> set (bz_exec_calls st). fst c \<le> bz_generation st) \<and>
     distinct (bz_discovery_pending st) \<and> mset (discovery_calls st) = mset (bz_discovery_pending st)"

text \<open>An adapter that BlueZ removes.\<close>

definition adapter_removed :: "'v bluez_event \<Rightarrow> bool" where
  "adapter_removed ev = (case ev of BzInterfacesRemoved path interfaces sender \<Rightarrow>
     List.member interfaces adapter_interface | _ \<Rightarrow> False)"

lemma bluez_disc_update [simp]:
  "bluez_disc (st\<lparr>bz_agent := x1\<rparr>) = bluez_disc st" "bluez_disc (st\<lparr>bz_default_agent := b\<rparr>) = bluez_disc st"
  "bluez_disc (st\<lparr>bz_registered := b\<rparr>) = bluez_disc st" "bluez_disc (st\<lparr>bz_ids := x2\<rparr>) = bluez_disc st"
  "bluez_disc (st\<lparr>bz_device_adapters := x2\<rparr>) = bluez_disc st" "bluez_disc (st\<lparr>bz_adapters := x3\<rparr>) = bluez_disc st"
  "bluez_disc (st\<lparr>bz_discovery_owned := x3\<rparr>) = bluez_disc st" "bluez_disc (st\<lparr>bz_refreshing := b\<rparr>) = bluez_disc st"
  "bluez_disc (st\<lparr>bz_owner_calls := x4\<rparr>) = bluez_disc st" "bluez_disc (st\<lparr>bz_register_calls := x4\<rparr>) = bluez_disc st"
  "bluez_disc (st\<lparr>bz_default_calls := x4\<rparr>) = bluez_disc st" "bluez_disc (st\<lparr>bz_timeout_calls := x5\<rparr>) = bluez_disc st"
  "bluez_disc (st\<lparr>bz_visible_calls := x6\<rparr>) = bluez_disc st" "bluez_disc (st\<lparr>bz_refresh_calls := x7\<rparr>) = bluez_disc st"
  "bluez_disc (st\<lparr>bz_timers := x8\<rparr>) = bluez_disc st" "bluez_disc (st\<lparr>bz_started := b\<rparr>) = bluez_disc st"
  "bluez_disc (st\<lparr>bz_revision := x9\<rparr>) = bluez_disc st" "bluez_disc (st\<lparr>bz_owner := x10\<rparr>) = bluez_disc st"
  by (simp_all add: bluez_disc_def)

lemma bluez_disc_ops [simp]:
  "bluez_disc (fst (with_agent f st)) = bluez_disc st"
  "bluez_disc (fst (bluez_register_agent st)) = bluez_disc st"
  "bluez_disc (fst (bluez_request_default st)) = bluez_disc st"
  "bluez_disc (fst (bluez_refresh st)) = bluez_disc st"
  by (simp_all add: with_agent_def bluez_register_agent_def bluez_request_default_def bluez_refresh_def
      split_beta Let_def)

lemma bluez_disc_changed [simp]: "bluez_disc (fst (bluez_changed st)) = bluez_disc st"
  by (simp add: bluez_changed_def Let_def)

lemma bluez_disc_set_owner:
  "bluez_disc (fst (bluez_set_owner owner st)) = (bz_generation st + 1, bz_exec_calls st, [])"
  by (simp add: bluez_set_owner_def split_beta Let_def) (simp add: bluez_disc_def)

lemma bluez_disc_refresh_reply:
  "bluez_disc (fst (bluez_refresh_reply q i reply fresh st)) = bluez_disc st"
  by (simp add: bluez_refresh_reply_def bluez_publish_def split_beta Let_def split: option.split)

lemma bluez_disc_simple:
  "bluez_disc (fst (bluez_start st)) = bluez_disc st"
  "bluez_disc (fst (bluez_notified sender st)) = bluez_disc st"
  "bluez_disc (fst (bluez_register_reply i error st)) = bluez_disc st"
  "bluez_disc (fst (bluez_default_reply i error st)) = bluez_disc st"
  "bluez_disc (fst (bluez_timeout_reply i error st)) = bluez_disc st"
  "bluez_disc (fst (bluez_visible_reply i error st)) = bluez_disc st"
  "bluez_disc (fst (bluez_timer st)) = bluez_disc st"
  "bluez_disc (fst (bluez_agent_call caller meth fresh st)) = bluez_disc st"
  by (simp_all add: bluez_start_def bluez_notified_def bluez_register_reply_def bluez_default_reply_def
      bluez_timeout_reply_def bluez_visible_reply_def bluez_timer_def bluez_agent_call_def
      split_beta Let_def split: option.split list.split)

lemma discovery_inv_cong: "bluez_disc st' = bluez_disc st \<Longrightarrow> discovery_inv n st \<Longrightarrow> discovery_inv n st'"
  by (simp add: bluez_disc_def discovery_inv_def discovery_calls_def)

lemma discovery_inv_mono: "discovery_inv n st \<Longrightarrow> n \<le> m \<Longrightarrow> discovery_inv m st"
  by (auto simp: discovery_inv_def)

lemma discovery_inv_owner:
  assumes "discovery_inv n st" and "Suc n < 2 ^ 64"
    and "bluez_disc st' = (bz_generation st + 1, bz_exec_calls st, [])"
  shows "discovery_inv (Suc n) st'"
proof -
  have n: "unat (bz_generation st) \<le> n" and old: "\<forall>c \<in> set (bz_exec_calls st). fst c \<le> bz_generation st"
    using assms(1) by (simp_all add: discovery_inv_def)
  note nx = word_next [OF n assms(2)]
  have st': "bz_generation st' = bz_generation st + 1" "bz_exec_calls st' = bz_exec_calls st"
    "bz_discovery_pending st' = []" using assms(3) by (simp_all add: bluez_disc_def)
  have "filter (\<lambda>(g, _, _, d). d \<and> g = bz_generation st + 1) (bz_exec_calls st) = []"
    using old nx(3) by (fastforce simp: filter_empty_conv)
  then show ?thesis
    using old n nx(1,2) by (auto simp: discovery_inv_def discovery_calls_def st')
qed

lemma mset_remove_row_diff: "i < length xs \<Longrightarrow> mset (remove_row i xs) = mset xs - {#xs ! i#}"
  by (simp add: mset_remove_row)

lemma discovery_calls_mset:
  "mset (discovery_calls st) = image_mset (\<lambda>(_, path, _). path)
     (filter_mset (\<lambda>(g, _, _, d). d \<and> g = bz_generation st) (mset (bz_exec_calls st)))"
  by (simp add: discovery_calls_def)


lemma mset_removeAll_distinct: "distinct xs \<Longrightarrow> mset (removeAll x xs) = mset xs - {#x#}"
  by (simp add: distinct_remove1_removeAll [symmetric])

text \<open>The three outcomes of a command: it is refused or already done and reported from the event loop,
  its visibility timeout is written first, or its call is sent.\<close>

abbreviation command_result_of :: "string \<Rightarrow> bt_operation \<Rightarrow> string \<Rightarrow> bt_result" where
  "command_result_of rid op target \<equiv> \<lparr>br_request = rid, br_target = target, br_operation = op,
     br_error_name = '''', br_error_message = ''''\<rparr>"

abbreviation after_cancel :: "bt_operation \<Rightarrow> 'v bluez_state \<Rightarrow> 'v bluez_state \<times> 'v bluez_output list" where
  "after_cancel op st \<equiv> (if op = CancelPairing then with_agent agent_clear st else (st, []))"

lemma bluez_execute_cases:
  obtains (refused) r where "bluez_execute q rid op target v st = (st\<lparr>bz_timers := bz_timers st @ [r]\<rparr>, [])"
    and "br_request r = rid" and "br_target r = target" and "br_operation r = op"
  | (timeout) path where "op = Discoverable" and "qv_bool q v"
    and "bluez_execute q rid op target v st =
      ((fst (after_cancel op st))\<lparr>bz_timeout_calls := bz_timeout_calls (fst (after_cancel op st)) @
          [(bz_generation (fst (after_cancel op st)), command_result_of rid op target, v)]\<rparr>,
       snd (after_cancel op st) @ [BzCall (bz_owner (fst (after_cancel op st))) path properties_interface ''Set''
          [BzText adapter_interface, BzText ''DiscoverableTimeout'', BzSeconds 180]])"
  | (call) path callPath interface
    where "\<not> (op = Discoverable \<and> qv_bool q v)"
    and "is_discovery op \<longrightarrow> path \<notin> set (bz_discovery_pending st)"
    and "bluez_execute q rid op target v st =
      ((fst (after_cancel op st))\<lparr>bz_discovery_pending := (if is_discovery op
            then set_insert path (bz_discovery_pending (fst (after_cancel op st)))
            else bz_discovery_pending (fst (after_cancel op st))),
          bz_exec_calls := bz_exec_calls (fst (after_cancel op st)) @
            [(bz_generation (fst (after_cancel op st)), path, command_result_of rid op target, is_discovery op)]\<rparr>,
       snd (after_cancel op st) @ [BzCall (bz_owner (fst (after_cancel op st))) callPath interface
         (operation_member op) (if op = Forget then [BzPath path] else if operation_property op \<noteq> '''' then
            [BzText (if is_adapter_operation op then adapter_interface else device_interface),
             BzText (operation_property op), BzVariant v] else [])])"
    and "path = hash_key (bz_ids st) target" and "path \<noteq> ''''"
proof -
  let ?path = "hash_key (bz_ids st) target"
  let ?refused = "?path = '''' \<or> bz_owner st = '''' \<or> op = PairDevice \<and> \<not> bz_registered st \<or>
    is_adapter_operation op \<noteq> List.member (bz_adapters st) ?path \<or>
    is_discovery op \<and> List.member (bz_discovery_pending st) ?path \<or>
    is_discovery op \<and> (op = StartDiscovery) = List.member (bz_discovery_owned st) ?path"
  show thesis
  proof (cases ?refused)
    case True
    define good where "good x \<longleftrightarrow> (\<exists>r. x = (st\<lparr>bz_timers := bz_timers st @ [r]\<rparr>, [] :: 'a bluez_output list) \<and>
        br_request r = rid \<and> br_target r = target \<and> br_operation r = op)" for x
    have fail: "good (bluez_fail e res st)"
      if "br_request res = rid" "br_target res = target" "br_operation res = op" for e res
      unfolding good_def bluez_fail_def by (rule exI) (rule conjI, rule refl, use that in simp)
    have already: "good (st\<lparr>bz_timers := bz_timers st @ [command_result_of rid op target]\<rparr>, [])"
      unfolding good_def by (rule exI) (rule conjI, rule refl, simp)
    have "good (bluez_execute q rid op target v st)"
      unfolding bluez_execute_def Let_def using True by (elim disjE) (simp_all add: fail already)
    then obtain r where "bluez_execute q rid op target v st = (st\<lparr>bz_timers := bz_timers st @ [r]\<rparr>, [])"
      "br_request r = rid" "br_target r = target" "br_operation r = op" unfolding good_def by blast
    then show thesis using refused by blast
  next
    case False
    then have n: "(?path = '''' \<or> bz_owner st = '''') = False" "(op = PairDevice \<and> \<not> bz_registered st) = False"
      "(is_adapter_operation op \<noteq> List.member (bz_adapters st) ?path) = False"
      "(is_discovery op \<and> List.member (bz_discovery_pending st) ?path) = False"
      "(is_discovery op \<and> (op = StartDiscovery) = List.member (bz_discovery_owned st) ?path) = False"
      by blast+
    have new: "is_discovery op \<longrightarrow> ?path \<notin> set (bz_discovery_pending st)" using n(4) by simp
    note unfold = bluez_execute_def Let_def split_beta n if_False
    show thesis
    proof (cases "op = Discoverable \<and> qv_bool q v")
      case True
      show thesis
        by (rule timeout [of ?path], use True in blast, use True in blast) (unfold unfold, simp only: True simp_thms if_True)
    next
      case no: False
      show thesis
        by (rule call [OF no new _ refl]) (unfold unfold, simp only: no if_False, use n(1) in blast)
    qed
  qed
qed

text \<open>A command adds a discovery call only for an adapter that has none.\<close>

lemma bluez_disc_execute:
  "bluez_disc (fst (bluez_execute q rid op t v st)) = bluez_disc st \<or>
   (\<exists>path result. bluez_disc (fst (bluez_execute q rid op t v st)) =
      (bz_generation st, bz_exec_calls st @ [(bz_generation st, path, result, is_discovery op)],
       if is_discovery op then set_insert path (bz_discovery_pending st) else bz_discovery_pending st) \<and>
      (is_discovery op \<longrightarrow> path \<notin> set (bz_discovery_pending st)))"
proof -
  have keep: "bz_generation (fst (with_agent agent_clear st)) = bz_generation st"
    "bz_exec_calls (fst (with_agent agent_clear st)) = bz_exec_calls st"
    "bz_discovery_pending (fst (with_agent agent_clear st)) = bz_discovery_pending st"
    using bluez_disc_ops(1) [of agent_clear st] unfolding bluez_disc_def by simp_all
  show ?thesis
  proof (cases rule: bluez_execute_cases [of q rid op t v st])
    case (call path callPath interface)
    then have "bluez_disc (fst (bluez_execute q rid op t v st)) =
        (bz_generation st, bz_exec_calls st @ [(bz_generation st, path, command_result_of rid op t, is_discovery op)],
         if is_discovery op then set_insert path (bz_discovery_pending st) else bz_discovery_pending st)"
      by (simp add: bluez_disc_def keep)
    then show ?thesis using call(2) by blast
  qed simp_all
qed

lemma discovery_inv_add:
  assumes inv: "discovery_inv n st"
    and st': "bluez_disc st' = (bz_generation st, bz_exec_calls st @ [(bz_generation st, path, result, d)],
       if d then set_insert path (bz_discovery_pending st) else bz_discovery_pending st)"
    and new: "d \<longrightarrow> path \<notin> set (bz_discovery_pending st)"
  shows "discovery_inv n st'"
proof -
  have 1: "bz_generation st' = bz_generation st"
    "bz_exec_calls st' = bz_exec_calls st @ [(bz_generation st, path, result, d)]"
    "bz_discovery_pending st' = (if d then bz_discovery_pending st @ [path] else bz_discovery_pending st)"
    using st' new by (simp_all add: bluez_disc_def set_insert_def split: if_splits)
  have "discovery_calls st' = discovery_calls st @ (if d then [path] else [])"
    by (simp add: discovery_calls_def 1(1,2))
  then show ?thesis using inv new by (simp add: discovery_inv_def 1)
qed

text \<open>The reply to a call takes it out together with its mark.\<close>

lemma bluez_disc_exec_reply:
  assumes "i < length (bz_exec_calls st)" and "bz_exec_calls st ! i = (g, path, result, d)"
  shows "bluez_disc (fst (bluez_exec_reply i error st)) =
    (bz_generation st, remove_row i (bz_exec_calls st),
     if g = bz_generation st \<and> d then removeAll path (bz_discovery_pending st) else bz_discovery_pending st)"
proof -
  let ?st1 = "st\<lparr>bz_exec_calls := remove_row i (bz_exec_calls st)\<rparr>"
  have 1: "bluez_disc ?st1 = (bz_generation st, remove_row i (bz_exec_calls st), bz_discovery_pending st)"
    by (simp add: bluez_disc_def)
  have 2: "bluez_disc (?st1\<lparr>bz_discovery_pending := removeAll path (bz_discovery_pending st)\<rparr>) =
      (bz_generation st, remove_row i (bz_exec_calls st), removeAll path (bz_discovery_pending st))"
    by (simp add: bluez_disc_def)
  show ?thesis
    unfolding bluez_exec_reply_def using assms by (simp add: Let_def split_beta 1 2)
qed

lemma discovery_inv_exec_reply:
  assumes inv: "discovery_inv n st"
  shows "discovery_inv n (fst (bluez_exec_reply i error st))"
proof (cases "i < length (bz_exec_calls st)")
  case True
  obtain g path result d where c: "bz_exec_calls st ! i = (g, path, result, d)" by (metis prod_cases4)
  let ?st' = "fst (bluez_exec_reply i error st)" and ?own = "g = bz_generation st \<and> d"
  have st': "bz_generation ?st' = bz_generation st" "bz_exec_calls ?st' = remove_row i (bz_exec_calls st)"
    "bz_discovery_pending ?st' =
      (if ?own then removeAll path (bz_discovery_pending st) else bz_discovery_pending st)"
    using bluez_disc_exec_reply [OF True c, of error] unfolding bluez_disc_def by simp_all
  have mem: "(g, path, result, d) \<in># mset (bz_exec_calls st)" using nth_mem [OF True] c by simp
  have "mset (discovery_calls ?st') = mset (discovery_calls st) - (if ?own then {#path#} else {#})"
  proof (cases ?own)
    case own: True
    then have "(g, path, result, d) \<in># filter_mset (\<lambda>(g, _, _, d). d \<and> g = bz_generation st)
        (mset (bz_exec_calls st))"
      using mem by simp
    then show ?thesis
      using own by (simp add: discovery_calls_mset st' mset_remove_row_diff [OF True] c image_mset_Diff)
  next
    case False
    then show ?thesis
      by (simp add: discovery_calls_mset st' mset_remove_row_diff [OF True] c) (auto simp: image_mset_Diff)
  qed
  moreover have "mset (bz_discovery_pending ?st') =
      mset (bz_discovery_pending st) - (if ?own then {#path#} else {#})"
    using inv by (simp add: st' discovery_inv_def mset_removeAll_distinct)
  moreover have "distinct (bz_discovery_pending ?st')"
    using inv by (simp add: st' discovery_inv_def distinct_removeAll)
  moreover have "\<forall>c \<in> set (bz_exec_calls ?st'). fst c \<le> bz_generation ?st'"
    using inv remove_row_set [of i "bz_exec_calls st"] by (auto simp: st' discovery_inv_def)
  ultimately show ?thesis
    using inv by (simp add: discovery_inv_def st'(1))
next
  case False
  then show ?thesis using inv by (simp add: bluez_exec_reply_def)
qed

lemma bluez_disc_cases:
  assumes "\<not> adapter_removed ev" and "\<And>i error. ev \<noteq> BzExecReply i error" and "\<And>rid op t v. ev \<noteq> BzExecute rid op t v"
  shows "bluez_disc (fst (bluez_step q ev st)) = bluez_disc st \<or>
    bluez_disc (fst (bluez_step q ev st)) = (bz_generation st + 1, bz_exec_calls st, [])"
proof (cases ev)
  case BzStop
  let ?st1 = "(fst (with_agent agent_clear st))\<lparr>bz_started := False\<rparr>"
  have "bluez_disc ?st1 = bluez_disc st" by simp
  then show ?thesis
    using BzStop bluez_disc_set_owner [of "''''" ?st1]
    by (auto simp: bluez_stop_def split_beta Let_def bluez_disc_def)
next
  case (BzOwnerReply i reply)
  have "bluez_disc (st\<lparr>bz_owner_calls := x\<rparr>) = bluez_disc st" for x by simp
  then show ?thesis
    using BzOwnerReply
    by (simp add: bluez_owner_reply_def Let_def bluez_disc_set_owner)
next
  case (BzInterfacesRemoved path interfaces sender)
  then have "\<not> List.member interfaces adapter_interface" using assms(1) by (simp add: adapter_removed_def)
  moreover have "bluez_disc (st\<lparr>bz_ids := x, bz_discovery_owned := bz_discovery_owned st,
      bz_discovery_pending := bz_discovery_pending st\<rparr>) = bluez_disc st" for x
    by (simp add: bluez_disc_def)
  ultimately show ?thesis
    using BzInterfacesRemoved by (simp add: bluez_interfaces_removed_def Let_def)
qed (use assms in \<open>simp_all add: bluez_disc_simple bluez_disc_refresh_reply bluez_owner_changed_def
    bluez_disc_set_owner\<close>)

lemma discovery_inv_step:
  assumes inv: "discovery_inv n st" and "\<not> adapter_removed ev" and "Suc n < 2 ^ 64"
  shows "discovery_inv (Suc n) (fst (bluez_step q ev st))"
proof -
  consider (exec) i error where "ev = BzExecReply i error" | (execute) rid op t v where "ev = BzExecute rid op t v"
    | (other) "\<And>i error. ev \<noteq> BzExecReply i error" "\<And>rid op t v. ev \<noteq> BzExecute rid op t v" by blast
  then show ?thesis
  proof cases
    case exec
    then show ?thesis
      using discovery_inv_mono [OF discovery_inv_exec_reply [OF inv], of "Suc n" i error] by simp
  next
    case execute
    have "discovery_inv n (fst (bluez_execute q rid op t v st))"
      using bluez_disc_execute [of q rid op t v st] discovery_inv_cong [OF _ inv] discovery_inv_add [OF inv]
      by blast
    then show ?thesis using execute discovery_inv_mono [of n _ "Suc n"] by simp
  next
    case other
    then show ?thesis
      using bluez_disc_cases [OF assms(2) other, of q st] discovery_inv_cong [OF _ inv]
        discovery_inv_owner [OF inv assms(3)] discovery_inv_mono [of n _ "Suc n"] by (meson le_SucI order_refl)
  qed
qed

lemma discovery_inv_run:
  "length evs < 2 ^ 64 \<Longrightarrow> \<forall>ev \<in> set evs. \<not> adapter_removed ev \<Longrightarrow>
   discovery_inv (length evs) (bluez_run q service path evs)"
proof (induction evs rule: rev_induct)
  case Nil
  have "bluez_run q service path [] = bluez_init service path" by (simp add: bluez.run_def)
  then show ?case by (simp add: bluez_init_def discovery_inv_def discovery_calls_def)
next
  case (snoc ev evs)
  then have "discovery_inv (length evs) (bluez_run q service path evs)" "\<not> adapter_removed ev"
    "Suc (length evs) < 2 ^ 64" by simp_all
  from discovery_inv_step [OF this, of q] show ?case by (simp add: bluez.run_snoc)
qed

lemma count_discovery_calls:
  "count (mset (discovery_calls st)) path =
   length (filter (\<lambda>(g, path', _, d). d \<and> g = bz_generation st \<and> path' = path) (bz_exec_calls st))"
proof -
  have "count (mset (map (\<lambda>(_, p, _). p) (filter (\<lambda>(g, _, _, d). d \<and> g = k) cs))) path =
      length (filter (\<lambda>(g, path', _, d). d \<and> g = k \<and> path' = path) cs)"
    for k and cs :: "(64 word \<times> string \<times> bt_result \<times> bool) list"
    by (induction cs) auto
  then show ?thesis by (simp add: discovery_calls_def)
qed

text \<open>C26. In a run in which BlueZ removes no adapter, every adapter has at most one discovery call of the current
  owner in flight, namely exactly one while it is marked as pending, and a command to start or to stop the
  discovery of such an adapter sends nothing: it is reported as busy from the event loop.\<close>

theorem bluez_one_discovery_call:
  assumes "length evs < 2 ^ 64" and "\<forall>ev \<in> set evs. \<not> adapter_removed ev"
    and st: "st = bluez_run q service root evs"
  shows "length (filter (\<lambda>(g, path', _, d). d \<and> g = bz_generation st \<and> path' = path) (bz_exec_calls st)) =
      (if path \<in> set (bz_discovery_pending st) then 1 else 0) \<and>
    (path \<in> set (bz_discovery_pending st) \<and> hash_key (bz_ids st) target = path \<and> path \<noteq> '''' \<and>
        path \<in> set (bz_adapters st) \<and> bz_owner st \<noteq> '''' \<and> op \<in> {StartDiscovery, StopDiscovery} \<longrightarrow>
      bluez_step q (BzExecute rid op target v) st =
        (st\<lparr>bz_timers := bz_timers st @ [(command_result_of rid op target)
           \<lparr>br_error_name := ''org.holonight.Bluetooth.Busy'', br_error_message := ''Busy''\<rparr>]\<rparr>, []))"
proof
  have inv: "discovery_inv (length evs) st" using discovery_inv_run [OF assms(1,2)] st by simp
  have "length (filter (\<lambda>(g, path', _, d). d \<and> g = bz_generation st \<and> path' = path) (bz_exec_calls st)) =
      count (mset (bz_discovery_pending st)) path"
    using inv by (simp add: discovery_inv_def flip: count_discovery_calls)
  also have "\<dots> = (if path \<in> set (bz_discovery_pending st) then 1 else 0)"
    using inv by (simp add: discovery_inv_def distinct_count_atmost_1)
  finally show "length (filter (\<lambda>(g, path', _, d). d \<and> g = bz_generation st \<and> path' = path) (bz_exec_calls st)) =
      (if path \<in> set (bz_discovery_pending st) then 1 else 0)" .
qed (auto simp: bluez_execute_def bluez_fail_def is_adapter_operation_def is_discovery_def Let_def)


section \<open>Visibility\<close>

text \<open>A write that makes an adapter visible, and the write of the timeout that must come first.\<close>

definition visible_call :: "'v qvariant_ops \<Rightarrow> 'v \<Rightarrow> 'v bluez_output \<Rightarrow> bool" where
  "visible_call q v out \<longleftrightarrow> qv_bool q v \<and> (\<exists>owner path. out = BzCall owner path properties_interface ''Set''
     [BzText adapter_interface, BzText ''Discoverable'', BzVariant v])"

definition timeout_call :: "'v bluez_output \<Rightarrow> bool" where
  "timeout_call out \<longleftrightarrow> (\<exists>owner path. out = BzCall owner path properties_interface ''Set''
     [BzText adapter_interface, BzText ''DiscoverableTimeout'', BzSeconds 180])"

lemma visible_call_simps [simp]:
  "\<not> visible_call q v (BzAgentOutput x1)" "\<not> visible_call q v (BzSnapshot x2 x3 x4)"
  "\<not> visible_call q v (BzFinished x5)" "\<not> visible_call q v (BzDiagnostic x6 x7)"
  "\<not> visible_call q v (BzGetManagedObjects x8)" "\<not> visible_call q v (BzGetNameOwner x8)"
  "\<not> visible_call q v (BzSubscribe x8)" "\<not> visible_call q v (BzUnsubscribe x8)"
  "\<not> visible_call q v (BzRegisterObject x8)" "\<not> visible_call q v (BzUnregisterObject x8)"
  "m \<noteq> ''Set'' \<Longrightarrow> \<not> visible_call q v (BzCall owner path iface m args)"
  by (simp_all add: visible_call_def)

definition no_visible :: "'v qvariant_ops \<Rightarrow> 'v \<Rightarrow> 'v bluez_output list \<Rightarrow> bool" where
  "no_visible q v outs \<longleftrightarrow> (\<forall>out \<in> set outs. \<not> visible_call q v out)"

lemma no_visible_simps [simp]:
  "no_visible q v []" "no_visible q v (out # outs) = (\<not> visible_call q v out \<and> no_visible q v outs)"
  "no_visible q v (outs @ outs') = (no_visible q v outs \<and> no_visible q v outs')"
  "no_visible q v (map BzAgentOutput x)"
  "m \<noteq> ''Set'' \<Longrightarrow> no_visible q v (map (\<lambda>p. BzCall (owner p) (path p) iface m (args p)) ps)"
  by (auto simp: no_visible_def)

text \<open>The timeout calls of a later state, and whether the step wrote a visibility.\<close>

definition visible_quiet :: "'v qvariant_ops \<Rightarrow> 'v \<Rightarrow> 'v bluez_state \<Rightarrow> 'v bluez_state \<times> 'v bluez_output list \<Rightarrow> bool" where
  "visible_quiet q v st r \<longleftrightarrow> set (bz_timeout_calls (fst r)) \<subseteq> set (bz_timeout_calls st) \<and> no_visible q v (snd r)"

lemma visible_quiet_ops:
  "bz_timeout_calls (fst (with_agent f st)) = bz_timeout_calls st" "no_visible q v (snd (with_agent f st))"
  "bz_timeout_calls (fst (bluez_register_agent st)) = bz_timeout_calls st"
  "no_visible q v (snd (bluez_register_agent st))"
  "bz_timeout_calls (fst (bluez_request_default st)) = bz_timeout_calls st"
  "no_visible q v (snd (bluez_request_default st))"
  "bz_timeout_calls (fst (bluez_refresh st)) = bz_timeout_calls st" "no_visible q v (snd (bluez_refresh st))"
  by (simp_all add: with_agent_def bluez_register_agent_def bluez_request_default_def bluez_refresh_def
      split_beta Let_def)

lemma visible_quiet_changed:
  "bz_timeout_calls (fst (bluez_changed st)) = bz_timeout_calls st" "no_visible q v (snd (bluez_changed st))"
  by (simp_all add: bluez_changed_def Let_def visible_quiet_ops)

lemma visible_quiet_owner:
  "bz_timeout_calls (fst (bluez_set_owner owner st)) = bz_timeout_calls st"
  "no_visible q v (snd (bluez_set_owner owner st))"
  by (simp_all add: bluez_set_owner_def split_beta Let_def visible_quiet_ops)

lemmas visible_quiet_base = visible_quiet_ops visible_quiet_changed visible_quiet_owner

lemma visible_quiet_simple:
  "visible_quiet q v st (bluez_start st)" "visible_quiet q v st (bluez_notified sender st)"
  "visible_quiet q v st (bluez_owner_changed owner st)"
  "visible_quiet q v st (bluez_register_reply i error st)" "visible_quiet q v st (bluez_default_reply i error st)"
  "visible_quiet q v st (bluez_visible_reply i error st)" "visible_quiet q v st (bluez_timer st)"
  "visible_quiet q v st (bluez_owner_reply i reply st)" "visible_quiet q v st (bluez_request_default st)"
  "visible_quiet q v st (bluez_interfaces_removed path interfaces sender st)"
  "visible_quiet q v st (with_agent f st)"
  by (simp_all add: visible_quiet_base visible_quiet_def bluez_start_def bluez_notified_def bluez_owner_changed_def
      bluez_register_reply_def bluez_default_reply_def bluez_visible_reply_def bluez_timer_def
      bluez_owner_reply_def bluez_interfaces_removed_def split_beta Let_def
      split: option.split list.split)

lemma visible_quiet_stop: "visible_quiet q v st (bluez_stop st)"
  by (simp add: visible_quiet_base visible_quiet_def bluez_stop_def split_beta Let_def)

lemma visible_quiet_refresh_reply: "visible_quiet q v st (bluez_refresh_reply q i reply fresh st)"
  by (simp add: visible_quiet_base visible_quiet_def bluez_refresh_reply_def bluez_publish_def split_beta Let_def
      split: option.split)

lemma visible_quiet_agent_call: "visible_quiet q v st (bluez_agent_call caller meth fresh st)"
  by (simp add: visible_quiet_base visible_quiet_def bluez_agent_call_def split_beta Let_def split: option.split)

lemma visible_quiet_exec_reply: "visible_quiet q v st (bluez_exec_reply i error st)"
  by (simp add: visible_quiet_base visible_quiet_def bluez_exec_reply_def split_beta Let_def)


lemma visible_execute:
  "no_visible q v (snd (bluez_execute q rid op target w st))"
  "c \<in> set (bz_timeout_calls (fst (bluez_execute q rid op target w st))) \<Longrightarrow>
   c \<in> set (bz_timeout_calls st) \<or> op = Discoverable \<and> br_target (fst (snd c)) = target \<and> snd (snd c) = w \<and>
     (\<exists>out \<in> set (snd (bluez_execute q rid op target w st)). timeout_call out)"
proof -
  have st1: "bz_timeout_calls (fst (after_cancel op st)) = bz_timeout_calls st"
    "no_visible q v (snd (after_cancel op st))"
    by (simp_all add: visible_quiet_base)
  show "no_visible q v (snd (bluez_execute q rid op target w st))"
  proof (cases rule: bluez_execute_cases [of q rid op target w st])
    case call
    then show ?thesis using st1(2) by (cases op) (auto simp: visible_call_def)
  qed (use st1(2) in \<open>auto simp: visible_call_def\<close>)
  assume "c \<in> set (bz_timeout_calls (fst (bluez_execute q rid op target w st)))"
  then show "c \<in> set (bz_timeout_calls st) \<or> op = Discoverable \<and> br_target (fst (snd c)) = target \<and> snd (snd c) = w \<and>
     (\<exists>out \<in> set (snd (bluez_execute q rid op target w st)). timeout_call out)"
    by (cases rule: bluez_execute_cases [of q rid op target w st])
      (use st1(1) in \<open>auto simp: timeout_call_def\<close>)
qed

lemma visible_timeout_reply:
  "set (bz_timeout_calls (fst (bluez_timeout_reply i error st))) \<subseteq> set (bz_timeout_calls st)"
  "\<not> no_visible q v (snd (bluez_timeout_reply i error st)) \<Longrightarrow> error = None \<and> i < length (bz_timeout_calls st) \<and>
     snd (snd (bz_timeout_calls st ! i)) = v"
  using remove_row_set [of i "bz_timeout_calls st"]
  by (auto simp: bluez_timeout_reply_def Let_def split_beta visible_call_def no_visible_def
      split: option.splits if_splits)

lemma visible_step:
  assumes "\<And>i error. ev \<noteq> BzTimeoutReply i error" and "\<And>rid op t w. ev \<noteq> BzExecute rid op t w"
  shows "visible_quiet q v st (bluez_step q ev st)"
  by (cases ev) (use assms in \<open>simp_all add: visible_quiet_simple visible_quiet_stop visible_quiet_refresh_reply
    visible_quiet_agent_call visible_quiet_exec_reply\<close>)

text \<open>Every timeout call in flight goes back to the command that sent it.\<close>

lemma timeout_call_origin:
  "c \<in> set (bz_timeout_calls (bluez_run q service root evs)) \<Longrightarrow>
   \<exists>before rid after. evs = before @ [BzExecute rid Discoverable (br_target (fst (snd c))) (snd (snd c))] @ after \<and>
     (\<exists>out \<in> set (snd (bluez_step q (BzExecute rid Discoverable (br_target (fst (snd c))) (snd (snd c)))
        (bluez_run q service root before))). timeout_call out)"
proof (induction evs rule: rev_induct)
  case Nil
  have "bluez_run q service root [] = bluez_init service root" by (simp add: bluez.run_def)
  then show ?case using Nil by (simp add: bluez_init_def)
next
  case (snoc ev evs)
  let ?st = "bluez_run q service root evs"
  have mem: "c \<in> set (bz_timeout_calls (fst (bluez_step q ev ?st)))"
    using snoc.prems by (simp add: bluez.run_snoc)
  consider (old) "c \<in> set (bz_timeout_calls ?st)"
    | (new) rid where "ev = BzExecute rid Discoverable (br_target (fst (snd c))) (snd (snd c))"
        "\<exists>out \<in> set (snd (bluez_step q ev ?st)). timeout_call out"
  proof (cases "\<exists>rid op t w. ev = BzExecute rid op t w")
    case True
    then obtain rid op t w where "ev = BzExecute rid op t w" by blast
    then show thesis using that mem visible_execute(2) [of c q rid op t w ?st] by auto
  next
    case noexec: False
    then show thesis
    proof (cases "\<exists>i error. ev = BzTimeoutReply i error")
      case True
      then obtain i error where "ev = BzTimeoutReply i error" by blast
      then show thesis using that(1) mem visible_timeout_reply(1) [of i error ?st] by auto
    next
      case False
      then have "visible_quiet q (snd (snd c)) ?st (bluez_step q ev ?st)"
        using noexec by (intro visible_step) blast+
      then show thesis using that(1) mem by (auto simp: visible_quiet_def)
    qed
  qed
  then show ?case
  proof cases
    case old
    from snoc.IH [OF this] obtain before rid after where 1:
      "evs = before @ [BzExecute rid Discoverable (br_target (fst (snd c))) (snd (snd c))] @ after"
      "\<exists>out \<in> set (snd (bluez_step q (BzExecute rid Discoverable (br_target (fst (snd c))) (snd (snd c)))
        (bluez_run q service root before))). timeout_call out"
      by blast
    show ?thesis by (rule exI [of _ before], rule exI [of _ rid], rule exI [of _ "after @ [ev]"]) (use 1 in simp)
  next
    case (new rid)
    show ?thesis by (rule exI [of _ evs], rule exI [of _ rid], rule exI [of _ "[]"]) (use new in simp)
  qed
qed

text \<open>An adapter is made visible only in answer to the successful write of its visibility timeout: the
  write of \<open>Discoverable\<close> is sent in the step that receives this success, and the timeout write itself
  was sent by an earlier command that asked for the same value.\<close>

theorem bluez_visible_after_timeout:
  assumes "BzCall owner path properties_interface ''Set''
      [BzText adapter_interface, BzText ''Discoverable'', BzVariant v]
      \<in> set (snd (bluez_step q ev (bluez_run q service root evs)))"
    and "qv_bool q v"
  shows "(\<exists>i. ev = BzTimeoutReply i None) \<and>
    (\<exists>before rid target after timeoutOwner timeoutPath. evs = before @ [BzExecute rid Discoverable target v] @ after \<and>
      BzCall timeoutOwner timeoutPath properties_interface ''Set''
        [BzText adapter_interface, BzText ''DiscoverableTimeout'', BzSeconds 180]
      \<in> set (snd (bluez_step q (BzExecute rid Discoverable target v) (bluez_run q service root before))))"
proof -
  let ?st = "bluez_run q service root evs"
  have "\<not> no_visible q v (snd (bluez_step q ev ?st))"
    unfolding no_visible_def visible_call_def using assms by blast
  then obtain i error where ev: "ev = BzTimeoutReply i error"
    using visible_step [of ev q v ?st] visible_execute(1) [of q v] unfolding visible_quiet_def
    by (cases "\<exists>rid op t w. ev = BzExecute rid op t w") auto
  then have i: "error = None" "i < length (bz_timeout_calls ?st)" "snd (snd (bz_timeout_calls ?st ! i)) = v"
    using visible_timeout_reply(2) [of q v i error ?st] \<open>\<not> no_visible q v (snd (bluez_step q ev ?st))\<close> by simp_all
  show ?thesis
    using timeout_call_origin [OF nth_mem [OF i(2)]] i(1) ev unfolding timeout_call_def i(3) by blast
qed


section \<open>A concrete run\<close>

text \<open>The service has one owner and one powered adapter, which is asked to search and to be visible.\<close>

definition demo_adapters :: "demo_value dbus_objects" where
  "demo_adapters = [(''/a'', [(adapter_interface, [(''Powered'', DFlag True)])])]"

definition demo_bluez_owned :: "demo_value bluez_event list" where
  "demo_bluez_owned = [BzStart, BzOwnerReply 0 (Some '':1'')]"

definition demo_bluez :: "demo_value bluez_event list" where
  "demo_bluez = demo_bluez_owned @ [BzRefreshReply 0 (Some demo_adapters) demo_fresh,
     BzExecute ''s'' StartDiscovery ''i'' DInvalid, BzExecute ''v'' Discoverable ''i'' (DFlag True)]"

abbreviation "demo_bz evs \<equiv> bluez_run demo_ops ''org.bluez'' ''/agent'' evs"


lemma bluez_one_discovery_call_witness:
  "length (filter (\<lambda>(g, path', _, d). d \<and> g = bz_generation (demo_bz demo_bluez) \<and> path' = ''/a'')
     (bz_exec_calls (demo_bz demo_bluez))) = 1"
proof -
  have "''/a'' \<in> set (bz_discovery_pending (demo_bz demo_bluez))" unfolding bluez_run_eq by code_simp
  moreover have "length demo_bluez < 2 ^ 64" "\<forall>ev \<in> set demo_bluez. \<not> adapter_removed ev"
    by (simp_all add: demo_bluez_def demo_bluez_owned_def adapter_removed_def)
  ultimately show ?thesis
    using bluez_one_discovery_call [OF _ _ refl, of demo_bluez demo_ops "''org.bluez''" "''/agent''" "''/a''"] by simp
qed

lemma bluez_visible_after_timeout_witness:
  "\<exists>before rid target after timeoutOwner timeoutPath.
     demo_bluez = before @ [BzExecute rid Discoverable target (DFlag True)] @ after \<and>
     BzCall timeoutOwner timeoutPath properties_interface ''Set''
        [BzText adapter_interface, BzText ''DiscoverableTimeout'', BzSeconds 180]
      \<in> set (snd (bluez_step demo_ops (BzExecute rid Discoverable target (DFlag True)) (demo_bz before)))"
proof -
  have sent: "BzCall '':1'' ''/a'' properties_interface ''Set''
      [BzText adapter_interface, BzText ''Discoverable'', BzVariant (DFlag True)]
      \<in> set (snd (bluez_step demo_ops (BzTimeoutReply 0 None) (demo_bz demo_bluez)))"
    unfolding bluez_run_eq by code_simp
  have on: "qv_bool demo_ops (DFlag True)" by (simp add: demo_ops_def)
  show ?thesis by (rule conjunct2 [OF bluez_visible_after_timeout [OF sent on]])
qed

end
