(* ===== verification/Bluetooth_System.thy ===== *)
theory Bluetooth_System
  imports BlueZ_Runs UDisks2_Snapshots
begin

text \<open>
  \<open>BluetoothController\<close> with the \<open>BlueZBackend\<close> it creates. Operations of the application wait for a zero
  timer of the controller, which calls \<open>execute\<close> of the backend; snapshots and results of the backend reach
  the slots of the controller at once. The slots call nothing of the backend, and \<open>execute\<close> emits no snapshot
  and no result, so a step of the system is a step of one component and the slots it reaches in the other.
  Here too each component keeps what the other assumes.
\<close>

section \<open>The composed system\<close>

record 'v bluetooth_system =
  bs_controller :: "'v bt_state"
  bs_backend :: "'v bluez_state"

datatype 'v bluetooth_system_event =
    AppExecute bt_operation string 'v string
  | BtControllerTimer
  | FromBlueZ "'v bluez_event"

text \<open>The calls of \<open>execute\<close> among the outputs of the controller, as events of the backend, and the slots of
  the controller that outputs of the backend reach.\<close>

fun bt_commands :: "'v bt_output list \<Rightarrow> 'v bluez_event list" where
  "bt_commands [] = []"
| "bt_commands (BtBackendExecute rid op target v # out) = BzExecute rid op target v # bt_commands out"
| "bt_commands (_ # out) = bt_commands out"

fun bt_slots :: "'v bluez_output list \<Rightarrow> 'v bt_event list" where
  "bt_slots [] = []"
| "bt_slots (BzSnapshot as ds a # out) = BtSnapshot as ds a # bt_slots out"
| "bt_slots (BzFinished r # out) = BtReply r # bt_slots out"
| "bt_slots (_ # out) = bt_slots out"

definition bluez_moves :: "'v qvariant_ops \<Rightarrow> 'v bluez_event list \<Rightarrow> 'v bluez_state \<Rightarrow> 'v bluez_state" where
  "bluez_moves q evs b = fold (\<lambda>ev st. fst (bluez_step q ev st)) evs b"

text \<open>A step: the new state, the outputs of the controller, and the events each component has seen.\<close>

definition app_step ::
  "'v qvariant_ops \<Rightarrow> 'v bt_event \<Rightarrow> 'v bluetooth_system \<Rightarrow>
   'v bluetooth_system \<times> 'v bt_output list \<times> 'v bt_event list \<times> 'v bluez_event list" where
  "app_step q ev sys =
     (let (c, out) = bt_step ev (bs_controller sys)
      in (\<lparr>bs_controller = c, bs_backend = bluez_moves q (bt_commands out) (bs_backend sys)\<rparr>, out, [ev],
          bt_commands out))"

fun bluetooth_system_step ::
  "'v qvariant_ops \<Rightarrow> 'v bluetooth_system_event \<Rightarrow> 'v bluetooth_system \<Rightarrow>
   'v bluetooth_system \<times> 'v bt_output list \<times> 'v bt_event list \<times> 'v bluez_event list" where
  "bluetooth_system_step q (AppExecute op target v rid) sys = app_step q (BtExecute op target v rid) sys"
| "bluetooth_system_step q BtControllerTimer sys = app_step q BtTimer sys"
| "bluetooth_system_step q (FromBlueZ ev) sys =
     (let (b, bout) = bluez_step q ev (bs_backend sys); (c, out) = bt_run (bt_slots bout) (bs_controller sys)
      in (\<lparr>bs_controller = c, bs_backend = b\<rparr>, out, bt_slots bout, [ev]))"

text \<open>The constructor connects the signals and starts the backend, which emits nothing yet.\<close>

definition bluetooth_system_init :: "string \<Rightarrow> string \<Rightarrow> 'v bluetooth_system" where
  "bluetooth_system_init service path =
     \<lparr>bs_controller = bt_init, bs_backend = fst (bluez_start (bluez_init service path))\<rparr>"

section \<open>Runs\<close>

text \<open>What is assumed of the outside: request identifiers are not repeated, identifiers the backend draws
  from \<open>QUuid\<close> are new and not empty, and the sender of a D-Bus signal is never the empty name. Operations
  reach the backend only through the controller.\<close>

definition new_ids :: "string set \<Rightarrow> (nat \<Rightarrow> string) \<Rightarrow> bool" where
  "new_ids used fresh \<longleftrightarrow> inj fresh \<and> '''' \<notin> range fresh \<and> range fresh \<inter> used = {}"

fun bluez_event_ok :: "string set \<Rightarrow> 'v bluez_event \<Rightarrow> bool" where
  "bluez_event_ok used (BzExecute _ _ _ _) = False"
| "bluez_event_ok used BzStart = False"
| "bluez_event_ok used (BzRefreshReply _ _ fresh) = new_ids used fresh"
| "bluez_event_ok used (BzAgentCall _ _ fresh) = new_ids used fresh"
| "bluez_event_ok used (BzInterfacesRemoved _ _ sender) \<longleftrightarrow> sender \<noteq> ''''"
| "bluez_event_ok used _ = True"

fun bluetooth_event_ok :: "string set \<Rightarrow> 'v bt_event list \<Rightarrow> 'v bluetooth_system_event \<Rightarrow> bool" where
  "bluetooth_event_ok used seen (AppExecute op target v rid) \<longleftrightarrow> rid \<notin> set (bt_begun seen)"
| "bluetooth_event_ok used seen BtControllerTimer = True"
| "bluetooth_event_ok used seen (FromBlueZ ev) = bluez_event_ok used ev"

text \<open>A run with the identifiers of objects drawn so far and the events each component has seen.\<close>

inductive bluetooth_system_run ::
  "'v qvariant_ops \<Rightarrow> string \<Rightarrow> string \<Rightarrow> 'v bluetooth_system \<Rightarrow> string set \<Rightarrow> 'v bt_event list \<Rightarrow>
   'v bluez_event list \<Rightarrow> bool" for q service path where
  start: "bluetooth_system_run q service path (bluetooth_system_init service path) {} [] [BzStart]"
| step: "bluetooth_system_run q service path sys used seen evs \<Longrightarrow> bluetooth_event_ok used seen ev \<Longrightarrow>
    bluetooth_system_step q ev sys = (sys', out, cs, bs) \<Longrightarrow>
    bluetooth_system_run q service path sys' (used \<union> snd ` set (bz_ids (bs_backend sys'))) (seen @ cs) (evs @ bs)"

lemma bluez_moves_run: "bluez_moves q bs (bluez_run q service path evs) = bluez_run q service path (evs @ bs)"
  by (simp add: bluez_moves_def bluez_run_eq)

lemma bt_slots_begin: "bt_begun (bt_slots out) = []"
  by (induction out rule: bt_slots.induct) (simp_all add: bt_begun_def)

lemma bluetooth_components:
  "bluetooth_system_run q service path sys used seen evs \<Longrightarrow>
   distinct (bt_begun seen) \<and> bs_controller sys = fst (bt_run seen bt_init) \<and>
   bs_backend sys = bluez_run q service path evs"
proof (induction rule: bluetooth_system_run.induct)
  case start
  then show ?case by (simp add: bluetooth_system_init_def bluez_run_eq bt_begun_def)
next
  case (step sys used seen evs ev sys' out cs bs)
  have c: "bs_controller sys = fst (bt_run seen bt_init)" and b: "bs_backend sys = bluez_run q service path evs"
    using step.IH by simp_all
  show ?case
  proof (cases ev)
    case (FromBlueZ e)
    have "bs = [e]" "cs = bt_slots (snd (bluez_step q e (bs_backend sys)))"
      "bs_backend sys' = fst (bluez_step q e (bs_backend sys))"
      "bs_controller sys' = fst (bt_run cs (bs_controller sys))"
      using step.hyps(3) by (auto simp: FromBlueZ split_beta Let_def)
    then show ?thesis using step.IH by (simp add: bt_run_append bt_slots_begin bluez.run_snoc)
  next
    case (AppExecute op target v rid)
    then show ?thesis using step.hyps(2,3) step.IH
      by (auto simp: app_step_def split_beta Let_def bt_run_append bt_begun_def bluez_moves_run)
  next
    case BtControllerTimer
    then show ?thesis using step.hyps(3) step.IH
      by (auto simp: app_step_def split_beta Let_def bt_run_append bt_begun_def bluez_moves_run)
  qed
qed

end
