(* ===== verification/BlueZ_Care.thy ===== *)
theory BlueZ_Care
  imports Bluetooth_System
begin

text \<open>
  What the BlueZ backend keeps between a call of \<open>execute\<close> and its result: the identifiers it has drawn, which
  are never used again, and the operations in its care. An operation leaves its care with a result, with the loss
  of the service, or when its target has no identifier any more.
\<close>

section \<open>Identifiers of the backend\<close>

text \<open>\<open>bz_id_for\<close> reserves an identifier as \<open>id_for\<close> of the storage backend does.\<close>

lemma bz_id_for_eq:
  assumes "ids_ok (fst r)"
  shows "bz_id_for fresh path r = (id_value (fst (id_for fresh path r)) path, id_for fresh path r)"
proof -
  obtain ids n where r: "r = (ids, n)" by (cases r)
  have ok: "ids_ok ids" using assms by (simp add: r)
  show ?thesis
  proof (cases "hash_value ids path")
    case None
    then show ?thesis
      by (simp add: r id_for_ok [OF ok] bz_id_for_def id_value_def hash_insert_absent map_add_def)
  next
    case (Some i)
    then show ?thesis by (simp add: r id_for_ok [OF ok] bz_id_for_def id_value_def)
  qed
qed

definition reserves :: "(string, string) qhash \<times> nat \<Rightarrow> (string, string) qhash \<times> nat \<Rightarrow> bool" where
  "reserves r r' \<longleftrightarrow> (\<forall>k i. hash_value (fst r) k = Some i \<longrightarrow> hash_value (fst r') k = Some i)"

lemma reserves_trans: "reserves r r' \<Longrightarrow> reserves r' r'' \<Longrightarrow> reserves r r''"
  by (simp add: reserves_def)

lemma reservedD:
  assumes "reserved fresh ids0 keys r"
  shows "ids_ok (fst r)" "snd ` set (fst r) \<subseteq> snd ` set ids0 \<union> range fresh"
    "hash_value ids0 k = Some i \<Longrightarrow> hash_value (fst r) k = Some i"
proof -
  obtain ids n where r: "r = (ids, n)" by (cases r)
  have facts: "ids_ok ids" "snd ` set ids \<subseteq> snd ` set ids0 \<union> fresh ` {..<n}"
    "\<forall>k i. hash_value ids0 k = Some i \<longrightarrow> hash_value ids k = Some i"
    using assms unfolding reserved_def r prod.case by blast+
  show "ids_ok (fst r)" using facts(1) r by simp
  have "fresh ` {..<n} \<subseteq> range fresh" by blast
  then show "snd ` set (fst r) \<subseteq> snd ` set ids0 \<union> range fresh" using facts(2) unfolding r fst_conv by blast
  show "hash_value ids0 k = Some i \<Longrightarrow> hash_value (fst r) k = Some i" using facts(3) r by simp
qed

lemma bz_id_for_reserved:
  assumes "reserved fresh ids0 keys r" and "fresh_ok fresh ids0"
  shows "reserved fresh ids0 (path # keys) (snd (bz_id_for fresh path r)) \<and> reserves r (snd (bz_id_for fresh path r)) \<and>
    hash_value (fst (snd (bz_id_for fresh path r))) path = Some (fst (bz_id_for fresh path r))"
proof -
  have ok: "ids_ok (fst r)" by (rule reservedD(1) [OF assms(1)])
  have eq: "bz_id_for fresh path r = (id_value (fst (id_for fresh path r)) path, id_for fresh path r)"
    by (rule bz_id_for_eq [OF ok])
  have res: "reserved fresh ids0 (path # keys) (id_for fresh path r)" by (rule reserved_step [OF assms])
  then have "hash_contains (fst (id_for fresh path r)) path" by (auto simp: reserved_def split_beta)
  moreover have "reserves r (id_for fresh path r)"
    using id_for_ok [OF ok, of fresh path "snd r"] by (auto simp: reserves_def map_add_def split: option.split)
  ultimately show ?thesis using res by (auto simp: eq id_value_def)
qed

text \<open>After the decoding every row has the identifier of a path that is live.\<close>

lemma decode_adapters_reserved:
  "reserved fresh ids0 keys r \<Longrightarrow> fresh_ok fresh ids0 \<Longrightarrow> decode_adapters q fresh objects r = (as, r') \<Longrightarrow>
   reserved fresh ids0 keys r' \<and> reserves r r' \<and>
   (\<forall>a \<in> set as. \<exists>p \<in> set (adapter_paths objects). hash_value (fst r') p = Some (ad_id a))"
proof (induction objects arbitrary: keys r as)
  case Nil
  then show ?case by (simp add: reserves_def)
next
  case (Cons x objects)
  obtain path interfaces where x: "x = (path, interfaces)" by (cases x)
  show ?case
  proof (cases "has_key interfaces adapter_interface")
    case False
    then show ?thesis using Cons.IH [OF Cons.prems(1,2)] Cons.prems(3) by (simp add: x adapter_paths_def)
  next
    case True
    obtain i r1 where r1: "bz_id_for fresh path r = (i, r1)" by (cases "bz_id_for fresh path r")
    obtain as1 where rest: "decode_adapters q fresh objects r1 = (as1, r')"
      and as: "as = decode_adapter q i (map_value interfaces adapter_interface) # as1"
      using Cons.prems(3) True r1 by (auto simp: x split: prod.splits)
    note step = bz_id_for_reserved [OF Cons.prems(1,2), of path, unfolded r1, simplified]
    have "reserved fresh ids0 keys r1" using step by (auto simp: reserved_def)
    note IH = Cons.IH [OF this Cons.prems(2) rest]
    have "hash_value (fst r') path = Some i" using step IH by (auto simp: reserves_def)
    then show ?thesis
      using IH step True reserves_trans [of r r1 r']
      by (auto simp: as x adapter_paths_def decode_adapter_def)
  qed
qed

lemma decode_devices_reserved:
  "reserved fresh ids0 keys r \<Longrightarrow> fresh_ok fresh ids0 \<Longrightarrow> decode_devices q fresh adapters objects r = (found, r') \<Longrightarrow>
   reserved fresh ids0 keys r' \<and> reserves r r' \<and>
   (\<forall>(p, _, d) \<in> set found. hash_value (fst r') p = Some (dv_id d))"
proof (induction objects arbitrary: keys r found)
  case Nil
  then show ?case by (simp add: reserves_def)
next
  case (Cons x objects)
  obtain path interfaces where x: "x = (path, interfaces)" by (cases x)
  let ?adapter = "qv_path q (prop_value q (map_value interfaces device_interface) ''Adapter'')"
  show ?case
  proof (cases "has_key interfaces device_interface \<and> List.member adapters ?adapter")
    case False
    then show ?thesis using Cons.IH [OF Cons.prems(1,2)] Cons.prems(3) by (auto simp: x Let_def)
  next
    case True
    obtain i r1 where r1: "bz_id_for fresh path r = (i, r1)" by (cases "bz_id_for fresh path r")
    obtain a r2 where r2: "bz_id_for fresh ?adapter r1 = (a, r2)" by (cases "bz_id_for fresh ?adapter r1")
    obtain ds where rest: "decode_devices q fresh adapters objects r2 = (ds, r')"
      and found: "found = (path, ?adapter, decode_device q i a interfaces) # ds"
      using Cons.prems(3) True r1 r2 by (auto simp: x Let_def split: prod.splits)
    note step = bz_id_for_reserved [OF Cons.prems(1,2), of path, unfolded r1, simplified]
    have res1: "reserved fresh ids0 keys r1" using step by (auto simp: reserved_def)
    note step2 = bz_id_for_reserved [OF res1 Cons.prems(2), of ?adapter, unfolded r2, simplified]
    have "reserved fresh ids0 keys r2" using step2 by (auto simp: reserved_def)
    note IH = Cons.IH [OF this Cons.prems(2) rest]
    have all: "reserves r1 r'" "reserves r r'"
      using step step2 IH reserves_trans by blast+
    have "hash_value (fst r') path = Some i" using step all(1) by (auto simp: reserves_def)
    moreover have "dv_id (decode_device q i a interfaces) = i" by (simp add: decode_device_def Let_def)
    ultimately show ?thesis using IH all(2) by (simp add: found)
  qed
qed

text \<open>The identifiers after a step: old entries, and new ones not used before.\<close>

definition ids_grow :: "string set \<Rightarrow> (string, string) qhash \<Rightarrow> (string, string) qhash \<Rightarrow> bool" where
  "ids_grow used old new \<longleftrightarrow> ids_ok new \<and> (\<forall>p i. (p, i) \<in> set new \<longrightarrow> (p, i) \<in> set old \<or> i \<notin> used)"

lemma reserved_grow:
  assumes res: "reserved fresh ids0 keys r" and ok0: "ids_ok ids0" and new: "new_ids used fresh"
  shows "ids_grow used ids0 (fst r)"
  unfolding ids_grow_def
proof (intro conjI allI impI)
  note ok = reservedD(1) [OF res]
  show "ids_ok (fst r)" by (rule ok)
  fix p i assume mem: "(p, i) \<in> set (fst r)"
  then have val: "hash_value (fst r) p = Some i" using ok by (simp add: ids_ok_def hash_ok_def)
  show "(p, i) \<in> set ids0 \<or> i \<notin> used"
  proof (cases "i \<in> snd ` set ids0")
    case False
    then have "i \<in> range fresh" using reservedD(2) [OF res] mem by force
    then show ?thesis using new by (auto simp: new_ids_def)
  next
    case True
    then obtain k where k: "(k, i) \<in> set ids0" by auto
    then have "hash_value ids0 k = Some i" using ok0 by (simp add: ids_ok_def hash_ok_def)
    then have "k = p" using ids_ok_inj [OF ok _ val] reservedD(3) [OF res] by blast
    then show ?thesis using k by simp
  qed
qed

text \<open>Which operations touch the identifiers.\<close>

lemma ids_same [simp]:
  "bz_ids (fst (with_agent f b)) = bz_ids b" "bz_ids (fst (bluez_register_agent b)) = bz_ids b"
  "bz_ids (fst (bluez_request_default b)) = bz_ids b" "bz_ids (fst (bluez_refresh b)) = bz_ids b"
  "bz_ids (fst (bluez_changed b)) = bz_ids b" "bz_ids (fst (bluez_start b)) = bz_ids b"
  "bz_ids (fst (bluez_notified sender b)) = bz_ids b" "bz_ids (fst (bluez_register_reply i error b)) = bz_ids b"
  "bz_ids (fst (bluez_default_reply i error b)) = bz_ids b" "bz_ids (fst (bluez_timer b)) = bz_ids b"
  "bz_ids (fst (bluez_timeout_reply i error b)) = bz_ids b" "bz_ids (fst (bluez_visible_reply i error b)) = bz_ids b"
  by (simp_all add: with_agent_def bluez_register_agent_def bluez_request_default_def bluez_refresh_def
      bluez_changed_def bluez_start_def bluez_notified_def bluez_register_reply_def bluez_default_reply_def
      bluez_timer_def bluez_timeout_reply_def bluez_visible_reply_def split_beta Let_def split: option.split list.split)

lemma ids_set_owner [simp]: "bz_ids (fst (bluez_set_owner owner b)) = []"
  by (simp add: bluez_set_owner_def split_beta Let_def)

lemma ids_execute [simp]: "bz_ids (fst (bluez_execute q rid op target v b)) = bz_ids b"
  by (cases rule: bluez_execute_cases [of q rid op target v b]) simp_all

lemma ids_exec_reply [simp]: "bz_ids (fst (bluez_exec_reply i error b)) = bz_ids b"
  by (simp add: bluez_exec_reply_def split_beta Let_def)

lemma ids_grow_refl: "ids_ok ids \<Longrightarrow> ids_grow used ids ids"
  by (simp add: ids_grow_def)

lemma ids_grow_Nil: "ids_grow used ids []"
  by (simp add: ids_grow_def)

lemma ids_grow_filter: "ids_grow used old new \<Longrightarrow> ids_grow used old (filter P new)"
  by (auto simp: ids_grow_def ids_ok_filter)

lemma ids_grow_remove: "ids_grow used old new \<Longrightarrow> ids_grow used old (hash_remove k new)"
  by (simp add: AList.delete_eq ids_grow_filter)

lemma ids_grow_removes:
  "ids_grow used old new \<Longrightarrow>
   ids_grow used old (fold (\<lambda>(device, a) ids. if a = path then hash_remove device ids else ids) pairs new)"
  by (induction pairs arbitrary: new) (auto simp: ids_grow_remove)

lemma new_ids_fresh: "new_ids used fresh \<Longrightarrow> snd ` set ids \<subseteq> used \<Longrightarrow> fresh_ok fresh ids"
  by (auto simp: new_ids_def fresh_ok_def)

lemma publish_ids_grow:
  assumes ok: "ids_ok (bz_ids b)" "snd ` set (bz_ids b) \<subseteq> used" and new: "new_ids used fresh"
  shows "ids_grow used (bz_ids b) (bz_ids (fst (bluez_publish q fresh objects b)))"
    and "BzSnapshot as ds a \<in> set (snd (bluez_publish q fresh objects b)) \<Longrightarrow>
      ad_id ` set as \<union> dv_id ` set ds \<subseteq> snd ` set (bz_ids (fst (bluez_publish q fresh objects b)))"
proof -
  let ?paths = "adapter_paths objects"
  have fresh: "fresh_ok fresh (bz_ids b)" by (rule new_ids_fresh [OF new ok(2)])
  obtain as0 r where as0: "decode_adapters q fresh objects (bz_ids b, 0) = (as0, r)"
    by (cases "decode_adapters q fresh objects (bz_ids b, 0)")
  obtain found ids n where found: "decode_devices q fresh ?paths objects r = (found, ids, n)"
    by (cases "decode_devices q fresh ?paths objects r") auto
  have "reserved fresh (bz_ids b) [] (bz_ids b, 0)" using ok(1) by (auto simp: reserved_def)
  note adapters = decode_adapters_reserved [OF this fresh as0]
  note devices = decode_devices_reserved [OF conjunct1 [OF adapters] fresh found]
  let ?live = "?paths @ map fst found"
  have ids: "bz_ids (fst (bluez_publish q fresh objects b)) = filter (\<lambda>(path, _). List.member ?live path) ids"
    by (simp add: bluez_publish_def as0 found split_beta Let_def)
  show "ids_grow used (bz_ids b) (bz_ids (fst (bluez_publish q fresh objects b)))"
    unfolding ids using reserved_grow [OF conjunct1 [OF devices] ok(1) new] by (simp add: ids_grow_filter)
  have live: "i \<in> snd ` set (filter (\<lambda>(path, _). List.member ?live path) ids)"
    if "hash_value ids p = Some i" "p \<in> set ?live" for p i
    using map_of_SomeD [OF that(1)] that(2) by force
  assume "BzSnapshot as ds a \<in> set (snd (bluez_publish q fresh objects b))"
  then have rows: "as = as0" "ds = map (\<lambda>(_, _, d). d) found"
    by (auto simp: bluez_publish_def as0 found with_agent_def split_beta Let_def)
  have "\<exists>p \<in> set ?live. hash_value ids p = Some (ad_id x)" if "x \<in> set as" for x
    using that adapters devices by (fastforce simp: rows reserves_def)
  moreover have "\<exists>p \<in> set ?live. hash_value ids p = Some (dv_id x)" if "x \<in> set ds" for x
    using that devices by (fastforce simp: rows)
  ultimately show "ad_id ` set as \<union> dv_id ` set ds \<subseteq> snd ` set (bz_ids (fst (bluez_publish q fresh objects b)))"
    unfolding ids by (intro Un_least image_subsetI) (use live in metis)+
qed

lemma refresh_reply_ids:
  assumes ok: "ids_ok (bz_ids b)" "snd ` set (bz_ids b) \<subseteq> used" and new: "new_ids used fresh"
  shows "ids_grow used (bz_ids b) (bz_ids (fst (bluez_refresh_reply q i reply fresh b)))"
    and "BzSnapshot as ds True \<in> set (snd (bluez_refresh_reply q i reply fresh b)) \<Longrightarrow>
      ad_id ` set as \<union> dv_id ` set ds \<subseteq> snd ` set (bz_ids (fst (bluez_refresh_reply q i reply fresh b)))"
proof -
  let ?r = "bluez_refresh_reply q i reply fresh b"
  have pub: "ids_grow used (bz_ids b) (bz_ids (fst (bluez_publish q fresh objects (b\<lparr>bz_refresh_calls := c, bz_refreshing := f\<rparr>))))"
    "BzSnapshot as ds True \<in> set (snd (bluez_publish q fresh objects (b\<lparr>bz_refresh_calls := c, bz_refreshing := f\<rparr>))) \<Longrightarrow>
      ad_id ` set as \<union> dv_id ` set ds \<subseteq>
      snd ` set (bz_ids (fst (bluez_publish q fresh objects (b\<lparr>bz_refresh_calls := c, bz_refreshing := f\<rparr>))))"
    for objects c f
    using publish_ids_grow [of "b\<lparr>bz_refresh_calls := c, bz_refreshing := f\<rparr>" used fresh] ok new by simp_all
  have agent: "BzSnapshot as ds True \<notin> set (snd (with_agent f b'))" for f :: "agent_state \<Rightarrow> agent_state \<times> agent_output list" and b' :: "'a bluez_state"
    by (auto simp: with_agent_def split_beta Let_def)
  have refresh: "BzSnapshot as ds True \<notin> set (snd (bluez_refresh b'))" for b' :: "'a bluez_state"
    by (simp add: bluez_refresh_def)
  show "ids_grow used (bz_ids b) (bz_ids (fst ?r))"
    using pub(1) ids_grow_refl [OF ok(1)] ids_grow_Nil
    by (auto simp: bluez_refresh_reply_def split_beta Let_def split: option.split)
  show "BzSnapshot as ds True \<in> set (snd ?r) \<Longrightarrow> ad_id ` set as \<union> dv_id ` set ds \<subseteq> snd ` set (bz_ids (fst ?r))"
    using pub(2) agent refresh
    by (auto simp: bluez_refresh_reply_def split_beta Let_def split: option.splits if_splits)
qed

lemma bluez_step_ids:
  assumes ok: "ids_ok (bz_ids b)" "snd ` set (bz_ids b) \<subseteq> used"
    and ev: "bluez_event_ok used ev \<or> (\<exists>rid op t v. ev = BzExecute rid op t v)"
  shows "ids_grow used (bz_ids b) (bz_ids (fst (bluez_step q ev b)))"
proof (cases ev)
  case (BzAgentCall caller meth fresh)
  have new: "new_ids used fresh" using ev BzAgentCall by simp
  have "ids_grow used (bz_ids b) (fst (snd (bz_id_for fresh path (bz_ids b, 1))))" for path
  proof -
    have "reserved fresh (bz_ids b) [] (bz_ids b, 1)" using ok(1) by (auto simp: reserved_def)
    then have "reserved fresh (bz_ids b) [path] (snd (bz_id_for fresh path (bz_ids b, 1)))"
      using bz_id_for_reserved new_ids_fresh [OF new ok(2)] by blast
    then show ?thesis by (rule reserved_grow [OF _ ok(1) new])
  qed
  then show ?thesis using BzAgentCall ids_grow_refl [OF ok(1)]
    by (auto simp: bluez_agent_call_def split_beta Let_def split: option.split)
next
  case (BzRefreshReply i reply fresh)
  then show ?thesis using refresh_reply_ids(1) [OF ok] ev by auto
next
  case (BzInterfacesRemoved path interfaces sender)
  then show ?thesis using ids_grow_refl [OF ok(1)]
    by (auto simp: bluez_interfaces_removed_def Let_def ids_grow_remove ids_grow_removes)
next
  case BzStop
  then show ?thesis using ids_grow_refl [OF ok(1)] ids_grow_Nil by (auto simp: bluez_stop_def split_beta Let_def)
next
  case (BzOwnerChanged owner)
  then show ?thesis using ids_grow_refl [OF ok(1)] ids_grow_Nil by (auto simp: bluez_owner_changed_def)
next
  case (BzOwnerReply i reply)
  then show ?thesis using ids_grow_refl [OF ok(1)] ids_grow_Nil
    by (auto simp: bluez_owner_reply_def Let_def)
qed (use ids_grow_refl [OF ok(1)] in simp_all)

section \<open>Operations in the care of the backend\<close>

text \<open>The results the backend still answers for: its zero timers and the calls of the current owner.\<close>

definition service_key :: "bt_result \<Rightarrow> string \<times> string \<times> bt_operation" where
  "service_key r = (br_request r, br_target r, br_operation r)"

definition care_results :: "'v bluez_state \<Rightarrow> bt_result list" where
  "care_results b = bz_timers b @
     map (\<lambda>(_, _, r, _). r) (filter (\<lambda>(g, _). g = bz_generation b) (bz_exec_calls b)) @
     map (\<lambda>(_, r, _). r) (filter (\<lambda>(g, _). g = bz_generation b) (bz_timeout_calls b)) @
     map (\<lambda>(_, r). r) (filter (\<lambda>(g, _). g = bz_generation b) (bz_visible_calls b))"

definition in_care :: "'v bluez_state \<Rightarrow> string \<times> string \<times> bt_operation \<Rightarrow> bool" where
  "in_care b k = List.member (map service_key (care_results b)) k"

lemma in_care_iff:
  "in_care b k \<longleftrightarrow> (\<exists>r. service_key r = k \<and> (r \<in> set (bz_timers b) \<or>
     (\<exists>p d. (bz_generation b, p, r, d) \<in> set (bz_exec_calls b)) \<or>
     (\<exists>v. (bz_generation b, r, v) \<in> set (bz_timeout_calls b)) \<or> (bz_generation b, r) \<in> set (bz_visible_calls b)))"
  unfolding in_care_def care_results_def by (force simp: image_iff)

definition bluez_care ::
  "'v bluez_state \<Rightarrow> 64 word \<times> bt_result list \<times> (64 word \<times> string \<times> bt_result \<times> bool) list \<times>
   (64 word \<times> bt_result \<times> 'v) list \<times> (64 word \<times> bt_result) list" where
  "bluez_care b = (bz_generation b, bz_timers b, bz_exec_calls b, bz_timeout_calls b, bz_visible_calls b)"

lemma in_care_cong: "bluez_care b' = bluez_care b \<Longrightarrow> in_care b' = in_care b"
  by (simp add: bluez_care_def in_care_def care_results_def fun_eq_iff)

lemma care_update [simp]:
  "bluez_care (b\<lparr>bz_agent := x1\<rparr>) = bluez_care b" "bluez_care (b\<lparr>bz_default_agent := f\<rparr>) = bluez_care b"
  "bluez_care (b\<lparr>bz_registered := f\<rparr>) = bluez_care b" "bluez_care (b\<lparr>bz_ids := x2\<rparr>) = bluez_care b"
  "bluez_care (b\<lparr>bz_device_adapters := x2\<rparr>) = bluez_care b" "bluez_care (b\<lparr>bz_adapters := x3\<rparr>) = bluez_care b"
  "bluez_care (b\<lparr>bz_discovery_owned := x3\<rparr>) = bluez_care b" "bluez_care (b\<lparr>bz_discovery_pending := x3\<rparr>) = bluez_care b"
  "bluez_care (b\<lparr>bz_owner_calls := x4\<rparr>) = bluez_care b" "bluez_care (b\<lparr>bz_register_calls := x4\<rparr>) = bluez_care b"
  "bluez_care (b\<lparr>bz_default_calls := x4\<rparr>) = bluez_care b" "bluez_care (b\<lparr>bz_refresh_calls := x5\<rparr>) = bluez_care b"
  "bluez_care (b\<lparr>bz_refreshing := f\<rparr>) = bluez_care b" "bluez_care (b\<lparr>bz_revision := x6\<rparr>) = bluez_care b"
  "bluez_care (b\<lparr>bz_started := f\<rparr>) = bluez_care b"
  by (simp_all add: bluez_care_def)

lemma care_ops [simp]:
  "bluez_care (fst (with_agent f b)) = bluez_care b" "bluez_care (fst (bluez_register_agent b)) = bluez_care b"
  "bluez_care (fst (bluez_request_default b)) = bluez_care b" "bluez_care (fst (bluez_refresh b)) = bluez_care b"
  "bluez_care (fst (bluez_start b)) = bluez_care b" "bluez_care (fst (bluez_register_reply i error b)) = bluez_care b"
  "bluez_care (fst (bluez_default_reply i error b)) = bluez_care b"
  by (simp_all add: with_agent_def bluez_register_agent_def bluez_request_default_def bluez_refresh_def
      bluez_start_def bluez_register_reply_def bluez_default_reply_def split_beta Let_def split: option.split)

lemma care_changed [simp]: "bluez_care (fst (bluez_changed b)) = bluez_care b"
  by (simp add: bluez_changed_def Let_def)

lemma care_more [simp]:
  "bluez_care (fst (bluez_notified sender b)) = bluez_care b"
  "bluez_care (fst (bluez_interfaces_removed path interfaces sender b)) = bluez_care b"
  "bluez_care (fst (bluez_refresh_reply q i reply fresh b)) = bluez_care b"
  "bluez_care (fst (bluez_agent_call caller meth fresh b)) = bluez_care b"
  by (simp_all add: bluez_notified_def bluez_interfaces_removed_def bluez_refresh_reply_def bluez_publish_def
      bluez_agent_call_def split_beta Let_def split: option.split)

text \<open>A step keeps an operation, reports its result or the loss of the service, or drops the operation
  because its target has no identifier any more.\<close>

definition bt_told_lost :: "'v bluez_output list \<Rightarrow> bool" where
  "bt_told_lost out \<longleftrightarrow> (\<exists>as ds. BzSnapshot as ds False \<in> set out)"

definition keeps_care :: "'v bluez_state \<Rightarrow> 'v bluez_state \<times> 'v bluez_output list \<Rightarrow> bool" where
  "keeps_care b r \<longleftrightarrow> bt_told_lost (snd r) \<or> (\<forall>rid target op. in_care b (rid, target, op) \<longrightarrow>
     in_care (fst r) (rid, target, op) \<or> (\<exists>res. BzFinished res \<in> set (snd r) \<and> br_request res = rid) \<or>
     op \<noteq> Forget \<and> target \<notin> snd ` set (bz_ids (fst r)))"

lemma keeps_care_same: "bluez_care (fst r) = bluez_care b \<Longrightarrow> keeps_care b r"
  using in_care_cong [of "fst r" b] by (simp add: keeps_care_def)

lemma keeps_care_lost: "bt_told_lost (snd r) \<Longrightarrow> keeps_care b r"
  by (simp add: keeps_care_def)

lemma set_owner_told [simp]: "bt_told_lost (snd (bluez_set_owner owner b))"
  unfolding bt_told_lost_def bluez_set_owner_def split_beta Let_def snd_conv
  by (rule exI [of _ "[]"], rule exI [of _ "[]"]) simp

text \<open>The calls in flight name their targets: an identifier that is still assigned belongs to the path the
  call was sent to.\<close>

definition calls_ok :: "string set \<Rightarrow> 'v bluez_state \<Rightarrow> bool" where
  "calls_ok used b \<longleftrightarrow> (\<forall>(g, path, r, d) \<in> set (bz_exec_calls b). br_target r \<in> used \<and>
     (\<forall>p. (p, br_target r) \<in> set (bz_ids b) \<longrightarrow> p = path))"

lemma exec_reply_care:
  assumes ok: "calls_ok used b" "ids_ok (bz_ids b)"
  shows "keeps_care b (bluez_exec_reply i error b)"
proof (cases "i < length (bz_exec_calls b)")
  case True
  obtain g path r d where c: "bz_exec_calls b ! i = (g, path, r, d)" by (cases "bz_exec_calls b ! i") auto
  let ?b1 = "b\<lparr>bz_exec_calls := remove_row i (bz_exec_calls b)\<rparr>"
  have rows: "set (bz_exec_calls b) = insert (g, path, r, d) (set (remove_row i (bz_exec_calls b)))"
    using set_remove_row_insert [OF True] c by simp
  have split: "in_care b k \<longleftrightarrow> in_care ?b1 k \<or> g = bz_generation b \<and> service_key r = k" for k
    unfolding in_care_iff by (auto simp: rows)
  have only: "p = path" if "(p, br_target r) \<in> set (bz_ids b)" for p
    using ok(1) that unfolding calls_ok_def by (auto simp: rows)
  show ?thesis
  proof (cases "g = bz_generation b")
    case False
    then have "bluez_exec_reply i error b = (?b1, [])" using True c by (simp add: bluez_exec_reply_def Let_def)
    then show ?thesis using split False by (simp add: keeps_care_def)
  next
    case current: True
    let ?r = "bluez_exec_reply i error b"
    have care: "bluez_care (fst ?r) = bluez_care ?b1" and ids: "bz_ids (fst ?r) = bz_ids b"
      using True c current by (simp_all add: bluez_exec_reply_def split_beta Let_def)
    show ?thesis
    proof (cases "hash_default (bz_ids b) path \<noteq> br_target r \<and> br_operation r \<noteq> Forget")
      case drop: True
      have "br_target r \<notin> snd ` set (bz_ids b)"
      proof
        assume "br_target r \<in> snd ` set (bz_ids b)"
        then obtain p where p: "(p, br_target r) \<in> set (bz_ids b)" by auto
        then have "hash_value (bz_ids b) path = Some (br_target r)"
          using only [OF p] ok(2) by (simp add: ids_ok_def hash_ok_def)
        then show False using drop by (simp add: hash_default_def)
      qed
      then show ?thesis using split in_care_cong [OF care] drop ids
        by (auto simp: keeps_care_def service_key_def)
    next
      case False
      then have "\<exists>res. BzFinished res \<in> set (snd ?r) \<and> br_request res = br_request r"
        using True c current by (cases error) (auto simp: bluez_exec_reply_def split_beta Let_def)
      then show ?thesis using split in_care_cong [OF care]
        by (auto simp: keeps_care_def service_key_def)
    qed
  qed
qed (simp add: bluez_exec_reply_def keeps_care_same)

lemma timeout_reply_care: "keeps_care b (bluez_timeout_reply i error b)"
proof (cases "i < length (bz_timeout_calls b)")
  case True
  obtain g r v where c: "bz_timeout_calls b ! i = (g, r, v)" by (cases "bz_timeout_calls b ! i") auto
  let ?b1 = "b\<lparr>bz_timeout_calls := remove_row i (bz_timeout_calls b)\<rparr>"
  have rows: "set (bz_timeout_calls b) = insert (g, r, v) (set (remove_row i (bz_timeout_calls b)))"
    using set_remove_row_insert [OF True] c by simp
  have split: "in_care b k \<longleftrightarrow> in_care ?b1 k \<or> g = bz_generation b \<and> service_key r = k" for k
    unfolding in_care_iff by (auto simp: rows)
  have more: "in_care (?b1\<lparr>bz_visible_calls := bz_visible_calls b @ [(bz_generation b, r)]\<rparr>) k \<longleftrightarrow>
      in_care ?b1 k \<or> service_key r = k" for k
    unfolding in_care_iff by auto
  show ?thesis
  proof (cases error)
    case (Some e)
    obtain name message where "e = (name, message)" by (cases e)
    then show ?thesis using True c split Some
      by (auto simp: bluez_timeout_reply_def Let_def keeps_care_def service_key_def)
  next
    case None
    then show ?thesis using True c split more
      by (auto simp: bluez_timeout_reply_def Let_def keeps_care_def service_key_def)
  qed
qed (simp add: bluez_timeout_reply_def keeps_care_same)

lemma visible_reply_care: "keeps_care b (bluez_visible_reply i error b)"
proof (cases "i < length (bz_visible_calls b)")
  case True
  obtain g r where c: "bz_visible_calls b ! i = (g, r)" by (cases "bz_visible_calls b ! i")
  let ?b1 = "b\<lparr>bz_visible_calls := remove_row i (bz_visible_calls b)\<rparr>"
  have rows: "set (bz_visible_calls b) = insert (g, r) (set (remove_row i (bz_visible_calls b)))"
    using set_remove_row_insert [OF True] c by simp
  have split: "in_care b k \<longleftrightarrow> in_care ?b1 k \<or> g = bz_generation b \<and> service_key r = k" for k
    unfolding in_care_iff by (auto simp: rows)
  have "in_care (fst (bluez_changed ?b1)) = in_care ?b1" by (rule in_care_cong) simp
  moreover have "br_request (result_error error r) = br_request r"
    by (simp add: result_error_def split: option.split)
  ultimately show ?thesis using True c split
    by (auto simp: bluez_visible_reply_def Let_def split_beta keeps_care_def service_key_def)
qed (simp add: bluez_visible_reply_def keeps_care_same)

lemma timer_care: "keeps_care b (bluez_timer b)"
proof (cases "bz_timers b")
  case (Cons r rest)
  have "in_care b k \<longleftrightarrow> in_care (b\<lparr>bz_timers := rest\<rparr>) k \<or> service_key r = k" for k
    unfolding in_care_iff by (auto simp: Cons)
  then show ?thesis using Cons by (auto simp: bluez_timer_def keeps_care_def service_key_def)
qed (simp add: bluez_timer_def keeps_care_same)

lemma owner_reply_care: "keeps_care b (bluez_owner_reply i reply b)"
proof (cases "i < length (bz_owner_calls b) \<and> bz_started b \<and> bz_owner_calls b ! i = bz_generation b")
  case True
  then show ?thesis by (intro keeps_care_lost) (simp add: bluez_owner_reply_def Let_def)
next
  case False
  then show ?thesis by (intro keeps_care_same) (auto simp: bluez_owner_reply_def Let_def)
qed

lemma stop_care: "keeps_care b (bluez_stop b)"
proof (cases "bz_started b")
  case True
  have "bt_told_lost (xs @ snd (bluez_set_owner owner b'))" for xs owner and b' :: "'v bluez_state"
    using set_owner_told [of owner b'] unfolding bt_told_lost_def by auto
  then have "bt_told_lost (snd (bluez_stop b))"
    using True set_owner_told unfolding bluez_stop_def split_beta Let_def
    by (simp add: bt_told_lost_def) blast
  then show ?thesis by (rule keeps_care_lost)
qed (simp add: bluez_stop_def keeps_care_same)

text \<open>A command puts its operation in the care of the backend and takes none out.\<close>

lemma care_added:
  "in_care (b\<lparr>bz_timers := bz_timers b @ [r]\<rparr>) k \<longleftrightarrow> service_key r = k \<or> in_care b k"
  "in_care (b\<lparr>bz_timeout_calls := bz_timeout_calls b @ [(bz_generation b, r, v)]\<rparr>) k \<longleftrightarrow>
     service_key r = k \<or> in_care b k"
  "in_care (b\<lparr>bz_exec_calls := bz_exec_calls b @ [(bz_generation b, p, r, d)]\<rparr>) k \<longleftrightarrow>
     service_key r = k \<or> in_care b k"
  unfolding in_care_def care_results_def by auto

lemma execute_care:
  "in_care (fst (bluez_execute q rid op target v b)) k \<longleftrightarrow> (rid, target, op) = k \<or> in_care b k"
proof -
  let ?b = "fst (after_cancel op b)"
  have agent: "in_care ?b = in_care b" by (rule in_care_cong) simp
  show ?thesis
  proof (cases rule: bluez_execute_cases [of q rid op target v b])
    case (refused r)
    then show ?thesis by (simp add: care_added service_key_def)
  next
    case (timeout path)
    then have "fst (bluez_execute q rid op target v b) = ?b\<lparr>bz_timeout_calls := bz_timeout_calls ?b @
        [(bz_generation ?b, command_result_of rid op target, v)]\<rparr>" by (simp only: fst_conv)
    then show ?thesis by (simp only: care_added agent) (simp add: service_key_def)
  next
    case (call path callPath interface)
    let ?b2 = "?b\<lparr>bz_exec_calls := bz_exec_calls ?b @
        [(bz_generation ?b, path, command_result_of rid op target, is_discovery op)]\<rparr>"
    have "bluez_care (fst (bluez_execute q rid op target v b)) = bluez_care ?b2"
      unfolding call(3) by (simp add: bluez_care_def)
    then have "in_care (fst (bluez_execute q rid op target v b)) = in_care ?b2" by (rule in_care_cong)
    then show ?thesis by (simp only: care_added agent) (simp add: service_key_def)
  qed
qed

lemma bluez_step_care:
  assumes "calls_ok used b" and "ids_ok (bz_ids b)"
  shows "keeps_care b (bluez_step q ev b)"
proof (cases ev)
  case (BzExecute rid op target v)
  then show ?thesis using execute_care by (fastforce simp: keeps_care_def)
next
  case (BzOwnerChanged owner)
  then show ?thesis by (simp add: bluez_owner_changed_def keeps_care_same keeps_care_lost)
qed (simp_all add: keeps_care_same exec_reply_care [OF assms] timeout_reply_care visible_reply_care timer_care
    owner_reply_care stop_care)

section \<open>Calls and targets\<close>

lemma calls_ok_mono:
  assumes "calls_ok used b" and "ids_grow used (bz_ids b) (bz_ids b')" and "set (bz_exec_calls b') \<subseteq> set (bz_exec_calls b)"
    and "used \<subseteq> used'"
  shows "calls_ok used' b'"
  unfolding calls_ok_def
proof clarify
  fix g path r d assume "(g, path, r, d) \<in> set (bz_exec_calls b')"
  then have "(g, path, r, d) \<in> set (bz_exec_calls b)" using assms(3) by blast
  then have old: "br_target r \<in> used" "\<And>p. (p, br_target r) \<in> set (bz_ids b) \<Longrightarrow> p = path"
    using assms(1) unfolding calls_ok_def by fastforce+
  then show "br_target r \<in> used' \<and> (\<forall>p. (p, br_target r) \<in> set (bz_ids b') \<longrightarrow> p = path)"
    using assms(2,4) by (auto simp: ids_grow_def)
qed

lemma care_calls: "bluez_care b' = bluez_care b \<Longrightarrow> bz_exec_calls b' = bz_exec_calls b"
  by (simp add: bluez_care_def)

lemma disc_calls: "bluez_disc b' = bluez_disc b \<Longrightarrow> bz_exec_calls b' = bz_exec_calls b"
  by (simp add: bluez_disc_def)

lemmas exec_calls_same = bluez_disc_simple [THEN disc_calls] bluez_disc_changed [THEN disc_calls]
  bluez_disc_ops [THEN disc_calls] bluez_disc_refresh_reply [THEN disc_calls]

lemma exec_calls_owner: "bz_exec_calls (fst (bluez_set_owner owner b)) = bz_exec_calls b"
  using bluez_disc_set_owner [of owner b] by (simp add: bluez_disc_def)

lemma exec_calls_reply: "set (bz_exec_calls (fst (bluez_exec_reply i error b))) \<subseteq> set (bz_exec_calls b)"
proof (cases "i < length (bz_exec_calls b)")
  case True
  obtain g path r d where "bz_exec_calls b ! i = (g, path, r, d)" by (cases "bz_exec_calls b ! i") auto
  from bluez_disc_exec_reply [OF True this, of error]
  have "bz_exec_calls (fst (bluez_exec_reply i error b)) = remove_row i (bz_exec_calls b)"
    by (simp add: bluez_disc_def)
  then show ?thesis using set_remove_row by simp
qed (simp add: bluez_exec_reply_def)

lemma step_calls:
  assumes "\<And>rid op t v. ev \<noteq> BzExecute rid op t v"
  shows "set (bz_exec_calls (fst (bluez_step q ev b))) \<subseteq> set (bz_exec_calls b)"
proof (cases ev)
  case (BzExecReply i error)
  then show ?thesis using exec_calls_reply by simp
next
  case BzStop
  then show ?thesis by (simp add: bluez_stop_def split_beta Let_def exec_calls_owner exec_calls_same)
next
  case (BzExecute rid op t v)
  then show ?thesis using assms by blast
qed (simp_all add: exec_calls_same exec_calls_owner bluez_owner_reply_def bluez_owner_changed_def
    bluez_interfaces_removed_def Let_def)

lemma hash_key_mem: "hash_key m v = k \<Longrightarrow> k \<noteq> '''' \<Longrightarrow> (k, v) \<in> set m"
  by (cases "find (\<lambda>(_, w). w = v) m") (use find_Some_member [of "\<lambda>(_, w). w = v" m] in \<open>auto simp: hash_key_def\<close>)

lemma execute_calls_ok:
  assumes ok: "ids_ok (bz_ids b)" "snd ` set (bz_ids b) \<subseteq> used" "calls_ok used b"
  shows "calls_ok used (fst (bluez_execute q rid op target v b))"
proof -
  have same: "bz_exec_calls (fst (after_cancel op b)) = bz_exec_calls b" by (rule care_calls) simp
  show ?thesis
  proof (cases rule: bluez_execute_cases [of q rid op target v b])
    case (call path callPath interface)
    have mem: "(path, target) \<in> set (bz_ids b)" using hash_key_mem call(4,5) by metis
    have "p = path" if "(p, target) \<in> set (bz_ids b)" for p
      using ids_ok_inj [OF ok(1)] mem that ok(1) by (simp add: ids_ok_def hash_ok_def)
    moreover have "bz_exec_calls (fst (bluez_execute q rid op target v b)) = bz_exec_calls b @
        [(bz_generation (fst (after_cancel op b)), path, command_result_of rid op target, is_discovery op)]"
      unfolding call(3) by (simp add: same)
    moreover have "target \<in> used" using mem ok(2) by force
    ultimately show ?thesis using ok(3) unfolding calls_ok_def by auto
  next
    case (refused r)
    show ?thesis unfolding refused(1) using ok(3) by (simp add: calls_ok_def)
  next
    case (timeout path)
    show ?thesis unfolding timeout(3) using ok(3) by (simp add: calls_ok_def same)
  qed
qed

text \<open>Without a snapshot the identifiers stay, or a refresh is under way; and a refresh under way stays so.\<close>

lemma refreshing_ops [simp]:
  "bz_refreshing (fst (with_agent f b)) = bz_refreshing b" "bz_refreshing (fst (bluez_register_agent b)) = bz_refreshing b"
  "bz_refreshing (fst (bluez_request_default b)) = bz_refreshing b" "bz_refreshing (fst (bluez_start b)) = bz_refreshing b"
  "bz_refreshing (fst (bluez_refresh b)) = (bz_refreshing b \<or> bz_owner b \<noteq> '''')"
  "bz_refreshing (fst (bluez_changed b)) = (bz_refreshing b \<or> bz_started b \<and> bz_owner b \<noteq> '''')"
  "bz_refreshing (fst (bluez_register_reply i error b)) = bz_refreshing b"
  "bz_refreshing (fst (bluez_default_reply i error b)) = bz_refreshing b"
  "bz_refreshing (fst (bluez_timeout_reply i error b)) = bz_refreshing b"
  "bz_refreshing (fst (bluez_timer b)) = bz_refreshing b"
  by (simp_all add: with_agent_def bluez_register_agent_def bluez_request_default_def bluez_start_def bluez_refresh_def
      bluez_changed_def bluez_register_reply_def bluez_default_reply_def bluez_timeout_reply_def bluez_timer_def
      split_beta Let_def split: option.split list.split)

definition no_snapshot :: "'v bluez_output list \<Rightarrow> bool" where
  "no_snapshot out \<longleftrightarrow> (\<forall>as ds a. BzSnapshot as ds a \<notin> set out)"

lemma set_owner_snapshot [simp]: "\<not> no_snapshot (snd (bluez_set_owner owner b))"
  using set_owner_told [of owner b] unfolding bt_told_lost_def no_snapshot_def by blast

lemma no_snapshot_Cons: "no_snapshot (x # xs) \<Longrightarrow> no_snapshot xs"
  by (simp add: no_snapshot_def)

lemma no_snapshot_append [simp]: "no_snapshot (xs @ ys) \<longleftrightarrow> no_snapshot xs \<and> no_snapshot ys"
  by (auto simp: no_snapshot_def)

definition unpublished_ok :: "'v bluez_state \<Rightarrow> 'v bluez_state \<times> 'v bluez_output list \<Rightarrow> bool" where
  "unpublished_ok b r \<longleftrightarrow> (no_snapshot (snd r) \<longrightarrow> (bz_refreshing b \<longrightarrow> bz_refreshing (fst r)) \<and>
     (snd ` set (bz_ids b) \<subseteq> snd ` set (bz_ids (fst r)) \<or> bz_refreshing (fst r)))"

lemma refresh_reply_unpublished:
  assumes calls: "\<And>c. c \<in> set (bz_refresh_calls b) \<Longrightarrow> fst c = bz_generation b \<Longrightarrow> bz_owner b \<noteq> ''''"
  shows "unpublished_ok b (bluez_refresh_reply q i reply fresh b)"
proof (cases "i < length (bz_refresh_calls b)")
  case True
  obtain g r where c: "bz_refresh_calls b ! i = (g, r)" by fastforce
  have owner: "g = bz_generation b \<Longrightarrow> bz_owner b \<noteq> ''''" using calls [OF nth_mem [OF True]] c by simp
  have pub: "\<not> no_snapshot (snd (bluez_publish q fresh objects b'))" for objects b'
    by (simp add: bluez_publish_def split_beta Let_def) (auto simp: no_snapshot_def)
  show ?thesis
    using True c owner pub
    by (cases reply) (auto simp: bluez_refresh_reply_def split_beta Let_def unpublished_ok_def, auto simp: no_snapshot_def)
qed (simp add: bluez_refresh_reply_def unpublished_ok_def)

lemma bluez_step_unpublished:
  assumes good: "bluez_good b"
    and calls: "\<And>c. c \<in> set (bz_refresh_calls b) \<Longrightarrow> fst c = bz_generation b \<Longrightarrow> bz_owner b \<noteq> ''''"
    and sender: "\<And>path interfaces. ev \<noteq> BzInterfacesRemoved path interfaces ''''"
  shows "unpublished_ok b (bluez_step q ev b)"
proof (cases ev)
  case (BzRefreshReply i reply fresh)
  then show ?thesis using refresh_reply_unpublished [OF calls] by simp
next
  case (BzInterfacesRemoved path interfaces sender)
  then show ?thesis using good sender
    by (auto simp: bluez_interfaces_removed_def Let_def unpublished_ok_def bluez_good_def)
next
  case (BzAgentCall caller meth fresh)
  have "snd ` set ids \<subseteq> snd ` set (fst (snd (bz_id_for fresh path (ids, n))))" for path ids n
    by (auto simp: bz_id_for_def hash_insert_absent split: option.split)
  then show ?thesis using BzAgentCall
    by (auto simp: bluez_agent_call_def split_beta Let_def unpublished_ok_def split: option.split)
next
  case (BzOwnerReply i reply)
  then show ?thesis by (auto simp: bluez_owner_reply_def Let_def unpublished_ok_def)
next
  case (BzExecReply i error)
  then show ?thesis by (auto simp: bluez_exec_reply_def split_beta Let_def unpublished_ok_def)
next
  case (BzVisibleReply i error)
  then show ?thesis by (auto simp: bluez_visible_reply_def split_beta Let_def unpublished_ok_def)
next
  case (BzExecute rid op target v)
  have "bz_refreshing (fst (bluez_execute q rid op target v b)) = bz_refreshing b"
    by (cases rule: bluez_execute_cases [of q rid op target v b]) simp_all
  then show ?thesis using BzExecute by (simp add: unpublished_ok_def)
next
  case BzStop
  have "\<not> no_snapshot (snd (bluez_stop b))" if "bz_started b"
    using that unfolding bluez_stop_def split_beta Let_def by (auto dest!: no_snapshot_Cons)
  then show ?thesis using BzStop by (auto simp: unpublished_ok_def bluez_stop_def)
qed (simp_all add: unpublished_ok_def bluez_owner_changed_def bluez_notified_def)

end
