(* ===== verification/Bluetooth_System_Runs.thy ===== *)
theory Bluetooth_System_Runs
  imports BlueZ_Care
begin

text \<open>
  What the Bluetooth controller and the BlueZ backend guarantee together: no operation is lost between them.
  Identifiers of objects are never used again, so an operation whose reply the backend drops is about an object
  that has left the models or leaves them with the snapshot that is due.
\<close>

section \<open>Slots of the controller\<close>

lemma bt_snapshot_models:
  assumes "bt_keys_ok c"
  shows "bt_known (fst (bt_snapshot as ds a c)) t \<longleftrightarrow> a \<and> t \<in> ad_id ` set as \<union> dv_id ` set ds"
    and "bc_deferred (fst (bt_snapshot as ds a c)) = bc_deferred c"
    and "bt_keys_ok (fst (bt_snapshot as ds a c))"
proof -
  have "bt_keys_ok (bt_take as ds a c)" using assms by (simp add: bt_keys_ok_def bt_take_def)
  note F = bt_finish_lost_facts [OF this, of a "map snd (bc_pending c)", folded bt_snapshot_eq]
  have "find_by idf t rows \<noteq> None \<longleftrightarrow> t \<in> idf ` set rows" for idf :: "'b \<Rightarrow> string" and rows
    by auto
  then show "bt_known (fst (bt_snapshot as ds a c)) t \<longleftrightarrow> a \<and> t \<in> ad_id ` set as \<union> dv_id ` set ds"
    using F by (auto simp: bt_known_def bt_take_def adapter_model_find_def device_model_find_def)
  show "bc_deferred (fst (bt_snapshot as ds a c)) = bc_deferred c" "bt_keys_ok (fst (bt_snapshot as ds a c))"
    using F by (simp_all add: bt_take_def)
qed

lemma bt_finish_value:
  "bt_value (fst (bt_finish r c)) k = (if k = br_request r then None else bt_value c k)"
  "bt_keys_ok c \<Longrightarrow> bt_keys_ok (fst (bt_finish r c))" "bc_deferred (fst (bt_finish r c)) = bc_deferred c"
  "bt_known (fst (bt_finish r c)) = bt_known c"
  by (cases rule: bt_finish_cases [of c r]; auto simp: bt_keys_ok_def fun_eq_iff)+

text \<open>What a request that is still pending, and a target that is still known, say of the outputs of the
  backend that the slots have taken.\<close>

definition slots_kept :: "'v bluez_output list \<Rightarrow> 'w bt_state \<Rightarrow> 'w bt_state \<Rightarrow> bool" where
  "slots_kept out c c' \<longleftrightarrow> (\<forall>k r. bt_value c' k = Some r \<longrightarrow> bt_value c k = Some r \<and> \<not> bt_told_lost out \<and>
       (\<forall>res. BzFinished res \<in> set out \<longrightarrow> br_request res \<noteq> k)) \<and>
    (\<forall>t. bt_known c' t \<longrightarrow> no_snapshot out \<and> bt_known c t \<or>
       (\<exists>as ds. BzSnapshot as ds True \<in> set out \<and> t \<in> ad_id ` set as \<union> dv_id ` set ds))"

lemma slots_keptD:
  assumes "slots_kept out c c'"
  shows "bt_value c' k = Some r \<Longrightarrow> bt_value c k = Some r" "bt_value c' k = Some r \<Longrightarrow> \<not> bt_told_lost out"
    "bt_value c' k = Some r \<Longrightarrow> BzFinished res \<in> set out \<Longrightarrow> br_request res \<noteq> k"
    "bt_known c' t \<Longrightarrow> no_snapshot out \<and> bt_known c t \<or>
       (\<exists>as ds. BzSnapshot as ds True \<in> set out \<and> t \<in> ad_id ` set as \<union> dv_id ` set ds)"
  using assms unfolding slots_kept_def by blast+

lemma slots_kept_other:
  assumes "\<And>as ds a. x \<noteq> BzSnapshot as ds a" and "\<And>r. x \<noteq> BzFinished r"
  shows "slots_kept (x # out) = slots_kept out" "bt_slots (x # out) = bt_slots out"
proof -
  have "bt_told_lost (x # out) = bt_told_lost out" "no_snapshot (x # out) = no_snapshot out"
    "BzFinished res \<in> set (x # out) \<longleftrightarrow> BzFinished res \<in> set out"
    "BzSnapshot as ds True \<in> set (x # out) \<longleftrightarrow> BzSnapshot as ds True \<in> set out" for res as ds
    using assms [symmetric] by (simp_all add: bt_told_lost_def no_snapshot_def)
  then show "slots_kept (x # out) = slots_kept out" by (simp add: slots_kept_def fun_eq_iff)
  show "bt_slots (x # out) = bt_slots out" using assms by (cases x) auto
qed

lemma slots_kept_finished:
  assumes "slots_kept out (fst (bt_finish r c)) c'"
  shows "slots_kept (BzFinished r # out) c c'"
  unfolding slots_kept_def
proof (intro conjI allI impI)
  fix k x assume now: "bt_value c' k = Some x"
  have before: "bt_value (fst (bt_finish r c)) k = Some x" by (rule slots_keptD(1) [OF assms now])
  then show "bt_value c k = Some x" by (simp add: bt_finish_value split: if_splits)
  show "\<not> bt_told_lost (BzFinished r # out)" using slots_keptD(2) [OF assms now] by (simp add: bt_told_lost_def)
  fix res assume "BzFinished res \<in> set (BzFinished r # out)"
  then show "br_request res \<noteq> k" using slots_keptD(3) [OF assms now] before by (auto simp: bt_finish_value)
next
  fix t assume "bt_known c' t"
  from slots_keptD(4) [OF assms this]
  show "no_snapshot (BzFinished r # out) \<and> bt_known c t \<or>
      (\<exists>as ds. BzSnapshot as ds True \<in> set (BzFinished r # out) \<and> t \<in> ad_id ` set as \<union> dv_id ` set ds)"
    by (auto simp: bt_finish_value no_snapshot_def)
qed

lemma slots_kept_snapshot:
  assumes keys: "bt_keys_ok c" and "slots_kept out (fst (bt_snapshot as ds a c)) c'"
  shows "slots_kept (BzSnapshot as ds a # out) c c'"
  unfolding slots_kept_def
proof (intro conjI allI impI)
  note kept = bt_snapshot_value [OF keys, of as ds a]
  fix k r assume now: "bt_value c' k = Some r"
  have before: "bt_value (fst (bt_snapshot as ds a c)) k = Some r" by (rule slots_keptD(1) [OF assms(2) now])
  then show "bt_value c k = Some r" by (rule kept(1))
  have a using kept(2) [OF before] bt_snapshot_models(1) [OF keys] by (auto simp: bt_lost_def)
  then show "\<not> bt_told_lost (BzSnapshot as ds a # out)"
    using slots_keptD(2) [OF assms(2) now] by (simp add: bt_told_lost_def)
  fix res assume "BzFinished res \<in> set (BzSnapshot as ds a # out)"
  then show "br_request res \<noteq> k" using slots_keptD(3) [OF assms(2) now] by simp
next
  fix t assume "bt_known c' t"
  from slots_keptD(4) [OF assms(2) this]
  show "no_snapshot (BzSnapshot as ds a # out) \<and> bt_known c t \<or>
      (\<exists>as' ds'. BzSnapshot as' ds' True \<in> set (BzSnapshot as ds a # out) \<and> t \<in> ad_id ` set as' \<union> dv_id ` set ds')"
    using bt_snapshot_models(1) [OF keys] by (metis (full_types) list.set_intros(1,2))
qed

lemma slots_facts:
  assumes "bt_keys_ok c"
  shows "slots_kept out c (fst (bt_run (bt_slots out) c)) \<and> bc_deferred (fst (bt_run (bt_slots out) c)) = bc_deferred c"
  using assms
proof (induction out arbitrary: c)
  case Nil
  then show ?case by (simp add: slots_kept_def bt_told_lost_def no_snapshot_def)
next
  case (Cons x out)
  consider (snap) as ds a where "x = BzSnapshot as ds a" | (fin) r where "x = BzFinished r"
    | (other) "\<And>as ds a. x \<noteq> BzSnapshot as ds a" "\<And>r. x \<noteq> BzFinished r" by blast
  then show ?case
  proof cases
    case snap
    note IH = Cons.IH [OF bt_snapshot_models(3) [OF Cons.prems, of as ds a]]
    show ?thesis
      using slots_kept_snapshot [OF Cons.prems conjunct1 [OF IH]] conjunct2 [OF IH]
        bt_snapshot_models(2) [OF Cons.prems] by (simp add: snap split_beta Let_def)
  next
    case fin
    note IH = Cons.IH [OF bt_finish_value(2) [OF Cons.prems, where r = r]]
    show ?thesis
      using slots_kept_finished [OF conjunct1 [OF IH]] conjunct2 [OF IH] bt_finish_value(3) [where r = r and c = c]
      by (simp add: fin split_beta Let_def)
  next
    case other
    then show ?thesis using Cons.IH [OF Cons.prems] by (simp add: slots_kept_other [OF other])
  qed
qed

text \<open>A snapshot of an available service holds only objects that have an identifier.\<close>

lemma step_snapshot_ids:
  assumes ok: "ids_ok (bz_ids b)" "snd ` set (bz_ids b) \<subseteq> used" and ev: "bluez_event_ok used ev"
    and snap: "BzSnapshot as ds True \<in> set (snd (bluez_step q ev b))"
  shows "ad_id ` set as \<union> dv_id ` set ds \<subseteq> snd ` set (bz_ids (fst (bluez_step q ev b)))"
proof -
  have agent: "BzSnapshot as ds True \<notin> set (snd (with_agent f b'))" for f :: "agent_state \<Rightarrow> agent_state \<times> agent_output list" and b' :: "'a bluez_state"
    by (auto simp: with_agent_def split_beta Let_def)
  have simple: "BzSnapshot as ds True \<notin> set (snd (bluez_refresh b'))" "BzSnapshot as ds True \<notin> set (snd (bluez_changed b'))"
    "BzSnapshot as ds True \<notin> set (snd (bluez_register_agent b'))" "BzSnapshot as ds True \<notin> set (snd (bluez_request_default b'))"
    for b' :: "'a bluez_state"
    by (simp_all add: bluez_refresh_def bluez_changed_def bluez_register_agent_def bluez_request_default_def Let_def)
  have owner: "BzSnapshot as ds True \<notin> set (snd (bluez_set_owner o' b'))" for o' and b' :: "'a bluez_state"
    using agent simple by (auto simp: bluez_set_owner_def split_beta Let_def)
  show ?thesis
  proof (cases ev)
    case (BzRefreshReply i reply fresh)
    then have "new_ids used fresh" "BzSnapshot as ds True \<in> set (snd (bluez_refresh_reply q i reply fresh b))"
      using ev snap by auto
    then show ?thesis using refresh_reply_ids(2) [OF ok] BzRefreshReply by simp
  next
    case BzStop
    then show ?thesis using snap agent owner by (auto simp: bluez_stop_def split_beta Let_def split: if_splits)
  next
    case (BzExecReply i error)
    then show ?thesis using snap agent simple
      by (auto simp: bluez_exec_reply_def split_beta Let_def split: if_splits)
  qed (use ev snap agent simple owner in \<open>auto simp: bluez_start_def bluez_owner_changed_def bluez_notified_def
      bluez_interfaces_removed_def bluez_owner_reply_def bluez_register_reply_def bluez_default_reply_def
      bluez_timeout_reply_def bluez_visible_reply_def bluez_timer_def bluez_agent_call_def split_beta Let_def
      split: if_splits option.splits list.splits\<close>)
qed
section \<open>The invariant of the system\<close>

text \<open>A request is in flight when its zero timer has run. Known targets have an identifier in the backend unless
  a refresh is under way; a request in flight is in the care of the backend unless its target has lost its
  identifier.\<close>

definition bt_flight :: "'v bt_state \<Rightarrow> string \<Rightarrow> bt_result \<Rightarrow> bool" where
  "bt_flight c rid r \<longleftrightarrow> bt_value c rid = Some r \<and> (\<forall>v. (r, v) \<notin> set (bc_deferred c))"

definition bt_covered :: "string set \<Rightarrow> 'v bt_state \<Rightarrow> 'v bluez_state \<Rightarrow> bool" where
  "bt_covered used c b \<longleftrightarrow>
     (\<forall>t. bt_known c t \<longrightarrow> t \<in> used \<and> (t \<in> snd ` set (bz_ids b) \<or> bz_refreshing b)) \<and>
     (\<forall>rid r. bt_flight c rid r \<longrightarrow> in_care b (service_key r) \<or>
        br_operation r \<noteq> Forget \<and> br_target r \<notin> snd ` set (bz_ids b))"

definition backend_ok :: "string set \<Rightarrow> 'v bluez_state \<Rightarrow> bool" where
  "backend_ok used b \<longleftrightarrow> ids_ok (bz_ids b) \<and> snd ` set (bz_ids b) \<subseteq> used \<and> calls_ok used b"

lemma flight_facts:
  assumes "bt_inv c" and "bt_flight c rid r"
  shows "br_request r = rid" "bt_active r" "br_operation r \<noteq> Forget \<Longrightarrow> bt_known c (br_target r)"
proof -
  show "br_request r = rid" using assms by (auto simp: bt_flight_def bt_inv_def bt_keys_ok_def)
  show act: "bt_active r" using assms unfolding bt_flight_def bt_inv_def bt_queued_ok_def by blast
  show "br_operation r \<noteq> Forget \<Longrightarrow> bt_known c (br_target r)"
    using assms act unfolding bt_flight_def bt_inv_def bt_targets_ok_def by blast
qed

text \<open>A step of the backend and the slots it reaches.\<close>

lemma covered_backend:
  assumes inv: "bt_inv c" and ok: "backend_ok used b" and cov: "bt_covered used c b"
    and good: "bluez_good b" and owned: "\<And>x. x \<in> set (bz_refresh_calls b) \<Longrightarrow> fst x = bz_generation b \<Longrightarrow> bz_owner b \<noteq> ''''"
    and ev: "bluez_event_ok used ev" and step: "bluez_step q ev b = (b', out)"
  shows "bt_covered (used \<union> snd ` set (bz_ids b')) (fst (bt_run (bt_slots out) c)) b'"
proof -
  let ?c = "fst (bt_run (bt_slots out) c)"
  have ids: "ids_ok (bz_ids b)" "snd ` set (bz_ids b) \<subseteq> used" "calls_ok used b" using ok by (simp_all add: backend_ok_def)
  have out: "out = snd (bluez_step q ev b)" "b' = fst (bluez_step q ev b)" using step by simp_all
  have keys: "bt_keys_ok c" using inv by (simp add: bt_inv_def)
  note slots = slots_keptD [OF conjunct1 [OF slots_facts [OF keys]], of out]
  have deferred: "bc_deferred ?c = bc_deferred c" using slots_facts [OF keys] by blast
  have grow: "ids_grow used (bz_ids b) (bz_ids b')" unfolding out using bluez_step_ids [OF ids(1,2)] ev by blast
  have care: "keeps_care b (b', out)" using bluez_step_care [OF ids(3,1)] step by metis
  have "ev \<noteq> BzInterfacesRemoved path interfaces ''''" for path interfaces using ev by auto
  from bluez_step_unpublished [OF good owned this, where q = q]
  have unpub: "no_snapshot out \<Longrightarrow> (bz_refreshing b \<longrightarrow> bz_refreshing b') \<and>
      (snd ` set (bz_ids b) \<subseteq> snd ` set (bz_ids b') \<or> bz_refreshing b')"
    by (simp add: unpublished_ok_def out)
  show ?thesis
    unfolding bt_covered_def
  proof (intro conjI allI impI)
    fix t assume "bt_known ?c t"
    then consider (old) "no_snapshot out" "bt_known c t"
      | (new) as ds where "BzSnapshot as ds True \<in> set out" "t \<in> ad_id ` set as \<union> dv_id ` set ds"
      using slots(4) by blast
    then have "t \<in> used \<union> snd ` set (bz_ids b') \<and> (t \<in> snd ` set (bz_ids b') \<or> bz_refreshing b')"
    proof cases
      case old
      have "t \<in> used" "t \<in> snd ` set (bz_ids b) \<or> bz_refreshing b"
        using cov old(2) unfolding bt_covered_def by blast+
      then show ?thesis using unpub [OF old(1)] by blast
    next
      case new
      then have "t \<in> snd ` set (bz_ids b')"
        using step_snapshot_ids [OF ids(1,2) ev] unfolding out by blast
      then show ?thesis by blast
    qed
    then show "t \<in> used \<union> snd ` set (bz_ids b')" "t \<in> snd ` set (bz_ids b') \<or> bz_refreshing b'" by blast+
  next
    fix rid r assume flight: "bt_flight ?c rid r"
    then have now: "bt_value ?c rid = Some r" by (simp add: bt_flight_def)
    have before: "bt_flight c rid r" using flight slots(1) [OF now] deferred by (simp add: bt_flight_def)
    note facts = flight_facts [OF inv before]
    have "in_care b (service_key r) \<or> br_operation r \<noteq> Forget \<and> br_target r \<notin> snd ` set (bz_ids b)"
      using cov before unfolding bt_covered_def by blast
    then show "in_care b' (service_key r) \<or> br_operation r \<noteq> Forget \<and> br_target r \<notin> snd ` set (bz_ids b')"
    proof
      assume "in_care b (service_key r)"
      then have "in_care b' (service_key r) \<or> (\<exists>res. BzFinished res \<in> set out \<and> br_request res = br_request r) \<or>
          br_operation r \<noteq> Forget \<and> br_target r \<notin> snd ` set (bz_ids b')"
        using care slots(2) [OF now] unfolding keeps_care_def service_key_def by auto
      then show ?thesis using slots(3) [OF now] facts(1) by blast
    next
      assume gone: "br_operation r \<noteq> Forget \<and> br_target r \<notin> snd ` set (bz_ids b)"
      then have "br_target r \<in> used" using facts(3) cov unfolding bt_covered_def by blast
      then have "br_target r \<notin> snd ` set (bz_ids b')" using gone grow unfolding ids_grow_def by force
      then show ?thesis using gone by blast
    qed
  qed
qed

lemma backend_ok_step:
  assumes ok: "backend_ok used b" and ev: "bluez_event_ok used ev"
  shows "backend_ok (used \<union> snd ` set (bz_ids (fst (bluez_step q ev b)))) (fst (bluez_step q ev b))"
proof -
  have ids: "ids_ok (bz_ids b)" "snd ` set (bz_ids b) \<subseteq> used" "calls_ok used b" using ok by (simp_all add: backend_ok_def)
  have grow: "ids_grow used (bz_ids b) (bz_ids (fst (bluez_step q ev b)))"
    using bluez_step_ids [OF ids(1,2)] ev by blast
  have "ev \<noteq> BzExecute rid op t v" for rid op t v using ev by auto
  from calls_ok_mono [OF ids(3) grow step_calls [OF this]] grow show ?thesis
    unfolding backend_ok_def ids_grow_def by blast
qed

text \<open>A step of the controller, and the command it gives.\<close>

lemma backend_ok_execute:
  assumes "backend_ok used b"
  shows "backend_ok (used \<union> snd ` set (bz_ids (fst (bluez_execute q rid op target v b))))
    (fst (bluez_execute q rid op target v b))"
proof -
  have "used \<union> snd ` set (bz_ids b) = used" using assms by (auto simp: backend_ok_def)
  then show ?thesis using assms execute_calls_ok [of b used] by (simp add: backend_ok_def)
qed

lemma execute_refreshing: "bz_refreshing (fst (bluez_execute q rid op target v b)) = bz_refreshing b"
  by (cases rule: bluez_execute_cases [of q rid op target v b]) simp_all

lemma covered_sub:
  assumes "bt_covered used c b" and "\<And>t. bt_known c' t = bt_known c t"
    and "\<And>rid r. bt_flight c' rid r \<Longrightarrow> bt_flight c rid r"
  shows "bt_covered used c' b"
  using assms(1,3) unfolding bt_covered_def assms(2) by blast

lemma covered_app_execute:
  assumes "bt_value c rid = None" and "bt_inv c" and "bt_covered used c b"
  shows "bt_covered used (fst (bt_execute op target v rid c)) b"
proof (rule covered_sub [OF assms(3)])
  show "bt_known (fst (bt_execute op target v rid c)) t = bt_known c t" for t
    by (simp add: bt_execute_def Let_def)
  fix k r assume "bt_flight (fst (bt_execute op target v rid c)) k r"
  then show "bt_flight c k r"
    by (auto simp: bt_flight_def bt_execute_def Let_def split: if_splits)
qed

lemma covered_timer:
  assumes inv: "bt_inv c" and cov: "bt_covered used c b"
  shows "bt_covered used (fst (bt_timer c)) (bluez_moves q (bt_commands (snd (bt_timer c))) b)"
proof (cases "bc_deferred c")
  case Nil
  then show ?thesis using cov by (simp add: bt_timer_def bluez_moves_def)
next
  case (Cons x rest)
  obtain r v where x: "x = (r, v)" by (cases x)
  let ?c = "c\<lparr>bc_deferred := rest\<rparr>"
  have sub: "bt_flight c k s" if "bt_flight ?c k s" "k \<noteq> br_request r" for k s
  proof -
    have "br_request s = k" using that inv by (auto simp: bt_flight_def bt_inv_def bt_keys_ok_def)
    then show ?thesis using that by (auto simp: bt_flight_def Cons x)
  qed
  consider (gone) "\<not> hash_contains (bc_pending c) (br_request r)" | (fail) "hash_contains (bc_pending c) (br_request r)"
      "br_error_name r \<noteq> ''''" | (sent) "hash_contains (bc_pending c) (br_request r)" "br_error_name r = ''''" by blast
  then show ?thesis
  proof cases
    case gone
    have t: "bt_timer c = (?c, [])" using gone by (simp add: bt_timer_def Cons x Let_def)
    have "bt_flight c k s" if "bt_flight ?c k s" for k s
      using sub [OF that] that gone by (cases "k = br_request r") (auto simp: bt_flight_def)
    then show ?thesis using covered_sub [OF cov] by (simp add: t bluez_moves_def)
  next
    case fail
    have t: "bt_timer c = bt_finish r ?c" using fail by (auto simp: bt_timer_def Cons x Let_def)
    have cmds: "bt_commands (snd (bt_finish r ?c)) = []" by (simp add: bt_finish_def)
    have "bt_flight c k s" if "bt_flight (fst (bt_finish r ?c)) k s" for k s
      using that sub [of k s] bt_finish_value [where r = r and c = ?c] by (auto simp: bt_flight_def split: if_splits)
    then show ?thesis using covered_sub [OF cov] bt_finish_value(4) [where r = r and c = ?c]
      by (simp add: t cmds bluez_moves_def)
  next
    case sent
    have t: "bt_timer c = (?c, [BtBackendExecute (br_request r) (br_operation r) (br_target r) v])"
      using sent by (simp add: bt_timer_def Cons x Let_def)
    let ?b = "fst (bluez_execute q (br_request r) (br_operation r) (br_target r) v b)"
    have care: "in_care ?b k \<longleftrightarrow> service_key r = k \<or> in_care b k" for k
      by (simp add: execute_care service_key_def)
    have "bt_covered used ?c ?b"
      unfolding bt_covered_def
    proof (intro conjI allI impI)
      fix t assume "bt_known ?c t"
      then show "t \<in> used" "t \<in> snd ` set (bz_ids ?b) \<or> bz_refreshing ?b"
        using cov by (simp_all add: bt_covered_def execute_refreshing)
    next
      fix k s assume flight: "bt_flight ?c k s"
      show "in_care ?b (service_key s) \<or> br_operation s \<noteq> Forget \<and> br_target s \<notin> snd ` set (bz_ids ?b)"
      proof (cases "s = r")
        case True
        then show ?thesis by (simp add: care)
      next
        case False
        then have "bt_flight c k s" using flight by (auto simp: bt_flight_def Cons x)
        then show ?thesis using cov by (auto simp: bt_covered_def care)
      qed
    qed
    then show ?thesis by (simp add: t bluez_moves_def)
  qed
qed

lemma timer_commands:
  "bt_commands (snd (bt_timer c)) = [] \<or> (\<exists>rid op target v. bt_commands (snd (bt_timer c)) = [BzExecute rid op target v])"
proof (cases "bc_deferred c")
  case (Cons x rest)
  obtain r v where "x = (r, v)" by (cases x)
  then show ?thesis using Cons by (auto simp: bt_timer_def bt_finish_def Let_def)
qed (simp add: bt_timer_def)

lemma bluetooth_owned:
  assumes "length evs < 2 ^ 64" and "x \<in> set (bz_refresh_calls (bluez_run q service path evs))"
    and "fst x = bz_generation (bluez_run q service path evs)"
  shows "bz_owner (bluez_run q service path evs) \<noteq> ''''"
proof -
  let ?v = "bluez_view (bluez_run q service path evs)"
  have inv: "refresh_inv (length evs) ?v" by (rule bluez.run_inv [OF assms(1)])
  have "x \<in> set (current_calls ?v)" using assms(2,3) by (simp add: current_calls_def)
  then have "rv_busy ?v" using inv by (auto simp: refresh_inv_def split: if_splits)
  then show ?thesis using inv by (simp add: refresh_inv_def)
qed

lemma bluetooth_begun:
  assumes "distinct (bt_begun seen)" and "rid \<notin> set (bt_begun seen)"
  shows "bt_value (fst (bt_run seen bt_init)) rid = None"
proof -
  have "rid \<notin># image_mset fst (mset (bc_pending (fst (bt_run seen bt_init))))"
    using bt_run_facts [OF assms(1)] assms(2) by (metis set_mset_mset union_iff)
  then show ?thesis by (auto simp: map_of_eq_None_iff)
qed

lemma bluetooth_invariant:
  "bluetooth_system_run q service path sys used seen evs \<Longrightarrow> length evs < 2 ^ 64 \<Longrightarrow>
   backend_ok used (bs_backend sys) \<and> bt_covered used (bs_controller sys) (bs_backend sys)"
proof (induction rule: bluetooth_system_run.induct)
  case start
  show ?case
    by (simp add: bluetooth_system_init_def bluez_start_def bluez_init_def backend_ok_def ids_ok_Nil calls_ok_def
        bt_covered_def bt_flight_def bt_init_def bt_known_def adapter_model_find_def device_model_find_def)
next
  case (step sys used seen evs ev sys' out cs bs)
  let ?c = "bs_controller sys" and ?b = "bs_backend sys"
  note parts = bluetooth_components [OF step.hyps(1)]
  have len: "length evs < 2 ^ 64" using step.prems by simp
  have ok: "backend_ok used ?b" and cov: "bt_covered used ?c ?b" using step.IH [OF len] by simp_all
  have inv: "bt_inv ?c" using bt_run_facts parts by metis
  have same: "used \<union> snd ` set (bz_ids ?b) = used" using ok by (auto simp: backend_ok_def)
  show ?case
  proof (cases ev)
    case (AppExecute op target v rid)
    have "bt_commands (snd (bt_execute op target v rid ?c)) = []" by (simp add: bt_execute_def Let_def)
    then have sys': "sys' = \<lparr>bs_controller = fst (bt_execute op target v rid ?c), bs_backend = ?b\<rparr>"
      using step.hyps(3) by (auto simp: AppExecute app_step_def split_beta Let_def bluez_moves_def)
    have "bt_value ?c rid = None" using bluetooth_begun [of seen rid] parts step.hyps(2) AppExecute by simp
    then show ?thesis using ok covered_app_execute [OF _ inv cov] by (simp add: sys' same)
  next
    case BtControllerTimer
    have sys': "sys' = \<lparr>bs_controller = fst (bt_timer ?c),
        bs_backend = bluez_moves q (bt_commands (snd (bt_timer ?c))) ?b\<rparr>"
      using step.hyps(3) by (auto simp: BtControllerTimer app_step_def split_beta Let_def)
    have ids: "bz_ids (bs_backend sys') = bz_ids ?b" and "backend_ok used (bs_backend sys')"
      using timer_commands [of ?c] ok execute_calls_ok [of ?b used]
      by (elim disjE exE; simp add: sys' bluez_moves_def backend_ok_def)+
    then show ?thesis using covered_timer [OF inv cov] by (simp add: same) (simp add: sys')
  next
    case (FromBlueZ e)
    obtain b' bout where e: "bluez_step q e ?b = (b', bout)" by fastforce
    have sys': "bs_backend sys' = b'" "bs_controller sys' = fst (bt_run (bt_slots bout) ?c)"
      using step.hyps(3) e by (auto simp: FromBlueZ split_beta Let_def)
    have ev: "bluez_event_ok used e" using step.hyps(2) FromBlueZ by simp
    have "bluez_good ?b" using parts bluez.run_good by simp
    moreover have "bz_owner ?b \<noteq> ''''" if "x \<in> set (bz_refresh_calls ?b)" "fst x = bz_generation ?b" for x
      using bluetooth_owned [OF len, of x q service path] parts that by simp
    ultimately show ?thesis
      using covered_backend [OF inv ok cov _ _ ev e] backend_ok_step [OF ok ev, of q] by (simp add: sys' e)
  qed
qed

lemma bluetooth_refreshing:
  assumes "bluetooth_system_run q service path sys used seen evs" and "length evs < 2 ^ 64"
    and "bz_refreshing (bs_backend sys)"
  shows "\<exists>revision. (bz_generation (bs_backend sys), revision) \<in> set (bz_refresh_calls (bs_backend sys))"
proof -
  have "refresh_inv (length evs) (bluez_view (bs_backend sys))"
    using bluez.run_inv [OF assms(2)] bluetooth_components [OF assms(1)] by metis
  from current_call_index [OF this] assms(3) show ?thesis by (metis bluez_view_sel(1,3,5) nth_mem)
qed

section \<open>Properties\<close>

text \<open>The composed Bluetooth system is a run of its components: in every reachable state the controller is
  in the state its own model reaches after the slots and operations it has seen, with request identifiers
  that are not repeated, and the backend is in the state its own model reaches after the D-Bus events and
  the commands it has seen, which come only from the controller; the identifiers it assigns to
  object paths are a bijection.\<close>

theorem bluetooth_system_contract:
  assumes "bluetooth_system_run q service path sys used seen evs" and "length evs < 2 ^ 64"
  shows "bs_controller sys = fst (bt_run seen bt_init) \<and> distinct (bt_begun seen) \<and>
    bs_backend sys = bluez_run q service path evs \<and> inj_on snd (set (bz_ids (bs_backend sys))) \<and>
    distinct (map fst (bz_ids (bs_backend sys)))"
proof -
  have "ids_ok (bz_ids (bs_backend sys))"
    using bluetooth_invariant [OF assms] by (simp add: backend_ok_def)
  then show ?thesis using bluetooth_components [OF assms(1)] by (auto simp: ids_ok_def hash_ok_def distinct_map)
qed

text \<open>C14. Every adapter and device that the application sees in the models can be operated on: the
  backend finds its path by its identifier, or a call of GetManagedObjects to the
  current owner, whose reply replaces the models, is in flight.\<close>

theorem bt_known_targets:
  assumes "bluetooth_system_run q service path sys used seen evs" and "length evs < 2 ^ 64"
    and "bt_known (bs_controller sys) target"
  shows "(\<exists>object. (object, target) \<in> set (bz_ids (bs_backend sys))) \<or>
    (\<exists>revision. (bz_generation (bs_backend sys), revision) \<in> set (bz_refresh_calls (bs_backend sys)))"
proof -
  have "target \<in> snd ` set (bz_ids (bs_backend sys)) \<or> bz_refreshing (bs_backend sys)"
    using bluetooth_invariant [OF assms(1,2)] assms(3) unfolding bt_covered_def by blast
  then show ?thesis using bluetooth_refreshing [OF assms(1,2)] by force
qed

text \<open>C13. No Bluetooth operation is lost between controller and backend: an operation that is pending and whose
  zero timer has run is answered for by the backend, which holds a zero timer, a call to BlueZ or a
  write of the visibility for it under the current owner, or its target has no identifier
  any more and the call of GetManagedObjects whose snapshot completes it as disappeared is in flight.\<close>

theorem bt_no_operation_lost:
  assumes "bluetooth_system_run q service path sys used seen evs" and "length evs < 2 ^ 64"
    and "hash_value (bc_pending (bs_controller sys)) rid = Some r"
    and "\<forall>v. (r, v) \<notin> set (bc_deferred (bs_controller sys))"
  shows "(\<exists>res. br_request res = rid \<and> br_target res = br_target r \<and> br_operation res = br_operation r \<and>
      (res \<in> set (bz_timers (bs_backend sys)) \<or>
       (\<exists>object d. (bz_generation (bs_backend sys), object, res, d) \<in> set (bz_exec_calls (bs_backend sys))) \<or>
       (\<exists>v. (bz_generation (bs_backend sys), res, v) \<in> set (bz_timeout_calls (bs_backend sys))) \<or>
       (bz_generation (bs_backend sys), res) \<in> set (bz_visible_calls (bs_backend sys)))) \<or>
    br_operation r \<noteq> Forget \<and> br_target r \<notin> snd ` set (bz_ids (bs_backend sys)) \<and>
    (\<exists>revision. (bz_generation (bs_backend sys), revision) \<in> set (bz_refresh_calls (bs_backend sys)))"
proof -
  let ?c = "bs_controller sys" and ?b = "bs_backend sys"
  have flight: "bt_flight ?c rid r" using assms(3,4) by (simp add: bt_flight_def)
  have "bt_inv ?c" using bt_run_facts bluetooth_components [OF assms(1)] by metis
  note facts = flight_facts [OF this flight]
  have cov: "bt_covered used ?c ?b" using bluetooth_invariant [OF assms(1,2)] by simp
  then have "in_care ?b (service_key r) \<or> br_operation r \<noteq> Forget \<and> br_target r \<notin> snd ` set (bz_ids ?b)"
    using flight unfolding bt_covered_def by blast
  then show ?thesis
  proof
    assume "in_care ?b (service_key r)"
    then show ?thesis using facts(1) unfolding in_care_iff service_key_def prod.inject by blast
  next
    assume gone: "br_operation r \<noteq> Forget \<and> br_target r \<notin> snd ` set (bz_ids ?b)"
    then have "bz_refreshing ?b" using facts(3) cov unfolding bt_covered_def by blast
    then show ?thesis using gone bluetooth_refreshing [OF assms(1,2)] by blast
  qed
qed

section \<open>A concrete run\<close>

text \<open>A run as a fold: the system, the identifiers drawn, and the events of the controller and the backend.\<close>

fun bluetooth_exec ::
  "'v qvariant_ops \<Rightarrow> 'v bluetooth_system_event \<Rightarrow>
   'v bluetooth_system \<times> string set \<times> 'v bt_event list \<times> 'v bluez_event list \<Rightarrow>
   'v bluetooth_system \<times> string set \<times> 'v bt_event list \<times> 'v bluez_event list" where
  "bluetooth_exec q ev (sys, used, seen, evs) =
     (let (sys', out, cs, bs) = bluetooth_system_step q ev sys
      in (sys', used \<union> snd ` set (bz_ids (bs_backend sys')), seen @ cs, evs @ bs))"

text \<open>The application starts the discovery of the only adapter.\<close>

definition discovery_events :: "demo_value bluetooth_system_event list" where
  "discovery_events = [FromBlueZ (BzOwnerReply 0 (Some '':1'')),
     FromBlueZ (BzRefreshReply 0 (Some demo_adapters) demo_fresh),
     AppExecute StartDiscovery ''i'' DInvalid ''r'', BtControllerTimer]"

definition discovery_run ::
  "nat \<Rightarrow> demo_value bluetooth_system \<times> string set \<times> demo_value bt_event list \<times> demo_value bluez_event list" where
  "discovery_run n = fold (bluetooth_exec demo_ops) (take n discovery_events)
     (bluetooth_system_init ''org.bluez'' ''/agent'', {}, [], [BzStart])"

abbreviation "discovery_seen n \<equiv> fst (snd (snd (discovery_run n)))"
abbreviation "discovery_moved n \<equiv> snd (snd (snd (discovery_run n)))"

definition discovery_reached :: "nat \<Rightarrow> bool" where
  "discovery_reached n \<longleftrightarrow> bluetooth_system_run demo_ops ''org.bluez'' ''/agent'' (fst (discovery_run n))
     (fst (snd (discovery_run n))) (discovery_seen n) (discovery_moved n)"

lemma discovery_run_Suc:
  assumes "n < 4" and "discovery_reached n"
    and "bluetooth_event_ok (fst (snd (discovery_run n))) (discovery_seen n) (discovery_events ! n)"
  shows "discovery_reached (Suc n)"
proof -
  have "n < length discovery_events" using assms(1) by (simp add: discovery_events_def)
  then have after: "discovery_run (Suc n) = bluetooth_exec demo_ops (discovery_events ! n) (discovery_run n)"
    by (simp add: discovery_run_def take_Suc_conv_app_nth)
  obtain sys used seen evs where r: "discovery_run n = (sys, used, seen, evs)" by (cases "discovery_run n") auto
  obtain sys' out cs bs where s: "bluetooth_system_step demo_ops (discovery_events ! n) sys = (sys', out, cs, bs)"
    by (cases "bluetooth_system_step demo_ops (discovery_events ! n) sys") auto
  show ?thesis
    using bluetooth_system_run.step [OF assms(2) [unfolded discovery_reached_def] assms(3), of sys' out cs bs] s
    by (simp add: discovery_reached_def after r)
qed

lemma discovery_runs: "discovery_reached 2" "discovery_reached 4"
proof -
  have 0: "discovery_reached 0"
    by (simp add: discovery_reached_def discovery_run_def bluetooth_system_run.start)
  then have 1: "discovery_reached (Suc 0)"
    by (rule discovery_run_Suc [rotated]) (simp_all add: discovery_events_def)
  have "fst (snd (discovery_run (Suc 0))) = {}" by code_simp
  moreover have "new_ids {} demo_fresh"
    by (auto simp: new_ids_def inj_def demo_fresh_def replicate_eq_replicate)
  ultimately have 2: "discovery_reached (Suc (Suc 0))"
    by (intro discovery_run_Suc [OF _ 1]) (simp_all add: discovery_events_def)
  then show "discovery_reached 2" by (simp add: numeral_2_eq_2)
  have "''r'' \<notin> set (bt_begun (discovery_seen (Suc (Suc 0))))" by code_simp
  then have 3: "discovery_reached (Suc (Suc (Suc 0)))"
    by (intro discovery_run_Suc [OF _ 2]) (simp_all add: discovery_events_def)
  then have "discovery_reached (Suc (Suc (Suc (Suc 0))))"
    by (rule discovery_run_Suc [rotated]) (simp_all add: discovery_events_def)
  then show "discovery_reached 4" by (simp add: eval_nat_numeral)
qed

lemma discovery_length: "length (discovery_moved 2) < 2 ^ 64" "length (discovery_moved 4) < 2 ^ 64"
proof -
  have "length (discovery_moved 2) = 3" "length (discovery_moved 4) = 4" by code_simp+
  then show "length (discovery_moved 2) < 2 ^ 64" "length (discovery_moved 4) < 2 ^ 64" by simp_all
qed

lemma bluetooth_system_contract_witness:
  "bs_backend (fst (discovery_run 4)) = bluez_run demo_ops ''org.bluez'' ''/agent'' (discovery_moved 4) \<and>
   bs_controller (fst (discovery_run 4)) = fst (bt_run (discovery_seen 4) bt_init)"
  using bluetooth_system_contract [OF discovery_runs(2) [unfolded discovery_reached_def] discovery_length(2)] by blast

lemma bt_known_targets_witness:
  "\<exists>object. (object, ''i'') \<in> set (bz_ids (bs_backend (fst (discovery_run 2))))"
proof -
  have "bt_known (bs_controller (fst (discovery_run 2))) ''i''" "bz_refresh_calls (bs_backend (fst (discovery_run 2))) = []"
    by code_simp+
  then show ?thesis
    using bt_known_targets [OF discovery_runs(1) [unfolded discovery_reached_def] discovery_length(1)] by fastforce
qed

lemma bt_no_operation_lost_witness:
  "\<exists>object res d. br_request res = ''r'' \<and> br_operation res = StartDiscovery \<and>
     (bz_generation (bs_backend (fst (discovery_run 4))), object, res, d)
       \<in> set (bz_exec_calls (bs_backend (fst (discovery_run 4))))"
proof -
  let ?sys = "fst (discovery_run 4)"
  let ?r = "\<lparr>br_request = ''r'', br_target = ''i'', br_operation = StartDiscovery, br_error_name = '''',
    br_error_message = ''''\<rparr>"
  have r: "hash_value (bc_pending (bs_controller ?sys)) ''r'' = Some ?r" and queue: "bc_deferred (bs_controller ?sys) = []"
    and rest: "bz_timers (bs_backend ?sys) = []" "bz_timeout_calls (bs_backend ?sys) = []"
      "bz_visible_calls (bs_backend ?sys) = []" "bz_refresh_calls (bs_backend ?sys) = []"
    by code_simp+
  from bt_no_operation_lost [OF discovery_runs(2) [unfolded discovery_reached_def] discovery_length(2) r] queue rest
  show ?thesis by fastforce
qed

end
