(* ===== verification/Json_Values.thy ===== *)
theory Json_Values
  imports Complex_Main Qt_Prelude Text_Numbers
begin

text \<open>
  JSON values as \<open>QJsonValue\<close> presents them to the compositor backends: a missing member is
  \<open>JUndefined\<close>, and each accessor returns its default for a value of another type. The parser
  \<open>QJsonDocument::fromJson\<close>, the conversion of a stored number to \<open>double\<close> and the encoding of a
  \<open>QString\<close> as UTF-8 belong to Qt: they are the fields of one parameter.
\<close>

datatype json =
    JUndefined
  | JNull
  | JBool bool
  | JNumber rat
  | JText string
  | JArray "json list"
  | JObject "(string \<times> json) list"

type_synonym json_object = "(string \<times> json) list"

record json_ops =
  js_parse :: "string \<Rightarrow> json option"
  js_double :: "rat \<Rightarrow> rat"
  js_utf8 :: "string \<Rightarrow> string"

definition member :: "json_object \<Rightarrow> string \<Rightarrow> json" where
  "member obj name = (case map_of obj name of Some v \<Rightarrow> v | None \<Rightarrow> JUndefined)"

fun json_text :: "json \<Rightarrow> string" where
  "json_text (JText s) = s"
| "json_text _ = ''''"

fun json_array :: "json \<Rightarrow> json list" where
  "json_array (JArray vs) = vs"
| "json_array _ = []"

fun json_object :: "json \<Rightarrow> json_object" where
  "json_object (JObject obj) = obj"
| "json_object _ = []"

fun json_bool :: "json \<Rightarrow> bool" where
  "json_bool (JBool b) = b"
| "json_bool _ = False"

fun is_json_array :: "json \<Rightarrow> bool" where
  "is_json_array (JArray _) = True"
| "is_json_array _ = False"

fun is_json_text :: "json \<Rightarrow> bool" where
  "is_json_text (JText _) = True"
| "is_json_text _ = False"

fun is_json_object :: "json \<Rightarrow> bool" where
  "is_json_object (JObject _) = True"
| "is_json_object _ = False"

definition whole :: "rat \<Rightarrow> bool" where
  "whole r = (of_int \<lfloor>r\<rfloor> = r)"

text \<open>\<open>toInt\<close> and \<open>toInteger\<close>: the number when it is a whole one in range, otherwise the default.\<close>

definition json_integer :: "nat \<Rightarrow> int \<Rightarrow> json \<Rightarrow> int" where
  "json_integer bits dflt v =
     (case v of
        JNumber r \<Rightarrow> if whole r \<and> - (2 ^ (bits - 1)) \<le> \<lfloor>r\<rfloor> \<and> \<lfloor>r\<rfloor> < 2 ^ (bits - 1) then \<lfloor>r\<rfloor> else dflt
      | _ \<Rightarrow> dflt)"

text \<open>Members are smaller than the object they are read from; this is what the recursive
  traversals of a tree of objects rely on.\<close>

lemma size_member: "size (member obj name) < size (JObject obj)"
proof (cases "map_of obj name")
  case (Some v)
  then have "(name, v) \<in> set obj" by (rule map_of_SomeD)
  then have "size v \<le> size_list (size_prod (\<lambda>x. 0) size) obj"
    by (induction obj) auto
  with Some show ?thesis by (simp add: member_def)
qed (simp add: member_def)

lemma size_json_array: "v \<in> set (json_array w) \<Longrightarrow> size v < size w"
  by (cases w) (auto simp: less_Suc_eq_le size_list_estimation' intro: order.trans [OF _ size_list_estimation'])

lemma size_json_array_le: "size_list size (json_array w) \<le> size w"
  by (cases w) auto

text \<open>A parser of three documents, numbers of small size and ASCII text, for evaluating theorems that
  have \<open>json_ops\<close> as a parameter.\<close>

definition demo_json :: "(string \<times> json) list \<Rightarrow> json_ops" where
  "demo_json documents = \<lparr>js_parse = map_of documents, js_double = id, js_utf8 = id\<rparr>"

end
