(* ===== verification/Compositor_Types.thy ===== *)
theory Compositor_Types
  imports Qt_Prelude Text_Numbers
begin

text \<open>
  The records every compositor backend publishes (\<open>CompositorSnapshot.h\<close>, \<open>WindowManagement.h\<close>,
  \<open>NumberedWorkspaceProvider.h\<close>), with the defaults of their members.
\<close>

datatype window_command =
    Activate | Minimize | Restore | Maximize | Unmaximize | Fullscreen | Unfullscreen | Close

datatype command_result =
    CommandAccepted | CommandInvalidWindow | CommandUnsupported | CommandDisconnected | CommandMissingSeat

record comp_capabilities =
  cap_window_listing :: bool
  cap_workspace_listing :: bool
  cap_workspace_activation :: bool
  cap_window_activation :: bool
  cap_active_window :: bool
  cap_focused_output :: bool
  cap_urgency :: bool
  cap_occupancy :: bool

record comp_workspace =
  cw_id :: string
  cw_display_name :: string
  cw_stable_order :: int
  cw_groups :: "string list"
  cw_outputs :: "string list"
  cw_active :: bool
  cw_focused :: bool
  cw_urgent :: bool
  cw_occupied :: "bool option"
  cw_can_activate :: bool

record comp_active_window =
  aw_app_id :: string
  aw_title :: string
  aw_category :: string

record comp_window =
  win_id :: string
  win_title :: string
  win_app_id :: string
  win_outputs :: "string list"
  win_activated :: bool
  win_minimized :: bool
  win_maximized :: bool
  win_fullscreen :: bool
  win_operations :: "window_command list"
  win_pid :: "32 word"

record comp_snapshot =
  cs_connected :: bool
  cs_diagnostic :: string
  cs_focused_output :: string
  cs_capabilities :: comp_capabilities
  cs_workspaces :: "comp_workspace list"
  cs_windows :: "comp_window list"
  cs_active_windows :: "(string, comp_active_window) qhash"
  cs_occupied_outputs :: "(string, bool) qhash"

record numbered_state =
  nw_eligible :: bool
  nw_assignments :: "(string, int) qhash"

definition no_capabilities :: comp_capabilities where
  "no_capabilities = \<lparr>cap_window_listing = False, cap_workspace_listing = False,
     cap_workspace_activation = False, cap_window_activation = False, cap_active_window = False,
     cap_focused_output = False, cap_urgency = False, cap_occupancy = False\<rparr>"

definition default_workspace :: comp_workspace where
  "default_workspace = \<lparr>cw_id = '''', cw_display_name = '''', cw_stable_order = 0, cw_groups = [],
     cw_outputs = [], cw_active = False, cw_focused = False, cw_urgent = False, cw_occupied = None,
     cw_can_activate = True\<rparr>"

definition default_window :: comp_window where
  "default_window = \<lparr>win_id = '''', win_title = '''', win_app_id = '''', win_outputs = [],
     win_activated = False, win_minimized = False, win_maximized = False, win_fullscreen = False,
     win_operations = [], win_pid = 0\<rparr>"

definition no_snapshot :: comp_snapshot where
  "no_snapshot = \<lparr>cs_connected = False, cs_diagnostic = '''', cs_focused_output = '''',
     cs_capabilities = no_capabilities, cs_workspaces = [], cs_windows = [], cs_active_windows = [],
     cs_occupied_outputs = []\<rparr>"

definition no_numbers :: numbered_state where
  "no_numbers = \<lparr>nw_eligible = False, nw_assignments = []\<rparr>"

end
