(* ===== verification/Window_Activation.thy ===== *)
theory Window_Activation
  imports Compositor_Types
begin

text \<open>
  \<open>WindowActivation.cpp\<close>: an application that wants a window focused sends its process lineage, the
  process first and its ancestors after it, and perhaps the window's title. The resolver picks the
  candidate window to focus. The encoding of the title as UTF-8 is a parameter.
\<close>

section \<open>Requests\<close>

record activation_request =
  act_lineage :: "32 word list"
  act_title :: string

record activation_candidate =
  cand_pid :: "32 word"
  cand_title :: string

datatype activation_result =
    Accepted | InvalidRequest | Unsupported | Disconnected | Missing | Ambiguous | Busy | Failed

record activation_resolution =
  resolved_result :: activation_result
  resolved_index :: "nat option"

definition valid_activation_request :: "(string \<Rightarrow> string) \<Rightarrow> activation_request \<Rightarrow> bool" where
  "valid_activation_request utf8 request =
     (if act_lineage request = [] \<or> length (act_lineage request) > 64 \<or>
         length (act_title request) > 512 \<or> length (utf8 (act_title request)) > 512 \<or>
         List.member (act_title request) (CHR 0x00)
      then False else list_all (\<lambda>pid. pid \<noteq> 0) (act_lineage request))"

section \<open>Resolution\<close>

fun lineage_positions :: "nat \<Rightarrow> 32 word list \<Rightarrow> (32 word, nat) qhash \<Rightarrow> (32 word, nat) qhash" where
  "lineage_positions i [] m = m"
| "lineage_positions i (pid # pids) m =
     lineage_positions (Suc i) pids (if hash_contains m pid then m else hash_insert pid i m)"

text \<open>The loop over the candidates: the best position so far (\<open>None\<close> stands for the largest
  \<open>qsizetype\<close>) and the candidates at it.\<close>

fun match_candidates ::
  "(32 word, nat) qhash \<Rightarrow> nat \<Rightarrow> activation_candidate list \<Rightarrow> nat option \<Rightarrow> nat list \<Rightarrow> nat list" where
  "match_candidates positions i [] preferred matches = matches"
| "match_candidates positions i (c # cs) preferred matches =
     (case hash_value positions (cand_pid c) of
        None \<Rightarrow> match_candidates positions (Suc i) cs preferred matches
      | Some p \<Rightarrow>
          if (case preferred of None \<Rightarrow> True | Some b \<Rightarrow> p < b)
          then match_candidates positions (Suc i) cs (Some p) [i]
          else if preferred = Some p then match_candidates positions (Suc i) cs preferred (matches @ [i])
          else match_candidates positions (Suc i) cs preferred matches)"

fun titled_match ::
  "activation_candidate list \<Rightarrow> string \<Rightarrow> nat list \<Rightarrow> nat option \<Rightarrow> activation_resolution" where
  "titled_match cs title [] None = \<lparr>resolved_result = Missing, resolved_index = None\<rparr>"
| "titled_match cs title [] (Some i) = \<lparr>resolved_result = Accepted, resolved_index = Some i\<rparr>"
| "titled_match cs title (i # is) found =
     (if cand_title (cs ! i) \<noteq> title then titled_match cs title is found
      else if found \<noteq> None then \<lparr>resolved_result = Ambiguous, resolved_index = None\<rparr>
      else titled_match cs title is (Some i))"

definition resolve_activation ::
  "(string \<Rightarrow> string) \<Rightarrow> activation_request \<Rightarrow> activation_candidate list \<Rightarrow> activation_resolution" where
  "resolve_activation utf8 request cs =
     (if \<not> valid_activation_request utf8 request
      then \<lparr>resolved_result = InvalidRequest, resolved_index = None\<rparr>
      else
        let matches = match_candidates (lineage_positions 0 (act_lineage request) []) 0 cs None [] in
        if matches = [] then \<lparr>resolved_result = Missing, resolved_index = None\<rparr>
        else if length matches = 1 then \<lparr>resolved_result = Accepted, resolved_index = Some (hd matches)\<rparr>
        else if act_title request = '''' then \<lparr>resolved_result = Ambiguous, resolved_index = None\<rparr>
        else titled_match cs (act_title request) matches None)"

section \<open>Reference\<close>

text \<open>What the resolver is for: the nearest process of the lineage that owns a window decides; among
  its windows the title has to single one out when there are several.\<close>

definition owned_by :: "32 word \<Rightarrow> activation_candidate list \<Rightarrow> nat list" where
  "owned_by pid cs = filter (\<lambda>i. cand_pid (cs ! i) = pid) [0..<length cs]"

definition single_choice :: "activation_result \<Rightarrow> nat list \<Rightarrow> activation_resolution" where
  "single_choice none is = (case is of
       [] \<Rightarrow> \<lparr>resolved_result = none, resolved_index = None\<rparr>
     | [i] \<Rightarrow> \<lparr>resolved_result = Accepted, resolved_index = Some i\<rparr>
     | _ \<Rightarrow> \<lparr>resolved_result = Ambiguous, resolved_index = None\<rparr>)"

definition nearest_window ::
  "(string \<Rightarrow> string) \<Rightarrow> activation_request \<Rightarrow> activation_candidate list \<Rightarrow> activation_resolution" where
  "nearest_window utf8 request cs =
     (if \<not> valid_activation_request utf8 request then single_choice InvalidRequest []
      else case find (\<lambda>pid. owned_by pid cs \<noteq> []) (act_lineage request) of
        None \<Rightarrow> single_choice Missing []
      | Some pid \<Rightarrow>
          let windows = owned_by pid cs in
          if length windows = 1 \<or> act_title request = '''' then single_choice Missing windows
          else single_choice Missing (filter (\<lambda>i. cand_title (cs ! i) = act_title request) windows))"

lemma lineage_positions_value:
  "hash_value (lineage_positions i pids m) pid =
     (case hash_value m pid of
        Some p \<Rightarrow> Some p
      | None \<Rightarrow> if pid \<in> set pids then Some (i + row_of id pid pids) else None)"
  by (induction pids arbitrary: i m) (auto split: option.splits)

lemma titled_match_filter:
  "titled_match cs title is found =
     single_choice Missing ((case found of None \<Rightarrow> [] | Some i \<Rightarrow> [i]) @ filter (\<lambda>i. cand_title (cs ! i) = title) is)"
proof (induction "is" arbitrary: found)
  case Nil
  then show ?case by (cases found) (simp_all add: single_choice_def)
next
  case (Cons i "is")
  show ?case
  proof (cases "cand_title (cs ! i) = title \<and> found \<noteq> None")
    case True
    then show ?thesis by (auto simp: single_choice_def)
  next
    case False
    then show ?thesis by (auto simp: Cons.IH)
  qed
qed

text \<open>Positions of the candidates seen so far: the loop keeps the indices at the least of them.\<close>

definition position_of :: "(32 word, nat) qhash \<Rightarrow> activation_candidate list \<Rightarrow> nat \<Rightarrow> nat option" where
  "position_of m cs i = hash_value m (cand_pid (cs ! i))"

definition best_indices :: "(nat \<Rightarrow> nat option) \<Rightarrow> nat \<Rightarrow> nat option \<Rightarrow> nat list" where
  "best_indices f n b = (case b of None \<Rightarrow> [] | Some p \<Rightarrow> filter (\<lambda>i. f i = Some p) [0..<n])"

definition is_best :: "(nat \<Rightarrow> nat option) \<Rightarrow> nat \<Rightarrow> nat option \<Rightarrow> bool" where
  "is_best f n b = (case b of
       None \<Rightarrow> \<forall>i<n. f i = None
     | Some p \<Rightarrow> (\<exists>i<n. f i = Some p) \<and> (\<forall>i<n. \<forall>q. f i = Some q \<longrightarrow> p \<le> q))"

lemma is_best_Suc_None: "f n = None \<Longrightarrow> is_best f n b \<Longrightarrow> is_best f (Suc n) b"
  by (auto simp: is_best_def less_Suc_eq split: option.splits)

lemma is_best_Suc_better:
  "f n = Some p \<Longrightarrow> is_best f n b \<Longrightarrow> (case b of None \<Rightarrow> True | Some q \<Rightarrow> p < q) \<Longrightarrow> is_best f (Suc n) (Some p)"
  by (fastforce simp: is_best_def less_Suc_eq split: option.splits)

lemma is_best_Suc_worse:
  "f n = Some p \<Longrightarrow> is_best f n (Some q) \<Longrightarrow> \<not> p < q \<Longrightarrow> is_best f (Suc n) (Some q)"
  by (auto simp: is_best_def less_Suc_eq)

lemma best_indices_better:
  assumes "f n = Some p" and "is_best f n b" and "case b of None \<Rightarrow> True | Some q \<Rightarrow> p < q"
  shows "best_indices f (Suc n) (Some p) = [n]"
proof -
  have "f i \<noteq> Some p" if "i < n" for i
    using assms(2,3) that by (fastforce simp: is_best_def split: option.splits)
  then have "filter (\<lambda>i. f i = Some p) [0..<n] = []" by (auto simp: filter_empty_conv)
  with assms(1) show ?thesis by (simp add: best_indices_def)
qed

lemma match_candidates_best:
  assumes "is_best (position_of m all) i preferred" and "drop i all = cs" and "i \<le> length all"
  shows "\<exists>b. is_best (position_of m all) (length all) b \<and>
    match_candidates m i cs preferred (best_indices (position_of m all) i preferred) =
      best_indices (position_of m all) (length all) b"
  using assms
proof (induction cs arbitrary: i preferred)
  case Nil
  then have "i = length all" by simp
  with Nil show ?case by auto
next
  case (Cons c cs)
  let ?f = "position_of m all"
  have i: "i < length all" using Cons.prems(2) by (metis drop_eq_Nil list.distinct(1) not_less)
  have nth: "all ! i = c" and rest: "drop (Suc i) all = cs"
    using Cons.prems(2) i by (metis Cons_nth_drop_Suc list.inject)+
  have f: "hash_value m (cand_pid c) = ?f i" by (simp add: position_of_def nth)
  note IH = Cons.IH [OF _ rest]
  show ?case
  proof (cases "?f i")
    case None
    have "best_indices ?f (Suc i) preferred = best_indices ?f i preferred"
      using None by (simp add: best_indices_def split: option.splits)
    then show ?thesis using IH [OF is_best_Suc_None [OF None Cons.prems(1)]] None f i by simp
  next
    case (Some p)
    show ?thesis
    proof (cases "case preferred of None \<Rightarrow> True | Some q \<Rightarrow> p < q")
      case True
      then show ?thesis
        using IH [OF is_best_Suc_better [OF Some Cons.prems(1) True]] f i Some
          best_indices_better [OF Some Cons.prems(1) True] by simp
    next
      case False
      then obtain q where q: "preferred = Some q" "\<not> p < q" by (cases preferred) auto
      have "best_indices ?f (Suc i) (Some q) = best_indices ?f i (Some q) @ (if p = q then [i] else [])"
        using Some by (simp add: best_indices_def)
      then show ?thesis
        using IH [OF is_best_Suc_worse [OF Some Cons.prems(1) [unfolded q(1)] q(2)]] f i Some q by auto
    qed
  qed
qed

lemma row_of_inj: "x \<in> set xs \<Longrightarrow> y \<in> set xs \<Longrightarrow> row_of id x xs = row_of id y xs \<Longrightarrow> x = y"
  by (induction xs) (auto split: if_splits)

lemma find_first:
  "find P xs = Some x \<Longrightarrow> y \<in> set xs \<Longrightarrow> P y \<Longrightarrow> row_of id x xs \<le> row_of id y xs"
  by (induction xs) (auto split: if_splits)

lemma find_member: "find P xs = Some x \<Longrightarrow> x \<in> set xs \<and> P x"
  by (induction xs) (auto split: if_splits)

lemma match_candidates_nearest:
  "match_candidates (lineage_positions 0 pids []) 0 cs None [] =
     (case find (\<lambda>pid. owned_by pid cs \<noteq> []) pids of None \<Rightarrow> [] | Some pid \<Rightarrow> owned_by pid cs)"
proof -
  define f where "f = position_of (lineage_positions 0 pids []) cs"
  have f: "f i = (if cand_pid (cs ! i) \<in> set pids then Some (row_of id (cand_pid (cs ! i)) pids) else None)" for i
    by (simp add: f_def position_of_def lineage_positions_value)
  have "is_best f 0 None" by (simp add: is_best_def)
  then obtain b where b: "is_best f (length cs) b"
      and m: "match_candidates (lineage_positions 0 pids []) 0 cs None [] = best_indices f (length cs) b"
    using match_candidates_best [of "lineage_positions 0 pids []" cs 0 None cs]
    unfolding f_def by (auto simp: best_indices_def)
  have owned: "owned_by pid cs \<noteq> [] \<longleftrightarrow> (\<exists>i<length cs. cand_pid (cs ! i) = pid)" for pid
    by (auto simp: owned_by_def filter_empty_conv)
  show ?thesis
  proof (cases "find (\<lambda>pid. owned_by pid cs \<noteq> []) pids")
    case None
    then have "f i = None" if "i < length cs" for i
      using that by (auto simp: f find_None_iff owned)
    then have "b = None" using b by (auto simp: is_best_def split: option.splits)
    then show ?thesis using None m by (simp add: best_indices_def)
  next
    case (Some pid)
    note mem = find_member [OF Some]
    obtain i where i: "i < length cs" "cand_pid (cs ! i) = pid" using mem owned by blast
    have fi: "f i = Some (row_of id pid pids)" using f i mem by simp
    then obtain p where p: "b = Some p" using b i by (cases b) (auto simp: is_best_def)
    obtain j where j: "j < length cs" "f j = Some p" using b p by (auto simp: is_best_def)
    have "p \<le> row_of id pid pids" using b p i fi by (auto simp: is_best_def)
    moreover have "row_of id pid pids \<le> p"
      using find_first [OF Some, of "cand_pid (cs ! j)"] j by (auto simp: f owned split: if_splits)
    ultimately have eq: "p = row_of id pid pids" by simp
    have "f k = Some p \<longleftrightarrow> cand_pid (cs ! k) = pid" for k
      using mem row_of_inj [of "cand_pid (cs ! k)" pids pid] by (auto simp: f eq)
    then show ?thesis using Some m p by (simp add: best_indices_def owned_by_def)
  qed
qed

lemma nearest_window_index:
  assumes "resolved_index (nearest_window utf8 request cs) = Some i"
  shows "i < length cs"
proof -
  have single: "resolved_index (single_choice r js) = Some i \<Longrightarrow> i \<in> set js" for r js
    by (auto simp: single_choice_def split: list.splits)
  have "i \<in> set (owned_by pid cs) \<Longrightarrow> i < length cs" for pid by (auto simp: owned_by_def)
  then show ?thesis
    using assms single by (fastforce simp: nearest_window_def Let_def split: if_splits option.splits)
qed

lemma resolve_activation_nearest: "resolve_activation utf8 request cs = nearest_window utf8 request cs"
proof (cases "find (\<lambda>pid. owned_by pid cs \<noteq> []) (act_lineage request)")
  case None
  then show ?thesis
    by (simp add: resolve_activation_def nearest_window_def match_candidates_nearest single_choice_def)
next
  case (Some pid)
  then have ne: "owned_by pid cs \<noteq> []" using find_member by fast
  show ?thesis
  proof (cases "\<exists>i. owned_by pid cs = [i]")
    case True
    then show ?thesis using Some
      by (auto simp: resolve_activation_def nearest_window_def match_candidates_nearest single_choice_def)
  next
    case False
    then obtain i j ks where "owned_by pid cs = i # j # ks" using ne by (metis neq_Nil_conv)
    then show ?thesis using Some
      by (simp add: resolve_activation_def nearest_window_def match_candidates_nearest titled_match_filter,
          simp add: single_choice_def)
  qed
qed

lemma activation_accepted_index:
  "resolved_result (resolve_activation utf8 request cs) = Accepted \<Longrightarrow>
   \<exists>i. resolved_index (resolve_activation utf8 request cs) = Some i"
  unfolding resolve_activation_nearest nearest_window_def Let_def single_choice_def
  by (auto split: if_splits option.splits list.splits)

text \<open>C18. The activation resolver picks the window of the nearest process in the lineage: its one-pass
  loop agrees with the reference on every request and every list of windows.\<close>

theorem activation_nearest: "resolve_activation utf8 request cs = nearest_window utf8 request cs"
  by (rule resolve_activation_nearest)

end
