(* ===== verification/Sway_Ipc.thy ===== *)
theory Sway_Ipc
  imports Json_Values Window_Activation
begin

text \<open>
  \<open>SwayIpc.cpp\<close>: the frames of the i3 IPC protocol and their incremental decoder, the quoting of
  workspace names in commands, and the reading of Sway's replies into a compositor snapshot. Bytes are
  characters of a string; the JSON parser is the parameter \<open>json_ops\<close>.
\<close>

section \<open>Frames\<close>

record sway_frame =
  frame_type :: "32 word"
  frame_payload :: string

record sway_decoder =
  dec_buffer :: string
  dec_frames :: "sway_frame list"
  dec_error :: string

definition decoder_init :: sway_decoder where
  "decoder_init = \<lparr>dec_buffer = '''', dec_frames = [], dec_error = ''''\<rparr>"

definition sway_magic :: string where
  "sway_magic = ''i3-ipc''"

definition max_payload :: "32 word" where
  "max_payload = 8 * 1024 * 1024"

text \<open>A \<open>quint32\<close> on a \<open>QDataStream\<close> in little-endian order.\<close>

definition put_u32 :: "32 word \<Rightarrow> string" where
  "put_u32 w = map (\<lambda>i. char_of (unat w div 256 ^ i)) [0, 1, 2, 3]"

definition get_u32 :: "string \<Rightarrow> 32 word" where
  "get_u32 s = of_nat (foldr (\<lambda>c n. of_char c + 256 * n) (take 4 s) 0)"

definition encode_frame :: "32 word \<Rightarrow> string \<Rightarrow> string" where
  "encode_frame kind payload =
     sway_magic @ put_u32 (of_nat (length payload)) @ put_u32 kind @ payload"

text \<open>The loop of \<open>append\<close> and its return value.\<close>

function decode_frames :: "sway_decoder \<Rightarrow> sway_decoder \<times> bool" where
  "decode_frames d =
     (let buffer = dec_buffer d in
      if length buffer < 14 then (d, True)
      else if take 6 buffer \<noteq> sway_magic then (d\<lparr>dec_error := ''invalid i3 IPC magic''\<rparr>, False)
      else
        let len = get_u32 (drop 6 buffer) in
        if len > max_payload then (d\<lparr>dec_error := ''i3 IPC payload exceeds 8 MiB''\<rparr>, False)
        else if length buffer < 14 + unat len then (d, True)
        else decode_frames (d\<lparr>
          dec_frames := dec_frames d @
            [\<lparr>frame_type = get_u32 (drop 10 buffer), frame_payload = take (unat len) (drop 14 buffer)\<rparr>],
          dec_buffer := drop (14 + unat len) buffer\<rparr>))"
  by pat_completeness auto
termination
  by (relation "measure (\<lambda>d. length (dec_buffer d))") auto

declare decode_frames.simps [simp del]

definition decoder_append :: "string \<Rightarrow> sway_decoder \<Rightarrow> sway_decoder \<times> bool" where
  "decoder_append bytes d =
     (if dec_error d \<noteq> '''' then (d, False)
      else decode_frames (d\<lparr>dec_buffer := dec_buffer d @ bytes\<rparr>))"

definition take_frames :: "sway_decoder \<Rightarrow> sway_frame list \<times> sway_decoder" where
  "take_frames d = (dec_frames d, d\<lparr>dec_frames := []\<rparr>)"

section \<open>Names in commands\<close>

definition replace_char :: "char \<Rightarrow> string \<Rightarrow> string \<Rightarrow> string" where
  "replace_char c after s = concat (map (\<lambda>x. if x = c then after else [x]) s)"

definition escape_workspace_name :: "string \<Rightarrow> string" where
  "escape_workspace_name name =
     replace_char (CHR 0x22) [CHR 0x5C, CHR 0x22] (replace_char (CHR 0x5C) [CHR 0x5C, CHR 0x5C] name)"

section \<open>The tree of containers\<close>

text \<open>\<open>bits\<close> is the width of the integer type: 32 for \<open>quint32\<close>, 64 for \<open>quint64\<close>.\<close>

definition positive_integer :: "json_ops \<Rightarrow> nat \<Rightarrow> json \<Rightarrow> int option" where
  "positive_integer js bits v =
     (case v of
        JNumber r \<Rightarrow>
          let number = js_double js r in
          if number < 1 \<or> number > of_int (2 ^ bits - 1) \<or> \<not> whole number then None else Some \<lfloor>number\<rfloor>
      | _ \<Rightarrow> None)"

record sway_window_info =
  swin_candidate :: activation_candidate
  swin_container :: "64 word"

text \<open>The four containers \<open>inspectSwayTree\<close> fills.\<close>

record sway_found =
  sf_occupied :: "(string, bool) qhash"
  sf_active :: "(string, comp_active_window) qhash"
  sf_activation :: "sway_window_info list"
  sf_windows :: "comp_window list"

definition found_nothing :: sway_found where
  "found_nothing = \<lparr>sf_occupied = [], sf_active = [], sf_activation = [], sf_windows = []\<rparr>"

definition native_leaf :: "json_object \<Rightarrow> bool" where
  "native_leaf node =
     (is_json_array (member node ''nodes'') \<and> is_json_array (member node ''floating_nodes'') \<and>
      json_array (member node ''nodes'') = [] \<and> json_array (member node ''floating_nodes'') = [])"

definition observe_window :: "json_ops \<Rightarrow> json_object \<Rightarrow> bool \<Rightarrow> sway_found \<Rightarrow> sway_found" where
  "observe_window js node fullscreen found =
     (if json_text (member node ''type'') = ''con'' \<and> native_leaf node \<and>
         is_json_text (member node ''app_id'') \<and> json_text (member node ''shell'') = ''xdg_shell''
      then
        (case positive_integer js 32 (member node ''pid'') of
           None \<Rightarrow> found
         | Some pid \<Rightarrow>
             (case positive_integer js 64 (member node ''id'') of
                None \<Rightarrow> found
              | Some identifier \<Rightarrow>
                  found\<lparr>sf_windows := sf_windows found @
                    [default_window\<lparr>win_id := integer_text identifier,
                       win_title := json_text (member node ''name''),
                       win_app_id := json_text (member node ''app_id''),
                       win_fullscreen := fullscreen, win_pid := of_int pid\<rparr>]\<rparr>))
      else found)"

definition project_window ::
  "json_object \<Rightarrow> string \<Rightarrow> string \<Rightarrow> bool \<Rightarrow> sway_found \<Rightarrow> sway_found" where
  "project_window node output workspace project found =
     (let leaf = (json_array (member node ''nodes'') = [] \<and> json_array (member node ''floating_nodes'') = [])
      in if project \<and> leaf \<and> workspace \<noteq> '''' \<and> json_text (member node ''type'') = ''con'' then
           let found1 = found\<lparr>sf_occupied := hash_insert workspace True (sf_occupied found)\<rparr> in
           if json_bool (member node ''focused'') \<and> output \<noteq> '''' then
             let properties = json_object (member node ''window_properties'');
                 app0 = json_text (member node ''app_id'');
                 app = (if app0 = '''' then json_text (member properties ''class'') else app0)
             in found1\<lparr>sf_active := hash_insert output
                  \<lparr>aw_app_id = app, aw_title = json_text (member node ''name''), aw_category = ''''\<rparr>
                  (sf_active found1)\<rparr>
           else found1
         else found)"

definition record_activation :: "json_ops \<Rightarrow> json_object \<Rightarrow> sway_found \<Rightarrow> sway_found" where
  "record_activation js node found =
     (if json_text (member node ''type'') = ''con'' then
        (case (positive_integer js 32 (member node ''pid''), positive_integer js 64 (member node ''id'')) of
           (Some pid, Some container) \<Rightarrow>
             found\<lparr>sf_activation := sf_activation found @
               [\<lparr>swin_candidate = \<lparr>cand_pid = of_int pid, cand_title = json_text (member node ''name'')\<rparr>,
                 swin_container = of_int container\<rparr>]\<rparr>
         | _ \<Rightarrow> found)
      else found)"

text \<open>What a node passes on to its children: the output and workspace it is on, whether its windows
  count for the snapshot, and whether an ancestor is fullscreen.\<close>

record sway_place =
  pl_output :: string
  pl_workspace :: string
  pl_project :: bool
  pl_fullscreen :: bool

definition sway_root :: sway_place where
  "sway_root = \<lparr>pl_output = '''', pl_workspace = '''', pl_project = True, pl_fullscreen = False\<rparr>"

definition sway_enter :: "json_ops \<Rightarrow> json_object \<Rightarrow> sway_place \<Rightarrow> sway_place" where
  "sway_enter js node place =
     (let kind = json_text (member node ''type''); name = json_text (member node ''name'');
          mode = (case member node ''fullscreen_mode'' of JNumber r \<Rightarrow> Some (js_double js r) | _ \<Rightarrow> None)
      in \<lparr>pl_output = (if kind = ''output'' then name else pl_output place),
          pl_workspace = (if kind = ''workspace'' then name else pl_workspace place),
          pl_project = (if kind = ''workspace'' \<and> name = ''__i3_scratch'' then False else pl_project place),
          pl_fullscreen = (pl_fullscreen place \<or> kind = ''con'' \<and> (mode = Some 1 \<or> mode = Some 2))\<rparr>)"

definition inspect_here :: "json_ops \<Rightarrow> json_object \<Rightarrow> sway_place \<Rightarrow> sway_found \<Rightarrow> sway_found" where
  "inspect_here js node place found =
     project_window node (pl_output place) (pl_workspace place) (pl_project place)
       (record_activation js node (observe_window js node (pl_fullscreen place) found))"

function inspect_node :: "json_ops \<Rightarrow> json_object \<Rightarrow> sway_place \<Rightarrow> sway_found \<Rightarrow> sway_found"
  and inspect_nodes :: "json_ops \<Rightarrow> json list \<Rightarrow> sway_place \<Rightarrow> sway_found \<Rightarrow> sway_found" where
  "inspect_node js node place found =
     (let here = sway_enter js node place in
      inspect_nodes js (json_array (member node ''floating_nodes'')) here
        (inspect_nodes js (json_array (member node ''nodes'')) here (inspect_here js node here found)))"
| "inspect_nodes js [] place found = found"
| "inspect_nodes js (v # vs) place found =
     inspect_nodes js vs place
       (if is_json_object v then inspect_node js (json_object v) place found else found)"
  by pat_completeness auto
termination
proof (relation "measure (\<lambda>a. case a of Inl (js, node, _) \<Rightarrow> size (JObject node)
    | Inr (js, vs, _) \<Rightarrow> size_list size vs)", goal_cases)
  case 1
  then show ?case by simp
next
  case (2 js node place found here)
  then show ?case
    using size_json_array_le [of "member node ''nodes''"] size_member [of node "''nodes''"] by simp
next
  case (3 js node place found here)
  then show ?case
    using size_json_array_le [of "member node ''floating_nodes''"] size_member [of node "''floating_nodes''"]
    by simp
next
  case (4 js v vs place found)
  then show ?case by (cases v) auto
next
  case (5 js v vs place found)
  then show ?case by simp
qed

section \<open>Snapshots\<close>

record sway_refresh =
  sr_snapshot :: comp_snapshot
  sr_windows :: "sway_window_info list"
  sr_numbered :: numbered_state
  sr_names :: "(string, string) qhash"

text \<open>The variables of the loop over the workspaces.\<close>

record sway_listing =
  sl_order :: int
  sl_numbered :: numbered_state
  sl_seen :: "int list"
  sl_names :: "(string, string) qhash"
  sl_workspaces :: "comp_workspace list"

definition listing_init :: sway_listing where
  "listing_init = \<lparr>sl_order = 0, sl_numbered = \<lparr>nw_eligible = True, nw_assignments = []\<rparr>, sl_seen = [],
     sl_names = [], sl_workspaces = []\<rparr>"

definition workspace_number :: "json_object \<Rightarrow> int" where
  "workspace_number w = json_integer 32 (- 1) (member w ''num'')"

definition workspace_identifier :: "json_object \<Rightarrow> string" where
  "workspace_identifier w =
     (if map_of w ''id'' \<noteq> None then integer_text (json_integer 64 0 (member w ''id''))
      else ''name:'' @ json_text (member w ''name''))"

definition list_workspace :: "(string, bool) qhash \<Rightarrow> json \<Rightarrow> sway_listing \<Rightarrow> sway_listing" where
  "list_workspace occupied v st =
     (let w = json_object v; name = json_text (member w ''name'') in
      if name = '''' \<or> name = ''__i3_scratch'' then st
      else
        let number = workspace_number w; output = json_text (member w ''output'');
            identifier = workspace_identifier w;
            numbered1 = (if number > 0
              then (sl_numbered st)\<lparr>nw_assignments :=
                hash_insert identifier number (nw_assignments (sl_numbered st))\<rparr>
              else sl_numbered st);
            numbered2 = (if number \<le> 0 \<or> name \<noteq> integer_text number \<or> List.member (sl_seen st) number
              then numbered1\<lparr>nw_eligible := False\<rparr> else numbered1)
        in \<lparr>sl_order = sl_order st + 1, sl_numbered = numbered2, sl_seen = List.insert number (sl_seen st),
            sl_names = hash_insert identifier name (sl_names st),
            sl_workspaces = sl_workspaces st @
              [default_workspace\<lparr>cw_id := identifier, cw_display_name := name,
                 cw_stable_order := sl_order st, cw_outputs := (if output = '''' then [] else [output]),
                 cw_active := json_bool (member w ''visible''),
                 cw_focused := json_bool (member w ''focused''),
                 cw_urgent := json_bool (member w ''urgent''),
                 cw_occupied := Some (hash_value occupied name = Some True)\<rparr>]\<rparr>)"

definition focused_output :: "json list \<Rightarrow> string" where
  "focused_output outputs =
     (case find (\<lambda>v. json_bool (member (json_object v) ''focused'')) outputs of
        Some v \<Rightarrow> json_text (member (json_object v) ''name'')
      | None \<Rightarrow> '''')"

definition sway_capabilities :: comp_capabilities where
  "sway_capabilities = no_capabilities\<lparr>cap_workspace_listing := True, cap_workspace_activation := True,
     cap_active_window := True, cap_focused_output := True, cap_urgency := True, cap_occupancy := True\<rparr>"

definition sway_result :: "json_ops \<Rightarrow> json list \<Rightarrow> json list \<Rightarrow> json_object \<Rightarrow> sway_refresh" where
  "sway_result js workspaces outputs tree =
     (let found = inspect_node js tree sway_root found_nothing;
          listing = fold (list_workspace (sf_occupied found)) workspaces listing_init
      in \<lparr>sr_snapshot = no_snapshot\<lparr>cs_connected := True, cs_capabilities := sway_capabilities,
            cs_focused_output := focused_output outputs, cs_active_windows := sf_active found,
            cs_windows := sf_windows found, cs_workspaces := sl_workspaces listing\<rparr>,
          sr_windows = sf_activation found, sr_numbered = sl_numbered listing, sr_names = sl_names listing\<rparr>)"

definition parse_sway_refresh :: "json_ops \<Rightarrow> string \<Rightarrow> string \<Rightarrow> string \<Rightarrow> sway_refresh option" where
  "parse_sway_refresh js workspaces_json outputs_json tree_json =
     (case js_parse js workspaces_json of
        Some (JArray workspaces) \<Rightarrow>
          (case js_parse js outputs_json of
             Some (JArray outputs) \<Rightarrow>
               (case js_parse js tree_json of
                  Some (JObject tree) \<Rightarrow> Some (sway_result js workspaces outputs tree)
                | _ \<Rightarrow> None)
           | _ \<Rightarrow> None)
      | _ \<Rightarrow> None)"

definition parse_sway_snapshot :: "json_ops \<Rightarrow> string \<Rightarrow> string \<Rightarrow> string \<Rightarrow> comp_snapshot option" where
  "parse_sway_snapshot js workspaces_json outputs_json tree_json =
     map_option sr_snapshot (parse_sway_refresh js workspaces_json outputs_json tree_json)"

end
