(* ===== verification/Sway_Ipc_Codec.thy ===== *)
theory Sway_Ipc_Codec
  imports Sway_Ipc
begin

text \<open>
  The frame codec of the i3 IPC protocol and the quoting of workspace names: what is sent is what the
  other side reads, however the stream is cut into pieces.
\<close>

section \<open>Integers\<close>

lemma length_put_u32 [simp]: "length (put_u32 w) = 4"
  by (simp add: put_u32_def)

lemma get_put_u32 [simp]: "get_u32 (put_u32 w @ s) = w"
proof -
  let ?n = "unat w"
  have bound: "?n < 256 ^ 4" using unsigned_less [of w] by simp
  have split: "m mod 256 + 256 * (m div 256) = m" for m :: nat by simp
  have quot: "?n div 256 div 256 = ?n div 65536" "?n div 65536 div 256 = ?n div 16777216"
    by (simp_all add: div_mult2_eq [symmetric])
  have last: "?n div 16777216 mod 256 = ?n div 16777216"
    using bound by (intro mod_less) (simp add: div_less_iff_less_mult)
  have "foldr (\<lambda>c n. of_char c + 256 * n) (take 4 (put_u32 w @ s)) 0 =
      ?n mod 256 + 256 * (?n div 256 mod 256 + 256 * (?n div 65536 mod 256 + 256 * (?n div 16777216 mod 256)))"
    by (simp add: put_u32_def)
  also have "\<dots> = ?n"
    unfolding last by (simp only: quot [symmetric] split)
  finally show ?thesis by (simp add: get_u32_def)
qed

section \<open>One frame\<close>

lemma length_magic [simp]: "length sway_magic = 6"
  by (simp add: sway_magic_def)

definition frame_bytes :: "sway_frame \<Rightarrow> string" where
  "frame_bytes f = encode_frame (frame_type f) (frame_payload f)"

definition frame_ok :: "sway_frame \<Rightarrow> bool" where
  "frame_ok f = (length (frame_payload f) \<le> 8388608)"

lemma unat_max_payload: "unat max_payload = 8388608"
  by (simp add: max_payload_def)

lemma payload_length:
  assumes "frame_ok f"
  shows "unat (of_nat (length (frame_payload f)) :: 32 word) = length (frame_payload f)"
  using assms by (simp add: frame_ok_def unat_of_nat take_bit_nat_eq_self)

lemma decode_frame:
  assumes "frame_ok f" and "dec_buffer d = frame_bytes f @ rest"
  shows "decode_frames d = decode_frames (d\<lparr>dec_frames := dec_frames d @ [f], dec_buffer := rest\<rparr>)"
proof -
  let ?len = "of_nat (length (frame_payload f)) :: 32 word"
  have buffer: "dec_buffer d = sway_magic @ put_u32 ?len @ put_u32 (frame_type f) @ frame_payload f @ rest"
    using assms(2) by (simp add: frame_bytes_def encode_frame_def)
  have fits: "\<not> ?len > max_payload"
    using assms(1) by (simp add: word_less_nat_alt unat_max_payload payload_length frame_ok_def)
  have six: "drop 6 (dec_buffer d) = put_u32 ?len @ put_u32 (frame_type f) @ frame_payload f @ rest"
    and ten: "drop 10 (dec_buffer d) = put_u32 (frame_type f) @ frame_payload f @ rest"
    and fourteen: "drop 14 (dec_buffer d) = frame_payload f @ rest"
    and magic: "take 6 (dec_buffer d) = sway_magic"
    and len: "length (dec_buffer d) = 14 + length (frame_payload f) + length rest"
    by (simp_all add: buffer)
  have after_frame: "drop (14 + length (frame_payload f)) (dec_buffer d) = rest"
    by (simp add: buffer)
  have eta: "\<lparr>frame_type = frame_type f, frame_payload = frame_payload f\<rparr> = f" by simp
  show ?thesis
    by (subst decode_frames.simps)
      (simp only: Let_def six ten fourteen magic len get_put_u32 payload_length [OF assms(1)] fits after_frame,
        simp add: eta)
qed

lemma decode_all:
  assumes "list_all frame_ok fs" and "dec_buffer d = concat (map frame_bytes fs)"
  shows "decode_frames d = (d\<lparr>dec_frames := dec_frames d @ fs, dec_buffer := ''''\<rparr>, True)"
  using assms
proof (induction fs arbitrary: d)
  case Nil
  then show ?case by (simp add: decode_frames.simps [of d])
next
  case (Cons f fs)
  let ?d = "d\<lparr>dec_frames := dec_frames d @ [f], dec_buffer := concat (map frame_bytes fs)\<rparr>"
  have "decode_frames d = decode_frames ?d"
    using Cons.prems by (intro decode_frame) simp_all
  then show ?case using Cons.IH [of ?d] Cons.prems(1) by simp
qed

section \<open>Pieces of a stream\<close>

text \<open>Bytes that arrive later do not change what has been decoded: the loop can be stopped where the
  input ends and continued when there is more.\<close>

definition push_bytes :: "string \<Rightarrow> sway_decoder \<Rightarrow> sway_decoder" where
  "push_bytes bytes d = d\<lparr>dec_buffer := dec_buffer d @ bytes\<rparr>"

lemma push_bytes_simps [simp]:
  "dec_buffer (push_bytes bytes d) = dec_buffer d @ bytes" "dec_frames (push_bytes bytes d) = dec_frames d"
  "dec_error (push_bytes bytes d) = dec_error d" "push_bytes a (push_bytes b d) = push_bytes (b @ a) d" "push_bytes [] d = d"
  by (simp_all add: push_bytes_def)

lemma get_u32_append: "4 \<le> length s \<Longrightarrow> get_u32 (s @ t) = get_u32 s"
  by (simp add: get_u32_def)

lemma decode_frames_push:
  "case decode_frames d of
     (d', True) \<Rightarrow> decode_frames (push_bytes bytes d) = decode_frames (push_bytes bytes d')
   | (d', False) \<Rightarrow> decode_frames (push_bytes bytes d) = (push_bytes bytes d', False)"
proof (induction d rule: decode_frames.induct)
  case (1 d)
  let ?b = "dec_buffer d"
  let ?len = "get_u32 (drop 6 ?b)"
  let ?d = "d\<lparr>dec_frames := dec_frames d @
      [\<lparr>frame_type = get_u32 (drop 10 ?b), frame_payload = take (unat ?len) (drop 14 ?b)\<rparr>],
    dec_buffer := drop (14 + unat ?len) ?b\<rparr>"
  have stop: "decode_frames d = (d, True) \<Longrightarrow> ?case" by simp
  show ?case
  proof (cases "length ?b < 14")
    case True
    then show ?thesis by (intro stop) (simp add: decode_frames.simps [of d])
  next
    case long: False
    then have magic: "take 6 (dec_buffer (push_bytes bytes d)) = take 6 ?b"
      and len: "get_u32 (drop 6 (dec_buffer (push_bytes bytes d))) = ?len"
      and kind: "get_u32 (drop 10 (dec_buffer (push_bytes bytes d))) = get_u32 (drop 10 ?b)"
      and long': "\<not> length (dec_buffer (push_bytes bytes d)) < 14"
      by (simp_all add: get_u32_append)
    show ?thesis
    proof (cases "take 6 ?b \<noteq> sway_magic \<or> ?len > max_payload")
      case bad: True
      obtain e where "decode_frames d = (d\<lparr>dec_error := e\<rparr>, False)"
          and "decode_frames (push_bytes bytes d) = ((push_bytes bytes d)\<lparr>dec_error := e\<rparr>, False)"
      proof (cases "take 6 ?b \<noteq> sway_magic")
        case True
        show ?thesis
          by (rule that [of "''invalid i3 IPC magic''"]; subst decode_frames.simps)
            (simp_all only: Let_def long long' magic True if_True if_False simp_thms)
      next
        case False
        then have "?len > max_payload" using bad by simp
        then show ?thesis using False
          by (intro that [of "''i3 IPC payload exceeds 8 MiB''"]; subst decode_frames.simps)
            (simp_all only: Let_def long long' magic len if_True if_False simp_thms)
      qed
      then show ?thesis by (simp add: push_bytes_def)
    next
      case good: False
      show ?thesis
      proof (cases "length ?b < 14 + unat ?len")
        case True
        then show ?thesis
          using good long by (intro stop) (subst decode_frames.simps, simp add: Let_def)
      next
        case enough: False
        have step: "decode_frames d = decode_frames ?d"
          using good long enough by (subst decode_frames.simps) (simp add: Let_def)
        have enough': "\<not> length (dec_buffer (push_bytes bytes d)) < 14 + unat ?len" using enough by simp
        have "decode_frames (push_bytes bytes d) = decode_frames ((push_bytes bytes d)\<lparr>
              dec_frames := dec_frames (push_bytes bytes d) @ [\<lparr>frame_type = get_u32 (drop 10 ?b),
                frame_payload = take (unat ?len) (drop 14 (dec_buffer (push_bytes bytes d)))\<rparr>],
              dec_buffer := drop (14 + unat ?len) (dec_buffer (push_bytes bytes d))\<rparr>)"
          using good [unfolded de_Morgan_disj not_not] by (subst decode_frames.simps)
            (simp only: Let_def magic len kind long' enough' if_False simp_thms)
        also have "\<dots> = decode_frames (push_bytes bytes ?d)"
        proof -
          have "take (unat ?len) (drop 14 (dec_buffer (push_bytes bytes d))) = take (unat ?len) (drop 14 ?b)"
            "drop (14 + unat ?len) (dec_buffer (push_bytes bytes d)) = drop (14 + unat ?len) ?b @ bytes"
            using enough long by simp_all
          then show ?thesis by (simp only: push_bytes_def) simp
        qed
        finally have step': "decode_frames (push_bytes bytes d) = decode_frames (push_bytes bytes ?d)" .
        have "case decode_frames ?d of
            (d', True) \<Rightarrow> decode_frames (push_bytes bytes ?d) = decode_frames (push_bytes bytes d')
          | (d', False) \<Rightarrow> decode_frames (push_bytes bytes ?d) = (push_bytes bytes d', False)"
          by (rule 1 [of ?b ?len]) (use good long enough in simp_all)
        then show ?thesis by (simp only: step step')
      qed
    qed
  qed
qed

section \<open>The decoder\<close>

definition feed :: "string list \<Rightarrow> sway_decoder \<Rightarrow> sway_decoder" where
  "feed chunks d = foldl (\<lambda>d bytes. fst (decoder_append bytes d)) d chunks"

lemma feed_simps [simp]:
  "feed [] d = d" "feed (c # cs) d = feed cs (fst (decoder_append c d))"
  "feed (cs @ [c]) d = fst (decoder_append c (feed cs d))"
  by (simp_all add: feed_def)

lemma decode_frames_ok: "snd (decode_frames d) \<longleftrightarrow> dec_error (fst (decode_frames d)) = dec_error d \<and>
    dec_error (fst (decode_frames d)) \<noteq> ''invalid i3 IPC magic'' \<and>
    dec_error (fst (decode_frames d)) \<noteq> ''i3 IPC payload exceeds 8 MiB''"
  if "dec_error d = ''''"
  using that
proof (induction d rule: decode_frames.induct)
  case (1 d)
  show ?case
    using 1(2) by (subst (1 2 3 4) decode_frames.simps) (use 1(1) in \<open>auto simp: Let_def\<close>)
qed

lemma decode_frames_error:
  "dec_error d = '''' \<Longrightarrow> snd (decode_frames d) \<longleftrightarrow> dec_error (fst (decode_frames d)) = ''''"
  using decode_frames_ok [of d] by (cases "snd (decode_frames d)") auto

text \<open>A decoder at rest: without an error it has decoded everything it can.\<close>

definition settled :: "sway_decoder \<Rightarrow> bool" where
  "settled d \<longleftrightarrow> (dec_error d = '''' \<longrightarrow> decode_frames d = (d, True))"

lemma decode_frames_settled:
  "dec_error d = '''' \<Longrightarrow> snd (decode_frames d) \<Longrightarrow> decode_frames (fst (decode_frames d)) = (fst (decode_frames d), True)"
proof (induction d rule: decode_frames.induct)
  case (1 d)
  show ?case
  proof (cases "decode_frames d = (d, True)")
    case False
    let ?b = "dec_buffer d" and ?len = "get_u32 (drop 6 (dec_buffer d))"
    let ?d = "d\<lparr>dec_frames := dec_frames d @
        [\<lparr>frame_type = get_u32 (drop 10 ?b), frame_payload = take (unat ?len) (drop 14 ?b)\<rparr>],
      dec_buffer := drop (14 + unat ?len) ?b\<rparr>"
    have go: "\<not> length ?b < 14" "\<not> take 6 ?b \<noteq> sway_magic" "\<not> ?len > max_payload" "\<not> length ?b < 14 + unat ?len"
      using False 1(3) by (auto simp: decode_frames.simps [of d] Let_def split: if_splits)
    then have "decode_frames d = decode_frames ?d" by (subst decode_frames.simps) (simp add: Let_def)
    moreover have "decode_frames (fst (decode_frames ?d)) = (fst (decode_frames ?d), True)"
      by (rule 1(1) [of ?b ?len]) (use go 1(2,3) calculation in simp_all)
    ultimately show ?thesis by simp
  qed simp
qed

lemma settled_append: "settled (fst (decoder_append bytes d))"
  using decode_frames_settled [of "push_bytes bytes d"] decode_frames_error [of "push_bytes bytes d"]
  by (auto simp: settled_def decoder_append_def push_bytes_def)

lemma append_append:
  assumes "settled d"
  shows "dec_frames (fst (decoder_append y (fst (decoder_append x d)))) = dec_frames (fst (decoder_append (x @ y) d)) \<and>
    dec_error (fst (decoder_append y (fst (decoder_append x d)))) = dec_error (fst (decoder_append (x @ y) d))"
proof (cases "dec_error d = ''''")
  case False
  then show ?thesis by (simp add: decoder_append_def)
next
  case True
  obtain d' ok where d': "decode_frames (push_bytes x d) = (d', ok)" by fastforce
  note push = decode_frames_push [where d = "push_bytes x d" and bytes = y, unfolded d']
  have err: "ok \<longleftrightarrow> dec_error d' = ''''" using decode_frames_error [of "push_bytes x d"] True d' by simp
  have x: "decoder_append x d = (d', ok)" using True d' by (simp add: decoder_append_def push_bytes_def)
  have xy: "decoder_append (x @ y) d = decode_frames (push_bytes (x @ y) d)"
    using True by (simp add: decoder_append_def push_bytes_def)
  show ?thesis
  proof (cases ok)
    case True
    then have "decoder_append y d' = decode_frames (push_bytes y d')"
      using err by (simp add: decoder_append_def push_bytes_def)
    then show ?thesis using push True x xy by simp
  next
    case False
    then have "decoder_append y d' = (d', False)" using err by (simp add: decoder_append_def)
    then show ?thesis using push False x xy by simp
  qed
qed

lemma append_Nil: "settled d \<Longrightarrow> fst (decoder_append [] d) = d"
  by (cases "dec_error d = ''''") (simp_all add: settled_def decoder_append_def)

lemma feed_append:
  assumes "settled d"
  shows "settled (feed cs d) \<and>
    dec_frames (fst (decoder_append x (feed cs d))) = dec_frames (fst (decoder_append (concat cs @ x) d)) \<and>
    dec_error (fst (decoder_append x (feed cs d))) = dec_error (fst (decoder_append (concat cs @ x) d))"
  using assms
proof (induction cs arbitrary: d)
  case Nil
  then show ?case by simp
next
  case (Cons c cs)
  have "settled (fst (decoder_append c d))" by (rule settled_append)
  from Cons.IH [OF this] append_append [OF Cons.prems, of "concat cs @ x" c] show ?case by simp
qed

lemma settled_init: "settled decoder_init"
  by (simp add: settled_def decoder_init_def decode_frames.simps)

text \<open>C19. How the stream is cut into reads makes no difference: for any bytes, valid or not, feeding them
  piece by piece gives the frames and the error that one read of all of them gives.\<close>

theorem decoder_chunks:
  "dec_frames (feed chunks decoder_init) = dec_frames (fst (decoder_append (concat chunks) decoder_init)) \<and>
   dec_error (feed chunks decoder_init) = dec_error (fst (decoder_append (concat chunks) decoder_init))"
proof -
  note f = feed_append [OF settled_init, of chunks "[]"]
  then have "fst (decoder_append [] (feed chunks decoder_init)) = feed chunks decoder_init"
    by (intro append_Nil) simp
  with f show ?thesis by simp
qed

text \<open>C20. What Sway sends is what the backend reads: the bytes of any frames of at most 8 MiB, cut into
  any pieces, decode to exactly these frames with nothing left over.\<close>

theorem frames_roundtrip:
  assumes "list_all frame_ok fs" and "concat chunks = concat (map frame_bytes fs)"
  shows "dec_frames (feed chunks decoder_init) = fs \<and> dec_error (feed chunks decoder_init) = ''''"
proof -
  have "decoder_append (concat chunks) decoder_init =
      (\<lparr>dec_buffer = '''', dec_frames = fs, dec_error = ''''\<rparr>, True)"
    using decode_all [OF assms(1), of "\<lparr>dec_buffer = concat chunks, dec_frames = [], dec_error = ''''\<rparr>"] assms(2)
    by (simp add: decoder_append_def decoder_init_def)
  then show ?thesis
    using feed_append [OF settled_init, of chunks "[]"] append_Nil [of "feed chunks decoder_init"] by simp
qed

lemma frames_roundtrip_witness:
  "dec_frames (feed [take 9 (encode_frame 1 ''ab''), drop 9 (encode_frame 1 ''ab'') @ encode_frame 4 '''']
     decoder_init) = [\<lparr>frame_type = 1, frame_payload = ''ab''\<rparr>, \<lparr>frame_type = 4, frame_payload = ''''\<rparr>]"
proof -
  have "list_all frame_ok [\<lparr>frame_type = 1, frame_payload = ''ab''\<rparr>, \<lparr>frame_type = 4, frame_payload = ''''\<rparr>]"
    by (simp add: frame_ok_def)
  then show ?thesis
    using frames_roundtrip [of "[\<lparr>frame_type = 1, frame_payload = ''ab''\<rparr>, \<lparr>frame_type = 4, frame_payload = ''''\<rparr>]"
      "[take 9 (encode_frame 1 ''ab''), drop 9 (encode_frame 1 ''ab'') @ encode_frame 4 '''']"]
    by (simp add: frame_bytes_def)
qed

section \<open>Bounds\<close>

lemma decode_frames_bounds:
  "(\<forall>f \<in> set (dec_frames (fst (decode_frames d))). f \<in> set (dec_frames d) \<or> frame_ok f) \<and>
   (snd (decode_frames d) \<longrightarrow> length (dec_buffer (fst (decode_frames d))) < 14 + 8388608)"
proof (induction d rule: decode_frames.induct)
  case (1 d)
  let ?b = "dec_buffer d" and ?len = "get_u32 (drop 6 (dec_buffer d))"
  let ?f = "\<lparr>frame_type = get_u32 (drop 10 ?b), frame_payload = take (unat ?len) (drop 14 ?b)\<rparr>"
  let ?d = "d\<lparr>dec_frames := dec_frames d @ [?f], dec_buffer := drop (14 + unat ?len) ?b\<rparr>"
  show ?case
  proof (cases "length ?b < 14 \<or> take 6 ?b \<noteq> sway_magic \<or> ?len > max_payload \<or> length ?b < 14 + unat ?len")
    case True
    have "?len \<le> max_payload \<Longrightarrow> unat ?len \<le> 8388608"
      by (simp add: word_le_nat_alt unat_max_payload)
    moreover have "dec_frames (fst (decode_frames d)) = dec_frames d \<and> (snd (decode_frames d) \<longrightarrow>
        dec_buffer (fst (decode_frames d)) = ?b \<and>
        (length ?b < 14 \<or> ?len \<le> max_payload \<and> length ?b < 14 + unat ?len))"
      using True by (auto simp: decode_frames.simps [of d] Let_def not_less)
    ultimately show ?thesis by auto
  next
    case False
    then have "decode_frames d = decode_frames ?d" by (subst decode_frames.simps) (simp add: Let_def)
    moreover have "(\<forall>f \<in> set (dec_frames (fst (decode_frames ?d))). f \<in> set (dec_frames ?d) \<or> frame_ok f) \<and>
        (snd (decode_frames ?d) \<longrightarrow> length (dec_buffer (fst (decode_frames ?d))) < 14 + 8388608)"
      by (rule 1 [of ?b ?len]) (use False in simp_all)
    moreover have "frame_ok ?f"
      using False by (simp add: frame_ok_def word_less_nat_alt unat_max_payload min_le_iff_disj)
    ultimately show ?thesis by auto
  qed
qed

lemma feed_bounds:
  assumes "\<forall>f \<in> set (dec_frames d). frame_ok f"
    and "dec_error d = '''' \<longrightarrow> length (dec_buffer d) < 14 + 8388608"
  shows "(\<forall>f \<in> set (dec_frames (feed cs d)). frame_ok f) \<and>
    (dec_error (feed cs d) = '''' \<longrightarrow> length (dec_buffer (feed cs d)) < 14 + 8388608)"
  using assms
proof (induction cs arbitrary: d)
  case (Cons c cs)
  have "(\<forall>f \<in> set (dec_frames (fst (decoder_append c d))). frame_ok f) \<and>
    (dec_error (fst (decoder_append c d)) = '''' \<longrightarrow> length (dec_buffer (fst (decoder_append c d))) < 14 + 8388608)"
    using decode_frames_bounds [of "push_bytes c d"] decode_frames_error [of "push_bytes c d"] Cons.prems
    by (auto simp: decoder_append_def push_bytes_def)
  with Cons.IH [of "fst (decoder_append c d)"] show ?case by simp
qed simp

lemma decode_frames_message:
  "dec_error (fst (decode_frames d)) \<in> {dec_error d, ''invalid i3 IPC magic'', ''i3 IPC payload exceeds 8 MiB''}"
proof (induction d rule: decode_frames.induct)
  case (1 d)
  then show ?case by (subst (1) decode_frames.simps) (auto simp: Let_def)
qed

lemma feed_message:
  "dec_error d \<in> {'''', ''invalid i3 IPC magic'', ''i3 IPC payload exceeds 8 MiB''} \<Longrightarrow>
   dec_error (feed cs d) \<in> {'''', ''invalid i3 IPC magic'', ''i3 IPC payload exceeds 8 MiB''}"
proof (induction cs arbitrary: d)
  case (Cons c cs)
  have "dec_error (fst (decoder_append c d)) \<in> {'''', ''invalid i3 IPC magic'', ''i3 IPC payload exceeds 8 MiB''}"
    using Cons.prems decode_frames_message [of "push_bytes c d"]
    by (auto simp: decoder_append_def push_bytes_def)
  from Cons.IH [OF this] show ?case by simp
qed simp

text \<open>The decoder's memory is bounded whatever the peer sends: while there is no error it keeps less
  than one header and one payload of the maximal size between reads, no decoded payload is larger, and
  the only errors are a wrong magic and a length above the limit.\<close>

theorem decoder_bounds:
  "list_all frame_ok (dec_frames (feed chunks decoder_init)) \<and>
   (if dec_error (feed chunks decoder_init) = ''''
    then length (dec_buffer (feed chunks decoder_init)) < 14 + 8388608
    else dec_error (feed chunks decoder_init) \<in> {''invalid i3 IPC magic'', ''i3 IPC payload exceeds 8 MiB''})"
  using feed_bounds [of decoder_init chunks] feed_message [of decoder_init chunks]
  by (auto simp: decoder_init_def list_all_iff)

section \<open>Quoting\<close>

text \<open>A reader of double-quoted strings in which a backslash takes the next character literally: the
  string up to the closing quote, and what follows it.\<close>

fun read_quoted :: "string \<Rightarrow> (string \<times> string) option" where
  "read_quoted [] = None"
| "read_quoted (c # s) =
     (if c = CHR 0x22 then Some ('''', s)
      else if c = CHR 0x5C then
        (case s of [] \<Rightarrow> None | d # s' \<Rightarrow> map_option (\<lambda>(name, rest). (d # name, rest)) (read_quoted s'))
      else map_option (\<lambda>(name, rest). (c # name, rest)) (read_quoted s))"

lemma escape_Cons:
  "escape_workspace_name (c # s) =
     (if c = CHR 0x22 \<or> c = CHR 0x5C then [CHR 0x5C, c] else [c]) @ escape_workspace_name s"
  by (simp add: escape_workspace_name_def replace_char_def)

text \<open>C21. A workspace name cannot break out of the command it is put into: reading the quoted name gives
  the name itself, whatever characters it has, and what follows the closing quote is untouched.\<close>

theorem escape_roundtrip:
  "read_quoted (escape_workspace_name name @ CHR 0x22 # rest) = Some (name, rest)"
proof (induction name)
  case Nil
  then show ?case by (simp add: escape_workspace_name_def replace_char_def)
next
  case (Cons c name)
  then show ?case by (auto simp: escape_Cons)
qed

end
