(* ===== verification/Sway_Ipc_Snapshots.thy ===== *)
theory Sway_Ipc_Snapshots
  imports Sway_Ipc_Codec
begin

text \<open>
  What a Sway snapshot says: which windows it lists, which workspaces it calls occupied, and when the
  workspaces can be used by number.
\<close>

section \<open>The nodes of a tree\<close>

text \<open>Every node in document order, with the place it is at.\<close>

function tree_nodes :: "json_ops \<Rightarrow> json_object \<Rightarrow> sway_place \<Rightarrow> (json_object \<times> sway_place) list"
  and forest_nodes :: "json_ops \<Rightarrow> json list \<Rightarrow> sway_place \<Rightarrow> (json_object \<times> sway_place) list" where
  "tree_nodes js node place =
     (let here = sway_enter js node place in
      (node, here) # forest_nodes js (json_array (member node ''nodes'')) here @
        forest_nodes js (json_array (member node ''floating_nodes'')) here)"
| "forest_nodes js [] place = []"
| "forest_nodes js (v # vs) place =
     (if is_json_object v then tree_nodes js (json_object v) place else []) @ forest_nodes js vs place"
  by pat_completeness auto
termination
proof (relation "measure (\<lambda>a. case a of Inl (js, node, _) \<Rightarrow> size (JObject node)
    | Inr (js, vs, _) \<Rightarrow> size_list size vs)", goal_cases)
  case 1
  then show ?case by simp
next
  case (2 js node place here)
  then show ?case
    using size_json_array_le [of "member node ''nodes''"] size_member [of node "''nodes''"] by simp
next
  case (3 js node place here)
  then show ?case
    using size_json_array_le [of "member node ''floating_nodes''"] size_member [of node "''floating_nodes''"]
    by simp
next
  case (4 js v vs place)
  then show ?case by (cases v) auto
next
  case (5 js v vs place)
  then show ?case by simp
qed

declare tree_nodes.simps [simp del] inspect_node.simps [simp del]

definition inspect_at :: "json_ops \<Rightarrow> json_object \<times> sway_place \<Rightarrow> sway_found \<Rightarrow> sway_found" where
  "inspect_at js = (\<lambda>(node, place). inspect_here js node place)"

lemma inspect_fold:
  "inspect_node js node place found = fold (inspect_at js) (tree_nodes js node place) found"
  "inspect_nodes js vs place found = fold (inspect_at js) (forest_nodes js vs place) found"
proof (induction js node place found and js vs place found rule: inspect_node_inspect_nodes.induct)
  case (1 js node place found)
  then show ?case
    by (simp add: inspect_node.simps [of js node] tree_nodes.simps [of js node] Let_def inspect_at_def)
qed simp_all

section \<open>What a node contributes\<close>

definition window_of :: "json_ops \<Rightarrow> json_object \<times> sway_place \<Rightarrow> comp_window list" where
  "window_of js np = (let (node, place) = np in sf_windows (observe_window js node (pl_fullscreen place) found_nothing))"

definition activation_of :: "json_ops \<Rightarrow> json_object \<times> sway_place \<Rightarrow> sway_window_info list" where
  "activation_of js np = sf_activation (record_activation js (fst np) found_nothing)"

definition occupies :: "json_object \<times> sway_place \<Rightarrow> string \<Rightarrow> bool" where
  "occupies np name = (let (node, place) = np in
     pl_project place \<and> pl_workspace place = name \<and> name \<noteq> '''' \<and>
     json_text (member node ''type'') = ''con'' \<and>
     json_array (member node ''nodes'') = [] \<and> json_array (member node ''floating_nodes'') = [])"

lemma observe_window_simps:
  "sf_windows (observe_window js node fs found) = sf_windows found @ sf_windows (observe_window js node fs found_nothing)"
  "sf_occupied (observe_window js node fs found) = sf_occupied found"
  "sf_activation (observe_window js node fs found) = sf_activation found"
  by (auto simp: observe_window_def found_nothing_def split: option.splits)

lemma record_activation_simps:
  "sf_windows (record_activation js node found) = sf_windows found"
  "sf_occupied (record_activation js node found) = sf_occupied found"
  "sf_activation (record_activation js node found) =
     sf_activation found @ sf_activation (record_activation js node found_nothing)"
  by (auto simp: record_activation_def found_nothing_def split: option.splits)

lemma project_window_simps:
  "sf_windows (project_window node out ws p found) = sf_windows found"
  "sf_activation (project_window node out ws p found) = sf_activation found"
  by (auto simp: project_window_def Let_def)

lemma project_window_occupied:
  "hash_value (sf_occupied (project_window node (pl_output pl) (pl_workspace pl) (pl_project pl) found)) name =
     (if occupies (node, pl) name then Some True else hash_value (sf_occupied found) name)"
  by (auto simp: project_window_def occupies_def Let_def)

lemma inspect_at_windows: "sf_windows (inspect_at js np found) = sf_windows found @ window_of js np"
proof (cases np)
  case (Pair node place)
  have "sf_windows (inspect_at js np found) = sf_windows (observe_window js node (pl_fullscreen place) found)"
    by (simp add: Pair inspect_at_def inspect_here_def project_window_simps record_activation_simps(1))
  then show ?thesis
    using observe_window_simps(1) [of js node "pl_fullscreen place" found] by (simp add: Pair window_of_def)
qed

lemma inspect_at_activation:
  "sf_activation (inspect_at js np found) = sf_activation found @ activation_of js np"
proof (cases np)
  case (Pair node place)
  have "sf_activation (inspect_at js np found) =
      sf_activation (record_activation js node (observe_window js node (pl_fullscreen place) found))"
    by (simp add: Pair inspect_at_def inspect_here_def project_window_simps)
  then show ?thesis
    using record_activation_simps(3) [of js node "observe_window js node (pl_fullscreen place) found"]
    by (simp add: Pair activation_of_def observe_window_simps(3))
qed

lemma inspect_at_occupied:
  "hash_value (sf_occupied (inspect_at js np found)) name =
     (if occupies np name then Some True else hash_value (sf_occupied found) name)"
  by (cases np) (simp add: inspect_at_def inspect_here_def project_window_occupied record_activation_simps(2)
      observe_window_simps(2))

lemmas inspect_at_simps = inspect_at_windows inspect_at_activation inspect_at_occupied

lemma fold_inspect_at:
  "sf_windows (fold (inspect_at js) nps found) = sf_windows found @ concat (map (window_of js) nps)"
  "sf_activation (fold (inspect_at js) nps found) = sf_activation found @ concat (map (activation_of js) nps)"
  "hash_value (sf_occupied (fold (inspect_at js) nps found)) name =
     (if \<exists>np \<in> set nps. occupies np name then Some True else hash_value (sf_occupied found) name)"
  by (induction nps arbitrary: found) (auto simp: inspect_at_simps)

section \<open>The list of workspaces\<close>

definition workspace_name :: "json_object \<Rightarrow> string" where
  "workspace_name w = json_text (member w ''name'')"

text \<open>The workspaces that are shown: all but the nameless ones and the scratchpad.\<close>

definition listed :: "json list \<Rightarrow> json_object list" where
  "listed ws = filter (\<lambda>w. workspace_name w \<noteq> '''' \<and> workspace_name w \<noteq> ''__i3_scratch'') (map json_object ws)"

definition numbered_by_name :: "json_object \<Rightarrow> bool" where
  "numbered_by_name w = (0 < workspace_number w \<and> workspace_name w = integer_text (workspace_number w))"

definition listing_ok :: "json_object list \<Rightarrow> (string, bool) qhash \<Rightarrow> sway_listing \<Rightarrow> bool" where
  "listing_ok ws occupied st \<longleftrightarrow>
     sl_order st = int (length ws) \<and> set (sl_seen st) = workspace_number ` set ws \<and>
     map cw_display_name (sl_workspaces st) = map workspace_name ws \<and>
     map cw_id (sl_workspaces st) = map workspace_identifier ws \<and>
     map cw_stable_order (sl_workspaces st) = map int [0..<length ws] \<and>
     map cw_occupied (sl_workspaces st) = map (\<lambda>w. Some (hash_value occupied (workspace_name w) = Some True)) ws \<and>
     (\<forall>i. hash_value (nw_assignments (sl_numbered st)) i \<noteq> None \<longrightarrow> i \<in> workspace_identifier ` set ws) \<and>
     (nw_eligible (sl_numbered st) \<longleftrightarrow> list_all numbered_by_name ws \<and> distinct (map workspace_number ws)) \<and>
     (distinct (map workspace_identifier ws) \<longrightarrow>
        (\<forall>w \<in> set ws. hash_value (sl_names st) (workspace_identifier w) = Some (workspace_name w)) \<and>
        (\<forall>w \<in> set ws. hash_value (nw_assignments (sl_numbered st)) (workspace_identifier w) =
           (if 0 < workspace_number w then Some (workspace_number w) else None)))"

lemma listing_ok_init: "listing_ok [] occupied listing_init"
  by (simp add: listing_ok_def listing_init_def)

lemma list_workspace_skip:
  "workspace_name (json_object v) = '''' \<or> workspace_name (json_object v) = ''__i3_scratch'' \<Longrightarrow>
   list_workspace occupied v st = st"
  by (auto simp: list_workspace_def workspace_name_def Let_def)

lemma list_workspace_take:
  assumes "\<not> (workspace_name (json_object v) = '''' \<or> workspace_name (json_object v) = ''__i3_scratch'')"
    and "listing_ok ws occupied st"
  shows "listing_ok (ws @ [json_object v]) occupied (list_workspace occupied v st)"
proof -
  let ?w = "json_object v"
  let ?st = "list_workspace occupied v st"
  have name: "json_text (member ?w ''name'') = workspace_name ?w" by (simp add: workspace_name_def)
  note ok = assms(2) [unfolded listing_ok_def]
  note unf = list_workspace_def Let_def name
  have skip: "(workspace_name ?w = '''' \<or> workspace_name ?w = ''__i3_scratch'') = False" using assms(1) by simp
  have seen: "set (sl_seen st) = workspace_number ` set ws"
    using ok by blast
  have e: "nw_eligible (sl_numbered ?st) \<longleftrightarrow> nw_eligible (sl_numbered st) \<and> numbered_by_name ?w \<and>
      workspace_number ?w \<notin> workspace_number ` set ws"
    unfolding unf skip by (auto simp: numbered_by_name_def seen)
  have names: "hash_value (sl_names ?st) i =
      (if i = workspace_identifier ?w then Some (workspace_name ?w) else hash_value (sl_names st) i)" for i
    unfolding unf skip by simp
  have numbers: "hash_value (nw_assignments (sl_numbered ?st)) i =
      (if i = workspace_identifier ?w \<and> 0 < workspace_number ?w then Some (workspace_number ?w)
       else hash_value (nw_assignments (sl_numbered st)) i)" for i
    unfolding unf skip by simp
  have rows: "sl_order ?st = sl_order st + 1" "sl_seen ?st = List.insert (workspace_number ?w) (sl_seen st)"
    "map cw_display_name (sl_workspaces ?st) = map cw_display_name (sl_workspaces st) @ [workspace_name ?w]"
    "map cw_id (sl_workspaces ?st) = map cw_id (sl_workspaces st) @ [workspace_identifier ?w]"
    "map cw_stable_order (sl_workspaces ?st) = map cw_stable_order (sl_workspaces st) @ [sl_order st]"
    "map cw_occupied (sl_workspaces ?st) = map cw_occupied (sl_workspaces st) @
       [Some (hash_value occupied (workspace_name ?w) = Some True)]"
    unfolding unf skip by simp_all
  have maps: "distinct (map workspace_identifier (ws @ [?w])) \<Longrightarrow> u \<in> set (ws @ [?w]) \<Longrightarrow>
      hash_value (sl_names ?st) (workspace_identifier u) = Some (workspace_name u) \<and>
      hash_value (nw_assignments (sl_numbered ?st)) (workspace_identifier u) =
        (if 0 < workspace_number u then Some (workspace_number u) else None)" for u
  proof -
    assume d: "distinct (map workspace_identifier (ws @ [?w]))" and u: "u \<in> set (ws @ [?w])"
    then have ids: "distinct (map workspace_identifier ws)"
        "workspace_identifier ?w \<notin> workspace_identifier ` set ws"
      by auto
    show ?thesis
    proof (cases "u \<in> set ws")
      case True
      then have "workspace_identifier u \<noteq> workspace_identifier ?w" using ids(2) by (metis imageI)
      moreover have "hash_value (sl_names st) (workspace_identifier u) = Some (workspace_name u)"
        "hash_value (nw_assignments (sl_numbered st)) (workspace_identifier u) =
          (if 0 < workspace_number u then Some (workspace_number u) else None)"
        using ok ids(1) True by blast+
      ultimately show ?thesis by (simp add: names numbers)
    next
      case False
      then have "u = ?w" using u by simp
      moreover have "hash_value (nw_assignments (sl_numbered st)) (workspace_identifier ?w) = None"
        using ok ids(2) by blast
      ultimately show ?thesis by (simp add: names numbers)
    qed
  qed
  have keys: "hash_value (nw_assignments (sl_numbered ?st)) i \<noteq> None \<longrightarrow>
      i \<in> workspace_identifier ` set (ws @ [?w])" for i
    using ok unfolding numbers by auto
  have eligible: "nw_eligible (sl_numbered ?st) \<longleftrightarrow>
      list_all numbered_by_name (ws @ [?w]) \<and> distinct (map workspace_number (ws @ [?w]))"
    using ok unfolding e by auto
  have rest: "sl_order ?st = int (length (ws @ [?w]))" "set (sl_seen ?st) = workspace_number ` set (ws @ [?w])"
    "map cw_display_name (sl_workspaces ?st) = map workspace_name (ws @ [?w])"
    "map cw_id (sl_workspaces ?st) = map workspace_identifier (ws @ [?w])"
    "map cw_stable_order (sl_workspaces ?st) = map int [0..<length (ws @ [?w])]"
    "map cw_occupied (sl_workspaces ?st) =
       map (\<lambda>w. Some (hash_value occupied (workspace_name w) = Some True)) (ws @ [?w])"
    using ok by (simp_all add: rows)
  show ?thesis
    unfolding listing_ok_def using maps keys eligible rest by blast
qed
lemma fold_list_workspace: "listing_ok (listed ws) occupied (fold (list_workspace occupied) ws listing_init)"
proof (induction ws rule: rev_induct)
  case Nil
  then show ?case by (simp add: listed_def listing_ok_init)
next
  case (snoc v ws)
  show ?case
  proof (cases "workspace_name (json_object v) = '''' \<or> workspace_name (json_object v) = ''__i3_scratch''")
    case True
    then have "listed (ws @ [v]) = listed ws" by (auto simp: listed_def)
    with snoc True show ?thesis by (simp add: list_workspace_skip)
  next
    case False
    then have "listed (ws @ [v]) = listed ws @ [json_object v]" by (simp add: listed_def)
    with list_workspace_take [OF False snoc] show ?thesis by simp
  qed
qed

lemma parse_sway_refresh_Some:
  assumes "parse_sway_refresh js w out t = Some r"
  obtains ws os tree where "js_parse js w = Some (JArray ws)" "js_parse js out = Some (JArray os)"
    "js_parse js t = Some (JObject tree)" "r = sway_result js ws os tree"
  using assms unfolding parse_sway_refresh_def by (auto split: option.splits json.splits)

section \<open>Properties\<close>

text \<open>C22. A Sway snapshot reflects the whole tree: the windows it lists, and those that can be focused,
  are the ones of the tree's nodes in document order; and a workspace is occupied exactly when some
  leaf container on it counts, which those of the scratchpad never do.\<close>

theorem sway_snapshot_tree:
  assumes "parse_sway_refresh js w out t = Some r" and "js_parse js t = Some (JObject tree)"
  defines "nodes \<equiv> tree_nodes js tree sway_root"
  shows "cs_windows (sr_snapshot r) = concat (map (window_of js) nodes) \<and>
    sr_windows r = concat (map (activation_of js) nodes) \<and>
    map cw_occupied (cs_workspaces (sr_snapshot r)) =
      map (\<lambda>name. Some (\<exists>np \<in> set nodes. occupies np name))
        (map cw_display_name (cs_workspaces (sr_snapshot r)))"
proof -
  obtain ws os where r: "r = sway_result js ws os tree"
    by (rule parse_sway_refresh_Some [OF assms(1)]) (use assms(2) in auto)
  let ?found = "inspect_node js tree sway_root found_nothing"
  let ?rows = "sl_workspaces (fold (list_workspace (sf_occupied ?found)) ws listing_init)"
  note ok = fold_list_workspace [of ws "sf_occupied ?found", unfolded listing_ok_def]
  have occ: "map cw_occupied ?rows =
      map (\<lambda>name. Some (hash_value (sf_occupied ?found) name = Some True)) (map cw_display_name ?rows)"
    using ok by (simp add: comp_def)
  have "(hash_value (sf_occupied ?found) name = Some True) = (\<exists>np \<in> set nodes. occupies np name)" for name
    by (simp add: inspect_fold fold_inspect_at nodes_def found_nothing_def)
  with occ show ?thesis
    by (simp add: r sway_result_def Let_def inspect_fold fold_inspect_at nodes_def, simp add: found_nothing_def)
qed

text \<open>Workspaces are offered by number only when that is unambiguous: exactly when every listed
  workspace is named by its own positive number and no number occurs twice. Then each workspace's
  identifier leads to its number, and to its name, if identifiers are not repeated.\<close>

theorem sway_numbering:
  assumes "parse_sway_refresh js w out t = Some r" and "js_parse js w = Some (JArray ws)"
  shows "map cw_display_name (cs_workspaces (sr_snapshot r)) = map workspace_name (listed ws) \<and>
    map cw_id (cs_workspaces (sr_snapshot r)) = map workspace_identifier (listed ws) \<and>
    (nw_eligible (sr_numbered r) \<longleftrightarrow>
       (\<forall>u \<in> set (listed ws). 0 < workspace_number u \<and> workspace_name u = integer_text (workspace_number u)) \<and>
       distinct (map workspace_number (listed ws))) \<and>
    (distinct (map workspace_identifier (listed ws)) \<longrightarrow>
       (\<forall>u \<in> set (listed ws). hash_value (sr_names r) (workspace_identifier u) = Some (workspace_name u) \<and>
          (nw_eligible (sr_numbered r) \<longrightarrow>
             hash_value (nw_assignments (sr_numbered r)) (workspace_identifier u) = Some (workspace_number u))))"
proof -
  obtain os tree where r: "r = sway_result js ws os tree"
    by (rule parse_sway_refresh_Some [OF assms(1)]) (use assms(2) in auto)
  note ok = fold_list_workspace [of ws "sf_occupied (inspect_node js tree sway_root found_nothing)",
      unfolded listing_ok_def]
  show ?thesis
    unfolding r sway_result_def Let_def sway_refresh.simps comp_snapshot.simps
    using ok by (auto simp: list_all_iff numbered_by_name_def)
qed

text \<open>Two outputs, a numbered workspace with a focused window, and the scratchpad.\<close>

definition demo_sway :: json_ops where
  "demo_sway = demo_json
     [(''w'', JArray [JObject [(''name'', JText ''2''), (''num'', JNumber 2), (''id'', JNumber 7)],
        JObject [(''name'', JText ''__i3_scratch'')]]),
      (''o'', JArray [JObject [(''name'', JText ''A'')], JObject [(''name'', JText ''B''), (''focused'', JBool True)]]),
      (''t'', JObject [(''type'', JText ''output''), (''name'', JText ''B''), (''nodes'', JArray
         [JObject [(''type'', JText ''workspace''), (''name'', JText ''2''), (''nodes'', JArray
            [JObject [(''type'', JText ''con''), (''focused'', JBool True), (''pid'', JNumber 5), (''id'', JNumber 9)]])]])])]"

lemma sway_snapshot_tree_witness:
  "\<exists>r tree. parse_sway_refresh demo_sway ''w'' ''o'' ''t'' = Some r \<and>
     js_parse demo_sway ''t'' = Some (JObject tree) \<and>
     sr_windows r = concat (map (activation_of demo_sway) (tree_nodes demo_sway tree sway_root))"
proof -
  obtain tree where t: "js_parse demo_sway ''t'' = Some (JObject tree)"
    by (simp add: demo_sway_def demo_json_def)
  obtain r where r: "parse_sway_refresh demo_sway ''w'' ''o'' ''t'' = Some r"
    by (simp add: parse_sway_refresh_def demo_sway_def demo_json_def)
  show ?thesis using sway_snapshot_tree [OF r t] r t by blast
qed

lemma sway_numbering_witness:
  "\<exists>r. parse_sway_refresh demo_sway ''w'' ''o'' ''t'' = Some r \<and>
     map cw_display_name (cs_workspaces (sr_snapshot r)) = [''2'']"
proof -
  obtain ws where w: "js_parse demo_sway ''w'' = Some (JArray ws)" and ws: "ws =
      [JObject [(''name'', JText ''2''), (''num'', JNumber 2), (''id'', JNumber 7)],
       JObject [(''name'', JText ''__i3_scratch'')]]"
    by (simp add: demo_sway_def demo_json_def)
  obtain r where r: "parse_sway_refresh demo_sway ''w'' ''o'' ''t'' = Some r"
    by (simp add: parse_sway_refresh_def demo_sway_def demo_json_def)
  have "map workspace_name (listed ws) = [''2'']"
    by (simp add: ws listed_def workspace_name_def member_def)
  then show ?thesis using sway_numbering [OF r w] r by auto
qed

end
