(* ===== verification/Sway_Backend.thy ===== *)
theory Sway_Backend
  imports Sway_Ipc_Snapshots
begin

text \<open>
  \<open>SwayBackend\<close>: the client of Sway's IPC socket. One connection carries requests, which the backend
  sends one at a time, and one the events that ask for a refresh. Sockets and timers are part of the
  state; \<open>fits\<close> says whether a write took the whole frame. Aborting a connected socket emits
  \<open>disconnected\<close> at once, so \<open>disconnectSession\<close> calls itself.
\<close>

section \<open>State\<close>

datatype socket_state = SocketUnconnected | SocketConnecting | SocketConnected

datatype sway_phase =
    PhaseIdle | PhaseWorkspaces | PhaseOutputs | PhaseTree | PhaseWorkspaceActivation | PhaseWindowActivation

record sway_activation =
  sa_id :: string
  sa_slot :: int

record sway_state =
  sw_path :: string
  sw_request :: socket_state
  sw_subscription :: socket_state
  sw_request_decoder :: sway_decoder
  sw_subscription_decoder :: sway_decoder
  sw_refresh_timer :: bool
  sw_reconnect_timer :: bool
  sw_phase :: sway_phase
  sw_workspaces :: string
  sw_outputs :: string
  sw_pending_activation :: "sway_activation option"
  sw_candidates :: "activation_candidate list"
  sw_containers :: "64 word list"
  sw_pending_window :: "64 word option"
  sw_dirty :: bool
  sw_ready :: bool
  sw_delay :: int
  sw_numbered :: numbered_state
  sw_names :: "(string, string) qhash"

datatype sway_output =
    SwConnect string
  | SwWrite string
  | SwSubscribe string
  | SwSnapshot comp_snapshot

definition sway_init :: "string \<Rightarrow> sway_state" where
  "sway_init path = \<lparr>sw_path = path, sw_request = SocketUnconnected, sw_subscription = SocketUnconnected,
     sw_request_decoder = decoder_init, sw_subscription_decoder = decoder_init, sw_refresh_timer = False,
     sw_reconnect_timer = False, sw_phase = PhaseIdle, sw_workspaces = '''', sw_outputs = '''',
     sw_pending_activation = None, sw_candidates = [], sw_containers = [], sw_pending_window = None,
     sw_dirty = False, sw_ready = False, sw_delay = 1000, sw_numbered = no_numbers, sw_names = []\<rparr>"

section \<open>Connections\<close>

definition sway_connect :: "sway_state \<Rightarrow> sway_state \<times> sway_output list" where
  "sway_connect st =
     (let attempt = (\<lambda>s. if s = SocketUnconnected then SocketConnecting else s)
      in (st\<lparr>sw_phase := PhaseIdle, sw_request_decoder := decoder_init,
             sw_subscription_decoder := decoder_init, sw_ready := False,
             sw_request := attempt (sw_request st), sw_subscription := attempt (sw_subscription st)\<rparr>,
          [SwConnect (sw_path st)]))"

definition sway_fail :: "string \<Rightarrow> sway_state \<Rightarrow> sway_state \<times> sway_output list" where
  "sway_fail diagnostic st = (st\<lparr>sw_numbered := no_numbers, sw_names := []\<rparr>,
     [SwSnapshot (no_snapshot\<lparr>cs_diagnostic := diagnostic\<rparr>)])"

definition sway_start :: "sway_state \<Rightarrow> sway_state \<times> sway_output list" where
  "sway_start st =
     (if sw_path st = '''' then sway_fail ''SWAYSOCK is not set'' st else sway_connect st)"

definition sway_schedule_reconnect :: "sway_state \<Rightarrow> sway_state" where
  "sway_schedule_reconnect st =
     (if sw_reconnect_timer st then st
      else st\<lparr>sw_reconnect_timer := True, sw_delay := min (sw_delay st * 2) 30000\<rparr>)"

text \<open>Each nested call of \<open>disconnectSession\<close> finds one connected socket less, so a depth of three is
  enough; \<open>sway_disconnect_depth\<close> below shows that more changes nothing.\<close>

fun sway_disconnect :: "nat \<Rightarrow> string \<Rightarrow> sway_state \<Rightarrow> sway_state \<times> sway_output list" where
  "sway_disconnect 0 diagnostic st = (st, [])"
| "sway_disconnect (Suc depth) diagnostic st =
     (if sw_request st = SocketUnconnected \<and> sw_subscription st = SocketUnconnected \<and> sw_reconnect_timer st
      then (st, [])
      else
        let (st1, out1) = sway_fail diagnostic (st\<lparr>sw_phase := PhaseIdle, sw_workspaces := '''',
              sw_outputs := '''', sw_candidates := [], sw_containers := [], sw_pending_window := None,
              sw_pending_activation := None, sw_dirty := False\<rparr>);
            (st2, out2) = (if sw_request st1 = SocketConnected
              then sway_disconnect depth ''Sway IPC disconnected'' (st1\<lparr>sw_request := SocketUnconnected\<rparr>)
              else (st1\<lparr>sw_request := SocketUnconnected\<rparr>, []));
            (st3, out3) = (if sw_subscription st2 = SocketConnected
              then sway_disconnect depth ''Sway IPC disconnected'' (st2\<lparr>sw_subscription := SocketUnconnected\<rparr>)
              else (st2\<lparr>sw_subscription := SocketUnconnected\<rparr>, []))
        in (sway_schedule_reconnect st3, out1 @ out2 @ out3))"

definition sway_end :: "string \<Rightarrow> sway_state \<Rightarrow> sway_state \<times> sway_output list" where
  "sway_end diagnostic st = sway_disconnect 3 diagnostic st"

section \<open>Requests\<close>

definition sway_schedule_refresh :: "sway_state \<Rightarrow> sway_state" where
  "sway_schedule_refresh st =
     (if sw_phase st \<noteq> PhaseIdle then st\<lparr>sw_dirty := True\<rparr> else st\<lparr>sw_refresh_timer := True\<rparr>)"

definition sway_begin_refresh :: "bool \<Rightarrow> sway_state \<Rightarrow> sway_state \<times> sway_output list" where
  "sway_begin_refresh fits st =
     (if sw_request st \<noteq> SocketConnected \<or> sw_phase st \<noteq> PhaseIdle then (st, [])
      else
        let st1 = st\<lparr>sw_dirty := False, sw_workspaces := '''', sw_outputs := '''', sw_phase := PhaseWorkspaces\<rparr>
        in if fits then (st1, [SwWrite (encode_frame 1 '''')])
           else sway_end ''Sway refresh transport failed'' st1)"

definition focus_command :: "64 word \<Rightarrow> string" where
  "focus_command container = ''[con_id='' @ decimal (unat container) @ ''] focus''"

text \<open>The new state, what was written, and whether the write succeeded.\<close>

definition sway_begin_window :: "64 word \<Rightarrow> bool \<Rightarrow> sway_state \<Rightarrow> sway_state \<times> sway_output list \<times> bool" where
  "sway_begin_window container fits st =
     (if fits then (st\<lparr>sw_phase := PhaseWindowActivation\<rparr>, [SwWrite (encode_frame 0 (focus_command container))], True)
      else (st\<lparr>sw_phase := PhaseIdle\<rparr>, [], False))"

definition workspace_command :: "sway_activation \<Rightarrow> (string, string) qhash \<Rightarrow> string" where
  "workspace_command activation names =
     (if sa_slot activation > 0
      then ''workspace --no-auto-back-and-forth number '' @ integer_text (sa_slot activation)
      else ''workspace --no-auto-back-and-forth '' @ [CHR 0x22] @ escape_workspace_name
        (case hash_value names (sa_id activation) of Some name \<Rightarrow> name | None \<Rightarrow> '''') @ [CHR 0x22])"

text \<open>A command that could not be written fails the session's data and asks for a refresh.\<close>

definition command_failed :: "string \<Rightarrow> sway_state \<Rightarrow> sway_state \<times> sway_output list" where
  "command_failed diagnostic st = sway_fail diagnostic (st\<lparr>sw_phase := PhaseIdle\<rparr>)"

function sway_drain :: "json_ops \<Rightarrow> bool \<Rightarrow> sway_state \<Rightarrow> sway_state \<times> sway_output list"
  and sway_dispatch :: "json_ops \<Rightarrow> bool \<Rightarrow> sway_activation \<Rightarrow> sway_state \<Rightarrow> sway_state \<times> sway_output list" where
  "sway_drain js fits st =
     (if sw_phase st \<noteq> PhaseIdle then (st, [])
      else (case sw_pending_window st of
         Some container \<Rightarrow>
           (let (st1, out1, ok) = sway_begin_window container fits (st\<lparr>sw_pending_window := None\<rparr>)
            in if ok then (st1, out1)
               else let (st2, out2) = sway_fail ''Sway window activation transport failed'' st1
                    in (sway_schedule_refresh (st2\<lparr>sw_dirty := True\<rparr>), out1 @ out2))
       | None \<Rightarrow>
           (case sw_pending_activation st of
              Some activation \<Rightarrow> sway_dispatch js fits activation (st\<lparr>sw_pending_activation := None\<rparr>)
            | None \<Rightarrow> (if sw_dirty st then sway_schedule_refresh st else st, []))))"
| "sway_dispatch js fits activation st =
     (if sw_request st \<noteq> SocketConnected then (st, [])
      else if sw_phase st \<noteq> PhaseIdle then (st\<lparr>sw_pending_activation := Some activation\<rparr>, [])
      else if sa_slot activation = 0 \<and> \<not> hash_contains (sw_names st) (sa_id activation)
        then sway_drain js fits st
      else if fits
        then (st\<lparr>sw_phase := PhaseWorkspaceActivation\<rparr>,
              [SwWrite (encode_frame 0 (js_utf8 js (workspace_command activation (sw_names st))))])
      else
        let st1 = fst (command_failed ''Sway workspace activation transport failed'' st);
            out1 = snd (command_failed ''Sway workspace activation transport failed'' st)
        in (case sway_drain js fits (st1\<lparr>sw_dirty := True\<rparr>) of (st2, out2) \<Rightarrow> (st2, out1 @ out2)))"
  by pat_completeness auto
termination
  by (relation "measure (\<lambda>a. case a of
        Inl (js, fits, st) \<Rightarrow> 2 * (if sw_pending_activation st = None then 0 else 1) + 1
      | Inr (js, fits, activation, st) \<Rightarrow> 2 * (if sw_pending_activation st = None then 0 else 1) + 2)")
    (auto simp: command_failed_def sway_fail_def)

declare sway_drain.simps [simp del] sway_dispatch.simps [simp del]

definition sway_activate_workspace ::
  "json_ops \<Rightarrow> bool \<Rightarrow> string \<Rightarrow> sway_state \<Rightarrow> sway_state \<times> sway_output list" where
  "sway_activate_workspace js fits identifier st =
     (if hash_contains (sw_names st) identifier
      then sway_dispatch js fits \<lparr>sa_id = identifier, sa_slot = 0\<rparr> st else (st, []))"

definition sway_activate_slot ::
  "json_ops \<Rightarrow> bool \<Rightarrow> int \<Rightarrow> sway_state \<Rightarrow> sway_state \<times> sway_output list" where
  "sway_activate_slot js fits slot st =
     (if slot > 0 then sway_dispatch js fits \<lparr>sa_id = '''', sa_slot = slot\<rparr> st else (st, []))"

section \<open>Replies\<close>

fun expected_type :: "sway_phase \<Rightarrow> 32 word" where
  "expected_type PhaseWorkspaces = 1"
| "expected_type PhaseOutputs = 3"
| "expected_type PhaseTree = 4"
| "expected_type PhaseWorkspaceActivation = 0"
| "expected_type PhaseWindowActivation = 0"
| "expected_type PhaseIdle = - 1"

definition sway_finish_refresh ::
  "json_ops \<Rightarrow> bool \<Rightarrow> string \<Rightarrow> sway_state \<Rightarrow> sway_state \<times> sway_output list" where
  "sway_finish_refresh js fits tree st =
     (let st0 = st\<lparr>sw_phase := PhaseIdle\<rparr>;
          (st1, out1) = (case parse_sway_refresh js (sw_workspaces st0) (sw_outputs st0) tree of
             Some r \<Rightarrow>
               (st0\<lparr>sw_delay := 1000, sw_numbered := sr_numbered r, sw_names := sr_names r,
                    sw_candidates := map swin_candidate (sr_windows r),
                    sw_containers := map swin_container (sr_windows r)\<rparr>,
                [SwSnapshot ((sr_snapshot r)\<lparr>cs_capabilities :=
                   (cs_capabilities (sr_snapshot r))\<lparr>cap_window_activation := True\<rparr>\<rparr>)])
           | None \<Rightarrow> sway_fail ''invalid Sway refresh response'' st0);
          (st2, out2) = sway_drain js fits st1
      in (st2, out1 @ out2))"

definition activation_succeeded :: "json_ops \<Rightarrow> string \<Rightarrow> bool" where
  "activation_succeeded js payload =
     (case js_parse js payload of
        Some (JArray (v # _)) \<Rightarrow> json_bool (member (json_object v) ''success'')
      | _ \<Rightarrow> False)"

definition sway_finish_activation ::
  "json_ops \<Rightarrow> bool \<Rightarrow> string \<Rightarrow> sway_phase \<Rightarrow> sway_state \<Rightarrow> sway_state \<times> sway_output list" where
  "sway_finish_activation js fits payload completed st =
     (let st0 = st\<lparr>sw_phase := PhaseIdle\<rparr>;
          (st1, out1) = (if \<not> activation_succeeded js payload
             then sway_fail (if completed = PhaseWindowActivation then ''Sway window activation rejected''
                else ''Sway workspace activation failed'') st0
             else (st0, []));
          (st2, out2) = sway_drain js fits (st1\<lparr>sw_dirty := True\<rparr>)
      in (st2, out1 @ out2))"

text \<open>The last component is the returned flag: whether the caller goes on with the next frame.\<close>

definition sway_frame_received ::
  "json_ops \<Rightarrow> bool \<Rightarrow> sway_frame \<Rightarrow> sway_state \<Rightarrow> sway_state \<times> sway_output list \<times> bool" where
  "sway_frame_received js fits frame st =
     (if frame_type frame \<noteq> expected_type (sw_phase st) then
        (let (st', out) = sway_end ''unexpected Sway IPC response type'' st in (st', out, False))
      else (case sw_phase st of
         PhaseWorkspaces \<Rightarrow>
           let st1 = st\<lparr>sw_workspaces := frame_payload frame, sw_phase := PhaseOutputs\<rparr> in
           if fits then (st1, [SwWrite (encode_frame 3 '''')], True)
           else (let (st', out) = sway_end ''Sway refresh transport failed'' st1 in (st', out, False))
       | PhaseOutputs \<Rightarrow>
           let st1 = st\<lparr>sw_outputs := frame_payload frame, sw_phase := PhaseTree\<rparr> in
           if fits then (st1, [SwWrite (encode_frame 4 '''')], True)
           else (let (st', out) = sway_end ''Sway refresh transport failed'' st1 in (st', out, False))
       | PhaseTree \<Rightarrow>
           (let (st', out) = sway_finish_refresh js fits (frame_payload frame) st in (st', out, True))
       | PhaseWorkspaceActivation \<Rightarrow>
           (let (st', out) = sway_finish_activation js fits (frame_payload frame) PhaseWorkspaceActivation st
            in (st', out, True))
       | PhaseWindowActivation \<Rightarrow>
           (let (st', out) = sway_finish_activation js fits (frame_payload frame) PhaseWindowActivation st
            in (st', out, True))
       | PhaseIdle \<Rightarrow> (st, [], False)))"

text \<open>The loop over the frames of one read; the \<open>n\<close>-th frame writes at most once, with \<open>fits n\<close>.\<close>

fun sway_frames_received ::
  "json_ops \<Rightarrow> (nat \<Rightarrow> bool) \<Rightarrow> nat \<Rightarrow> sway_frame list \<Rightarrow> sway_state \<Rightarrow> sway_state \<times> sway_output list" where
  "sway_frames_received js fits n [] st = (st, [])"
| "sway_frames_received js fits n (frame # frames) st =
     (let (st1, out1, go) = sway_frame_received js (fits n) frame st
      in if go then (let (st2, out2) = sway_frames_received js fits (Suc n) frames st1 in (st2, out1 @ out2))
         else (st1, out1))"

definition sway_request_data ::
  "json_ops \<Rightarrow> (nat \<Rightarrow> bool) \<Rightarrow> string \<Rightarrow> sway_state \<Rightarrow> sway_state \<times> sway_output list" where
  "sway_request_data js fits bytes st =
     (let (d, ok) = decoder_append bytes (sw_request_decoder st) in
      if \<not> ok then sway_end (dec_error d) (st\<lparr>sw_request_decoder := d\<rparr>)
      else let (frames, d') = take_frames d
           in sway_frames_received js fits 0 frames (st\<lparr>sw_request_decoder := d'\<rparr>))"

section \<open>Events of Sway\<close>

definition subscription_accepted :: "json_ops \<Rightarrow> sway_frame \<Rightarrow> bool" where
  "subscription_accepted js frame =
     (frame_type frame = 2 \<and>
      (case js_parse js (frame_payload frame) of
         Some (JObject response) \<Rightarrow> json_bool (member response ''success'')
       | _ \<Rightarrow> False))"

definition sway_failed_end :: "string \<Rightarrow> sway_state \<Rightarrow> sway_state \<times> sway_output list" where
  "sway_failed_end diagnostic st =
     (let (st1, out1) = sway_fail diagnostic st; (st2, out2) = sway_end diagnostic st1 in (st2, out1 @ out2))"

fun sway_events_received ::
  "json_ops \<Rightarrow> sway_frame list \<Rightarrow> sway_state \<Rightarrow> sway_state \<times> sway_output list" where
  "sway_events_received js [] st = (st, [])"
| "sway_events_received js (frame # frames) st =
     (if \<not> sw_ready st then
        if \<not> subscription_accepted js frame then sway_failed_end ''Sway IPC subscription rejected'' st
        else sway_events_received js frames (st\<lparr>sw_ready := True\<rparr>)
      else if \<not> bit (frame_type frame) 31 then
        sway_failed_end ''non-event traffic on Sway subscription socket'' st
      else sway_events_received js frames (sway_schedule_refresh st))"

definition sway_subscription_data ::
  "json_ops \<Rightarrow> string \<Rightarrow> sway_state \<Rightarrow> sway_state \<times> sway_output list" where
  "sway_subscription_data js bytes st =
     (let (d, ok) = decoder_append bytes (sw_subscription_decoder st) in
      if \<not> ok then sway_failed_end (dec_error d) (st\<lparr>sw_subscription_decoder := d\<rparr>)
      else let (frames, d') = take_frames d
           in sway_events_received js frames (st\<lparr>sw_subscription_decoder := d'\<rparr>))"

section \<open>Window activation\<close>

definition sway_activate_window ::
  "json_ops \<Rightarrow> bool \<Rightarrow> activation_request \<Rightarrow> sway_state \<Rightarrow>
   sway_state \<times> sway_output list \<times> activation_result" where
  "sway_activate_window js fits request st =
     (if \<not> valid_activation_request (js_utf8 js) request then (st, [], InvalidRequest)
      else if sw_request st \<noteq> SocketConnected then (st, [], Disconnected)
      else
        let resolution = resolve_activation (js_utf8 js) request (sw_candidates st) in
        (case resolved_index resolution of
           Some i \<Rightarrow>
             if resolved_result resolution \<noteq> Accepted then (st, [], resolved_result resolution)
             else
               let container = sw_containers st ! i in
               if sw_phase st \<noteq> PhaseIdle then
                 (if sw_pending_window st \<noteq> None then (st, [], Busy)
                  else (st\<lparr>sw_pending_window := Some container\<rparr>, [], Accepted))
               else
                 (let (st1, out1, ok) = sway_begin_window container fits st in
                  if ok then (st1, out1, Accepted)
                  else (let (st2, out2) = sway_fail ''Sway window activation transport failed'' st1
                        in (sway_schedule_refresh st2, out1 @ out2, Failed)))
         | None \<Rightarrow> (st, [], resolved_result resolution)))"

section \<open>Runs\<close>

datatype sway_event =
    SwStart
  | SwRequestConnected
  | SwSubscriptionConnected
  | SwRequestRefused
  | SwSubscriptionRefused
  | SwRequestClosed
  | SwSubscriptionClosed
  | SwRequestData "nat \<Rightarrow> bool" string
  | SwSubscriptionData string
  | SwRefreshTimer bool
  | SwReconnectTimer
  | SwActivateWorkspace bool string
  | SwActivateSlot bool int
  | SwActivateWindow bool activation_request

text \<open>A socket event can only happen to a socket in the right state. A refused connection attempt
  emits \<open>errorOccurred\<close>, which the backend does not handle.\<close>

fun sway_step :: "json_ops \<Rightarrow> sway_event \<Rightarrow> sway_state \<Rightarrow> sway_state \<times> sway_output list" where
  "sway_step js SwStart st = sway_start st"
| "sway_step js SwRequestConnected st =
     (if sw_request st = SocketConnecting
      then (sway_schedule_refresh (st\<lparr>sw_request := SocketConnected\<rparr>), []) else (st, []))"
| "sway_step js SwSubscriptionConnected st =
     (if sw_subscription st = SocketConnecting
      then (st\<lparr>sw_subscription := SocketConnected\<rparr>,
            [SwSubscribe (encode_frame 2 (''['' @ [CHR 0x22] @ ''workspace'' @ [CHR 0x22] @ '','' @ [CHR 0x22] @
               ''window'' @ [CHR 0x22] @ '','' @ [CHR 0x22] @ ''output'' @ [CHR 0x22] @ '','' @ [CHR 0x22] @
               ''shutdown'' @ [CHR 0x22] @ '']''))]) else (st, []))"
| "sway_step js SwRequestRefused st =
     ((if sw_request st = SocketConnecting then st\<lparr>sw_request := SocketUnconnected\<rparr> else st), [])"
| "sway_step js SwSubscriptionRefused st =
     ((if sw_subscription st = SocketConnecting then st\<lparr>sw_subscription := SocketUnconnected\<rparr> else st), [])"
| "sway_step js SwRequestClosed st =
     (if sw_request st = SocketConnected
      then sway_end ''Sway IPC disconnected'' (st\<lparr>sw_request := SocketUnconnected\<rparr>) else (st, []))"
| "sway_step js SwSubscriptionClosed st =
     (if sw_subscription st = SocketConnected
      then sway_end ''Sway IPC disconnected'' (st\<lparr>sw_subscription := SocketUnconnected\<rparr>) else (st, []))"
| "sway_step js (SwRequestData fits bytes) st =
     (if sw_request st = SocketConnected then sway_request_data js fits bytes st else (st, []))"
| "sway_step js (SwSubscriptionData bytes) st =
     (if sw_subscription st = SocketConnected then sway_subscription_data js bytes st else (st, []))"
| "sway_step js (SwRefreshTimer fits) st =
     (if sw_refresh_timer st then sway_begin_refresh fits (st\<lparr>sw_refresh_timer := False\<rparr>) else (st, []))"
| "sway_step js SwReconnectTimer st =
     (if sw_reconnect_timer st then sway_connect (st\<lparr>sw_reconnect_timer := False\<rparr>) else (st, []))"
| "sway_step js (SwActivateWorkspace fits identifier) st = sway_activate_workspace js fits identifier st"
| "sway_step js (SwActivateSlot fits slot) st = sway_activate_slot js fits slot st"
| "sway_step js (SwActivateWindow fits request) st =
     (let (st', out, _) = sway_activate_window js fits request st in (st', out))"

text \<open>A run begins with the one call of \<open>start\<close>.\<close>

definition sway_run :: "json_ops \<Rightarrow> string \<Rightarrow> sway_event list \<Rightarrow> sway_state" where
  "sway_run js path evs =
     foldl (\<lambda>st ev. fst (sway_step js ev st)) (fst (sway_start (sway_init path))) evs"

end
