(* ===== verification/Sway_Runs.thy ===== *)
theory Sway_Runs
  imports Sway_Backend
begin

text \<open>
  What holds of the Sway backend in every run: requests go out one at a time, no event is forgotten,
  a command focuses the container of the window it was asked for, and the end of a session leaves
  nothing behind.
\<close>

section \<open>The end of a session\<close>

definition sway_cleared :: "sway_state \<Rightarrow> sway_state" where
  "sway_cleared st = st\<lparr>sw_phase := PhaseIdle, sw_workspaces := '''', sw_outputs := '''', sw_candidates := [],
     sw_containers := [], sw_pending_window := None, sw_pending_activation := None, sw_dirty := False,
     sw_numbered := no_numbers, sw_names := [], sw_request := SocketUnconnected,
     sw_subscription := SocketUnconnected, sw_reconnect_timer := True, sw_delay := min (sw_delay st * 2) 30000\<rparr>"

definition sway_closing :: "string \<Rightarrow> sway_state \<Rightarrow> sway_output list" where
  "sway_closing diagnostic st =
     SwSnapshot (no_snapshot\<lparr>cs_diagnostic := diagnostic\<rparr>) #
     concat (map (\<lambda>s. if s = SocketConnected then [SwSnapshot (no_snapshot\<lparr>cs_diagnostic := ''Sway IPC disconnected''\<rparr>)]
       else []) [sw_request st, sw_subscription st])"

lemma sway_disconnect_done:
  "sw_request st = SocketUnconnected \<Longrightarrow> sw_subscription st = SocketUnconnected \<Longrightarrow> sw_reconnect_timer st \<Longrightarrow>
   sway_disconnect n diagnostic st = (st, [])"
  by (cases n) simp_all

lemma sway_disconnect_0:
  assumes "sw_request st \<noteq> SocketConnected" and "sw_subscription st \<noteq> SocketConnected" and "\<not> sw_reconnect_timer st"
  shows "sway_disconnect (Suc n) diagnostic st = (sway_cleared st, sway_closing diagnostic st)"
  using assms
  by (cases st) (simp add: sway_fail_def sway_schedule_reconnect_def sway_cleared_def sway_closing_def)

lemma sway_disconnect_1:
  assumes "sw_request st \<noteq> SocketConnected" and "sw_subscription st = SocketConnected" and "\<not> sw_reconnect_timer st"
  shows "sway_disconnect (Suc (Suc n)) diagnostic st = (sway_cleared st, sway_closing diagnostic st)"
proof -
  obtain ss where st: "ss = st\<lparr>sw_phase := PhaseIdle, sw_workspaces := '''', sw_outputs := '''',
      sw_candidates := [], sw_containers := [], sw_pending_window := None, sw_pending_activation := None,
      sw_dirty := False, sw_numbered := no_numbers, sw_names := [], sw_request := SocketUnconnected,
      sw_subscription := SocketUnconnected\<rparr>" by blast
  have inner: "sway_disconnect (Suc n) ''Sway IPC disconnected'' ss =
      (sway_cleared ss, sway_closing ''Sway IPC disconnected'' ss)"
    by (rule sway_disconnect_0) (use assms in \<open>simp_all add: st\<close>)
  have "sway_disconnect (Suc (Suc n)) diagnostic st =
      (sway_schedule_reconnect (fst (sway_disconnect (Suc n) ''Sway IPC disconnected'' ss)),
       SwSnapshot (no_snapshot\<lparr>cs_diagnostic := diagnostic\<rparr>) # snd (sway_disconnect (Suc n) ''Sway IPC disconnected'' ss))"
    using assms by (subst sway_disconnect.simps(2)) (simp add: sway_fail_def st case_prod_unfold Let_def del: sway_disconnect.simps)
  then show ?thesis
    using assms unfolding inner
    by (cases st) (simp add: st sway_schedule_reconnect_def sway_cleared_def sway_closing_def)
qed

lemma sway_disconnect_2:
  assumes "sw_request st = SocketConnected" and "\<not> sw_reconnect_timer st"
  shows "sway_disconnect (Suc (Suc (Suc n))) diagnostic st = (sway_cleared st, sway_closing diagnostic st)"
proof -
  obtain ss where st: "ss = st\<lparr>sw_phase := PhaseIdle, sw_workspaces := '''', sw_outputs := '''',
      sw_candidates := [], sw_containers := [], sw_pending_window := None, sw_pending_activation := None,
      sw_dirty := False, sw_numbered := no_numbers, sw_names := [], sw_request := SocketUnconnected\<rparr>"
    by blast
  have inner: "sway_disconnect (Suc (Suc n)) ''Sway IPC disconnected'' ss =
      (sway_cleared ss, sway_closing ''Sway IPC disconnected'' ss)"
    by (cases "sw_subscription ss = SocketConnected"; rule sway_disconnect_0 sway_disconnect_1)
      (use assms in \<open>simp_all add: st\<close>)
  have "sw_subscription (sway_cleared ss) \<noteq> SocketConnected" by (simp add: sway_cleared_def)
  then have "sway_disconnect (Suc (Suc (Suc n))) diagnostic st =
      (sway_schedule_reconnect ((sway_cleared ss)\<lparr>sw_subscription := SocketUnconnected\<rparr>),
       SwSnapshot (no_snapshot\<lparr>cs_diagnostic := diagnostic\<rparr>) # sway_closing ''Sway IPC disconnected'' ss)"
    using assms inner [unfolded st]
    by (subst sway_disconnect.simps(2)) (simp add: sway_fail_def st del: sway_disconnect.simps)
  then show ?thesis
    using assms
    by (cases st) (simp add: st sway_schedule_reconnect_def sway_cleared_def sway_closing_def)
qed

lemma sway_end_closed:
  assumes "\<not> sw_reconnect_timer st"
  shows "sway_end diagnostic st = (sway_cleared st, sway_closing diagnostic st)"
  using assms sway_disconnect_0 [of st 2] sway_disconnect_1 [of st 1] sway_disconnect_2 [of st 0]
  by (cases "sw_request st = SocketConnected"; cases "sw_subscription st = SocketConnected")
    (simp_all add: sway_end_def numeral_eq_Suc del: sway_disconnect.simps)

text \<open>The depth of three is enough.\<close>

lemma sway_disconnect_depth:
  assumes "sw_reconnect_timer st \<longrightarrow> sw_request st = SocketUnconnected \<and> sw_subscription st = SocketUnconnected"
  shows "sway_disconnect (Suc (Suc (Suc n))) diagnostic st = sway_end diagnostic st"
proof (cases "sw_reconnect_timer st")
  case True
  then show ?thesis using assms sway_disconnect_done [of st] by (simp add: sway_end_def del: sway_disconnect.simps)
next
  case False
  then show ?thesis
    using sway_disconnect_0 [of st "Suc (Suc n)"] sway_disconnect_1 [of st "Suc n"] sway_disconnect_2 [of st n]
    by (cases "sw_request st = SocketConnected"; cases "sw_subscription st = SocketConnected")
      (simp_all add: sway_end_closed del: sway_disconnect.simps)
qed

section \<open>Work that is waiting\<close>

lemma sway_drain_no_work:
  "sw_phase st = PhaseIdle \<Longrightarrow> sw_pending_window st = None \<Longrightarrow> sw_pending_activation st = None \<Longrightarrow>
   sway_drain js fits st = (if sw_dirty st then st\<lparr>sw_refresh_timer := True\<rparr> else st, [])"
  by (simp add: sway_drain.simps sway_schedule_refresh_def)

lemma sway_dispatch_idle:
  assumes "sw_phase st = PhaseIdle" and "sw_request st = SocketConnected" and "sw_pending_window st = None"
    and "sw_pending_activation st = None"
  shows "sway_dispatch js fits activation st =
    (if sa_slot activation = 0 \<and> \<not> hash_contains (sw_names st) (sa_id activation)
       then (if sw_dirty st then st\<lparr>sw_refresh_timer := True\<rparr> else st, [])
     else if fits
       then (st\<lparr>sw_phase := PhaseWorkspaceActivation\<rparr>,
             [SwWrite (encode_frame 0 (js_utf8 js (workspace_command activation (sw_names st))))])
     else (st\<lparr>sw_phase := PhaseIdle, sw_numbered := no_numbers, sw_names := [], sw_dirty := True,
              sw_refresh_timer := True\<rparr>,
           [SwSnapshot (no_snapshot\<lparr>cs_diagnostic := ''Sway workspace activation transport failed''\<rparr>)]))"
  using assms by (simp add: sway_dispatch.simps sway_drain_no_work command_failed_def sway_fail_def)

text \<open>The frames a list of outputs puts on the request socket.\<close>

fun sway_writes :: "sway_output list \<Rightarrow> string list" where
  "sway_writes [] = []"
| "sway_writes (SwWrite bytes # out) = bytes # sway_writes out"
| "sway_writes (_ # out) = sway_writes out"

lemma sway_writes_append [simp]: "sway_writes (a @ b) = sway_writes a @ sway_writes b"
  by (induction a rule: sway_writes.induct) simp_all

text \<open>What draining an idle backend can do: nothing but the fields named change, an activation is
  under way exactly when one frame was written, and what stays waiting has a refresh coming.\<close>

definition drained :: "sway_state \<Rightarrow> sway_state \<Rightarrow> sway_output list \<Rightarrow> bool" where
  "drained st st' out \<longleftrightarrow>
     st' = st\<lparr>sw_phase := sw_phase st', sw_pending_window := None,
       sw_pending_activation := sw_pending_activation st', sw_dirty := sw_dirty st',
       sw_refresh_timer := sw_refresh_timer st', sw_numbered := sw_numbered st', sw_names := sw_names st'\<rparr> \<and>
     sw_phase st' \<in> {PhaseIdle, PhaseWorkspaceActivation, PhaseWindowActivation} \<and>
     (sw_phase st' = PhaseIdle \<longrightarrow> sway_writes out = [] \<and>
        (sw_dirty st' \<or> sw_dirty st \<or> sw_pending_activation st' \<noteq> None \<longrightarrow> sw_refresh_timer st')) \<and>
     (sw_phase st' \<noteq> PhaseIdle \<longrightarrow> length (sway_writes out) = 1) \<and>
     (sw_refresh_timer st \<longrightarrow> sw_refresh_timer st') \<and> (sw_dirty st \<longrightarrow> sw_dirty st')"

lemma sway_dispatch_drained:
  assumes "sw_phase st = PhaseIdle" and "sw_request st = SocketConnected" and "sw_pending_window st = None"
    and "sw_pending_activation st = None" and "sway_dispatch js fits activation st = (st', out)"
  shows "drained st st' out"
  using assms(5) unfolding sway_dispatch_idle [OF assms(1-4)]
  by (cases st) (use assms(1-4) in \<open>auto simp: drained_def split: if_splits\<close>)

lemma sway_drain_drained:
  assumes "sw_phase st = PhaseIdle" and "sw_request st = SocketConnected"
    and "sway_drain js fits st = (st', out)"
  shows "drained st st' out"
proof (cases "sw_pending_window st")
  case (Some container)
  then show ?thesis
    using assms
    by (cases st; cases fits)
      (auto simp: sway_drain.simps drained_def sway_begin_window_def sway_fail_def sway_schedule_refresh_def)
next
  case none: None
  show ?thesis
  proof (cases "sw_pending_activation st")
    case None
    then show ?thesis using assms none by (cases st) (auto simp: sway_drain_no_work drained_def split: if_splits)
  next
    case (Some activation)
    let ?st = "st\<lparr>sw_pending_activation := None\<rparr>"
    have "sway_dispatch js fits activation ?st = (st', out)"
      using assms none Some by (simp add: sway_drain.simps)
    then have "drained ?st st' out"
      by (intro sway_dispatch_drained) (use assms(1,2) none in simp_all)
    then show ?thesis by (cases st) (simp add: drained_def)
  qed
qed

section \<open>The invariant\<close>

definition sway_inv :: "sway_state \<Rightarrow> bool" where
  "sway_inv st \<longleftrightarrow>
     (sw_phase st \<noteq> PhaseIdle \<longrightarrow> sw_request st = SocketConnected) \<and>
     (sw_dirty st \<longrightarrow> sw_request st = SocketConnected \<and> (sw_phase st \<noteq> PhaseIdle \<or> sw_refresh_timer st)) \<and>
     (sw_pending_activation st \<noteq> None \<longrightarrow>
        sw_request st = SocketConnected \<and> (sw_phase st \<noteq> PhaseIdle \<or> sw_refresh_timer st)) \<and>
     (sw_pending_window st \<noteq> None \<longrightarrow> sw_phase st \<noteq> PhaseIdle) \<and>
     (sw_reconnect_timer st \<longrightarrow> sw_request st = SocketUnconnected \<and> sw_subscription st = SocketUnconnected) \<and>
     (\<exists>ws :: sway_window_info list. sw_candidates st = map swin_candidate ws \<and> sw_containers st = map swin_container ws) \<and>
     1000 \<le> sw_delay st \<and> sw_delay st \<le> 30000 \<and>
     (sw_phase st \<in> {PhaseWorkspaces, PhaseOutputs, PhaseTree} \<longrightarrow> \<not> sw_refresh_timer st)"

lemma sway_invD:
  assumes "sway_inv st"
  shows "sw_phase st \<noteq> PhaseIdle \<Longrightarrow> sw_request st = SocketConnected"
    and "sw_dirty st \<Longrightarrow> sw_request st = SocketConnected \<and> (sw_phase st \<noteq> PhaseIdle \<or> sw_refresh_timer st)"
    and "sw_pending_activation st \<noteq> None \<Longrightarrow>
      sw_request st = SocketConnected \<and> (sw_phase st \<noteq> PhaseIdle \<or> sw_refresh_timer st)"
    and "sw_pending_window st \<noteq> None \<Longrightarrow> sw_phase st \<noteq> PhaseIdle"
    and "sw_reconnect_timer st \<Longrightarrow> sw_request st = SocketUnconnected \<and> sw_subscription st = SocketUnconnected"
    and "\<exists>ws :: sway_window_info list. sw_candidates st = map swin_candidate ws \<and> sw_containers st = map swin_container ws"
    and "1000 \<le> sw_delay st" and "sw_delay st \<le> 30000"
    and "sw_refresh_timer st \<Longrightarrow> sw_phase st \<notin> {PhaseWorkspaces, PhaseOutputs, PhaseTree}"
  using assms by (auto simp: sway_inv_def)

lemma sway_inv_cleared: "1000 \<le> sw_delay st \<Longrightarrow> sway_inv (sway_cleared st)"
  by (auto simp: sway_inv_def sway_cleared_def)

lemma drained_same:
  assumes "drained st st' out"
  shows "sw_request st' = sw_request st" and "sw_subscription st' = sw_subscription st"
    and "sw_reconnect_timer st' = sw_reconnect_timer st" and "sw_candidates st' = sw_candidates st"
    and "sw_containers st' = sw_containers st" and "sw_delay st' = sw_delay st"
    and "sw_pending_window st' = None"
proof -
  have eq: "st' = st\<lparr>sw_phase := sw_phase st', sw_pending_window := None,
       sw_pending_activation := sw_pending_activation st', sw_dirty := sw_dirty st',
       sw_refresh_timer := sw_refresh_timer st', sw_numbered := sw_numbered st', sw_names := sw_names st'\<rparr>"
    using assms by (simp add: drained_def)
  show "sw_request st' = sw_request st" "sw_subscription st' = sw_subscription st"
    "sw_reconnect_timer st' = sw_reconnect_timer st" "sw_candidates st' = sw_candidates st"
    "sw_containers st' = sw_containers st" "sw_delay st' = sw_delay st" "sw_pending_window st' = None"
    by (subst eq, simp)+
qed

lemma sway_inv_drained:
  assumes "drained st st' out" and "sw_phase st = PhaseIdle" and "sw_request st = SocketConnected"
    and "\<not> sw_reconnect_timer st" and "1000 \<le> sw_delay st" and "sw_delay st \<le> 30000"
    and "\<exists>ws :: sway_window_info list. sw_candidates st = map swin_candidate ws \<and> sw_containers st = map swin_container ws"
  shows "sway_inv st'"
proof -
  have "sw_phase st' = PhaseIdle \<longrightarrow> (sw_dirty st' \<or> sw_pending_activation st' \<noteq> None \<longrightarrow> sw_refresh_timer st')"
    using assms(1) by (auto simp: drained_def)
  moreover have "sw_phase st' \<notin> {PhaseWorkspaces, PhaseOutputs, PhaseTree}"
    using assms(1) by (auto simp: drained_def)
  ultimately show ?thesis
    unfolding sway_inv_def drained_same [OF assms(1)] using assms(2-) by auto
qed

section \<open>Replies\<close>

text \<open>A refresh is due: it is marked, its timer runs, or a command is under way, after which the
  backend always refreshes.\<close>

definition refresh_due :: "sway_state \<Rightarrow> bool" where
  "refresh_due st \<longleftrightarrow> sw_dirty st \<or> sw_refresh_timer st \<or>
     sw_phase st \<in> {PhaseWorkspaceActivation, PhaseWindowActivation}"

definition replied :: "sway_state \<Rightarrow> sway_state \<Rightarrow> sway_output list \<Rightarrow> bool" where
  "replied st st' out \<longleftrightarrow> sway_inv st' \<and>
     (if sw_phase st' = PhaseIdle then sway_writes out = [] else length (sway_writes out) = 1) \<and>
     (refresh_due st \<longrightarrow> refresh_due st' \<or> sw_request st' \<noteq> SocketConnected)"

lemma sway_writes_closing [simp]: "sway_writes (sway_closing diagnostic st) = []"
  by (simp add: sway_closing_def)

lemma sway_writes_fail [simp]: "sway_writes (snd (sway_fail diagnostic st)) = []"
  by (simp add: sway_fail_def)

lemma sway_cleared_simps [simp]:
  "sw_phase (sway_cleared st) = PhaseIdle" "sw_request (sway_cleared st) = SocketUnconnected"
  "sw_subscription (sway_cleared st) = SocketUnconnected" "sw_reconnect_timer (sway_cleared st)"
  by (simp_all add: sway_cleared_def)

lemma replied_end:
  assumes "sway_inv st0" and "sw_request st0 = SocketConnected" and "sw_reconnect_timer st = sw_reconnect_timer st0"
    and "sw_delay st = sw_delay st0" and "sway_end diagnostic st = (st', out)"
  shows "replied st0 st' out"
proof -
  have "\<not> sw_reconnect_timer st" using sway_invD(5) [OF assms(1)] assms(2,3) by auto
  then have "st' = sway_cleared st" "out = sway_closing diagnostic st"
    using assms(5) by (simp_all add: sway_end_closed)
  moreover have "sway_inv (sway_cleared st)"
    using sway_invD(7) [OF assms(1)] assms(4) by (simp add: sway_inv_cleared)
  ultimately show ?thesis by (simp add: replied_def)
qed

lemma replied_drained:
  assumes "sway_inv st" and "sw_request st = SocketConnected" and "sway_drain js fits st1 = (st', out)"
    and "sw_phase st1 = PhaseIdle" and "sw_request st1 = SocketConnected"
    and "sw_reconnect_timer st1 = sw_reconnect_timer st" and "1000 \<le> sw_delay st1" and "sw_delay st1 \<le> 30000"
    and "\<exists>ws :: sway_window_info list. sw_candidates st1 = map swin_candidate ws \<and> sw_containers st1 = map swin_container ws"
    and "refresh_due st \<longrightarrow> sw_dirty st1 \<or> sw_refresh_timer st1" and "sway_writes out1 = []"
  shows "replied st st' (out1 @ out) \<and> sw_request st' = SocketConnected"
proof -
  note d = sway_drain_drained [OF assms(4,5,3)]
  have "\<not> sw_reconnect_timer st1" using sway_invD(5) [OF assms(1)] assms(2,6) by auto
  then have inv: "sway_inv st'" by (rule sway_inv_drained [OF d assms(4,5) _ assms(7,8,9)])
  have "refresh_due st \<longrightarrow> refresh_due st'"
    using d assms(10) by (auto simp: drained_def refresh_due_def)
  moreover have "if sw_phase st' = PhaseIdle then sway_writes out = [] else length (sway_writes out) = 1"
    using d by (auto simp: drained_def)
  ultimately show ?thesis using inv assms(5,11) drained_same(1) [OF d] by (simp add: replied_def)
qed

lemma finish_refresh_replied:
  assumes "sway_inv st" and "sw_phase st = PhaseTree" and "sway_finish_refresh js fits tree st = (st', out)"
  shows "replied st st' out \<and> sw_request st' = SocketConnected"
proof -
  have req: "sw_request st = SocketConnected" using sway_invD(1) [OF assms(1)] assms(2) by simp
  let ?st0 = "st\<lparr>sw_phase := PhaseIdle\<rparr>"
  define r1 where "r1 = (case parse_sway_refresh js (sw_workspaces ?st0) (sw_outputs ?st0) tree of
       Some r \<Rightarrow> (?st0\<lparr>sw_delay := 1000, sw_numbered := sr_numbered r, sw_names := sr_names r,
              sw_candidates := map swin_candidate (sr_windows r), sw_containers := map swin_container (sr_windows r)\<rparr>,
            [SwSnapshot ((sr_snapshot r)\<lparr>cs_capabilities :=
               (cs_capabilities (sr_snapshot r))\<lparr>cap_window_activation := True\<rparr>\<rparr>)])
     | None \<Rightarrow> sway_fail ''invalid Sway refresh response'' ?st0)"
  obtain st2 out2 where drain: "sway_drain js fits (fst r1) = (st2, out2)" by fastforce
  have res: "st' = st2" "out = snd r1 @ out2"
    using assms(3) drain unfolding sway_finish_refresh_def Let_def r1_def case_prod_unfold by simp_all
  have "sw_phase (fst r1) = PhaseIdle" "sw_request (fst r1) = SocketConnected"
    "sw_reconnect_timer (fst r1) = sw_reconnect_timer st" "1000 \<le> sw_delay (fst r1)" "sw_delay (fst r1) \<le> 30000"
    "\<exists>ws :: sway_window_info list. sw_candidates (fst r1) = map swin_candidate ws \<and> sw_containers (fst r1) = map swin_container ws"
    "sw_dirty (fst r1) = sw_dirty st" "sw_refresh_timer (fst r1) = sw_refresh_timer st" "sway_writes (snd r1) = []"
    using req sway_invD(6-8) [OF assms(1)]
    by (auto simp: r1_def sway_fail_def split: option.splits)
  then show ?thesis
    unfolding res using assms(2)
    by (intro replied_drained [OF assms(1) req drain]) (auto simp: refresh_due_def)
qed

lemma finish_activation_replied:
  assumes "sway_inv st" and "sw_phase st \<noteq> PhaseIdle"
    and "sway_finish_activation js fits payload completed st = (st', out)"
  shows "replied st st' out \<and> sw_request st' = SocketConnected"
proof -
  have req: "sw_request st = SocketConnected" using sway_invD(1) [OF assms(1)] assms(2) by simp
  let ?st0 = "st\<lparr>sw_phase := PhaseIdle\<rparr>"
  define r1 where "r1 = (if \<not> activation_succeeded js payload
     then sway_fail (if completed = PhaseWindowActivation then ''Sway window activation rejected''
        else ''Sway workspace activation failed'') ?st0 else (?st0, []))"
  obtain st2 out2 where drain: "sway_drain js fits ((fst r1)\<lparr>sw_dirty := True\<rparr>) = (st2, out2)" by fastforce
  have res: "st' = st2" "out = snd r1 @ out2"
    using assms(3) drain unfolding sway_finish_activation_def Let_def r1_def case_prod_unfold by simp_all
  have "sw_phase (fst r1) = PhaseIdle" "sw_request (fst r1) = SocketConnected"
    "sw_reconnect_timer (fst r1) = sw_reconnect_timer st" "sw_delay (fst r1) = sw_delay st"
    "sw_candidates (fst r1) = sw_candidates st" "sw_containers (fst r1) = sw_containers st"
    "sway_writes (snd r1) = []"
    using req by (auto simp: r1_def sway_fail_def)
  then show ?thesis
    unfolding res using sway_invD(6-8) [OF assms(1)]
    by (intro replied_drained [OF assms(1) req drain]) simp_all
qed

lemma sway_frame_replied:
  assumes "sway_inv st" and "sw_request st = SocketConnected"
    and "sway_frame_received js fits frame st = (st', out, go)"
  shows "(replied st st' out \<or> \<not> go \<and> st' = st \<and> out = []) \<and> (go \<longrightarrow> sw_request st' = SocketConnected)"
proof (cases "frame_type frame \<noteq> expected_type (sw_phase st)")
  case True
  then show ?thesis
    using assms(3) replied_end [OF assms(1,2) refl refl] by (auto simp: sway_frame_received_def split: prod.splits)
next
  case typed: False
  have to_outputs: "sw_phase st = PhaseWorkspaces \<Longrightarrow>
      replied st (st\<lparr>sw_workspaces := x, sw_phase := PhaseOutputs\<rparr>) [SwWrite bytes]" for x bytes
    using assms(1,2) by (auto simp: replied_def sway_inv_def refresh_due_def)
  have to_tree: "sw_phase st = PhaseOutputs \<Longrightarrow>
      replied st (st\<lparr>sw_outputs := x, sw_phase := PhaseTree\<rparr>) [SwWrite bytes]" for x bytes
    using assms(1,2) by (auto simp: replied_def sway_inv_def refresh_due_def)
  note fin = finish_activation_replied [OF assms(1)] finish_refresh_replied [OF assms(1)]
  note unf = assms(3) [unfolded sway_frame_received_def]
  show ?thesis
  proof (cases "sw_phase st")
    case PhaseWorkspaces
    then show ?thesis
      using unf typed to_outputs assms(2)
        replied_end [OF assms(1,2), of "st\<lparr>sw_workspaces := frame_payload frame, sw_phase := PhaseOutputs\<rparr>"]
      by (auto simp: Let_def split: prod.splits if_splits)
  next
    case PhaseOutputs
    then show ?thesis
      using unf typed to_tree assms(2)
        replied_end [OF assms(1,2), of "st\<lparr>sw_outputs := frame_payload frame, sw_phase := PhaseTree\<rparr>"]
      by (auto simp: Let_def split: prod.splits if_splits)
  next
    case PhaseTree
    then show ?thesis using unf typed fin(2) [OF PhaseTree] by (auto split: prod.splits)
  next
    case PhaseWorkspaceActivation
    then show ?thesis using unf typed fin(1) by (auto split: prod.splits)
  next
    case PhaseWindowActivation
    then show ?thesis using unf typed fin(1) by (auto split: prod.splits)
  next
    case PhaseIdle
    then show ?thesis using unf typed by auto
  qed
qed

section \<open>Steps\<close>

text \<open>A step keeps the invariant, and a refresh that is due stays due until it is asked for or the
  session is over.\<close>

definition kept :: "sway_state \<Rightarrow> sway_state \<Rightarrow> sway_output list \<Rightarrow> bool" where
  "kept st st' out \<longleftrightarrow> sway_inv st' \<and>
     (refresh_due st \<and> sw_request st = SocketConnected \<longrightarrow>
        refresh_due st' \<or> sw_request st' \<noteq> SocketConnected \<or> encode_frame 1 '''' \<in> set (sway_writes out))"

lemma kept_replied: "replied st st' out \<Longrightarrow> kept st st' out"
  by (auto simp: kept_def replied_def)

lemma kept_refl: "sway_inv st \<Longrightarrow> kept st st []"
  by (simp add: kept_def)

lemma frames_received_kept:
  assumes "sway_inv st" and "sw_request st = SocketConnected"
    and "sway_frames_received js fits n frames st = (st', out)"
  shows "kept st st' out \<and> (refresh_due st \<longrightarrow> refresh_due st' \<or> sw_request st' \<noteq> SocketConnected)"
  using assms
proof (induction frames arbitrary: n st out)
  case Nil
  then show ?case by (simp add: kept_def)
next
  case (Cons frame frames)
  obtain st1 out1 go where one: "sway_frame_received js (fits n) frame st = (st1, out1, go)"
    using prod_cases3 by blast
  note r = sway_frame_replied [OF Cons.prems(1,2) one]
  then have inv: "sway_inv st1" and due: "refresh_due st \<longrightarrow> refresh_due st1 \<or> sw_request st1 \<noteq> SocketConnected"
    using Cons.prems(1) by (auto simp: replied_def)
  show ?case
  proof (cases go)
    case False
    then show ?thesis using Cons.prems(3) one inv due by (auto simp: kept_def)
  next
    case True
    then obtain out2 where "sway_frames_received js fits (Suc n) frames st1 = (st', out2)"
      using Cons.prems(3) one by (auto split: prod.splits)
    moreover have "sw_request st1 = SocketConnected" using r True by simp
    ultimately show ?thesis using Cons.IH [OF inv] due by (auto simp: kept_def)
  qed
qed

lemma end_kept:
  assumes "1000 \<le> sw_delay st" and "\<not> sw_reconnect_timer st" and "sway_end diagnostic st = (st', out)"
  shows "sway_inv st' \<and> sw_request st' \<noteq> SocketConnected"
  using assms sway_end_closed [OF assms(2)] by (auto simp: sway_inv_cleared)

lemma failed_end_kept:
  assumes "1000 \<le> sw_delay st" and "\<not> sw_reconnect_timer st" and "sway_failed_end diagnostic st = (st', out)"
  shows "sway_inv st' \<and> sw_request st' \<noteq> SocketConnected"
  using assms end_kept [of "fst (sway_fail diagnostic st)" diagnostic st']
  by (auto simp: sway_failed_end_def sway_fail_def split: prod.splits)

lemma schedule_inv: "sway_inv st \<Longrightarrow> sway_inv (sway_schedule_refresh st)"
  by (auto simp: sway_schedule_refresh_def sway_inv_def)

lemma schedule_due: "refresh_due (sway_schedule_refresh st)"
  by (simp add: sway_schedule_refresh_def refresh_due_def)

lemma schedule_same:
  "sw_request (sway_schedule_refresh st) = sw_request st" "sw_ready (sway_schedule_refresh st) = sw_ready st"
  "sw_subscription (sway_schedule_refresh st) = sw_subscription st"
  "sw_reconnect_timer (sway_schedule_refresh st) = sw_reconnect_timer st"
  by (simp_all add: sway_schedule_refresh_def)

lemma events_received_kept:
  assumes "sway_inv st" and "\<not> sw_reconnect_timer st" and "sway_events_received js frames st = (st', out)"
  shows "sway_inv st' \<and> (refresh_due st \<or> frames \<noteq> [] \<and> sw_ready st \<longrightarrow>
    refresh_due st' \<or> sw_request st' \<noteq> SocketConnected)"
  using assms
proof (induction js frames st arbitrary: st' out rule: sway_events_received.induct)
  case (1 js st)
  then show ?case by simp
next
  case (2 js frame frames st)
  have delay: "1000 \<le> sw_delay st" using sway_invD(7) [OF 2(3)] .
  consider (rejected) diagnostic where "sway_failed_end diagnostic st = (st', out)"
    | (accepted) "\<not> sw_ready st" "subscription_accepted js frame"
        "sway_events_received js frames (st\<lparr>sw_ready := True\<rparr>) = (st', out)"
    | (event) "sw_ready st" "bit (frame_type frame) 31"
        "sway_events_received js frames (sway_schedule_refresh st) = (st', out)"
    using 2(5) by (auto split: if_splits)
  then show ?case
  proof cases
    case rejected
    then show ?thesis using failed_end_kept [OF delay 2(4)] by blast
  next
    case accepted
    have "sway_inv (st\<lparr>sw_ready := True\<rparr>)" using 2(3) by (simp add: sway_inv_def)
    then have "sway_inv st' \<and> (refresh_due (st\<lparr>sw_ready := True\<rparr>) \<longrightarrow>
        refresh_due st' \<or> sw_request st' \<noteq> SocketConnected)"
      using 2(1) [OF _ _ _ _ accepted(3)] accepted 2(4) by simp
    then show ?thesis using accepted(1) by (simp add: refresh_due_def)
  next
    case event
    then have "sway_inv st' \<and> (refresh_due (sway_schedule_refresh st) \<longrightarrow>
        refresh_due st' \<or> sw_request st' \<noteq> SocketConnected)"
      using 2(2) [OF _ _ schedule_inv [OF 2(3)] _ event(3)] 2(4) by (simp add: schedule_same)
    then show ?thesis by (simp add: schedule_due)
  qed
qed

text \<open>Outside the replies of Sway, a request is only written by an idle backend, which is then waiting.\<close>

definition asks_once :: "sway_state \<Rightarrow> sway_state \<Rightarrow> sway_output list \<Rightarrow> bool" where
  "asks_once st st' out \<longleftrightarrow>
     sway_writes out = [] \<and> (sw_phase st' = sw_phase st \<or> sw_phase st' = PhaseIdle) \<or>
     sw_phase st = PhaseIdle \<and> sw_phase st' \<noteq> PhaseIdle \<and> length (sway_writes out) = 1"

lemma drained_kept:
  assumes "sway_inv st" and "sw_phase st = PhaseIdle" and "sw_request st = SocketConnected"
    and "drained st1 st' out" and "sw_phase st1 = PhaseIdle" and "sw_request st1 = SocketConnected"
    and "sw_reconnect_timer st1 = sw_reconnect_timer st" and "sw_delay st1 = sw_delay st"
    and "sw_candidates st1 = sw_candidates st" and "sw_containers st1 = sw_containers st"
    and "sw_dirty st1 = sw_dirty st \<or> sw_dirty st1" and "sw_refresh_timer st1 = sw_refresh_timer st"
    and "sway_writes out1 = []"
  shows "kept st st' (out1 @ out) \<and> asks_once st st' (out1 @ out)"
proof -
  have "\<not> sw_reconnect_timer st1" using sway_invD(5) [OF assms(1)] assms(3,7) by auto
  then have "sway_inv st'"
    using sway_invD(6-8) [OF assms(1)] assms(8-10)
    by (intro sway_inv_drained [OF assms(4-6)]) simp_all
  moreover have "refresh_due st \<longrightarrow> refresh_due st'"
    using assms(2,4,11,12) sway_invD(2) [OF assms(1)] by (auto simp: drained_def refresh_due_def)
  moreover have "asks_once st st' (out1 @ out)"
    using assms(2,4,13) by (auto simp: drained_def asks_once_def)
  ultimately show ?thesis by (simp add: kept_def)
qed

lemma dispatch_kept:
  assumes "sway_inv st" and "sway_dispatch js fits activation st = (st', out)"
  shows "kept st st' out \<and> asks_once st st' out"
proof -
  have stay: ?thesis if "st' = st" "out = []"
    using that assms(1) by (simp add: kept_def asks_once_def)
  show ?thesis
  proof (cases "sw_request st = SocketConnected \<and> sw_phase st = PhaseIdle")
    case False
    then consider "sw_request st \<noteq> SocketConnected" | "sw_request st = SocketConnected" "sw_phase st \<noteq> PhaseIdle"
      by auto
    then show ?thesis
    proof cases
      case 1
      then show ?thesis using assms(2) by (intro stay) (simp_all add: sway_dispatch.simps)
    next
      case 2
      then have "st' = st\<lparr>sw_pending_activation := Some activation\<rparr>" "out = []"
        using assms(2) by (simp_all add: sway_dispatch.simps)
      then show ?thesis using 2 assms(1) by (auto simp: kept_def asks_once_def sway_inv_def refresh_due_def)
    qed
  next
    case idle: True
    then have phase: "sw_phase st = PhaseIdle" and req: "sw_request st = SocketConnected" by simp_all
    show ?thesis
    proof (cases "sa_slot activation = 0 \<and> \<not> hash_contains (sw_names st) (sa_id activation)")
      case True
      then have "sway_drain js fits st = (st', out)"
        using assms(2) idle by (subst (asm) sway_dispatch.simps) simp
      from drained_kept [OF assms(1) phase req sway_drain_drained [OF phase req this] phase req, of "[]"]
      show ?thesis by simp
    next
      case known: False
      show ?thesis
      proof (cases fits)
        case True
        then have "st' = st\<lparr>sw_phase := PhaseWorkspaceActivation\<rparr>"
            "out = [SwWrite (encode_frame 0 (js_utf8 js (workspace_command activation (sw_names st))))]"
          using assms(2) idle known by (auto simp: sway_dispatch.simps)
        then show ?thesis
          using idle assms(1) by (auto simp: kept_def asks_once_def sway_inv_def refresh_due_def)
      next
        case False
        let ?st1 = "(fst (command_failed ''Sway workspace activation transport failed'' st))\<lparr>sw_dirty := True\<rparr>"
        obtain out2 where drain: "sway_drain js fits ?st1 = (st', out2)"
            and out: "out = snd (command_failed ''Sway workspace activation transport failed'' st) @ out2"
          using assms(2) idle known False by (subst (asm) sway_dispatch.simps) (auto simp: Let_def split: prod.splits)
        have st1: "sw_phase ?st1 = PhaseIdle" "sw_request ?st1 = SocketConnected"
          using req by (simp_all add: command_failed_def sway_fail_def)
        show ?thesis
          unfolding out
          by (rule drained_kept [OF assms(1) phase req sway_drain_drained [OF st1 drain] st1])
            (simp_all add: command_failed_def sway_fail_def)
      qed
    qed
  qed
qed

lemma activate_window_kept:
  assumes "sway_inv st" and "sway_activate_window js fits request st = (st', out, res)"
  shows "kept st st' out \<and> asks_once st st' out"
proof -
  have stay: ?thesis if "st' = st" "out = []"
    using that assms(1) by (simp add: kept_def asks_once_def)
  let ?r = "resolve_activation (js_utf8 js) request (sw_candidates st)"
  show ?thesis
  proof (cases "valid_activation_request (js_utf8 js) request \<and> sw_request st = SocketConnected \<and>
      resolved_result ?r = Accepted \<and> (\<exists>i. resolved_index ?r = Some i)")
    case False
    then show ?thesis
      using assms(2) by (intro stay) (auto simp: sway_activate_window_def Let_def split: if_splits option.splits)
  next
    case True
    then obtain i where i: "resolved_index ?r = Some i" by blast
    let ?c = "sw_containers st ! i"
    have req: "sw_request st = SocketConnected" using True by simp
    consider (busy) "st' = st" "out = []" | (wait) "sw_phase st \<noteq> PhaseIdle" "st' = st\<lparr>sw_pending_window := Some ?c\<rparr>" "out = []"
      | (sent) "sw_phase st = PhaseIdle" "st' = st\<lparr>sw_phase := PhaseWindowActivation\<rparr>"
          "out = [SwWrite (encode_frame 0 (focus_command ?c))]"
      | (failed) "sw_phase st = PhaseIdle" "st' = sway_schedule_refresh (fst (sway_fail ''Sway window activation transport failed'' st))"
          "sway_writes out = []"
      using assms(2) True i
      by (cases st) (auto simp: sway_activate_window_def Let_def sway_begin_window_def sway_fail_def split: if_splits)
    then show ?thesis
    proof cases
      case busy
      then show ?thesis by (rule stay)
    next
      case wait
      then show ?thesis using assms(1) by (auto simp: kept_def asks_once_def sway_inv_def refresh_due_def)
    next
      case sent
      then show ?thesis using assms(1) req by (auto simp: kept_def asks_once_def sway_inv_def refresh_due_def)
    next
      case failed
      then show ?thesis
        using assms(1) by (auto simp: kept_def asks_once_def sway_inv_def refresh_due_def sway_fail_def
            sway_schedule_refresh_def)
    qed
  qed
qed

lemma request_data_kept:
  assumes "sway_inv st" and "sw_request st = SocketConnected" and "sway_request_data js fits bytes st = (st', out)"
  shows "kept st st' out"
proof -
  obtain d ok where d: "decoder_append bytes (sw_request_decoder st) = (d, ok)" by fastforce
  have inv: "sway_inv (st\<lparr>sw_request_decoder := d'\<rparr>)" for d' using assms(1) by (simp add: sway_inv_def)
  show ?thesis
  proof (cases ok)
    case False
    then have "sway_end (dec_error d) (st\<lparr>sw_request_decoder := d\<rparr>) = (st', out)"
      using assms(3) d by (simp add: sway_request_data_def)
    from replied_end [OF assms(1,2) _ _ this] show ?thesis by (simp add: kept_replied)
  next
    case True
    then have "sway_frames_received js fits 0 (dec_frames d) (st\<lparr>sw_request_decoder := d\<lparr>dec_frames := []\<rparr>\<rparr>) = (st', out)"
      using assms(3) d by (simp add: sway_request_data_def take_frames_def)
    from frames_received_kept [OF inv _ this] assms(2) show ?thesis
      by (auto simp: kept_def refresh_due_def)
  qed
qed

lemma subscription_data_kept:
  assumes "sway_inv st" and "sw_subscription st = SocketConnected" and "sway_subscription_data js bytes st = (st', out)"
  shows "kept st st' out \<and>
    (sw_ready st \<and> dec_frames (fst (decoder_append bytes (sw_subscription_decoder st))) \<noteq> [] \<longrightarrow>
       refresh_due st' \<or> sw_request st' \<noteq> SocketConnected)"
proof -
  obtain d ok where d: "decoder_append bytes (sw_subscription_decoder st) = (d, ok)" by fastforce
  have inv: "sway_inv (st\<lparr>sw_subscription_decoder := d'\<rparr>)" for d' using assms(1) by (simp add: sway_inv_def)
  have timer: "\<not> sw_reconnect_timer st" using sway_invD(5) [OF assms(1)] assms(2) by auto
  show ?thesis
  proof (cases ok)
    case False
    then have "sway_failed_end (dec_error d) (st\<lparr>sw_subscription_decoder := d\<rparr>) = (st', out)"
      using assms(3) d by (simp add: sway_subscription_data_def)
    from failed_end_kept [OF _ _ this] timer sway_invD(7) [OF assms(1)] show ?thesis by (simp add: kept_def)
  next
    case True
    then have "sway_events_received js (dec_frames d) (st\<lparr>sw_subscription_decoder := d\<lparr>dec_frames := []\<rparr>\<rparr>) = (st', out)"
      using assms(3) d by (simp add: sway_subscription_data_def take_frames_def)
    from events_received_kept [OF inv _ this] timer show ?thesis
      by (auto simp: kept_def refresh_due_def d)
  qed
qed

fun is_data :: "sway_event \<Rightarrow> bool" where
  "is_data (SwRequestData _ _) = True"
| "is_data _ = False"

lemma end_closed_kept:
  assumes "sway_inv st0" and "sw_reconnect_timer st = sw_reconnect_timer st0" and "\<not> sw_reconnect_timer st0"
    and "sw_delay st = sw_delay st0" and "sway_end diagnostic st = (st', out)"
  shows "kept st0 st' out \<and> asks_once st0 st' out"
  using end_kept [OF _ _ assms(5)] sway_end_closed [of st diagnostic] assms sway_invD(7) [OF assms(1)]
  by (auto simp: kept_def asks_once_def)

lemma asks_refl [simp]: "asks_once st st []"
  by (simp add: asks_once_def)

lemma failed_end_writes:
  assumes "\<not> sw_reconnect_timer st" and "sway_failed_end diagnostic st = (st', out)"
  shows "sway_writes out = [] \<and> sw_phase st' = PhaseIdle"
proof -
  have "\<not> sw_reconnect_timer (fst (sway_fail diagnostic st))" using assms(1) by (simp add: sway_fail_def)
  from sway_end_closed [OF this, of diagnostic] assms(2) show ?thesis
    by (auto simp: sway_failed_end_def split: prod.splits) (simp_all add: sway_fail_def)
qed

lemma events_received_writes:
  assumes "\<not> sw_reconnect_timer st" and "sway_events_received js frames st = (st', out)"
  shows "sway_writes out = [] \<and> (sw_phase st' = sw_phase st \<or> sw_phase st' = PhaseIdle)"
  using assms
proof (induction js frames st arbitrary: st' out rule: sway_events_received.induct)
  case (2 js frame frames st)
  have "sw_phase (sway_schedule_refresh st) = sw_phase st" by (simp add: sway_schedule_refresh_def)
  then show ?case
    using 2 failed_end_writes [OF 2(3)] by (auto simp: schedule_same split: if_splits)
qed simp

lemma subscription_data_asks:
  assumes "\<not> sw_reconnect_timer st" and "sway_subscription_data js bytes st = (st', out)"
  shows "asks_once st st' out"
proof -
  obtain d ok where d: "decoder_append bytes (sw_subscription_decoder st) = (d, ok)" by fastforce
  then show ?thesis
    using assms failed_end_writes [of "st\<lparr>sw_subscription_decoder := d\<rparr>"]
      events_received_writes [of "st\<lparr>sw_subscription_decoder := d\<lparr>dec_frames := []\<rparr>\<rparr>"]
    by (cases ok) (auto simp: sway_subscription_data_def take_frames_def asks_once_def)
qed

lemma begin_refresh_kept:
  assumes "sway_inv st" and "sw_refresh_timer st" and "sway_begin_refresh fits (st\<lparr>sw_refresh_timer := False\<rparr>) = (st', out)"
  shows "kept st st' out \<and> asks_once st st' out"
proof -
  note inv = sway_invD [OF assms(1)]
  show ?thesis
  proof (cases "sw_request st = SocketConnected \<and> sw_phase st = PhaseIdle")
    case False
    then have "st' = st\<lparr>sw_refresh_timer := False\<rparr>" "out = []"
      using assms(3) by (auto simp: sway_begin_refresh_def)
    moreover have "sw_request st = SocketConnected \<Longrightarrow> sw_phase st \<in> {PhaseWorkspaceActivation, PhaseWindowActivation}"
      using False inv(9) [OF assms(2)] by (cases "sw_phase st") auto
    ultimately show ?thesis
      using assms(1) by (auto simp: kept_def asks_once_def sway_inv_def refresh_due_def)
  next
    case True
    let ?st1 = "st\<lparr>sw_refresh_timer := False, sw_dirty := False, sw_workspaces := '''', sw_outputs := '''',
      sw_phase := PhaseWorkspaces\<rparr>"
    show ?thesis
    proof (cases fits)
      case fits: True
      then have "st' = ?st1" "out = [SwWrite (encode_frame 1 '''')]"
        using assms(3) True by (auto simp: sway_begin_refresh_def)
      then show ?thesis using True assms(1) by (auto simp: kept_def asks_once_def sway_inv_def)
    next
      case False
      then have "sway_end ''Sway refresh transport failed'' ?st1 = (st', out)"
        using assms(3) True by (simp add: sway_begin_refresh_def)
      from end_closed_kept [OF assms(1) _ _ _ this] True inv(5) show ?thesis by auto
    qed
  qed
qed

lemma connect_kept:
  assumes "sway_inv st" and "sw_reconnect_timer st" and "sway_connect (st\<lparr>sw_reconnect_timer := False\<rparr>) = (st', out)"
  shows "kept st st' out \<and> asks_once st st' out"
proof -
  note inv = sway_invD [OF assms(1)]
  have "sw_request st \<noteq> SocketConnected" using inv(5) [OF assms(2)] by simp
  then have idle: "sw_phase st = PhaseIdle" "\<not> sw_dirty st" "sw_pending_activation st = None"
      "sw_pending_window st = None"
    using inv(1-4) by blast+
  have "st' = st\<lparr>sw_reconnect_timer := False, sw_phase := PhaseIdle, sw_request_decoder := decoder_init,
      sw_subscription_decoder := decoder_init, sw_ready := False, sw_request := SocketConnecting,
      sw_subscription := SocketConnecting\<rparr>" "sway_writes out = []"
    using assms(3) inv(5) [OF assms(2)] by (auto simp: sway_connect_def Let_def)
  then show ?thesis
    using idle assms(1) inv(5) [OF assms(2)] by (simp add: kept_def asks_once_def sway_inv_def)
qed

lemma refused_kept:
  assumes "sway_inv st"
  shows "sw_request st = SocketConnecting \<Longrightarrow>
      kept st (st\<lparr>sw_request := SocketUnconnected\<rparr>) [] \<and> asks_once st (st\<lparr>sw_request := SocketUnconnected\<rparr>) []"
    and "sw_subscription st = SocketConnecting \<Longrightarrow>
      kept st (st\<lparr>sw_subscription := SocketUnconnected\<rparr>) [] \<and> asks_once st (st\<lparr>sw_subscription := SocketUnconnected\<rparr>) []"
  using assms by (auto simp: kept_def asks_once_def sway_inv_def refresh_due_def)

lemma sway_step_kept:
  assumes "sway_inv st" and "ev \<noteq> SwStart" and "sway_step js ev st = (st', out)"
  shows "kept st st' out \<and> (is_data ev \<or> asks_once st st' out)"
proof -
  note inv = sway_invD [OF assms(1)]
  show ?thesis
  proof (cases ev)
    case SwRequestConnected
    show ?thesis
    proof (cases "sw_request st = SocketConnecting")
      case True
      then have "\<not> sw_reconnect_timer st" "sw_phase st = PhaseIdle" using inv(1,5) by auto
      moreover have "st' = st\<lparr>sw_request := SocketConnected, sw_refresh_timer := True\<rparr>" "out = []"
        using assms(3) True SwRequestConnected calculation by (auto simp: sway_schedule_refresh_def)
      ultimately show ?thesis
        using assms(1) True by (auto simp: kept_def asks_once_def sway_inv_def refresh_due_def)
    qed (use assms SwRequestConnected in \<open>simp add: kept_refl\<close>)
  next
    case SwSubscriptionConnected
    show ?thesis
    proof (cases "sw_subscription st = SocketConnecting")
      case True
      then have "st' = st\<lparr>sw_subscription := SocketConnected\<rparr>" "sway_writes out = []"
        using assms(3) SwSubscriptionConnected by auto
      moreover have "\<not> sw_reconnect_timer st" using inv(5) True by auto
      ultimately show ?thesis
        using assms(1) by (auto simp: kept_def asks_once_def sway_inv_def refresh_due_def)
    qed (use assms SwSubscriptionConnected in \<open>simp add: kept_refl\<close>)
  next
    case SwRequestRefused
    show ?thesis
    proof (cases "sw_request st = SocketConnecting")
      case True
      then have "st' = st\<lparr>sw_request := SocketUnconnected\<rparr>" "out = []"
        using assms(3) SwRequestRefused by simp_all
      then show ?thesis using refused_kept(1) [OF assms(1) True] by simp
    qed (use assms SwRequestRefused in \<open>simp add: kept_refl\<close>)
  next
    case SwSubscriptionRefused
    show ?thesis
    proof (cases "sw_subscription st = SocketConnecting")
      case True
      then have "st' = st\<lparr>sw_subscription := SocketUnconnected\<rparr>" "out = []"
        using assms(3) SwSubscriptionRefused by simp_all
      then show ?thesis using refused_kept(2) [OF assms(1) True] by simp
    qed (use assms SwSubscriptionRefused in \<open>simp add: kept_refl\<close>)
  next
    case SwRequestClosed
    show ?thesis
    proof (cases "sw_request st = SocketConnected")
      case True
      then have "sway_end ''Sway IPC disconnected'' (st\<lparr>sw_request := SocketUnconnected\<rparr>) = (st', out)"
        using assms(3) SwRequestClosed by simp
      from end_closed_kept [OF assms(1) _ _ _ this] inv(5) True show ?thesis by auto
    qed (use assms SwRequestClosed in \<open>simp add: kept_refl\<close>)
  next
    case SwSubscriptionClosed
    show ?thesis
    proof (cases "sw_subscription st = SocketConnected")
      case True
      then have "sway_end ''Sway IPC disconnected'' (st\<lparr>sw_subscription := SocketUnconnected\<rparr>) = (st', out)"
        using assms(3) SwSubscriptionClosed by simp
      from end_closed_kept [OF assms(1) _ _ _ this] inv(5) True show ?thesis by auto
    qed (use assms SwSubscriptionClosed in \<open>simp add: kept_refl\<close>)
  next
    case (SwRequestData fits bytes)
    then show ?thesis
      using assms request_data_kept [OF assms(1)]
      by (cases "sw_request st = SocketConnected") (simp_all add: kept_refl)
  next
    case (SwSubscriptionData bytes)
    show ?thesis
    proof (cases "sw_subscription st = SocketConnected")
      case True
      then have "\<not> sw_reconnect_timer st" using inv(5) by auto
      then show ?thesis
        using assms SwSubscriptionData True subscription_data_kept [OF assms(1) True] subscription_data_asks by simp
    qed (use assms SwSubscriptionData in \<open>simp add: kept_refl\<close>)
  next
    case (SwRefreshTimer fits)
    then show ?thesis
      using assms begin_refresh_kept [OF assms(1)] by (cases "sw_refresh_timer st") (simp_all add: kept_refl)
  next
    case SwReconnectTimer
    then show ?thesis
      using assms connect_kept [OF assms(1)] by (cases "sw_reconnect_timer st") (simp_all add: kept_refl)
  next
    case (SwActivateWorkspace fits wid)
    then show ?thesis
      using assms dispatch_kept [OF assms(1)]
      by (cases "hash_contains (sw_names st) wid") (simp_all add: sway_activate_workspace_def kept_refl)
  next
    case (SwActivateSlot fits slot)
    then show ?thesis
      using assms dispatch_kept [OF assms(1)]
      by (cases "slot > 0") (simp_all add: sway_activate_slot_def kept_refl)
  next
    case (SwActivateWindow fits request)
    then show ?thesis
      using assms activate_window_kept [OF assms(1)] by (auto split: prod.splits)
  qed (use assms(2) in simp)
qed

section \<open>Runs\<close>

lemma sway_inv_start: "sway_inv (fst (sway_start (sway_init path)))"
  by (simp add: sway_start_def sway_connect_def sway_fail_def sway_init_def sway_inv_def)

lemma sway_run_inv:
  assumes "SwStart \<notin> set evs"
  shows "sway_inv (sway_run js path evs)"
proof -
  have "sway_inv st \<Longrightarrow> SwStart \<notin> set evs \<Longrightarrow> sway_inv (foldl (\<lambda>st ev. fst (sway_step js ev st)) st evs)" for st
  proof (induction evs arbitrary: st)
    case (Cons ev evs)
    then have "sway_inv (fst (sway_step js ev st))"
      using sway_step_kept [of st ev js] by (cases "sway_step js ev st") (auto simp: kept_def)
    with Cons show ?case by simp
  qed simp
  then show ?thesis using assms sway_inv_start by (simp add: sway_run_def)
qed

definition waiting :: "sway_state \<Rightarrow> nat" where
  "waiting st = (if sw_phase st = PhaseIdle then 0 else 1)"

lemma frames_received_balance:
  assumes "sway_inv st" and "sw_request st = SocketConnected"
    and "sway_frames_received js fits n frames st = (st', out)"
  shows "length (sway_writes out) + waiting st \<le> length frames + waiting st'"
  using assms
proof (induction frames arbitrary: n st out)
  case Nil
  then show ?case by simp
next
  case (Cons frame frames)
  obtain st1 out1 go where one: "sway_frame_received js (fits n) frame st = (st1, out1, go)"
    using prod_cases3 by blast
  note r = sway_frame_replied [OF Cons.prems(1,2) one]
  have first: "length (sway_writes out1) + waiting st \<le> 1 + waiting st1"
    using r by (auto simp: replied_def waiting_def split: if_splits)
  show ?case
  proof (cases go)
    case False
    then show ?thesis using Cons.prems(3) one first by simp
  next
    case True
    then obtain out2 where rest: "sway_frames_received js fits (Suc n) frames st1 = (st', out2)"
        and out: "out = out1 @ out2"
      using Cons.prems(3) one by (auto split: prod.splits)
    have "sw_request st1 = SocketConnected" "sway_inv st1" using r True by (auto simp: replied_def)
    from Cons.IH [OF this(2,1) rest] show ?thesis using first by (simp add: out)
  qed
qed

text \<open>Sway is asked one thing at a time: outside replies a request is only written while none is
  outstanding, and while replies are handled every further request is paid for by a reply received.\<close>

theorem sway_one_request:
  assumes "SwStart \<notin> set evs" and "ev \<noteq> SwStart" and "sway_step js ev (sway_run js path evs) = (st', out)"
  shows "case ev of
      SwRequestData fits bytes \<Rightarrow>
        length (sway_writes out) + waiting (sway_run js path evs) \<le>
          length (dec_frames (fst (decoder_append bytes (sw_request_decoder (sway_run js path evs))))) + waiting st' \<or>
        sway_writes out = []
    | _ \<Rightarrow> sway_writes out = [] \<or> waiting (sway_run js path evs) = 0 \<and> waiting st' = 1 \<and> length (sway_writes out) = 1"
proof (cases "is_data ev")
  case False
  then have "asks_once (sway_run js path evs) st' out"
    using sway_step_kept [OF sway_run_inv [OF assms(1)] assms(2,3)] by simp
  then show ?thesis using False by (auto simp: asks_once_def waiting_def split: sway_event.split)
next
  case True
  let ?st = "sway_run js path evs"
  note inv = sway_run_inv [OF assms(1), of js path]
  obtain fits bytes where ev: "ev = SwRequestData fits bytes" using True by (cases ev) auto
  obtain d ok where d: "decoder_append bytes (sw_request_decoder ?st) = (d, ok)" by fastforce
  show ?thesis
  proof (cases "sw_request ?st = SocketConnected \<and> ok")
    case good: True
    have "sway_inv (?st\<lparr>sw_request_decoder := d\<lparr>dec_frames := []\<rparr>\<rparr>)" using inv by (simp add: sway_inv_def)
    moreover have "sway_frames_received js fits 0 (dec_frames d) (?st\<lparr>sw_request_decoder := d\<lparr>dec_frames := []\<rparr>\<rparr>) = (st', out)"
      using assms(3) ev d good by (simp add: sway_request_data_def take_frames_def)
    ultimately show ?thesis
      using frames_received_balance [of "?st\<lparr>sw_request_decoder := d\<lparr>dec_frames := []\<rparr>\<rparr>"] good ev d
      by (simp add: waiting_def)
  next
    case bad: False
    show ?thesis
    proof (cases "sw_request ?st = SocketConnected")
      case True
      then have "sway_end (dec_error d) (?st\<lparr>sw_request_decoder := d\<rparr>) = (st', out)"
        using assms(3) ev d bad by (simp add: sway_request_data_def)
      moreover have "\<not> sw_reconnect_timer ?st" using sway_invD(5) [OF inv] True by auto
      ultimately have "sway_writes out = []" by (auto simp: sway_end_closed)
      then show ?thesis by (simp add: ev)
    qed (use assms(3) ev in simp)
  qed
qed

text \<open>C23. No event of Sway is forgotten: an event leaves a refresh due or finds the session over; a
  refresh that is due stays due, whatever happens, until the workspaces are asked for or the session
  ends; and while nothing is under way it has its timer running.\<close>

theorem sway_no_lost_refresh:
  assumes "SwStart \<notin> set evs" and "ev \<noteq> SwStart" and "sway_step js ev (sway_run js path evs) = (st', out)"
    and "sw_request (sway_run js path evs) = SocketConnected"
  shows "(refresh_due (sway_run js path evs) \<or>
      (\<exists>bytes. ev = SwSubscriptionData bytes \<and> sw_ready (sway_run js path evs) \<and>
         sw_subscription (sway_run js path evs) = SocketConnected \<and>
         dec_frames (fst (decoder_append bytes (sw_subscription_decoder (sway_run js path evs)))) \<noteq> []) \<longrightarrow>
      refresh_due st' \<or> sw_request st' \<noteq> SocketConnected \<or> encode_frame 1 '''' \<in> set (sway_writes out)) \<and>
    (refresh_due st' \<and> sw_phase st' = PhaseIdle \<longrightarrow> sw_refresh_timer st')"
proof -
  let ?st = "sway_run js path evs"
  note inv = sway_run_inv [OF assms(1), of js path]
  note k = sway_step_kept [OF inv assms(2,3)]
  have "refresh_due st' \<or> sw_request st' \<noteq> SocketConnected"
    if "ev = SwSubscriptionData bytes" "sw_ready ?st" "sw_subscription ?st = SocketConnected"
      "dec_frames (fst (decoder_append bytes (sw_subscription_decoder ?st))) \<noteq> []" for bytes
    using subscription_data_kept [OF inv that(3)] assms(3) that by simp
  moreover have "refresh_due st' \<and> sw_phase st' = PhaseIdle \<longrightarrow> sw_refresh_timer st'"
    using k by (auto simp: kept_def sway_inv_def refresh_due_def)
  ultimately show ?thesis using k assms(4) by (auto simp: kept_def)
qed

lemma sway_aligned:
  assumes "sway_inv st"
  shows "length (sw_containers st) = length (sw_candidates st)"
  using sway_invD(6) [OF assms] by auto

text \<open>A window is activated by the container it was listed with: when a request is accepted, the
  nearest window of its lineage, as the last snapshot listed the windows, gets the focus command, at
  once or when the request under way is answered.\<close>

theorem sway_window_target:
  assumes "SwStart \<notin> set evs"
    and "sway_activate_window js fits request (sway_run js path evs) = (st', out, Accepted)"
  shows "\<exists>ws :: sway_window_info list. \<exists>i. i < length ws \<and>
    sw_candidates (sway_run js path evs) = map swin_candidate ws \<and>
    sw_containers (sway_run js path evs) = map swin_container ws \<and>
    resolved_index (nearest_window (js_utf8 js) request (map swin_candidate ws)) = Some i \<and>
    (if sw_phase (sway_run js path evs) = PhaseIdle
     then out = [SwWrite (encode_frame 0 (focus_command (swin_container (ws ! i))))]
     else out = [] \<and> sw_pending_window st' = Some (swin_container (ws ! i)))"
proof -
  let ?st = "sway_run js path evs"
  obtain ws :: "sway_window_info list" where ws: "sw_candidates ?st = map swin_candidate ws"
      "sw_containers ?st = map swin_container ws"
    using sway_invD(6) [OF sway_run_inv [OF assms(1), of js path]] by blast
  let ?r = "resolve_activation (js_utf8 js) request (sw_candidates ?st)"
  have acc: "resolved_result ?r = Accepted"
    using assms(2) by (auto simp: sway_activate_window_def Let_def split: if_splits option.splits)
  then obtain i where i: "resolved_index ?r = Some i" using activation_accepted_index by blast
  have near: "?r = nearest_window (js_utf8 js) request (sw_candidates ?st)"
    by (simp add: resolve_activation_nearest)
  have "i < length ws"
    using nearest_window_index [of "js_utf8 js" request "sw_candidates ?st" i] i near ws(1) by simp
  moreover have "if sw_phase ?st = PhaseIdle
     then out = [SwWrite (encode_frame 0 (focus_command (sw_containers ?st ! i)))]
     else out = [] \<and> sw_pending_window st' = Some (sw_containers ?st ! i)"
    using assms(2) i acc
    by (auto simp: sway_activate_window_def Let_def sway_begin_window_def split: if_splits prod.splits)
  ultimately show ?thesis using i near ws by auto
qed

text \<open>C24. Losing a connection ends the whole session: whatever was going on, both sockets are closed,
  nothing that belongs to the session is kept, a reconnect is scheduled, and the last thing the
  application is told is that the connection is gone.\<close>

theorem sway_session_lost:
  assumes "SwStart \<notin> set evs" and "ev = SwRequestClosed \<and> sw_request (sway_run js path evs) = SocketConnected \<or>
      ev = SwSubscriptionClosed \<and> sw_subscription (sway_run js path evs) = SocketConnected"
    and "sway_step js ev (sway_run js path evs) = (st', out)"
  shows "sw_request st' = SocketUnconnected \<and> sw_subscription st' = SocketUnconnected \<and>
    sw_phase st' = PhaseIdle \<and> \<not> sw_dirty st' \<and> sw_pending_window st' = None \<and>
    sw_pending_activation st' = None \<and> sw_candidates st' = [] \<and> sw_names st' = [] \<and>
    sw_numbered st' = no_numbers \<and> sw_reconnect_timer st' \<and> sway_writes out = [] \<and>
    out \<noteq> [] \<and> last out = SwSnapshot (no_snapshot\<lparr>cs_diagnostic := ''Sway IPC disconnected''\<rparr>)"
proof -
  let ?st = "sway_run js path evs"
  note inv = sway_run_inv [OF assms(1), of js path]
  have timer: "\<not> sw_reconnect_timer ?st" using sway_invD(5) [OF inv] assms(2) by auto
  obtain st1 where "sway_end ''Sway IPC disconnected'' st1 = (st', out)" "\<not> sw_reconnect_timer st1"
    using assms(2,3) timer that [of "?st\<lparr>sw_request := SocketUnconnected\<rparr>"]
      that [of "?st\<lparr>sw_subscription := SocketUnconnected\<rparr>"] by auto
  then have "st' = sway_cleared st1" "out = sway_closing ''Sway IPC disconnected'' st1"
    by (simp_all add: sway_end_closed)
  then show ?thesis
    by (simp add: sway_cleared_def sway_closing_def)
qed

text \<open>A connection attempt that is refused is not repeated: no timer runs afterwards and the application
  is told nothing, so the backend stays silent for ever.\<close>

lemma sway_refused_silent:
  assumes "path \<noteq> ''''" and "set evs \<subseteq> {SwRefreshTimer True, SwReconnectTimer}"
  shows "sway_run js path ([SwRequestRefused, SwSubscriptionRefused] @ evs) =
    sway_run js path [SwRequestRefused, SwSubscriptionRefused]"
proof -
  have "ev \<in> {SwRefreshTimer True, SwReconnectTimer} \<Longrightarrow>
      fst (sway_step js ev (sway_run js path [SwRequestRefused, SwSubscriptionRefused])) =
        sway_run js path [SwRequestRefused, SwSubscriptionRefused]" for ev
    using assms(1) by (auto simp: sway_run_def sway_start_def sway_connect_def sway_init_def)
  then have "foldl (\<lambda>st ev. fst (sway_step js ev st)) (sway_run js path [SwRequestRefused, SwSubscriptionRefused]) evs =
      sway_run js path [SwRequestRefused, SwSubscriptionRefused]"
    using assms(2) by (induction evs) auto
  then show ?thesis by (simp add: sway_run_def)
qed

section \<open>A concrete session\<close>

text \<open>Connecting, a refresh and its first reply.\<close>

definition demo_session :: "sway_event list" where
  "demo_session = [SwRequestConnected, SwSubscriptionConnected,
     SwSubscriptionData (encode_frame 2 ''s''), SwRefreshTimer True]"

definition demo_docs :: json_ops where
  "demo_docs = demo_json [(''s'', JObject [(''success'', JBool True)]), (''w'', JArray []), (''o'', JArray []),
     (''t'', JObject [(''type'', JText ''con''), (''pid'', JNumber 5), (''id'', JNumber 9)])]"

lemma append_frame:
  "length payload \<le> 8388608 \<Longrightarrow> decoder_append (encode_frame kind payload) decoder_init =
     (\<lparr>dec_buffer = '''', dec_frames = [\<lparr>frame_type = kind, frame_payload = payload\<rparr>], dec_error = ''''\<rparr>, True)"
  using decode_all [of "[\<lparr>frame_type = kind, frame_payload = payload\<rparr>]"
    "\<lparr>dec_buffer = encode_frame kind payload, dec_frames = [], dec_error = ''''\<rparr>"]
  by (simp add: decoder_append_def decoder_init_def frame_bytes_def frame_ok_def)

lemma take_one_frame:
  "take_frames \<lparr>dec_buffer = '''', dec_frames = fs, dec_error = ''''\<rparr> = (fs, decoder_init)"
  by (simp add: take_frames_def decoder_init_def)

lemma demo_session_run:
  "sway_run demo_docs ''S'' demo_session = (sway_init ''S'')\<lparr>sw_request := SocketConnected,
     sw_subscription := SocketConnected, sw_phase := PhaseWorkspaces, sw_ready := True\<rparr>"
  by (simp add: sway_run_def demo_session_def sway_start_def sway_connect_def sway_init_def
      sway_schedule_refresh_def sway_subscription_data_def append_frame take_one_frame subscription_accepted_def
      demo_docs_def demo_json_def member_def sway_begin_refresh_def)

lemma demo_session_no_start: "SwStart \<notin> set demo_session"
  by (simp add: demo_session_def)

lemma sway_one_request_witness:
  "waiting (sway_run demo_docs ''S'' demo_session) = 1 \<and>
   sway_writes (snd (sway_step demo_docs (SwActivateSlot True 3) (sway_run demo_docs ''S'' demo_session))) = []"
proof -
  obtain st' out where step: "sway_step demo_docs (SwActivateSlot True 3)
      (sway_run demo_docs ''S'' demo_session) = (st', out)" by fastforce
  have "waiting (sway_run demo_docs ''S'' demo_session) = 1" by (simp add: demo_session_run waiting_def)
  then show ?thesis using sway_one_request [OF demo_session_no_start _ step] step by auto
qed

text \<open>An event that arrives during the refresh leaves another one due.\<close>

lemma sway_no_lost_refresh_witness:
  "refresh_due (fst (sway_step demo_docs (SwSubscriptionData (encode_frame (2 ^ 31) ''''))
     (sway_run demo_docs ''S'' demo_session)))"
proof -
  let ?st = "sway_run demo_docs ''S'' demo_session"
  obtain st' out where step: "sway_step demo_docs (SwSubscriptionData (encode_frame (2 ^ 31) '''')) ?st = (st', out)"
    by fastforce
  have "sw_subscription_decoder ?st = decoder_init" by (simp add: demo_session_run sway_init_def)
  then have "refresh_due st' \<or> sw_request st' \<noteq> SocketConnected \<or> encode_frame 1 '''' \<in> set (sway_writes out)"
    using sway_no_lost_refresh [OF demo_session_no_start _ step] append_frame [of "''''" "2 ^ 31"]
    by (auto simp: demo_session_run sway_init_def)
  moreover have "sw_request st' = SocketConnected \<and> sway_writes out = []"
    using step append_frame [of "''''" "2 ^ 31"]
    by (auto simp: demo_session_run sway_init_def sway_subscription_data_def take_one_frame
        sway_schedule_refresh_def bit_exp_iff simp flip: decoder_init_def)
  ultimately show ?thesis using step by simp
qed

lemma sway_session_lost_witness:
  "sw_reconnect_timer (fst (sway_step demo_docs SwRequestClosed (sway_run demo_docs ''S'' demo_session)))"
proof -
  obtain st' out where step: "sway_step demo_docs SwRequestClosed (sway_run demo_docs ''S'' demo_session) = (st', out)"
    by fastforce
  have "sw_request (sway_run demo_docs ''S'' demo_session) = SocketConnected" by (simp add: demo_session_run)
  then show ?thesis using sway_session_lost [OF demo_session_no_start _ step] step by simp
qed

text \<open>The rest of the refresh: one window of process 5 in container 9.\<close>

definition demo_replies :: "sway_frame list" where
  "demo_replies = [\<lparr>frame_type = 1, frame_payload = ''w''\<rparr>, \<lparr>frame_type = 3, frame_payload = ''o''\<rparr>,
     \<lparr>frame_type = 4, frame_payload = ''t''\<rparr>]"

lemma append_frames:
  "list_all frame_ok fs \<Longrightarrow> decoder_append (concat (map frame_bytes fs)) decoder_init =
     (\<lparr>dec_buffer = '''', dec_frames = fs, dec_error = ''''\<rparr>, True)"
  using decode_all [of fs "\<lparr>dec_buffer = concat (map frame_bytes fs), dec_frames = [], dec_error = ''''\<rparr>"]
  by (simp add: decoder_append_def decoder_init_def)

lemma demo_refresh:
  "parse_sway_refresh demo_docs ''w'' ''o'' ''t'' = Some
     \<lparr>sr_snapshot = no_snapshot\<lparr>cs_connected := True, cs_capabilities := sway_capabilities\<rparr>,
      sr_windows = [\<lparr>swin_candidate = \<lparr>cand_pid = 5, cand_title = ''''\<rparr>, swin_container = 9\<rparr>],
      sr_numbered = \<lparr>nw_eligible = True, nw_assignments = []\<rparr>, sr_names = []\<rparr>"
  by (simp add: parse_sway_refresh_def demo_docs_def demo_json_def sway_result_def inspect_node.simps member_def
      sway_enter_def sway_root_def inspect_here_def observe_window_def native_leaf_def record_activation_def
      positive_integer_def whole_def project_window_def found_nothing_def listing_init_def focused_output_def
      no_snapshot_def)

lemma demo_refreshed:
  "sway_run demo_docs ''S'' (demo_session @ [SwRequestData (\<lambda>_. True) (concat (map frame_bytes demo_replies))]) =
     (sway_init ''S'')\<lparr>sw_request := SocketConnected, sw_subscription := SocketConnected, sw_ready := True,
       sw_workspaces := ''w'', sw_outputs := ''o'', sw_numbered := \<lparr>nw_eligible = True, nw_assignments = []\<rparr>,
       sw_candidates := [\<lparr>cand_pid = 5, cand_title = ''''\<rparr>], sw_containers := [9]\<rparr>"
proof -
  have data: "decoder_append (concat (map frame_bytes demo_replies)) decoder_init =
      (\<lparr>dec_buffer = '''', dec_frames = demo_replies, dec_error = ''''\<rparr>, True)"
    by (rule append_frames) (simp add: demo_replies_def frame_ok_def)
  have snoc: "sway_run js path (evs @ [ev]) = fst (sway_step js ev (sway_run js path evs))" for js path evs ev
    by (simp add: sway_run_def)
  show ?thesis
    unfolding snoc demo_session_run sway_init_def
    by (simp add: sway_request_data_def data take_one_frame, simp add: demo_replies_def sway_frame_received_def
        sway_finish_refresh_def demo_refresh sway_drain_no_work)
qed

lemma sway_window_target_witness:
  "\<exists>st'. sway_activate_window demo_docs True \<lparr>act_lineage = [7, 5], act_title = ''''\<rparr>
     (sway_run demo_docs ''S'' (demo_session @ [SwRequestData (\<lambda>_. True) (concat (map frame_bytes demo_replies))])) =
     (st', [SwWrite (encode_frame 0 (focus_command 9))], Accepted)"
proof -
  let ?evs = "demo_session @ [SwRequestData (\<lambda>_. True) (concat (map frame_bytes demo_replies))]"
  let ?req = "\<lparr>act_lineage = [7, 5], act_title = ''''\<rparr>"
  have utf8: "js_utf8 demo_docs = id" by (simp add: demo_docs_def demo_json_def)
  have "\<exists>st' out. sway_activate_window demo_docs True ?req (sway_run demo_docs ''S'' ?evs) = (st', out, Accepted)"
    by (simp add: demo_refreshed sway_activate_window_def sway_init_def sway_begin_window_def
        valid_activation_request_def resolve_activation_def utf8)
  then obtain st' out where act: "sway_activate_window demo_docs True ?req (sway_run demo_docs ''S'' ?evs) =
      (st', out, Accepted)" by blast
  have "SwStart \<notin> set ?evs" using demo_session_no_start by simp
  from sway_window_target [OF this act] obtain ws :: "sway_window_info list" and i where
    w: "i < length ws" "sw_containers (sway_run demo_docs ''S'' ?evs) = map swin_container ws"
      "if sw_phase (sway_run demo_docs ''S'' ?evs) = PhaseIdle
       then out = [SwWrite (encode_frame 0 (focus_command (swin_container (ws ! i))))]
       else out = [] \<and> sw_pending_window st' = Some (swin_container (ws ! i))"
    by blast
  have "map swin_container ws = [9]" using w(2) by (simp add: demo_refreshed)
  then have "swin_container (ws ! i) = 9" using w(1) by (cases ws) auto
  then have "out = [SwWrite (encode_frame 0 (focus_command 9))]"
    using w(3) by (simp add: demo_refreshed sway_init_def)
  then show ?thesis using act by blast
qed

text \<open>The diagnostic a session is ended with is not the last one the application sees: closing each
  socket reports a disconnection on top of it.\<close>

lemma sway_diagnostic_replaced:
  assumes "\<not> sw_reconnect_timer st" and "sw_request st = SocketConnected \<or> sw_subscription st = SocketConnected"
  shows "last (snd (sway_end diagnostic st)) = SwSnapshot (no_snapshot\<lparr>cs_diagnostic := ''Sway IPC disconnected''\<rparr>)"
  using assms by (auto simp: sway_end_closed sway_closing_def)

end
