(* ===== verification/Hyprland_Ipc.thy ===== *)
theory Hyprland_Ipc
  imports Json_Values Window_Activation Sway_Ipc_Codec
begin

text \<open>
  \<open>HyprlandIpc.cpp\<close>: the lines of Hyprland's event stream and the JSON replies to its commands. The
  bytes of a line are decoded by Qt's UTF-8 decoder, and Qt's tables say which characters are white
  space and how case is folded; these are further fields of the parameter.
\<close>

section \<open>Text\<close>

record qstring_ops = json_ops +
  qs_from_utf8 :: "string \<Rightarrow> string"
  qs_local :: "string \<Rightarrow> string"
  qs_space :: "char \<Rightarrow> bool"
  qs_fold :: "char \<Rightarrow> char"

text \<open>\<open>indexOf\<close> of a character, with the text before and after it.\<close>

fun cut_at :: "char \<Rightarrow> string \<Rightarrow> (string \<times> string) option" where
  "cut_at c [] = None"
| "cut_at c (x # xs) =
     (if x = c then Some ([], xs) else map_option (\<lambda>(before, rest). (x # before, rest)) (cut_at c xs))"

definition starts_with :: "string \<Rightarrow> string \<Rightarrow> bool" where
  "starts_with prefix s = (take (length prefix) s = prefix)"

definition trim_with :: "(char \<Rightarrow> bool) \<Rightarrow> string \<Rightarrow> string" where
  "trim_with space s = rev (dropWhile space (rev (dropWhile space s)))"

definition ends_with_folded :: "('a) qstring_ops_scheme \<Rightarrow> string \<Rightarrow> string \<Rightarrow> bool" where
  "ends_with_folded qs s suffix =
     (length suffix \<le> length s \<and>
      map (qs_fold qs) (drop (length s - length suffix) s) = map (qs_fold qs) suffix)"

text \<open>White space of the C locale, and \<open>toInt\<close>, which allows it on both sides of the digits.\<close>

definition ascii_space :: "char \<Rightarrow> bool" where
  "ascii_space c = (of_char c = (32::nat) \<or> 9 \<le> (of_char c :: nat) \<and> (of_char c :: nat) \<le> 13)"

definition text_int :: "string \<Rightarrow> int option" where
  "text_int s =
     (let t = trim_with ascii_space s; negative = starts_with ''-'' t;
          digits = (if negative \<or> starts_with ''+'' t then tl t else t);
          n = (if negative then - int (digits_value digits) else int (digits_value digits))
      in if digits \<noteq> '''' \<and> list_all is_digit digits \<and> - (2 ^ 31) \<le> n \<and> n < 2 ^ 31 then Some n else None)"

section \<open>Records\<close>

record hypr_window =
  hw_class :: string
  hw_title :: string
  hw_category :: string

record hypr_focused =
  hf_monitor :: string
  hf_workspace :: string

record hypr_client_info =
  hci_address :: string
  hci_class :: string
  hci_title :: string
  hci_pid :: "32 word"
  hci_workspace :: int
  hci_focus :: int

record hypr_open_window =
  how_address :: string
  how_workspace :: string
  how_class :: string
  how_title :: string

definition no_hypr_window :: hypr_window where
  "no_hypr_window = \<lparr>hw_class = '''', hw_title = '''', hw_category = ''''\<rparr>"

section \<open>Events\<close>

definition parse_active_window_event :: "'a qstring_ops_scheme \<Rightarrow> string \<Rightarrow> hypr_window option" where
  "parse_active_window_event qs line =
     (let prefix = ''activewindow>>'' in
      if \<not> starts_with prefix line then None
      else
        (case cut_at (CHR '','') (drop (length prefix) line) of
           None \<Rightarrow> Some no_hypr_window
         | Some (before, rest) \<Rightarrow>
             Some (no_hypr_window\<lparr>hw_class := qs_from_utf8 qs before, hw_title := qs_from_utf8 qs rest\<rparr>)))"

definition parse_workspace_event :: "'a qstring_ops_scheme \<Rightarrow> string \<Rightarrow> int option" where
  "parse_workspace_event qs line =
     (let prefix = ''workspace>>'' in
      if \<not> starts_with prefix line then None else text_int (qs_from_utf8 qs (drop (length prefix) line)))"

definition parse_focused_monitor_event :: "'a qstring_ops_scheme \<Rightarrow> string \<Rightarrow> hypr_focused option" where
  "parse_focused_monitor_event qs line =
     (let prefix = ''focusedmon>>'' in
      if \<not> starts_with prefix line then None
      else
        (case cut_at (CHR '','') (drop (length prefix) line) of
           None \<Rightarrow> None
         | Some (before, rest) \<Rightarrow>
             Some \<lparr>hf_monitor = trim_with (qs_space qs) (qs_from_utf8 qs before),
                   hf_workspace = trim_with (qs_space qs) (qs_from_utf8 qs rest)\<rparr>))"

definition parse_urgent_event :: "'a qstring_ops_scheme \<Rightarrow> string \<Rightarrow> string option" where
  "parse_urgent_event qs line =
     (let prefix = ''urgent>>'' in
      if \<not> starts_with prefix line then None
      else
        let address = trim_with (qs_space qs) (qs_from_utf8 qs (drop (length prefix) line))
        in if address = '''' then None else Some address)"

definition is_workspace_refresh_event :: "string \<Rightarrow> bool" where
  "is_workspace_refresh_event line =
     (starts_with ''workspace>>'' line \<or> starts_with ''focusedmon>>'' line \<or> starts_with ''openwindow>>'' line \<or>
      starts_with ''closewindow>>'' line \<or> starts_with ''movewindow>>'' line \<or>
      starts_with ''createworkspace>>'' line \<or> starts_with ''destroyworkspace>>'' line \<or>
      starts_with ''renameworkspace>>'' line)"

definition parse_open_window_event :: "'a qstring_ops_scheme \<Rightarrow> string \<Rightarrow> hypr_open_window option" where
  "parse_open_window_event qs line =
     (let prefix = ''openwindow>>'' in
      if \<not> starts_with prefix line then None
      else
        (case cut_at (CHR '','') (drop (length prefix) line) of
           None \<Rightarrow> None
         | Some (address, rest1) \<Rightarrow>
             (case cut_at (CHR '','') rest1 of
                None \<Rightarrow> None
              | Some (workspace, rest2) \<Rightarrow>
                  (case cut_at (CHR '','') rest2 of
                     None \<Rightarrow> None
                   | Some (app, title) \<Rightarrow>
                       Some \<lparr>how_address = qs_from_utf8 qs address, how_workspace = qs_from_utf8 qs workspace,
                             how_class = qs_from_utf8 qs app, how_title = qs_from_utf8 qs title\<rparr>))))"

section \<open>Replies\<close>

definition parse_active_window :: "'a json_ops_scheme \<Rightarrow> string \<Rightarrow> hypr_window option" where
  "parse_active_window js response =
     (case js_parse js response of
        Some (JObject obj) \<Rightarrow>
          Some (no_hypr_window\<lparr>hw_class := json_text (member obj ''class''),
            hw_title := json_text (member obj ''title'')\<rparr>)
      | _ \<Rightarrow> None)"

definition parse_active_workspace :: "'a json_ops_scheme \<Rightarrow> string \<Rightarrow> int option" where
  "parse_active_workspace js response =
     (case js_parse js response of
        Some (JObject obj) \<Rightarrow>
          (let workspace = json_integer 32 0 (member obj ''id'') in if workspace \<le> 0 then None else Some workspace)
      | _ \<Rightarrow> None)"

definition occupied_workspace :: "json \<Rightarrow> int list \<Rightarrow> int list" where
  "occupied_workspace v ids =
     (if \<not> is_json_object v then ids
      else
        let obj = json_object v; workspace = json_integer 32 0 (member obj ''id'');
            windows = json_integer 32 0 (member obj ''windows'')
        in if workspace > 0 \<and> windows > 0 then List.insert workspace ids else ids)"

definition parse_workspaces :: "'a json_ops_scheme \<Rightarrow> string \<Rightarrow> int list option" where
  "parse_workspaces js response =
     (case js_parse js response of Some (JArray vs) \<Rightarrow> Some (fold occupied_workspace vs []) | _ \<Rightarrow> None)"

definition workspace_of :: "json_object \<Rightarrow> string \<Rightarrow> int" where
  "workspace_of obj name = json_integer 32 0 (member (json_object (member obj name)) ''id'')"

definition monitor_entry :: "json \<Rightarrow> (string, int) qhash \<Rightarrow> (string, int) qhash" where
  "monitor_entry v m =
     (if \<not> is_json_object v then m
      else
        let obj = json_object v; name = json_text (member obj ''name''); ws = workspace_of obj ''activeWorkspace''
        in if name \<noteq> '''' \<and> ws > 0 then hash_insert name ws m else m)"

definition parse_monitors :: "'a json_ops_scheme \<Rightarrow> string \<Rightarrow> (string, int) qhash option" where
  "parse_monitors js response =
     (case js_parse js response of Some (JArray vs) \<Rightarrow> Some (fold monitor_entry vs []) | _ \<Rightarrow> None)"

definition focused_monitor :: "json \<Rightarrow> bool" where
  "focused_monitor v \<longleftrightarrow> is_json_object v \<and> json_text (member (json_object v) ''name'') \<noteq> '''' \<and>
     json_bool (member (json_object v) ''focused'')"

definition parse_focused_monitor_name :: "'a json_ops_scheme \<Rightarrow> string \<Rightarrow> string option" where
  "parse_focused_monitor_name js response =
     (case js_parse js response of
        Some (JArray vs) \<Rightarrow>
          (case find focused_monitor vs of
             Some v \<Rightarrow> Some (json_text (member (json_object v) ''name''))
           | None \<Rightarrow> Some '''')
      | _ \<Rightarrow> None)"

text \<open>A process identifier is a whole number of 32 bits; anything else counts as none.\<close>

definition client_pid :: "'a json_ops_scheme \<Rightarrow> json \<Rightarrow> 32 word" where
  "client_pid js v =
     (case v of
        JNumber r \<Rightarrow>
          (let d = js_double js r in
           if d > 0 \<and> d \<le> of_nat (2 ^ 32 - 1) \<and> d = of_int \<lfloor>d\<rfloor> then of_int \<lfloor>d\<rfloor> else 0)
      | _ \<Rightarrow> 0)"

definition client_entry :: "'a json_ops_scheme \<Rightarrow> json \<Rightarrow> hypr_client_info option" where
  "client_entry js v =
     (if \<not> is_json_object v then None
      else
        let obj = json_object v; app = json_text (member obj ''class''); title = json_text (member obj ''title'');
            address = json_text (member obj ''address''); pid = client_pid js (member obj ''pid'')
        in if (app = '''' \<or> title = '''') \<and> (pid = 0 \<or> address = '''') then None
           else Some \<lparr>hci_address = address, hci_class = app, hci_title = title, hci_pid = pid,
                  hci_workspace = workspace_of obj ''workspace'',
                  hci_focus = json_integer 32 (2 ^ 31 - 1) (member obj ''focusHistoryID'')\<rparr>)"

definition parse_clients :: "'a json_ops_scheme \<Rightarrow> string \<Rightarrow> hypr_client_info list option" where
  "parse_clients js response =
     (case js_parse js response of Some (JArray vs) \<Rightarrow> Some (List.map_filter (client_entry js) vs) | _ \<Rightarrow> None)"

definition client_workspace ::
  "'a qstring_ops_scheme \<Rightarrow> hypr_client_info list \<Rightarrow> string \<Rightarrow> int option" where
  "client_workspace qs clients address =
     (let window = trim_with (qs_space qs) address in
      if window = '''' then None
      else map_option hci_workspace
        (find (\<lambda>c. ends_with_folded qs (hci_address c) window \<and> hci_workspace c > 0) clients))"

definition client_workspace_json :: "'a qstring_ops_scheme \<Rightarrow> string \<Rightarrow> string \<Rightarrow> int option" where
  "client_workspace_json qs response address =
     (let window = trim_with (qs_space qs) address in
      if window = '''' then None
      else
        (case js_parse qs response of
           Some (JArray vs) \<Rightarrow>
             map_option (\<lambda>v. workspace_of (json_object v) ''workspace'')
               (find (\<lambda>v. is_json_object v \<and>
                  ends_with_folded qs (json_text (member (json_object v) ''address'')) window \<and>
                  workspace_of (json_object v) ''workspace'' > 0) vs)
         | _ \<Rightarrow> None))"

end
