(* ===== verification/Hyprland_Client.thy ===== *)
theory Hyprland_Client
  imports Hyprland_Ipc
begin

text \<open>
  \<open>HyprlandIpcClient\<close>: one socket carries Hyprland's events as lines, and every command has a socket
  of its own, whose whole content until it closes is the reply. Connecting a local socket may succeed
  or fail at once, so its signals may arrive inside the call; which of the three happens to each
  attempt is chosen by the environment and consumed from \<open>hc_outcomes\<close>. Signals to the backend and
  calls of the sockets and timers are outputs in order. The end of a command is announced inside
  \<open>runCommand\<close> when its connection fails at once: \<open>client_run\<close> stops there, and \<open>client_run_end\<close> is
  what \<open>runCommand\<close> does after the listeners return.
\<close>

section \<open>State\<close>

datatype connect_outcome = ConnectPending | ConnectDone | ConnectRefused

datatype event_socket = EventOpening | EventOpen | EventClosed

text \<open>\<open>command_timeout_\<close> is null, a timer that belongs to the current command's socket, or a timer without
  a parent.\<close>

datatype timer_pointer = NoTimer | OwnTimer | OrphanTimer nat

record hypr_env =
  env_runtime_dir :: string
  env_signature :: string

record hypr_client =
  hc_event_path :: string
  hc_command_path :: string
  hc_event :: "event_socket option"
  hc_connect_timer :: bool
  hc_command :: bool
  hc_timeout :: timer_pointer
  hc_orphans :: "nat list"
  hc_next_orphan :: nat
  hc_event_buffer :: string
  hc_active_command :: string
  hc_command_buffer :: string
  hc_complete :: "(string \<Rightarrow> bool) option"
  hc_delay :: int
  hc_reconnect :: bool
  hc_outcomes :: "connect_outcome list"

datatype client_output =
    ClConnectEvents string
  | ClConnectCommand string
  | ClWrite string
  | ClReconnectIn int
  | ClEventsConnected
  | ClEventsDisconnected
  | ClLine string
  | ClFinished string bool

definition client_init :: "string \<Rightarrow> string \<Rightarrow> hypr_client" where
  "client_init event_path command_path = \<lparr>hc_event_path = event_path, hc_command_path = command_path,
     hc_event = None, hc_connect_timer = False, hc_command = False, hc_timeout = NoTimer, hc_orphans = [],
     hc_next_orphan = 0, hc_event_buffer = '''', hc_active_command = '''', hc_command_buffer = '''',
     hc_complete = None, hc_delay = 1000, hc_reconnect = False, hc_outcomes = []\<rparr>"

section \<open>Paths\<close>

definition socket_base_path :: "'a qstring_ops_scheme \<Rightarrow> hypr_env \<Rightarrow> string" where
  "socket_base_path qs env =
     (if env_runtime_dir env \<noteq> '''' then qs_local qs (env_runtime_dir env) @ ''/hypr/'' else ''/tmp/hypr/'')"

definition env_event_path :: "'a qstring_ops_scheme \<Rightarrow> hypr_env \<Rightarrow> string" where
  "env_event_path qs env =
     (if env_signature env = '''' then ''''
      else socket_base_path qs env @ qs_local qs (env_signature env) @ ''/.socket2.sock'')"

definition env_command_path :: "'a qstring_ops_scheme \<Rightarrow> hypr_env \<Rightarrow> string" where
  "env_command_path qs env =
     (if env_signature env = '''' then ''''
      else socket_base_path qs env @ qs_local qs (env_signature env) @ ''/.socket.sock'')"

definition resolved_event_path :: "'a qstring_ops_scheme \<Rightarrow> hypr_env \<Rightarrow> hypr_client \<Rightarrow> string" where
  "resolved_event_path qs env c = (if hc_event_path c \<noteq> '''' then hc_event_path c else env_event_path qs env)"

definition resolved_command_path :: "'a qstring_ops_scheme \<Rightarrow> hypr_env \<Rightarrow> hypr_client \<Rightarrow> string" where
  "resolved_command_path qs env c =
     (if hc_command_path c \<noteq> '''' then hc_command_path c else env_command_path qs env)"

section \<open>Reconnecting\<close>

definition schedule_reconnect :: "hypr_client \<Rightarrow> hypr_client \<times> client_output list" where
  "schedule_reconnect c =
     (if hc_reconnect c then (c, [])
      else (c\<lparr>hc_reconnect := True, hc_delay := min (hc_delay c * 2) 30000\<rparr>, [ClReconnectIn (hc_delay c)]))"

definition reset_backoff :: "hypr_client \<Rightarrow> hypr_client" where
  "reset_backoff c = c\<lparr>hc_reconnect := False, hc_delay := 1000\<rparr>"

text \<open>The outcome of the next attempt to connect; an attempt nothing is said about stays pending.\<close>

definition next_outcome :: "hypr_client \<Rightarrow> connect_outcome \<times> hypr_client" where
  "next_outcome c =
     (case hc_outcomes c of [] \<Rightarrow> (ConnectPending, c) | out # outs \<Rightarrow> (out, c\<lparr>hc_outcomes := outs\<rparr>))"

section \<open>The event stream\<close>

definition event_connected :: "hypr_client \<Rightarrow> hypr_client \<times> client_output list" where
  "event_connected c = (reset_backoff (c\<lparr>hc_event := Some EventOpen, hc_connect_timer := False\<rparr>), [ClEventsConnected])"

definition event_error :: "event_socket \<Rightarrow> hypr_client \<Rightarrow> hypr_client \<times> client_output list" where
  "event_error socket c =
     (let c' = c\<lparr>hc_event := Some socket\<rparr> in if socket \<noteq> EventOpen then schedule_reconnect c' else (c', []))"

definition connect_events :: "'a qstring_ops_scheme \<Rightarrow> hypr_env \<Rightarrow> hypr_client \<Rightarrow> hypr_client \<times> client_output list" where
  "connect_events qs env c =
     (let c0 = c\<lparr>hc_event := None, hc_connect_timer := False\<rparr>; path = resolved_event_path qs env c0
      in if path = '''' then schedule_reconnect c0
         else
           let (outcome, c1) = next_outcome (c0\<lparr>hc_event := Some EventOpening\<rparr>);
               (c2, out) = (case outcome of
                   ConnectPending \<Rightarrow> (c1, [])
                 | ConnectDone \<Rightarrow> event_connected c1
                 | ConnectRefused \<Rightarrow> event_error EventClosed c1)
           in (c2\<lparr>hc_connect_timer := True\<rparr>, ClConnectEvents path # out))"

definition connect_timeout :: "hypr_client \<Rightarrow> hypr_client \<times> client_output list" where
  "connect_timeout c =
     (if \<not> hc_connect_timer c then (c, [])
      else
        let c' = c\<lparr>hc_connect_timer := False\<rparr>
        in if hc_event c' = None \<or> hc_event c' = Some EventOpen then (c', [])
           else schedule_reconnect (c'\<lparr>hc_event := Some EventClosed\<rparr>))"

definition event_disconnected :: "hypr_client \<Rightarrow> hypr_client \<times> client_output list" where
  "event_disconnected c =
     (let (c', out) = schedule_reconnect (c\<lparr>hc_event := Some EventClosed\<rparr>) in (c', ClEventsDisconnected # out))"

text \<open>The lines of the buffer and what is left of it.\<close>

fun take_lines :: "string \<Rightarrow> string \<Rightarrow> string list \<times> string" where
  "take_lines line [] = ([], line)"
| "take_lines line (x # xs) =
     (if x = CHR 0x0A then (let (ls, rest) = take_lines [] xs in (line # ls, rest))
      else take_lines (line @ [x]) xs)"

text \<open>The socket has \<open>bytes\<close>; one call reads at most 4096 of them.\<close>

definition event_readable :: "string \<Rightarrow> hypr_client \<Rightarrow> hypr_client \<times> client_output list" where
  "event_readable bytes c =
     (let chunk = take 4096 bytes in
      if chunk = '''' then (c, [])
      else
        let (ls, rest) = take_lines [] (hc_event_buffer c @ chunk)
        in (c\<lparr>hc_event_buffer := rest\<rparr>, map ClLine ls))"

definition reconnect_timeout :: "'a qstring_ops_scheme \<Rightarrow> hypr_env \<Rightarrow> hypr_client \<Rightarrow> hypr_client \<times> client_output list" where
  "reconnect_timeout qs env c =
     (if hc_reconnect c then connect_events qs env (c\<lparr>hc_reconnect := False\<rparr>) else (c, []))"

section \<open>Commands\<close>

definition stop_timeout :: "hypr_client \<Rightarrow> hypr_client" where
  "stop_timeout c =
     (case hc_timeout c of
        NoTimer \<Rightarrow> c
      | OwnTimer \<Rightarrow> c\<lparr>hc_timeout := NoTimer\<rparr>
      | OrphanTimer k \<Rightarrow> c\<lparr>hc_timeout := NoTimer, hc_orphans := removeAll k (hc_orphans c)\<rparr>)"

definition finish_command :: "bool \<Rightarrow> hypr_client \<Rightarrow> hypr_client \<times> client_output list" where
  "finish_command success c =
     ((stop_timeout c)\<lparr>hc_command := False, hc_active_command := '''', hc_command_buffer := '''',
        hc_complete := None\<rparr>,
      [ClFinished (hc_command_buffer c) success])"

datatype run_status = RunRejected | RunStarted | RunFailed

definition client_run ::
  "'a qstring_ops_scheme \<Rightarrow> hypr_env \<Rightarrow> string \<Rightarrow> (string \<Rightarrow> bool) option \<Rightarrow> hypr_client \<Rightarrow>
   run_status \<times> hypr_client \<times> client_output list" where
  "client_run qs env command finished_by c =
     (if hc_command c then (RunRejected, c, [])
      else
        let path = resolved_command_path qs env c in
        if path = '''' then (RunRejected, c, [])
        else
          let (outcome, c1) = next_outcome (c\<lparr>hc_active_command := command, hc_command_buffer := '''',
                hc_complete := finished_by, hc_command := True\<rparr>)
          in (case outcome of
                ConnectPending \<Rightarrow> (RunStarted, c1, [ClConnectCommand path])
              | ConnectDone \<Rightarrow> (RunStarted, c1, [ClConnectCommand path, ClWrite (hc_active_command c1)])
              | ConnectRefused \<Rightarrow>
                  let (c2, out) = finish_command False c1 in (RunFailed, c2, ClConnectCommand path # out)))"

text \<open>The timeout is created as a child of \<open>command_socket_\<close>, which is null by now when the connection
  failed and the listeners started no other command.\<close>

definition client_run_end :: "hypr_client \<Rightarrow> hypr_client" where
  "client_run_end c =
     (if hc_command c then c\<lparr>hc_timeout := OwnTimer\<rparr>
      else c\<lparr>hc_timeout := OrphanTimer (hc_next_orphan c), hc_orphans := hc_orphans c @ [hc_next_orphan c],
             hc_next_orphan := Suc (hc_next_orphan c)\<rparr>)"

definition command_connected :: "hypr_client \<Rightarrow> hypr_client \<times> client_output list" where
  "command_connected c = (c, [ClWrite (hc_active_command c)])"

definition command_readable :: "string \<Rightarrow> hypr_client \<Rightarrow> hypr_client \<times> client_output list" where
  "command_readable bytes c =
     (let c' = c\<lparr>hc_command_buffer := hc_command_buffer c @ bytes\<rparr> in
      case hc_complete c' of
        None \<Rightarrow> (c', [])
      | Some finished_by \<Rightarrow> if finished_by (hc_command_buffer c') then finish_command True c' else (c', []))"

definition command_disconnected :: "string \<Rightarrow> hypr_client \<Rightarrow> hypr_client \<times> client_output list" where
  "command_disconnected bytes c =
     finish_command True (c\<lparr>hc_command_buffer := hc_command_buffer c @ bytes\<rparr>)"

text \<open>An error of the command's socket: \<open>Some\<close> the bytes left when the peer closed it.\<close>

definition command_error :: "string option \<Rightarrow> hypr_client \<Rightarrow> hypr_client \<times> client_output list" where
  "command_error rest c =
     (case rest of Some bytes \<Rightarrow> command_disconnected bytes c | None \<Rightarrow> finish_command False c)"

section \<open>Events of the sockets and timers\<close>

datatype client_event =
    EvStreamConnected
  | EvStreamReadable string
  | EvStreamDisconnected
  | EvStreamError event_socket
  | EvConnectTimeout
  | EvReconnectTimeout
  | EvCommandConnected
  | EvCommandReadable string
  | EvCommandDisconnected string
  | EvCommandError "string option"
  | EvCommandTimeout
  | EvOrphanTimeout nat

text \<open>A socket signals only while it exists, and a timer only while it runs.\<close>

fun client_step :: "'a qstring_ops_scheme \<Rightarrow> hypr_env \<Rightarrow> client_event \<Rightarrow> hypr_client \<Rightarrow> hypr_client \<times> client_output list" where
  "client_step qs env EvStreamConnected c = (if hc_event c = Some EventOpening then event_connected c else (c, []))"
| "client_step qs env (EvStreamReadable bytes) c = (if hc_event c = Some EventOpen then event_readable bytes c else (c, []))"
| "client_step qs env EvStreamDisconnected c = (if hc_event c = Some EventOpen then event_disconnected c else (c, []))"
| "client_step qs env (EvStreamError socket) c =
     (if hc_event c = Some EventOpening \<and> socket = EventClosed \<or> hc_event c = Some EventOpen \<and> socket = EventOpen
      then event_error socket c else (c, []))"
| "client_step qs env EvConnectTimeout c = connect_timeout c"
| "client_step qs env EvReconnectTimeout c = reconnect_timeout qs env c"
| "client_step qs env EvCommandConnected c = (if hc_command c then command_connected c else (c, []))"
| "client_step qs env (EvCommandReadable bytes) c = (if hc_command c then command_readable bytes c else (c, []))"
| "client_step qs env (EvCommandDisconnected bytes) c = (if hc_command c then command_disconnected bytes c else (c, []))"
| "client_step qs env (EvCommandError rest) c = (if hc_command c then command_error rest c else (c, []))"
| "client_step qs env EvCommandTimeout c = (if hc_command c then finish_command False c else (c, []))"
| "client_step qs env (EvOrphanTimeout k) c =
     (if List.member (hc_orphans c) k
      then finish_command False (c\<lparr>hc_orphans := removeAll k (hc_orphans c)\<rparr>) else (c, []))"

end
