(* ===== verification/Hyprland_Snapshot.thy ===== *)
theory Hyprland_Snapshot
  imports Hyprland_Ipc
begin

text \<open>
  How \<open>HyprlandBackend\<close> makes a snapshot of the three replies of a refresh: \<open>collectMonitors\<close>,
  \<open>collectClients\<close> and \<open>appendWorkspaces\<close> of \<open>HyprlandBackend.cpp\<close>.
\<close>

definition hash_get :: "'b \<Rightarrow> ('a, 'b) qhash \<Rightarrow> 'a \<Rightarrow> 'b" where
  "hash_get d m k = (case hash_value m k of Some v \<Rightarrow> v | None \<Rightarrow> d)"

section \<open>Monitors\<close>

record hypr_monitors =
  hm_focused :: string
  hm_outputs :: "(int, string) qhash"
  hm_active :: "int list"

definition collect_active :: "string \<Rightarrow> json_object \<Rightarrow> hypr_monitors \<Rightarrow> hypr_monitors" where
  "collect_active output workspace m =
     (let ws = json_integer 32 0 (member workspace ''id'') in
      if output \<noteq> '''' \<and> ws \<noteq> 0
      then m\<lparr>hm_outputs := hash_insert ws output (hm_outputs m), hm_active := List.insert ws (hm_active m)\<rparr>
      else m)"

definition collect_monitor :: "json \<Rightarrow> hypr_monitors \<Rightarrow> hypr_monitors" where
  "collect_monitor v m =
     (let monitor = json_object v; output = json_text (member monitor ''name'');
          m1 = collect_active output (json_object (member monitor ''activeWorkspace'')) m;
          m2 = collect_active output (json_object (member monitor ''specialWorkspace'')) m1
      in if json_bool (member monitor ''focused'') then m2\<lparr>hm_focused := output\<rparr> else m2)"

definition collect_monitors :: "json list \<Rightarrow> hypr_monitors" where
  "collect_monitors vs = fold collect_monitor vs \<lparr>hm_focused = '''', hm_outputs = [], hm_active = []\<rparr>"

section \<open>Clients\<close>

type_synonym client_tables = "(int, int) qhash \<times> (int, hypr_client_info) qhash"

definition collect_client :: "hypr_client_info \<Rightarrow> client_tables \<Rightarrow> client_tables" where
  "collect_client c = (\<lambda>(counts, focused).
     if hci_class c = '''' \<or> hci_title c = '''' then (counts, focused)
     else
       (hash_insert (hci_workspace c) (hash_get 0 counts (hci_workspace c) + 1) counts,
        if (case hash_value focused (hci_workspace c) of
              None \<Rightarrow> True | Some best \<Rightarrow> hci_focus c < hci_focus best)
        then hash_insert (hci_workspace c) c focused else focused))"

definition collect_clients :: "hypr_client_info list \<Rightarrow> client_tables" where
  "collect_clients cs = fold collect_client cs ([], [])"

section \<open>Workspaces\<close>

record special_workspace =
  sp_id :: string
  sp_name :: string
  sp_active :: bool
  sp_urgent :: bool
  sp_occupied :: bool
  sp_monitors :: "string list"

text \<open>What the loop over the workspaces builds; \<open>hl_urgent\<close> is the backend's set of urgent addresses.\<close>

record hypr_listing =
  hl_order :: int
  hl_urgent :: "string list"
  hl_workspaces :: "comp_workspace list"
  hl_occupied_outputs :: "(string, bool) qhash"
  hl_active_windows :: "(string, comp_active_window) qhash"
  hl_assignments :: "(string, int) qhash"
  hl_specials :: "special_workspace list"

definition address_matches :: "'a qstring_ops_scheme \<Rightarrow> string list \<Rightarrow> string \<Rightarrow> bool" where
  "address_matches qs urgents address = list_ex (\<lambda>urgent. ends_with_folded qs address urgent) urgents"

definition urgent_workspace :: "'a qstring_ops_scheme \<Rightarrow> hypr_client_info list \<Rightarrow> string list \<Rightarrow> int \<Rightarrow> bool" where
  "urgent_workspace qs clients urgents ws =
     list_ex (\<lambda>c. hci_workspace c = ws \<and> address_matches qs urgents (hci_address c)) clients"

definition seen_urgents :: "'a qstring_ops_scheme \<Rightarrow> hypr_client_info list \<Rightarrow> int \<Rightarrow> string list \<Rightarrow> string list" where
  "seen_urgents qs clients ws urgents =
     filter (\<lambda>address. \<not> list_ex (\<lambda>c. hci_workspace c = ws \<and> ends_with_folded qs (hci_address c) address) clients)
       urgents"

definition workspace_special :: "int \<Rightarrow> string \<Rightarrow> bool" where
  "workspace_special ws name = (ws < 0 \<or> starts_with ''special:'' name)"

definition workspace_entry ::
  "'a qstring_ops_scheme \<Rightarrow> hypr_client_info list \<Rightarrow> hypr_monitors \<Rightarrow> (int, int) qhash \<Rightarrow> int \<Rightarrow> string \<Rightarrow>
   string list \<Rightarrow> int \<Rightarrow> comp_workspace" where
  "workspace_entry qs clients m counts ws name urgents order =
     (let special = workspace_special ws name; active = List.member (hm_active m) ws
      in default_workspace\<lparr>cw_id := (if special then name else integer_text ws), cw_display_name := name,
           cw_stable_order := order,
           cw_outputs := (case hash_value (hm_outputs m) ws of Some output \<Rightarrow> [output] | None \<Rightarrow> []),
           cw_active := active, cw_focused := (active \<and> hash_get '''' (hm_outputs m) ws = hm_focused m),
           cw_urgent := (\<not> special \<and> urgent_workspace qs clients urgents ws),
           cw_occupied := Some (hash_get 0 counts ws > 0)\<rparr>)"

definition special_entry :: "comp_workspace \<Rightarrow> special_workspace" where
  "special_entry entry = \<lparr>sp_id = cw_id entry, sp_name = cw_display_name entry, sp_active = cw_active entry,
     sp_urgent = cw_urgent entry, sp_occupied = (cw_occupied entry = Some True), sp_monitors = cw_outputs entry\<rparr>"

definition append_workspace ::
  "'a qstring_ops_scheme \<Rightarrow> hypr_client_info list \<Rightarrow> hypr_monitors \<Rightarrow> client_tables \<Rightarrow> json \<Rightarrow> hypr_listing \<Rightarrow>
   hypr_listing" where
  "append_workspace qs clients m tables v l =
     (let workspace = json_object v; ws = json_integer 32 0 (member workspace ''id'');
          name = json_text (member workspace ''name'')
      in if ws = 0 \<or> name = '''' then l
         else
           let special = workspace_special ws name; active = List.member (hm_active m) ws;
               entry = workspace_entry qs clients m (fst tables) ws name (hl_urgent l) (hl_order l);
               l1 = l\<lparr>hl_urgent := (if active then seen_urgents qs clients ws (hl_urgent l) else hl_urgent l),
                      hl_order := hl_order l + 1,
                      hl_occupied_outputs := (if active
                        then fold (\<lambda>output t. hash_insert output
                               (hash_get False t output \<or> cw_occupied entry = Some True) t)
                               (cw_outputs entry) (hl_occupied_outputs l)
                        else hl_occupied_outputs l)\<rparr>;
               l2 = (if special then l1\<lparr>hl_specials := hl_specials l1 @ [special_entry entry]\<rparr>
                     else l1\<lparr>hl_assignments := hash_insert (cw_id entry) ws (hl_assignments l1),
                             hl_workspaces := hl_workspaces l1 @ [entry]\<rparr>)
           in (case (active, hash_value (snd tables) ws) of
                 (True, Some c) \<Rightarrow>
                   l2\<lparr>hl_active_windows := hash_insert (hash_get '''' (hm_outputs m) ws)
                        \<lparr>aw_app_id = hci_class c, aw_title = hci_title c, aw_category = ''''\<rparr>
                        (hl_active_windows l2)\<rparr>
               | _ \<Rightarrow> l2))"

definition append_workspaces ::
  "'a qstring_ops_scheme \<Rightarrow> hypr_client_info list \<Rightarrow> hypr_monitors \<Rightarrow> string list \<Rightarrow> json list \<Rightarrow> hypr_listing" where
  "append_workspaces qs clients m urgents workspaces =
     fold (append_workspace qs clients m (collect_clients clients)) workspaces
       \<lparr>hl_order = 0, hl_urgent = urgents, hl_workspaces = [], hl_occupied_outputs = [],
        hl_active_windows = [], hl_assignments = [], hl_specials = []\<rparr>"

section \<open>The snapshot\<close>

definition hypr_capabilities :: comp_capabilities where
  "hypr_capabilities = no_capabilities\<lparr>cap_workspace_listing := True, cap_workspace_activation := True,
     cap_active_window := True, cap_focused_output := True, cap_urgency := True, cap_occupancy := True,
     cap_window_activation := True\<rparr>"

definition known_client :: "hypr_client_info \<Rightarrow> bool" where
  "known_client c \<longleftrightarrow> \<not> (hci_pid c = 0 \<or> hci_address c = '''')"

definition client_window :: "hypr_client_info \<Rightarrow> comp_window" where
  "client_window c = default_window\<lparr>win_id := hci_address c, win_title := hci_title c, win_app_id := hci_class c,
     win_pid := hci_pid c\<rparr>"

definition hypr_snapshot :: "hypr_monitors \<Rightarrow> hypr_client_info list \<Rightarrow> hypr_listing \<Rightarrow> comp_snapshot" where
  "hypr_snapshot m clients l = no_snapshot\<lparr>cs_connected := True, cs_capabilities := hypr_capabilities,
     cs_focused_output := hm_focused m, cs_workspaces := hl_workspaces l,
     cs_windows := map client_window (filter known_client clients),
     cs_active_windows := hl_active_windows l, cs_occupied_outputs := hl_occupied_outputs l\<rparr>"

end
