(* ===== verification/Hyprland_Backend.thy ===== *)
theory Hyprland_Backend
  imports Hyprland_Client Hyprland_Snapshot
begin

text \<open>
  \<open>HyprlandBackend\<close> on top of \<open>HyprlandIpcClient\<close>. It asks for the monitors, workspaces and clients one
  after the other, and sends activations in between. A command whose connection fails at once calls
  back into the backend before \<open>runCommand\<close> returns: \<open>hypr_run\<close>, \<open>hypr_drain\<close> and \<open>hypr_dispatch\<close> are
  mutually recursive, and end because every nested drain takes one of the two pending activations.
\<close>

section \<open>State\<close>

datatype hypr_phase =
    HyIdle | HyMonitors | HyWorkspaces | HyClients | HyWorkspaceActivation | HyLuaActivation
  | HyWindowActivation | HyLuaWindowActivation

record hypr_state =
  hy_client :: hypr_client
  hy_numbered :: numbered_state
  hy_specials :: "special_workspace list"
  hy_phase :: hypr_phase
  hy_monitors :: string
  hy_workspaces :: string
  hy_activation :: string
  hy_window_address :: string
  hy_special :: bool
  hy_pending_activation :: string
  hy_candidates :: "activation_candidate list"
  hy_addresses :: "string list"
  hy_pending_window :: "string option"
  hy_urgent :: "string list"
  hy_dirty :: bool
  hy_scheduled :: bool

datatype hypr_output =
    HyTransport client_output
  | HySpecialsChanged
  | HySnapshot comp_snapshot
  | HyResult activation_result

definition hypr_init :: "string \<Rightarrow> string \<Rightarrow> hypr_state" where
  "hypr_init event_path command_path = \<lparr>hy_client = client_init event_path command_path,
     hy_numbered = no_numbers, hy_specials = [], hy_phase = HyIdle, hy_monitors = '''', hy_workspaces = '''',
     hy_activation = '''', hy_window_address = '''', hy_special = False, hy_pending_activation = '''',
     hy_candidates = [], hy_addresses = [], hy_pending_window = None, hy_urgent = [], hy_dirty = False,
     hy_scheduled = False\<rparr>"

abbreviation hypr_running :: "hypr_state \<Rightarrow> bool" where
  "hypr_running st \<equiv> hc_command (hy_client st)"

section \<open>Reports and refreshes\<close>

text \<open>A snapshot that is only a diagnostic is not connected, so the backend's own listener clears the
  workspaces before others see it.\<close>

definition hypr_report :: "string \<Rightarrow> hypr_state \<Rightarrow> hypr_state \<times> hypr_output list" where
  "hypr_report diagnostic st = (st\<lparr>hy_numbered := no_numbers, hy_specials := []\<rparr>,
     [HySpecialsChanged, HySnapshot (no_snapshot\<lparr>cs_diagnostic := diagnostic\<rparr>)])"

definition hypr_fail :: "string \<Rightarrow> hypr_state \<Rightarrow> hypr_state \<times> hypr_output list" where
  "hypr_fail diagnostic st = hypr_report diagnostic (st\<lparr>hy_phase := HyIdle\<rparr>)"

definition hypr_schedule_refresh :: "hypr_state \<Rightarrow> hypr_state" where
  "hypr_schedule_refresh st =
     (if hy_phase st \<noteq> HyIdle \<or> hypr_running st then st\<lparr>hy_dirty := True\<rparr> else st\<lparr>hy_scheduled := True\<rparr>)"

section \<open>Commands\<close>

definition ascii_lower :: "char \<Rightarrow> char" where
  "ascii_lower c = (if 65 \<le> (of_char c :: nat) \<and> (of_char c :: nat) \<le> 90 then char_of (of_char c + (32::nat)) else c)"

definition response_is_error :: "string \<Rightarrow> bool" where
  "response_is_error response = starts_with ''error:'' (map ascii_lower (trim_with ascii_space response))"

definition escape_lua :: "'a json_ops_scheme \<Rightarrow> string \<Rightarrow> string" where
  "escape_lua js value = js_utf8 js
     (replace_char (CHR 0x22) [CHR 0x5C, CHR 0x22] (replace_char (CHR 0x5C) [CHR 0x5C, CHR 0x5C] value))"

definition hypr_workspace_command :: "'a json_ops_scheme \<Rightarrow> bool \<Rightarrow> string \<Rightarrow> string" where
  "hypr_workspace_command js special ws =
     (if special then ''dispatch togglespecialworkspace '' @ js_utf8 js (drop (length ''special:'') ws)
      else ''dispatch workspace '' @ js_utf8 js ws)"

definition hypr_window_command :: "'a json_ops_scheme \<Rightarrow> string \<Rightarrow> string" where
  "hypr_window_command js address = ''dispatch focuswindow address:'' @ js_utf8 js address"

definition failure_report :: "hypr_phase \<Rightarrow> string" where
  "failure_report phase =
     (if phase = HyWindowActivation \<or> phase = HyLuaWindowActivation then ''Hyprland window activation transport failed''
      else if phase = HyWorkspaceActivation \<or> phase = HyLuaActivation then ''Hyprland workspace activation failed''
      else ''Hyprland snapshot refresh failed'')"

text \<open>The first part of \<open>handleCommand\<close> for a failed command and of \<open>handleCommandFailure\<close>, up to the
  call of \<open>drainWork\<close>.\<close>

definition hypr_command_failed :: "hypr_state \<Rightarrow> hypr_state \<times> hypr_output list" where
  "hypr_command_failed st =
     (let phase = hy_phase st; (st1, out) = hypr_report (failure_report phase) (st\<lparr>hy_phase := HyIdle\<rparr>)
      in (if phase = HyWindowActivation \<or> phase = HyLuaWindowActivation \<or>
             phase = HyWorkspaceActivation \<or> phase = HyLuaActivation
          then st1\<lparr>hy_dirty := True\<rparr> else st1, out))"

text \<open>The activations that wait for the command in flight.\<close>

definition hypr_waiting :: "hypr_state \<Rightarrow> nat" where
  "hypr_waiting st = (if hy_pending_window st = None then 0 else 1) + (if hy_pending_activation st = '''' then 0 else 1)"

lemma hypr_report_waiting [simp]: "hypr_waiting (fst (hypr_report diagnostic st)) = hypr_waiting st"
  by (simp add: hypr_report_def hypr_waiting_def)

lemma hypr_command_failed_waiting: "hypr_waiting (fst (hypr_command_failed st)) = hypr_waiting st"
  by (simp add: hypr_command_failed_def hypr_report_def hypr_waiting_def Let_def)

function hypr_run ::
    "'a qstring_ops_scheme \<Rightarrow> hypr_env \<Rightarrow> string \<Rightarrow> hypr_state \<Rightarrow> bool \<times> hypr_state \<times> hypr_output list"
  and hypr_drain :: "'a qstring_ops_scheme \<Rightarrow> hypr_env \<Rightarrow> hypr_state \<Rightarrow> hypr_state \<times> hypr_output list"
  and hypr_dispatch :: "'a qstring_ops_scheme \<Rightarrow> hypr_env \<Rightarrow> string \<Rightarrow> hypr_state \<Rightarrow> hypr_state \<times> hypr_output list"
  where
  "hypr_run qs env command st =
     (case client_run qs env command None (hy_client st) of
        (RunRejected, c, sent) \<Rightarrow> (False, st\<lparr>hy_client := c\<rparr>, map HyTransport sent)
      | (RunStarted, c, sent) \<Rightarrow> (True, st\<lparr>hy_client := client_run_end c\<rparr>, map HyTransport sent)
      | (RunFailed, c, sent) \<Rightarrow>
          (let (st1, out1) = hypr_command_failed (st\<lparr>hy_client := c\<rparr>); (st2, out2) = hypr_drain qs env st1
           in (True, st2\<lparr>hy_client := client_run_end (hy_client st2)\<rparr>, map HyTransport sent @ out1 @ out2)))"
| "hypr_drain qs env st =
     (if hy_phase st \<noteq> HyIdle \<or> hypr_running st then (st, [])
      else
        (case hy_pending_window st of
           Some address \<Rightarrow>
             (let (ok, st1, out1) = hypr_run qs env (hypr_window_command qs address)
                    (st\<lparr>hy_pending_window := None, hy_window_address := address, hy_phase := HyWindowActivation\<rparr>)
              in if ok then (st1, out1)
                 else
                   let (st2, out2) = hypr_report ''Hyprland window activation transport failed'' (st1\<lparr>hy_phase := HyIdle\<rparr>)
                   in (hypr_schedule_refresh (st2\<lparr>hy_dirty := True\<rparr>), out1 @ out2))
         | None \<Rightarrow>
             if hy_pending_activation st \<noteq> '''' then
               hypr_dispatch qs env (hy_pending_activation st) (st\<lparr>hy_pending_activation := ''''\<rparr>)
             else if hy_dirty st then (hypr_schedule_refresh st, []) else (st, [])))"
| "hypr_dispatch qs env ws st =
     (let special = starts_with ''special:'' ws in
      if text_int ws = None \<and> \<not> special then (st, [])
      else if hy_phase st \<noteq> HyIdle \<or> hypr_running st then (st\<lparr>hy_pending_activation := ws\<rparr>, [])
      else
        let (ok, st1, out1) = hypr_run qs env (hypr_workspace_command qs special ws)
              (st\<lparr>hy_activation := ws, hy_special := special, hy_phase := HyWorkspaceActivation\<rparr>)
        in if ok then (st1, out1)
           else
             let (st2, out2) = hypr_fail ''Hyprland workspace activation failed'' st1
             in (st2, out1 @ out2))"
  by pat_completeness auto
termination
  by (relation "measure (\<lambda>a. case a of Inl (qs, env, command, st) \<Rightarrow> 3 * hypr_waiting st + 1
    | Inr (Inl (qs, env, st)) \<Rightarrow> 3 * hypr_waiting st
    | Inr (Inr (qs, env, ws, st)) \<Rightarrow> 3 * hypr_waiting st + 2)")
    (auto simp: hypr_waiting_def hypr_command_failed_def hypr_report_def Let_def split: if_splits)

declare hypr_run.simps [simp del] hypr_drain.simps [simp del] hypr_dispatch.simps [simp del]


definition hypr_run_or_fail ::
  "'a qstring_ops_scheme \<Rightarrow> hypr_env \<Rightarrow> string \<Rightarrow> string \<Rightarrow> hypr_state \<Rightarrow> hypr_state \<times> hypr_output list" where
  "hypr_run_or_fail qs env command diagnostic st =
     (let (ok, st1, out1) = hypr_run qs env command st
      in if ok then (st1, out1) else let (st2, out2) = hypr_fail diagnostic st1 in (st2, out1 @ out2))"

definition hypr_begin_refresh :: "'a qstring_ops_scheme \<Rightarrow> hypr_env \<Rightarrow> hypr_state \<Rightarrow> hypr_state \<times> hypr_output list" where
  "hypr_begin_refresh qs env st =
     (if hy_phase st \<noteq> HyIdle \<or> hypr_running st then (st\<lparr>hy_dirty := True\<rparr>, [])
      else hypr_run_or_fail qs env ''j/monitors'' ''Hyprland monitor query failed''
             (st\<lparr>hy_dirty := False, hy_phase := HyMonitors\<rparr>))"

definition hypr_refresh_timer :: "'a qstring_ops_scheme \<Rightarrow> hypr_env \<Rightarrow> hypr_state \<Rightarrow> hypr_state \<times> hypr_output list" where
  "hypr_refresh_timer qs env st =
     (if hy_scheduled st then hypr_begin_refresh qs env (st\<lparr>hy_scheduled := False\<rparr>) else (st, []))"

definition hypr_handle_event :: "'a qstring_ops_scheme \<Rightarrow> string \<Rightarrow> hypr_state \<Rightarrow> hypr_state" where
  "hypr_handle_event qs line st =
     hypr_schedule_refresh (case parse_urgent_event qs line of
        Some address \<Rightarrow> st\<lparr>hy_urgent := List.insert address (hy_urgent st)\<rparr> | None \<Rightarrow> st)"

section \<open>Activations\<close>

definition hypr_lua_window :: "'a qstring_ops_scheme \<Rightarrow> hypr_env \<Rightarrow> hypr_state \<Rightarrow> hypr_state \<times> hypr_output list" where
  "hypr_lua_window qs env st =
     (let selector = ''address:'' @ escape_lua qs (hy_window_address st)
      in hypr_run_or_fail qs env (''dispatch hl.dsp.focus({ window = '' @ CHR 0x22 # selector @ CHR 0x22 # '' })'')
           ''Hyprland Lua window activation failed'' (st\<lparr>hy_phase := HyLuaWindowActivation\<rparr>))"

definition hypr_lua_workspace :: "'a qstring_ops_scheme \<Rightarrow> hypr_env \<Rightarrow> hypr_state \<Rightarrow> hypr_state \<times> hypr_output list" where
  "hypr_lua_workspace qs env st =
     (let st1 = st\<lparr>hy_phase := HyLuaActivation\<rparr> in
      if hy_special st1 then
        hypr_run_or_fail qs env (''dispatch hl.dsp.workspace.toggle_special('' @ CHR 0x22 #
             escape_lua qs (drop (length ''special:'') (hy_activation st1)) @ CHR 0x22 # '')'')
          ''Hyprland Lua special workspace activation failed'' st1
      else
        hypr_run_or_fail qs env (''dispatch hl.dsp.focus({ workspace = '' @ js_utf8 qs (hy_activation st1) @ '' })'')
          ''Hyprland Lua workspace activation failed'' st1)"

definition hypr_request_window ::
  "'a qstring_ops_scheme \<Rightarrow> hypr_env \<Rightarrow> activation_request \<Rightarrow> hypr_state \<Rightarrow> hypr_state \<times> hypr_output list" where
  "hypr_request_window qs env request st =
     (let resolution = resolve_activation (js_utf8 qs) request (hy_candidates st) in
      if resolved_result resolution \<noteq> Accepted then (st, [HyResult (resolved_result resolution)])
      else
        let address = hy_addresses st ! the (resolved_index resolution) in
        if hy_phase st \<noteq> HyIdle \<or> hypr_running st then
          (if hy_pending_window st \<noteq> None then (st, [HyResult Busy])
           else (st\<lparr>hy_pending_window := Some address\<rparr>, [HyResult Accepted]))
        else
          let (ok, st1, out1) = hypr_run qs env (hypr_window_command qs address)
                (st\<lparr>hy_window_address := address, hy_phase := HyWindowActivation\<rparr>)
          in if ok then (st1, out1 @ [HyResult Accepted])
             else
               let (st2, out2) = hypr_report ''Hyprland window activation transport failed'' (st1\<lparr>hy_phase := HyIdle\<rparr>)
               in (hypr_schedule_refresh st2, out1 @ out2 @ [HyResult Failed]))"

definition hypr_activate_workspace ::
  "'a qstring_ops_scheme \<Rightarrow> hypr_env \<Rightarrow> string \<Rightarrow> hypr_state \<Rightarrow> hypr_state \<times> hypr_output list" where
  "hypr_activate_workspace qs env ws st =
     (if hash_contains (nw_assignments (hy_numbered st)) ws then hypr_dispatch qs env ws st else (st, []))"

definition hypr_activate_slot ::
  "'a qstring_ops_scheme \<Rightarrow> hypr_env \<Rightarrow> int \<Rightarrow> hypr_state \<Rightarrow> hypr_state \<times> hypr_output list" where
  "hypr_activate_slot qs env slot st =
     (if slot > 0 then hypr_dispatch qs env (integer_text slot) st else (st, []))"

definition hypr_activate_special ::
  "'a qstring_ops_scheme \<Rightarrow> hypr_env \<Rightarrow> string \<Rightarrow> hypr_state \<Rightarrow> hypr_state \<times> hypr_output list" where
  "hypr_activate_special qs env ws st =
     (if list_ex (\<lambda>s. sp_id s = ws) (hy_specials st) then hypr_dispatch qs env ws st else (st, []))"

section \<open>Replies\<close>

definition hypr_publish :: "'a qstring_ops_scheme \<Rightarrow> string \<Rightarrow> hypr_state \<Rightarrow> hypr_state \<times> hypr_output list" where
  "hypr_publish qs clients_json st =
     (case (js_parse qs (hy_monitors st), js_parse qs (hy_workspaces st), parse_clients qs clients_json) of
        (Some (JArray monitors), Some (JArray workspaces), Some clients) \<Rightarrow>
          (let m = collect_monitors monitors; l = append_workspaces qs clients m (hy_urgent st) workspaces;
               known = filter known_client clients
           in (st\<lparr>hy_numbered := \<lparr>nw_eligible = True, nw_assignments = hl_assignments l\<rparr>,
                  hy_specials := hl_specials l, hy_urgent := hl_urgent l,
                  hy_candidates := map (\<lambda>c. \<lparr>cand_pid = hci_pid c, cand_title = hci_title c\<rparr>) known,
                  hy_addresses := map hci_address known\<rparr>,
               [HySpecialsChanged, HySnapshot (hypr_snapshot m clients l)]))
      | _ \<Rightarrow> hypr_fail ''invalid Hyprland snapshot response'' st)"

definition hypr_drain_after ::
  "'a qstring_ops_scheme \<Rightarrow> hypr_env \<Rightarrow> hypr_state \<times> hypr_output list \<Rightarrow> hypr_state \<times> hypr_output list" where
  "hypr_drain_after qs env r = (let (st2, out2) = hypr_drain qs env (fst r) in (st2, snd r @ out2))"

text \<open>The end of an activation, and of its second attempt in Lua, which reports a rejection.\<close>

definition hypr_activation_done ::
  "'a qstring_ops_scheme \<Rightarrow> hypr_env \<Rightarrow> string option \<Rightarrow> hypr_state \<Rightarrow> hypr_state \<times> hypr_output list" where
  "hypr_activation_done qs env rejected st =
     (let st1 = st\<lparr>hy_phase := HyIdle\<rparr>;
          (st2, out) = (case rejected of Some diagnostic \<Rightarrow> hypr_report diagnostic st1 | None \<Rightarrow> (st1, []))
      in hypr_drain_after qs env (st2\<lparr>hy_dirty := True\<rparr>, out))"

definition hypr_handle_command ::
  "'a qstring_ops_scheme \<Rightarrow> hypr_env \<Rightarrow> string \<Rightarrow> bool \<Rightarrow> hypr_state \<Rightarrow> hypr_state \<times> hypr_output list" where
  "hypr_handle_command qs env response success st =
     (if \<not> success then hypr_drain_after qs env (hypr_command_failed st)
      else (case hy_phase st of
         HyMonitors \<Rightarrow> hypr_run_or_fail qs env ''j/workspaces'' ''Hyprland workspace query failed''
           (st\<lparr>hy_monitors := response, hy_phase := HyWorkspaces\<rparr>)
       | HyWorkspaces \<Rightarrow> hypr_run_or_fail qs env ''j/clients'' ''Hyprland client query failed''
           (st\<lparr>hy_workspaces := response, hy_phase := HyClients\<rparr>)
       | HyClients \<Rightarrow> hypr_drain_after qs env (hypr_publish qs response (st\<lparr>hy_phase := HyIdle\<rparr>))
       | HyWorkspaceActivation \<Rightarrow>
           if response_is_error response then hypr_lua_workspace qs env st else hypr_activation_done qs env None st
       | HyLuaActivation \<Rightarrow> hypr_activation_done qs env (if response_is_error response
           then Some ''Hyprland workspace activation failed'' else None) st
       | HyWindowActivation \<Rightarrow>
           if response_is_error response then hypr_lua_window qs env st else hypr_activation_done qs env None st
       | HyLuaWindowActivation \<Rightarrow> hypr_activation_done qs env (if response_is_error response
           then Some ''Hyprland window activation rejected'' else None) st
       | HyIdle \<Rightarrow> (st, [])))"

section \<open>Signals of the transport\<close>

definition hypr_stream_lost :: "hypr_state \<Rightarrow> hypr_state \<times> hypr_output list" where
  "hypr_stream_lost st = hypr_fail ''Hyprland IPC disconnected'' (st\<lparr>hy_pending_activation := '''',
     hy_pending_window := None, hy_candidates := [], hy_addresses := [], hy_urgent := []\<rparr>)"

fun hypr_signal ::
  "'a qstring_ops_scheme \<Rightarrow> hypr_env \<Rightarrow> client_output \<Rightarrow> hypr_state \<Rightarrow> hypr_state \<times> hypr_output list" where
  "hypr_signal qs env ClEventsConnected st = (hypr_schedule_refresh st, [])"
| "hypr_signal qs env ClEventsDisconnected st = hypr_stream_lost st"
| "hypr_signal qs env (ClLine line) st = (hypr_handle_event qs line st, [])"
| "hypr_signal qs env (ClFinished response success) st = hypr_handle_command qs env response success st"
| "hypr_signal qs env _ st = (st, [])"

fun hypr_signals ::
  "'a qstring_ops_scheme \<Rightarrow> hypr_env \<Rightarrow> client_output list \<Rightarrow> hypr_state \<Rightarrow> hypr_state \<times> hypr_output list" where
  "hypr_signals qs env [] st = (st, [])"
| "hypr_signals qs env (sig # sigs) st =
     (let (st1, out1) = hypr_signal qs env sig st; (st2, out2) = hypr_signals qs env sigs st1
      in (st2, HyTransport sig # out1 @ out2))"

definition hypr_client_event ::
  "'a qstring_ops_scheme \<Rightarrow> hypr_env \<Rightarrow> client_event \<Rightarrow> hypr_state \<Rightarrow> hypr_state \<times> hypr_output list" where
  "hypr_client_event qs env ev st =
     (let (c, sigs) = client_step qs env ev (hy_client st) in hypr_signals qs env sigs (st\<lparr>hy_client := c\<rparr>))"

definition hypr_start :: "'a qstring_ops_scheme \<Rightarrow> hypr_env \<Rightarrow> hypr_state \<Rightarrow> hypr_state \<times> hypr_output list" where
  "hypr_start qs env st =
     (let (c, sigs) = connect_events qs env (hy_client st) in hypr_signals qs env sigs (st\<lparr>hy_client := c\<rparr>))"

section \<open>Events\<close>

datatype hypr_event =
    HyStart
  | HyClient client_event
  | HyRefreshTimer
  | HyActivateWorkspace string
  | HyActivateSlot int
  | HyActivateSpecial string
  | HyRequestWindow activation_request

fun hypr_handle :: "'a qstring_ops_scheme \<Rightarrow> hypr_env \<Rightarrow> hypr_event \<Rightarrow> hypr_state \<Rightarrow> hypr_state \<times> hypr_output list" where
  "hypr_handle qs env HyStart st = hypr_start qs env st"
| "hypr_handle qs env (HyClient ev) st = hypr_client_event qs env ev st"
| "hypr_handle qs env HyRefreshTimer st = hypr_refresh_timer qs env st"
| "hypr_handle qs env (HyActivateWorkspace ws) st = hypr_activate_workspace qs env ws st"
| "hypr_handle qs env (HyActivateSlot slot) st = hypr_activate_slot qs env slot st"
| "hypr_handle qs env (HyActivateSpecial ws) st = hypr_activate_special qs env ws st"
| "hypr_handle qs env (HyRequestWindow request) st = hypr_request_window qs env request st"

text \<open>A step is an event together with what happens to the connections it attempts.\<close>

definition hypr_step ::
  "'a qstring_ops_scheme \<Rightarrow> hypr_env \<Rightarrow> hypr_event \<times> connect_outcome list \<Rightarrow> hypr_state \<Rightarrow>
   hypr_state \<times> hypr_output list" where
  "hypr_step qs env = (\<lambda>(ev, outcomes) st.
     hypr_handle qs env ev (st\<lparr>hy_client := (hy_client st)\<lparr>hc_outcomes := outcomes\<rparr>\<rparr>))"

definition hypr_steps ::
  "'a qstring_ops_scheme \<Rightarrow> hypr_env \<Rightarrow> (hypr_event \<times> connect_outcome list) list \<Rightarrow> hypr_state \<Rightarrow> hypr_state" where
  "hypr_steps qs env evs st = fold (\<lambda>ev st. fst (hypr_step qs env ev st)) evs st"

end
