(* ===== verification/Hyprland_Runs.thy ===== *)
theory Hyprland_Runs
  imports Hyprland_Backend
begin

text \<open>
  Properties of the runs of \<open>HyprlandBackend\<close> with its client: the nested commands of one event are
  bounded, no refresh or activation that waits is forgotten, and the event stream is always retried.
\<close>

section \<open>The client\<close>

lemma next_outcome_keeps [simp]:
  "hc_command (snd (next_outcome c)) = hc_command c" "hc_command_path (snd (next_outcome c)) = hc_command_path c"
  "hc_event (snd (next_outcome c)) = hc_event c" "hc_reconnect (snd (next_outcome c)) = hc_reconnect c"
  "hc_connect_timer (snd (next_outcome c)) = hc_connect_timer c" "hc_delay (snd (next_outcome c)) = hc_delay c"
  by (simp_all add: next_outcome_def split: list.split)

lemma stop_timeout_keeps [simp]:
  "hc_command_path (stop_timeout c) = hc_command_path c" "hc_event (stop_timeout c) = hc_event c"
  "hc_reconnect (stop_timeout c) = hc_reconnect c" "hc_connect_timer (stop_timeout c) = hc_connect_timer c"
  "hc_delay (stop_timeout c) = hc_delay c"
  by (simp_all add: stop_timeout_def split: timer_pointer.split)

lemma finish_command_keeps [simp]:
  "hc_command (fst (finish_command success c)) = False"
  "hc_command_path (fst (finish_command success c)) = hc_command_path c"
  "hc_event (fst (finish_command success c)) = hc_event c"
  "hc_reconnect (fst (finish_command success c)) = hc_reconnect c"
  "hc_connect_timer (fst (finish_command success c)) = hc_connect_timer c"
  "hc_delay (fst (finish_command success c)) = hc_delay c"
  by (simp_all add: finish_command_def)

lemma client_run_end_keeps [simp]:
  "hc_command (client_run_end c) = hc_command c" "hc_command_path (client_run_end c) = hc_command_path c"
  "hc_event (client_run_end c) = hc_event c" "hc_reconnect (client_run_end c) = hc_reconnect c"
  "hc_connect_timer (client_run_end c) = hc_connect_timer c" "hc_delay (client_run_end c) = hc_delay c"
  by (simp_all add: client_run_end_def)

text \<open>The part of the client that the event stream uses, which commands never touch.\<close>

definition stream_part :: "hypr_client \<Rightarrow> event_socket option \<times> bool \<times> bool \<times> int" where
  "stream_part c = (hc_event c, hc_connect_timer c, hc_reconnect c, hc_delay c)"

lemma client_run_cases:
  assumes "client_run qs env command finished_by c = (status, c', sent)"
  obtains (rejected) "status = RunRejected" "c' = c" "sent = []"
      "hc_command c \<or> resolved_command_path qs env c = ''''"
  | (started) "status = RunStarted" "hc_command c'" "\<not> hc_command c"
      "hc_command_path c' = hc_command_path c" "stream_part c' = stream_part c"
      "\<exists>path out. sent = ClConnectCommand path # out \<and> (out = [] \<or> (\<exists>bytes. out = [ClWrite bytes]))"
  | (failed) "status = RunFailed" "\<not> hc_command c'" "\<not> hc_command c"
      "hc_command_path c' = hc_command_path c" "stream_part c' = stream_part c"
      "\<exists>path response. sent = [ClConnectCommand path, ClFinished response False]"
proof -
  let ?c = "c\<lparr>hc_active_command := command, hc_command_buffer := '''', hc_complete := finished_by, hc_command := True\<rparr>"
  let ?outcome = "fst (next_outcome ?c)" and ?c1 = "snd (next_outcome ?c)"
  have path: "hc_command_path ?c1 = hc_command_path c" "hc_command ?c1"
    and part: "stream_part ?c1 = stream_part c" by (simp_all add: stream_part_def)
  consider (no) "hc_command c \<or> resolved_command_path qs env c = ''''"
    | (yes) "\<not> hc_command c" "resolved_command_path qs env c \<noteq> ''''" by blast
  then show thesis
  proof cases
    case no
    then show thesis using assms rejected by (auto simp: client_run_def Let_def split: if_splits)
  next
    case yes
    show thesis
    proof (cases ?outcome)
      case ConnectPending
      with assms yes have "status = RunStarted" "c' = ?c1" "sent = [ClConnectCommand (resolved_command_path qs env c)]"
        by (simp_all add: client_run_def split_beta Let_def)
      then show thesis using started yes(1) path part by simp
    next
      case ConnectDone
      with assms yes have "status = RunStarted" "c' = ?c1"
        "sent = [ClConnectCommand (resolved_command_path qs env c), ClWrite (hc_active_command ?c1)]"
        by (auto simp: client_run_def split_beta Let_def)
      then show thesis using started yes(1) path part by simp
    next
      case ConnectRefused
      with assms yes have "status = RunFailed" "c' = fst (finish_command False ?c1)"
        "sent = ClConnectCommand (resolved_command_path qs env c) # snd (finish_command False ?c1)"
        by (simp_all add: client_run_def split_beta Let_def)
      moreover have "snd (finish_command False ?c1) = [ClFinished (hc_command_buffer ?c1) False]"
        by (simp add: finish_command_def)
      moreover have "stream_part (fst (finish_command False ?c1)) = stream_part c"
        using part by (simp add: stream_part_def)
      ultimately show thesis using failed yes(1) path(1) by simp
    qed
  qed
qed

section \<open>Nested commands\<close>

definition attempts :: "hypr_output list \<Rightarrow> nat" where
  "attempts out = length (filter (\<lambda>x. case x of HyTransport (ClConnectCommand _) \<Rightarrow> True | _ \<Rightarrow> False) out)"

lemma attempts_simps [simp]:
  "attempts [] = 0" "attempts (out1 @ out2) = attempts out1 + attempts out2"
  "attempts (HyTransport s # out) = (case s of ClConnectCommand _ \<Rightarrow> Suc (attempts out) | _ \<Rightarrow> attempts out)"
  "attempts (HySpecialsChanged # out) = attempts out" "attempts (HySnapshot snap # out) = attempts out"
  "attempts (HyResult r # out) = attempts out"
  by (simp_all add: attempts_def split: client_output.split)

lemma attempts_report [simp]: "attempts (snd (hypr_report diagnostic st)) = 0"
  "attempts (snd (hypr_fail diagnostic st)) = 0" "attempts (snd (hypr_command_failed st)) = 0"
  by (simp_all add: hypr_report_def hypr_fail_def hypr_command_failed_def Let_def split_beta)

text \<open>The equations of the nested operations by case, and their induction rule without tuples.\<close>

lemma hypr_run_eqs:
  "client_run qs env command None (hy_client st) = (RunRejected, c, sent) \<Longrightarrow>
   hypr_run qs env command st = (False, st\<lparr>hy_client := c\<rparr>, map HyTransport sent)"
  "client_run qs env command None (hy_client st) = (RunStarted, c, sent) \<Longrightarrow>
   hypr_run qs env command st = (True, st\<lparr>hy_client := client_run_end c\<rparr>, map HyTransport sent)"
  "client_run qs env command None (hy_client st) = (RunFailed, c, sent) \<Longrightarrow>
   hypr_run qs env command st =
     (True, (fst (hypr_drain qs env (fst (hypr_command_failed (st\<lparr>hy_client := c\<rparr>)))))\<lparr>hy_client :=
        client_run_end (hy_client (fst (hypr_drain qs env (fst (hypr_command_failed (st\<lparr>hy_client := c\<rparr>))))))\<rparr>,
      map HyTransport sent @ snd (hypr_command_failed (st\<lparr>hy_client := c\<rparr>)) @
        snd (hypr_drain qs env (fst (hypr_command_failed (st\<lparr>hy_client := c\<rparr>)))))"
  by (simp_all add: hypr_run.simps split_beta Let_def)

lemma hypr_drain_eqs:
  "hy_phase st \<noteq> HyIdle \<or> hypr_running st \<Longrightarrow> hypr_drain qs env st = (st, [])"
  "hy_phase st = HyIdle \<Longrightarrow> \<not> hypr_running st \<Longrightarrow> hy_pending_window st = None \<Longrightarrow>
     hy_pending_activation st = '''' \<Longrightarrow>
   hypr_drain qs env st = (if hy_dirty st then hypr_schedule_refresh st else st, [])"
  "hy_phase st = HyIdle \<Longrightarrow> \<not> hypr_running st \<Longrightarrow> hy_pending_window st = None \<Longrightarrow>
     hy_pending_activation st \<noteq> '''' \<Longrightarrow>
   hypr_drain qs env st = hypr_dispatch qs env (hy_pending_activation st) (st\<lparr>hy_pending_activation := ''''\<rparr>)"
  by (simp_all add: hypr_drain.simps)

abbreviation window_started :: "string \<Rightarrow> hypr_state \<Rightarrow> hypr_state" where
  "window_started address st \<equiv>
     st\<lparr>hy_pending_window := None, hy_window_address := address, hy_phase := HyWindowActivation\<rparr>"

abbreviation workspace_started :: "string \<Rightarrow> hypr_state \<Rightarrow> hypr_state" where
  "workspace_started ws st \<equiv> st\<lparr>hy_activation := ws, hy_special := starts_with ''special:'' ws,
     hy_phase := HyWorkspaceActivation\<rparr>"

definition dispatchable :: "string \<Rightarrow> bool" where
  "dispatchable ws \<longleftrightarrow> text_int ws \<noteq> None \<or> starts_with ''special:'' ws"

lemma hypr_nested_induct [case_names run drain dispatch]:
  assumes run: "\<And>qs env command st. (\<And>c sent. client_run qs env command None (hy_client st) = (RunFailed, c, sent) \<Longrightarrow>
        Q qs env (fst (hypr_command_failed (st\<lparr>hy_client := c\<rparr>)))) \<Longrightarrow> P qs env command st"
    and drain: "\<And>qs env st.
      (\<And>address. hy_phase st = HyIdle \<Longrightarrow> \<not> hypr_running st \<Longrightarrow> hy_pending_window st = Some address \<Longrightarrow>
        P qs env (hypr_window_command qs address) (window_started address st)) \<Longrightarrow>
      (hy_phase st = HyIdle \<Longrightarrow> \<not> hypr_running st \<Longrightarrow> hy_pending_window st = None \<Longrightarrow>
        hy_pending_activation st \<noteq> '''' \<Longrightarrow>
        R qs env (hy_pending_activation st) (st\<lparr>hy_pending_activation := ''''\<rparr>)) \<Longrightarrow> Q qs env st"
    and dispatch: "\<And>qs env ws st. (dispatchable ws \<Longrightarrow> hy_phase st = HyIdle \<Longrightarrow> \<not> hypr_running st \<Longrightarrow>
        P qs env (hypr_workspace_command qs (starts_with ''special:'' ws) ws) (workspace_started ws st)) \<Longrightarrow>
      R qs env ws st"
  shows "P qs env command st" and "Q qs env st'" and "R qs env ws st''"
proof (induction qs env command st and qs env st' and qs env ws st'' rule: hypr_run_hypr_drain_hypr_dispatch.induct)
  case (1 qs env command st)
  show ?case by (rule run, rule 1) (auto simp: prod_eq_iff)
next
  case (2 qs env st)
  show ?case by (rule drain) (use 2 in auto)
next
  case (3 qs env ws st)
  show ?case by (rule dispatch) (use 3 in \<open>auto simp: dispatchable_def\<close>)
qed

lemma hypr_attempts:
  "attempts (snd (snd (hypr_run qs env command st))) \<le> Suc (hypr_waiting st)"
  "attempts (snd (hypr_drain qs env st')) \<le> hypr_waiting st'"
  "attempts (snd (hypr_dispatch qs env ws st'')) \<le> Suc (hypr_waiting st'')"
proof (induction qs env command st and qs env st' and qs env ws st'' rule: hypr_nested_induct)
  case (run qs env command st)
  obtain status c sent where c: "client_run qs env command None (hy_client st) = (status, c, sent)"
    by (metis prod_cases3)
  then show ?case
  proof (cases rule: client_run_cases)
    case failed
    have "hypr_waiting (fst (hypr_command_failed (st\<lparr>hy_client := c\<rparr>))) = hypr_waiting st"
      by (simp add: hypr_command_failed_waiting) (simp add: hypr_waiting_def)
    then show ?thesis
      using run [of c sent] c failed by (auto simp: hypr_run_eqs(3))
  qed (use c in \<open>auto simp: hypr_run_eqs\<close>)
next
  case (drain qs env st)
  show ?case
  proof (cases "hy_phase st \<noteq> HyIdle \<or> hypr_running st")
    case idle: False
    show ?thesis
    proof (cases "hy_pending_window st")
      case (Some address)
      then have "Suc (hypr_waiting (window_started address st)) = hypr_waiting st" by (simp add: hypr_waiting_def)
      then show ?thesis
        using drain(1) [OF _ _ Some] idle Some by (simp add: hypr_drain.simps [of qs env st] split_beta Let_def)
    next
      case None
      show ?thesis
      proof (cases "hy_pending_activation st = ''''")
        case False
        then have "Suc (hypr_waiting (st\<lparr>hy_pending_activation := ''''\<rparr>)) = hypr_waiting st"
          by (simp add: hypr_waiting_def)
        then show ?thesis using drain(2) [OF _ _ None False] idle None False by (simp add: hypr_drain_eqs(3))
      qed (use idle None in \<open>simp add: hypr_drain_eqs(2)\<close>)
    qed
  qed (simp add: hypr_drain_eqs(1))
next
  case (dispatch qs env ws st)
  show ?case
  proof (cases "dispatchable ws \<and> hy_phase st = HyIdle \<and> \<not> hypr_running st")
    case True
    have "hypr_waiting (workspace_started ws st) = hypr_waiting st" by (simp add: hypr_waiting_def)
    then show ?thesis
      using dispatch True by (simp add: hypr_dispatch.simps [of qs env ws st] dispatchable_def split_beta Let_def)
  next
    case False
    then show ?thesis by (auto simp: hypr_dispatch.simps [of qs env ws st] dispatchable_def Let_def)
  qed
qed

section \<open>No work is forgotten\<close>

text \<open>Between events: a phase is under way exactly while a command runs, waiting activations can be
  dispatched, and nothing waits while no command runs, except for a scheduled refresh.\<close>

definition can_run :: "'a qstring_ops_scheme \<Rightarrow> hypr_env \<Rightarrow> hypr_state \<Rightarrow> bool" where
  "can_run qs env st \<longleftrightarrow> resolved_command_path qs env (hy_client st) \<noteq> '''' \<and>
     (hy_pending_activation st \<noteq> '''' \<longrightarrow> dispatchable (hy_pending_activation st))"

definition hypr_calm :: "'a qstring_ops_scheme \<Rightarrow> hypr_env \<Rightarrow> hypr_state \<Rightarrow> bool" where
  "hypr_calm qs env st \<longleftrightarrow> can_run qs env st \<and> (hy_phase st \<noteq> HyIdle) = hypr_running st \<and>
     (\<not> hypr_running st \<longrightarrow> hy_pending_window st = None \<and> hy_pending_activation st = '''' \<and>
        (hy_dirty st \<longrightarrow> hy_scheduled st))"

lemma resolved_command_path_cong:
  "hc_command_path c = hc_command_path c' \<Longrightarrow> resolved_command_path qs env c = resolved_command_path qs env c'"
  by (simp add: resolved_command_path_def)

lemma command_failed_facts:
  "hy_phase (fst (hypr_command_failed st)) = HyIdle"
  "hy_client (fst (hypr_command_failed st)) = hy_client st"
  "hy_pending_activation (fst (hypr_command_failed st)) = hy_pending_activation st"
  "hy_pending_window (fst (hypr_command_failed st)) = hy_pending_window st"
  by (simp_all add: hypr_command_failed_def hypr_report_def Let_def split_beta)

lemma calm_client_end:
  "hypr_calm qs env st \<Longrightarrow> hypr_calm qs env (st\<lparr>hy_client := client_run_end (hy_client st)\<rparr>)"
  by (simp add: hypr_calm_def can_run_def resolved_command_path_cong [OF client_run_end_keeps(2)])

lemma hypr_nested_calm:
  "can_run qs env st \<Longrightarrow> \<not> hypr_running st \<Longrightarrow> hy_phase st \<noteq> HyIdle \<Longrightarrow>
   fst (hypr_run qs env command st) \<and> hypr_calm qs env (fst (snd (hypr_run qs env command st)))"
  "can_run qs env st' \<Longrightarrow> \<not> hypr_running st' \<Longrightarrow> hy_phase st' = HyIdle \<Longrightarrow>
   hypr_calm qs env (fst (hypr_drain qs env st'))"
  "can_run qs env st'' \<Longrightarrow> \<not> hypr_running st'' \<Longrightarrow> hy_phase st'' = HyIdle \<Longrightarrow> dispatchable ws \<Longrightarrow>
   hy_pending_window st'' = None \<Longrightarrow> hypr_calm qs env (fst (hypr_dispatch qs env ws st''))"
proof (induction qs env command st and qs env st' and qs env ws st'' rule: hypr_nested_induct)
  case (run qs env command st)
  obtain status c sent where c: "client_run qs env command None (hy_client st) = (status, c, sent)"
    by (metis prod_cases3)
  then show ?case
  proof (cases rule: client_run_cases)
    case rejected
    then show ?thesis using run.prems by (simp add: can_run_def)
  next
    case started
    then have "resolved_command_path qs env c = resolved_command_path qs env (hy_client st)"
      by (intro resolved_command_path_cong)
    then show ?thesis
      using c started run.prems resolved_command_path_cong [OF client_run_end_keeps(2) [of c], of qs env]
      by (simp add: hypr_run_eqs(2) hypr_calm_def can_run_def)
  next
    case failed
    let ?st1 = "fst (hypr_command_failed (st\<lparr>hy_client := c\<rparr>))"
    have "resolved_command_path qs env c = resolved_command_path qs env (hy_client st)"
      using failed by (intro resolved_command_path_cong)
    then have "can_run qs env ?st1" "\<not> hypr_running ?st1" "hy_phase ?st1 = HyIdle"
      using run.prems failed by (simp_all add: can_run_def command_failed_facts)
    then have "hypr_calm qs env (fst (hypr_drain qs env ?st1))"
      using run.IH [of c sent] c failed by simp
    then show ?thesis using c failed calm_client_end by (simp add: hypr_run_eqs(3))
  qed
next
  case (drain qs env st)
  show ?case
  proof (cases "hy_pending_window st")
    case (Some address)
    have "can_run qs env (window_started address st)" using drain.prems by (simp add: can_run_def)
    then have "fst (hypr_run qs env (hypr_window_command qs address) (window_started address st)) \<and>
        hypr_calm qs env (fst (snd (hypr_run qs env (hypr_window_command qs address) (window_started address st))))"
      using drain.IH(1) [OF _ _ Some] drain.prems by simp
    then show ?thesis using drain.prems Some by (simp add: hypr_drain.simps [of qs env st] split_beta Let_def)
  next
    case None
    show ?thesis
    proof (cases "hy_pending_activation st = ''''")
      case True
      then show ?thesis
        using drain.prems None by (auto simp: hypr_drain_eqs(2) hypr_calm_def can_run_def hypr_schedule_refresh_def)
    next
      case False
      then show ?thesis
        using drain.prems None drain.IH(2) [OF _ _ None False] by (simp add: hypr_drain_eqs(3) can_run_def)
    qed
  qed
next
  case (dispatch qs env ws st)
  have "can_run qs env (workspace_started ws st)" using dispatch.prems by (simp add: can_run_def)
  then have "fst (hypr_run qs env (hypr_workspace_command qs (starts_with ''special:'' ws) ws) (workspace_started ws st)) \<and>
      hypr_calm qs env (fst (snd (hypr_run qs env (hypr_workspace_command qs (starts_with ''special:'' ws) ws)
        (workspace_started ws st))))"
    using dispatch.IH dispatch.prems by simp
  then show ?case
    using dispatch.prems by (auto simp: hypr_dispatch.simps [of qs env ws st] dispatchable_def split_beta Let_def)
qed


text \<open>What an event of the sockets and timers does to the command: nothing, it ends, or the event stream is
  lost beside it.\<close>

definition quiet_signal :: "client_output \<Rightarrow> bool" where
  "quiet_signal s = (case s of ClFinished _ _ \<Rightarrow> False | ClEventsDisconnected \<Rightarrow> False
     | ClConnectCommand _ \<Rightarrow> False | _ \<Rightarrow> True)"

lemma quiet_signal_simps [simp]:
  "quiet_signal (ClConnectEvents path)" "quiet_signal (ClWrite bytes)" "quiet_signal (ClReconnectIn d)"
  "quiet_signal ClEventsConnected" "quiet_signal (ClLine line)" "\<not> quiet_signal (ClFinished r s)"
  "\<not> quiet_signal (ClConnectCommand path)"
  "\<not> quiet_signal ClEventsDisconnected" "list_all quiet_signal (map ClLine ls)"
  by (simp_all add: quiet_signal_def list_all_iff)

definition command_kept :: "hypr_client \<Rightarrow> hypr_client \<Rightarrow> bool" where
  "command_kept c c' \<longleftrightarrow> hc_command c' = hc_command c \<and> hc_command_path c' = hc_command_path c"

lemma schedule_reconnect_quiet:
  "command_kept c (fst (schedule_reconnect c))" "list_all quiet_signal (snd (schedule_reconnect c))"
  by (simp_all add: schedule_reconnect_def command_kept_def)

lemma event_socket_quiet:
  "command_kept c (fst (event_connected c))" "list_all quiet_signal (snd (event_connected c))"
  "command_kept c (fst (event_error socket c))" "list_all quiet_signal (snd (event_error socket c))"
  "command_kept c (fst (connect_timeout c))" "list_all quiet_signal (snd (connect_timeout c))"
  using schedule_reconnect_quiet [of "c\<lparr>hc_event := Some socket\<rparr>"]
    schedule_reconnect_quiet [of "c\<lparr>hc_connect_timer := False, hc_event := Some EventClosed\<rparr>"]
  by (auto simp: event_connected_def reset_backoff_def event_error_def connect_timeout_def command_kept_def Let_def)

lemma connect_events_quiet:
  "command_kept c (fst (connect_events qs env c)) \<and> list_all quiet_signal (snd (connect_events qs env c))"
proof -
  let ?c0 = "c\<lparr>hc_event := None, hc_connect_timer := False\<rparr>"
  let ?c1 = "snd (next_outcome (?c0\<lparr>hc_event := Some EventOpening\<rparr>))"
  have "command_kept c ?c1" by (simp add: command_kept_def)
  then show ?thesis
    using schedule_reconnect_quiet [of ?c0] event_socket_quiet(3,4) [where c = ?c1 and socket = EventClosed]
      event_socket_quiet(1,2) [of ?c1]
    by (auto simp: connect_events_def Let_def split_beta command_kept_def split: connect_outcome.split)
qed

lemma client_step_cases:
  assumes "client_step qs env ev c = (c', sigs)"
  obtains (quiet) "command_kept c c'" "list_all quiet_signal sigs"
  | (finished) response success where "\<not> hc_command c'" "hc_command_path c' = hc_command_path c"
      "sigs = [ClFinished response success]" "success \<longrightarrow> hc_command c"
  | (lost) "ev = EvStreamDisconnected" "command_kept c c'" "\<exists>rest. sigs = ClEventsDisconnected # rest \<and> list_all quiet_signal rest"
proof -
  have fin: "\<exists>response. snd (finish_command success d) = [ClFinished response success]" for success d
    by (simp add: finish_command_def)
  have ended: thesis if "finish_command success d = (c', sigs)" "hc_command_path d = hc_command_path c" "success \<longrightarrow> hc_command c"
    for success d
    using that finished fin [of success d] finish_command_keeps(1,2) [of success d] by auto
  show thesis
  proof (cases ev)
    case EvStreamConnected
    then show thesis using assms quiet event_socket_quiet(1,2) [of c] by (auto simp: command_kept_def split: if_splits)
  next
    case (EvStreamReadable bytes)
    then show thesis using assms quiet
      by (auto simp: event_readable_def Let_def split_beta command_kept_def split: if_splits)
  next
    case EvStreamDisconnected
    then show thesis
      using assms quiet lost schedule_reconnect_quiet [of "c\<lparr>hc_event := Some EventClosed\<rparr>"]
      by (auto simp: event_disconnected_def split_beta command_kept_def split: if_splits)
  next
    case (EvStreamError socket)
    then show thesis using assms quiet event_socket_quiet(3,4) [where c = c and socket = socket]
      by (auto simp: command_kept_def split: if_splits)
  next
    case EvConnectTimeout
    then show thesis using assms quiet event_socket_quiet(5,6) [of c] by auto
  next
    case EvReconnectTimeout
    then show thesis
      using assms quiet connect_events_quiet [of "c\<lparr>hc_reconnect := False\<rparr>" qs env]
      by (auto simp: reconnect_timeout_def command_kept_def split: if_splits)
  next
    case EvCommandConnected
    then show thesis using assms quiet by (auto simp: command_connected_def command_kept_def split: if_splits)
  next
    case (EvCommandReadable bytes)
    then show thesis
      using assms quiet ended
      by (auto simp: command_readable_def Let_def command_kept_def split: if_splits option.splits)
  next
    case (EvCommandDisconnected bytes)
    then show thesis
      using assms quiet ended by (auto simp: command_disconnected_def command_kept_def split: if_splits)
  next
    case (EvCommandError rest)
    then show thesis
      using assms quiet ended
      by (auto simp: command_error_def command_disconnected_def command_kept_def split: if_splits option.splits)
  next
    case EvCommandTimeout
    then show thesis using assms quiet ended by (auto simp: command_kept_def split: if_splits)
  next
    case (EvOrphanTimeout k)
    then show thesis using assms quiet ended by (auto simp: command_kept_def split: if_splits)
  qed
qed


text \<open>The operations between two events keep the backend calm.\<close>

lemma calm_cong:
  assumes "hypr_calm qs env st" and "hc_command (hy_client st') = hypr_running st"
    and "hc_command_path (hy_client st') = hc_command_path (hy_client st)"
    and "hy_phase st' = hy_phase st" and "hy_pending_window st' = hy_pending_window st"
    and "hy_pending_activation st' = hy_pending_activation st" and "hy_dirty st' = hy_dirty st"
    and "hy_scheduled st' = hy_scheduled st"
  shows "hypr_calm qs env st'"
  using assms resolved_command_path_cong [OF assms(3), of qs env] by (simp add: hypr_calm_def can_run_def)

lemma calm_schedule:
  "hypr_calm qs env st \<Longrightarrow> hypr_calm qs env (hypr_schedule_refresh st)"
  by (auto simp: hypr_calm_def can_run_def hypr_schedule_refresh_def)

lemma calm_event: "hypr_calm qs env st \<Longrightarrow> hypr_calm qs env (hypr_handle_event qs line st)"
  unfolding hypr_handle_event_def
  by (intro calm_schedule) (erule calm_cong, simp_all split: option.split)

lemma calm_run_or_fail:
  assumes "can_run qs env st" and "\<not> hypr_running st" and "hy_phase st \<noteq> HyIdle"
  shows "hypr_calm qs env (fst (hypr_run_or_fail qs env command diagnostic st))"
  using hypr_nested_calm(1) [OF assms, of command] by (simp add: hypr_run_or_fail_def split_beta Let_def)

lemma calm_drain_after:
  assumes "can_run qs env (fst r)" and "\<not> hypr_running (fst r)" and "hy_phase (fst r) = HyIdle"
  shows "hypr_calm qs env (fst (hypr_drain_after qs env r))"
  using hypr_nested_calm(2) [OF assms] by (simp add: hypr_drain_after_def split_beta Let_def)

lemma calm_begin_refresh:
  assumes "hypr_calm qs env st"
  shows "hypr_calm qs env (fst (hypr_begin_refresh qs env (st\<lparr>hy_scheduled := False\<rparr>)))"
proof (cases "hy_phase st \<noteq> HyIdle \<or> hypr_running st")
  case True
  then have busy: "hypr_running st" using assms by (auto simp: hypr_calm_def)
  then show ?thesis using assms by (simp add: hypr_begin_refresh_def hypr_calm_def can_run_def)
next
  case False
  let ?st = "st\<lparr>hy_scheduled := False, hy_dirty := False, hy_phase := HyMonitors\<rparr>"
  have "can_run qs env ?st" using assms by (simp add: hypr_calm_def can_run_def)
  then have "hypr_calm qs env (fst (hypr_run_or_fail qs env ''j/monitors'' ''Hyprland monitor query failed'' ?st))"
    using False by (intro calm_run_or_fail) simp_all
  then show ?thesis using False by (simp add: hypr_begin_refresh_def)
qed

lemma publish_facts:
  "hy_client (fst (hypr_publish qs response st)) = hy_client st"
  "hy_phase st = HyIdle \<Longrightarrow> hy_phase (fst (hypr_publish qs response st)) = HyIdle"
  "hy_pending_activation (fst (hypr_publish qs response st)) = hy_pending_activation st"
  by (simp_all add: hypr_publish_def hypr_fail_def hypr_report_def Let_def split: option.split json.split)

lemma calm_activation_done:
  assumes "can_run qs env st" and "\<not> hypr_running st"
  shows "hypr_calm qs env (fst (hypr_activation_done qs env rejected st))"
proof -
  have "can_run qs env (st\<lparr>hy_phase := HyIdle, hy_dirty := True\<rparr>)"
    "can_run qs env (fst (hypr_report d (st\<lparr>hy_phase := HyIdle\<rparr>))\<lparr>hy_dirty := True\<rparr>)" for d
    using assms(1) by (simp_all add: can_run_def hypr_report_def)
  then show ?thesis
    using assms(2) unfolding hypr_activation_done_def Let_def split_beta
    by (intro calm_drain_after) (simp_all add: hypr_report_def split: option.split)
qed

text \<open>A command that ends takes the backend from its phase to the next one; a stale reply would find
  it idle.\<close>

lemma calm_handle_command:
  assumes run: "can_run qs env st" and idle: "\<not> hypr_running st" and phase: "success \<longrightarrow> hy_phase st \<noteq> HyIdle"
  shows "hypr_calm qs env (fst (hypr_handle_command qs env response success st))"
proof (cases success)
  case False
  have "can_run qs env (fst (hypr_command_failed st))"
    using run by (simp add: can_run_def command_failed_facts)
  then have "hypr_calm qs env (fst (hypr_drain_after qs env (hypr_command_failed st)))"
    using idle by (intro calm_drain_after) (simp_all add: command_failed_facts)
  then show ?thesis using False by (simp add: hypr_handle_command_def)
next
  case True
  have set: "can_run qs env (st\<lparr>hy_phase := p\<rparr>)" "can_run qs env (st\<lparr>hy_monitors := m, hy_phase := p\<rparr>)"
    "can_run qs env (st\<lparr>hy_workspaces := m, hy_phase := p\<rparr>)" for p m
    using run by (simp_all add: can_run_def)
  show ?thesis
  proof (cases "hy_phase st")
    case HyClients
    have "can_run qs env (fst (hypr_publish qs response (st\<lparr>hy_phase := HyIdle\<rparr>)))"
      using run by (simp add: can_run_def publish_facts)
    then have "hypr_calm qs env (fst (hypr_drain_after qs env (hypr_publish qs response (st\<lparr>hy_phase := HyIdle\<rparr>))))"
      using idle by (intro calm_drain_after) (simp_all add: publish_facts)
    then show ?thesis using True HyClients by (simp add: hypr_handle_command_def)
  qed (use True phase idle set calm_activation_done [OF run idle] in
      \<open>simp_all add: hypr_handle_command_def hypr_lua_workspace_def hypr_lua_window_def Let_def calm_run_or_fail\<close>)
qed

lemma calm_request_window:
  assumes "hypr_calm qs env st"
  shows "hypr_calm qs env (fst (hypr_request_window qs env request st))"
proof -
  let ?r = "resolve_activation (js_utf8 qs) request (hy_candidates st)"
  let ?address = "hy_addresses st ! the (resolved_index ?r)"
  let ?st = "st\<lparr>hy_window_address := ?address, hy_phase := HyWindowActivation\<rparr>"
  consider (refused) "resolved_result ?r \<noteq> Accepted" | (busy) "resolved_result ?r = Accepted" "hy_phase st \<noteq> HyIdle \<or> hypr_running st"
    | (go) "resolved_result ?r = Accepted" "hy_phase st = HyIdle" "\<not> hypr_running st" by blast
  then show ?thesis
  proof cases
    case refused
    then show ?thesis using assms by (simp add: hypr_request_window_def)
  next
    case busy
    then have "hypr_running st" using assms by (auto simp: hypr_calm_def)
    then show ?thesis
      using busy(1) assms by (simp add: hypr_request_window_def Let_def) (simp add: hypr_calm_def can_run_def)
  next
    case go
    have "can_run qs env ?st" using assms by (simp add: hypr_calm_def can_run_def)
    then show ?thesis
      using hypr_nested_calm(1) [of qs env ?st "hypr_window_command qs ?address"] go
      by (simp add: hypr_request_window_def Let_def split_beta)
  qed
qed

lemma calm_dispatch:
  assumes "hypr_calm qs env st"
  shows "hypr_calm qs env (fst (hypr_dispatch qs env ws st))"
proof (cases "dispatchable ws \<and> hy_phase st = HyIdle \<and> \<not> hypr_running st")
  case True
  then show ?thesis using hypr_nested_calm(3) [of qs env st ws] assms by (simp add: hypr_calm_def)
next
  case False
  then show ?thesis
    using assms by (auto simp: hypr_dispatch.simps [of qs env ws st] Let_def hypr_calm_def can_run_def dispatchable_def)
qed

lemma calm_quiet_signals:
  "hypr_calm qs env st \<Longrightarrow> list_all quiet_signal sigs \<Longrightarrow> hypr_calm qs env (fst (hypr_signals qs env sigs st))"
proof (induction sigs arbitrary: st)
  case (Cons sig sigs)
  then have "hypr_calm qs env (fst (hypr_signal qs env sig st))"
    by (cases sig) (simp_all add: calm_event calm_schedule)
  then show ?case using Cons by (simp add: split_beta)
qed simp

lemma hypr_signals_single: "fst (hypr_signals qs env [sig] st) = fst (hypr_signal qs env sig st)"
  by (simp add: split_beta)


definition stale_loss :: "hypr_event \<times> connect_outcome list \<Rightarrow> hypr_state \<Rightarrow> bool" where
  "stale_loss ev st \<longleftrightarrow> fst ev = HyClient EvStreamDisconnected \<and> hypr_running st"

lemma calm_client_event:
  assumes calm: "hypr_calm qs env st" and "\<not> (ev = EvStreamDisconnected \<and> hypr_running st)"
  shows "hypr_calm qs env (fst (hypr_client_event qs env ev st))"
proof -
  obtain c sigs where step: "client_step qs env ev (hy_client st) = (c, sigs)" by fastforce
  let ?st = "st\<lparr>hy_client := c\<rparr>"
  have res: "fst (hypr_client_event qs env ev st) = fst (hypr_signals qs env sigs ?st)"
    by (simp add: hypr_client_event_def step)
  from step show ?thesis
  proof (cases rule: client_step_cases)
    case quiet
    then have "hypr_calm qs env ?st" using calm by (intro calm_cong [OF calm]) (simp_all add: command_kept_def)
    then show ?thesis unfolding res using quiet(2) by (rule calm_quiet_signals)
  next
    case (finished response success)
    have "can_run qs env ?st"
      using calm resolved_command_path_cong [OF finished(2), of qs env] by (simp add: hypr_calm_def can_run_def)
    then have "hypr_calm qs env (fst (hypr_handle_command qs env response success ?st))"
      using finished(1,4) calm by (intro calm_handle_command) (simp_all add: hypr_calm_def)
    then show ?thesis unfolding res finished(3) hypr_signals_single by simp
  next
    case lost
    then have idle: "\<not> hypr_running st" "\<not> hypr_running ?st" using assms(2) by (auto simp: command_kept_def)
    obtain rest where rest: "sigs = ClEventsDisconnected # rest" "list_all quiet_signal rest" using lost(3) by blast
    have "hypr_calm qs env (fst (hypr_stream_lost ?st))"
      using calm lost(2) idle resolved_command_path_cong [of c "hy_client st" qs env]
      by (simp add: hypr_calm_def can_run_def hypr_stream_lost_def hypr_fail_def hypr_report_def command_kept_def)
    then have "hypr_calm qs env (fst (hypr_signals qs env rest (fst (hypr_stream_lost ?st))))"
      using rest(2) by (rule calm_quiet_signals)
    then show ?thesis unfolding res rest(1) by (simp add: split_beta)
  qed
qed

lemma calm_step:
  assumes calm: "hypr_calm qs env st" and "\<not> stale_loss ev st"
  shows "hypr_calm qs env (fst (hypr_step qs env ev st))"
proof -
  obtain e outcomes where ev: "ev = (e, outcomes)" by fastforce
  let ?st = "st\<lparr>hy_client := (hy_client st)\<lparr>hc_outcomes := outcomes\<rparr>\<rparr>"
  have st: "hypr_calm qs env ?st" by (rule calm_cong [OF calm]) simp_all
  have "hypr_calm qs env (fst (hypr_handle qs env e ?st))"
  proof (cases e)
    case HyStart
    have "command_kept (hy_client ?st) (fst (connect_events qs env (hy_client ?st)))"
      "list_all quiet_signal (snd (connect_events qs env (hy_client ?st)))"
      using connect_events_quiet by blast+
    then show ?thesis
      using calm_quiet_signals [OF calm_cong [OF st]] HyStart
      by (simp add: hypr_start_def split_beta command_kept_def)
  next
    case (HyClient ce)
    then show ?thesis using calm_client_event [OF st, of ce] assms(2) by (simp add: ev stale_loss_def)
  next
    case HyRefreshTimer
    then show ?thesis using calm_begin_refresh [OF st] st by (simp add: hypr_refresh_timer_def)
  qed (use st in \<open>simp_all add: hypr_activate_workspace_def hypr_activate_slot_def hypr_activate_special_def
      calm_dispatch calm_request_window\<close>)
  then show ?thesis by (simp add: hypr_step_def ev)
qed

text \<open>The states that are reached while the event stream is not lost in the middle of a command.\<close>

inductive hypr_reached :: "'a qstring_ops_scheme \<Rightarrow> hypr_env \<Rightarrow> string \<Rightarrow> string \<Rightarrow> hypr_state \<Rightarrow> bool"
  for qs env event_path command_path where
  initial: "hypr_reached qs env event_path command_path (hypr_init event_path command_path)"
| event: "hypr_reached qs env event_path command_path st \<Longrightarrow> \<not> stale_loss ev st \<Longrightarrow>
    hypr_reached qs env event_path command_path (fst (hypr_step qs env ev st))"

lemma calm_reached:
  assumes "hypr_reached qs env event_path command_path st" and "command_path \<noteq> '''' \<or> env_signature env \<noteq> ''''"
  shows "hypr_calm qs env st"
  using assms
proof (induction rule: hypr_reached.induct)
  case initial
  then show ?case
    by (simp add: hypr_calm_def can_run_def hypr_init_def client_init_def resolved_command_path_def env_command_path_def)
next
  case (event st ev)
  then show ?case using calm_step by blast
qed

lemma events_leave_refresh:
  "ls \<noteq> [] \<Longrightarrow> hy_dirty (fst (hypr_signals qs env (map ClLine ls) st)) \<or> hy_scheduled (fst (hypr_signals qs env (map ClLine ls) st))"
proof (induction ls arbitrary: st)
  case (Cons l ls)
  have here: "hy_dirty (hypr_handle_event qs l st) \<or> hy_scheduled (hypr_handle_event qs l st)"
    by (simp add: hypr_handle_event_def hypr_schedule_refresh_def)
  show ?case
  proof (cases ls)
    case Nil
    then show ?thesis using here by simp
  next
    case (Cons l' ls')
    then show ?thesis using Cons.IH [of "hypr_handle_event qs l st"] by (simp add: split_beta)
  qed
qed simp

lemma take_lines_some: "CHR 0x0A \<in> set s \<Longrightarrow> fst (take_lines line s) \<noteq> []"
  by (induction line s rule: take_lines.induct) (auto simp: split_beta)

text \<open>C27. As long as the event stream is not lost while a command runs, the backend forgets no work: a
  phase is under way exactly while a command runs, no activation waits and no refresh is due without a
  command that runs or a refresh that is scheduled, and every line of the event stream leaves a refresh
  due or scheduled.\<close>

theorem hypr_no_lost_work:
  assumes "hypr_reached qs env event_path command_path st"
    and "command_path \<noteq> '''' \<or> env_signature env \<noteq> ''''"
    and "hc_event (hy_client st) = Some EventOpen" and "CHR 0x0A \<in> set (take 4096 bytes)"
    and "st' = fst (hypr_step qs env (HyClient (EvStreamReadable bytes), outcomes) st)"
  shows "(hy_phase st \<noteq> HyIdle) = hypr_running st \<and>
    (\<not> hypr_running st \<longrightarrow> hy_pending_window st = None \<and> hy_pending_activation st = '''' \<and>
      (hy_dirty st \<longrightarrow> hy_scheduled st)) \<and>
    (hy_dirty st' \<or> hy_scheduled st') \<and> (\<not> hypr_running st' \<longrightarrow> hy_scheduled st')"
proof -
  have reached': "hypr_reached qs env event_path command_path st'"
    unfolding assms(5) by (rule hypr_reached.event [OF assms(1)]) (simp add: stale_loss_def)
  have calm: "hypr_calm qs env st" "hypr_calm qs env st'" using calm_reached assms(1,2) reached' by blast+
  let ?c = "(hy_client st)\<lparr>hc_outcomes := outcomes\<rparr>"
  let ?lines = "fst (take_lines [] (hc_event_buffer (hy_client st) @ take 4096 bytes))"
  have "?lines \<noteq> []" using assms(4) by (intro take_lines_some) simp
  moreover have "\<exists>st0. st' = fst (hypr_signals qs env (map ClLine ?lines) st0)"
    using assms(3,4) unfolding assms(5)
    by (auto simp: hypr_step_def hypr_client_event_def event_readable_def Let_def split_beta)
  ultimately have "hy_dirty st' \<or> hy_scheduled st'" using events_leave_refresh by blast
  then show ?thesis using calm by (auto simp: hypr_calm_def)
qed


section \<open>Concrete runs\<close>

definition demo_text :: "(string \<times> json) list \<Rightarrow> qstring_ops" where
  "demo_text documents = \<lparr>js_parse = map_of documents, js_double = id, js_utf8 = id, qs_from_utf8 = id,
     qs_local = id, qs_space = ascii_space, qs_fold = ascii_lower\<rparr>"

definition demo_env :: hypr_env where
  "demo_env = \<lparr>env_runtime_dir = ''/run'', env_signature = ''h''\<rparr>"

abbreviation "demo_hypr evs \<equiv> hypr_steps (demo_text []) demo_env evs (hypr_init '''' '''')"

lemma hypr_no_lost_work_witness:
  "hy_scheduled (fst (hypr_step (demo_text []) demo_env
     (HyClient (EvStreamReadable [CHR ''a'', CHR 0x0A]), []) (demo_hypr [(HyStart, [ConnectDone])])))"
proof -
  let ?st = "demo_hypr [(HyStart, [ConnectDone])]"
  have "hypr_reached (demo_text []) demo_env '''' '''' (fst (hypr_step (demo_text []) demo_env
      (HyStart, [ConnectDone]) (hypr_init '''' '''')))"
    by (rule hypr_reached.event [OF hypr_reached.initial]) (simp add: stale_loss_def)
  then have reached: "hypr_reached (demo_text []) demo_env '''' '''' ?st" by (simp add: hypr_steps_def)
  have "env_signature demo_env \<noteq> ''''" by (simp add: demo_env_def)
  then have path: "'''' \<noteq> '''' \<or> env_signature demo_env \<noteq> ''''" by simp
  have "hc_event (hy_client ?st) = Some EventOpen" "\<not> hypr_running (fst (hypr_step (demo_text []) demo_env
     (HyClient (EvStreamReadable [CHR ''a'', CHR 0x0A]), []) ?st))" by code_simp+
  then show ?thesis
    using hypr_no_lost_work [OF reached path _ _ refl, of "[CHR ''a'', CHR 0x0A]" "[]"] by simp
qed

text \<open>When the stream is lost during a command, the command's reply finds the backend idle and is dropped
  without draining: a refresh that became due in between, here by the new connection itself, is forgotten
  until the next event.\<close>

lemma hypr_stale_reply:
  "\<exists>evs. hy_dirty (demo_hypr evs) \<and> \<not> hypr_running (demo_hypr evs) \<and> \<not> hy_scheduled (demo_hypr evs) \<and>
     hc_event (hy_client (demo_hypr evs)) = Some EventOpen"
  by (rule exI [of _ "[(HyStart, [ConnectDone]), (HyRefreshTimer, []), (HyClient EvStreamDisconnected, []),
      (HyClient EvReconnectTimeout, [ConnectDone]), (HyClient (EvCommandDisconnected ''[]''), [])]"]) code_simp

text \<open>A command whose connection fails at once leaves a timer behind, which ends a later command.\<close>

lemma hypr_orphan_timer:
  "\<exists>evs k. hypr_running (demo_hypr evs) \<and> hc_timeout (hy_client (demo_hypr evs)) = OwnTimer \<and>
     HyTransport (ClFinished '''' False) \<in>
       set (snd (hypr_step (demo_text []) demo_env (HyClient (EvOrphanTimeout k), []) (demo_hypr evs)))"
  by (rule exI [of _ "[(HyActivateSlot 1, [ConnectRefused]), (HyActivateSlot 2, [])]"], rule exI [of _ 0]) code_simp

end
