(* ===== verification/Hyprland_Stream.thy ===== *)
theory Hyprland_Stream
  imports Hyprland_Runs
begin

text \<open>
  The event stream of \<open>HyprlandIpcClient\<close> under every run of the backend: it is always retried, its
  lines arrive whole, and the commands that one event may start are bounded.
\<close>

section \<open>The event stream is always retried\<close>

definition hypr_stream :: "hypr_state \<Rightarrow> event_socket option \<times> bool \<times> bool \<times> int" where
  "hypr_stream st = stream_part (hy_client st)"

lemma hypr_stream_client [simp]: "hypr_stream (st\<lparr>hy_client := c\<rparr>) = stream_part c"
  by (simp add: hypr_stream_def)

lemma hypr_stream_update [simp]:
  "hypr_stream (st\<lparr>hy_phase := p\<rparr>) = hypr_stream st" "hypr_stream (st\<lparr>hy_dirty := b\<rparr>) = hypr_stream st"
  "hypr_stream (st\<lparr>hy_scheduled := b\<rparr>) = hypr_stream st" "hypr_stream (st\<lparr>hy_monitors := s\<rparr>) = hypr_stream st"
  "hypr_stream (st\<lparr>hy_workspaces := s\<rparr>) = hypr_stream st" "hypr_stream (st\<lparr>hy_urgent := ss\<rparr>) = hypr_stream st"
  "hypr_stream (st\<lparr>hy_pending_window := w\<rparr>) = hypr_stream st"
  "hypr_stream (st\<lparr>hy_pending_activation := s\<rparr>) = hypr_stream st"
  "hypr_stream (st\<lparr>hy_activation := s\<rparr>) = hypr_stream st" "hypr_stream (st\<lparr>hy_special := b\<rparr>) = hypr_stream st"
  "hypr_stream (st\<lparr>hy_window_address := s\<rparr>) = hypr_stream st" "hypr_stream (st\<lparr>hy_candidates := cs\<rparr>) = hypr_stream st"
  "hypr_stream (st\<lparr>hy_addresses := ss\<rparr>) = hypr_stream st" "hypr_stream (st\<lparr>hy_numbered := n\<rparr>) = hypr_stream st"
  "hypr_stream (st\<lparr>hy_specials := sp\<rparr>) = hypr_stream st"
  by (simp_all add: hypr_stream_def)

lemma stream_part_end [simp]: "stream_part (client_run_end c) = stream_part c"
  by (simp add: stream_part_def)

lemma hypr_stream_reports [simp]:
  "hypr_stream (fst (hypr_report diagnostic st)) = hypr_stream st"
  "hypr_stream (fst (hypr_fail diagnostic st)) = hypr_stream st"
  "hypr_stream (fst (hypr_command_failed st)) = hypr_stream st"
  "hypr_stream (hypr_schedule_refresh st) = hypr_stream st"
  "hypr_stream (hypr_handle_event qs line st) = hypr_stream st"
  by (simp_all add: hypr_report_def hypr_fail_def hypr_command_failed_def hypr_schedule_refresh_def
      hypr_handle_event_def Let_def split: option.split)

lemma hypr_stream_nested:
  "hypr_stream (fst (snd (hypr_run qs env command st))) = hypr_stream st"
  "hypr_stream (fst (hypr_drain qs env st')) = hypr_stream st'"
  "hypr_stream (fst (hypr_dispatch qs env ws st'')) = hypr_stream st''"
proof (induction qs env command st and qs env st' and qs env ws st'' rule: hypr_nested_induct)
  case (run qs env command st)
  obtain status c sent where c: "client_run qs env command None (hy_client st) = (status, c, sent)"
    by (metis prod_cases3)
  then show ?case
  proof (cases rule: client_run_cases)
    case failed
    let ?st2 = "fst (hypr_drain qs env (fst (hypr_command_failed (st\<lparr>hy_client := c\<rparr>))))"
    have "stream_part (hy_client ?st2) = stream_part c"
      using run [of c sent] c failed(1) by (simp add: hypr_stream_def [symmetric])
    then show ?thesis using c failed(1,5) by (simp add: hypr_run_eqs(3)) (simp add: hypr_stream_def)
  qed (use c in \<open>auto simp: hypr_run_eqs hypr_stream_def\<close>)
next
  case (drain qs env st)
  show ?case
  proof (cases "hy_phase st \<noteq> HyIdle \<or> hypr_running st")
    case idle: False
    show ?thesis
    proof (cases "hy_pending_window st")
      case (Some address)
      then show ?thesis
        using drain(1) [OF _ _ Some] idle by (simp add: hypr_drain.simps [of qs env st] split_beta Let_def)
    next
      case None
      then show ?thesis
        using drain(2) [OF _ _ None] idle
        by (cases "hy_pending_activation st = ''''") (simp_all add: hypr_drain_eqs(2,3))
    qed
  qed (simp add: hypr_drain_eqs(1))
next
  case (dispatch qs env ws st)
  then show ?case
    by (auto simp: hypr_dispatch.simps [of qs env ws st] dispatchable_def split_beta Let_def)
qed

lemma hypr_stream_ops:
  "hypr_stream (fst (hypr_run_or_fail qs env command diagnostic st)) = hypr_stream st"
  "hypr_stream (fst (hypr_drain_after qs env r)) = hypr_stream (fst r)"
  by (simp_all add: hypr_run_or_fail_def hypr_drain_after_def split_beta Let_def hypr_stream_nested)

lemma hypr_stream_publish: "hypr_stream (fst (hypr_publish qs response st)) = hypr_stream st"
  by (simp add: hypr_publish_def Let_def split: option.split json.split)

lemma hypr_stream_command: "hypr_stream (fst (hypr_handle_command qs env response success st)) = hypr_stream st"
  by (simp add: hypr_handle_command_def hypr_stream_ops hypr_stream_publish hypr_lua_workspace_def
      hypr_lua_window_def hypr_activation_done_def Let_def split_beta split: hypr_phase.split option.split)

lemma hypr_stream_signals: "hypr_stream (fst (hypr_signals qs env sigs st)) = hypr_stream st"
proof (induction sigs arbitrary: st)
  case (Cons sig sigs)
  have "hypr_stream (fst (hypr_signal qs env sig st)) = hypr_stream st"
    by (cases sig) (simp_all add: hypr_stream_command hypr_stream_lost_def)
  then show ?case using Cons by (simp add: split_beta)
qed simp

text \<open>Either the stream is open, or a timer runs that will try again; the delays stay within bounds.\<close>

definition stream_alive :: "event_socket option \<times> bool \<times> bool \<times> int \<Rightarrow> bool" where
  "stream_alive = (\<lambda>(socket, timer, reconnect, delay).
     (socket = Some EventOpen \<or> reconnect \<or> timer \<and> socket \<noteq> None) \<and> 1000 \<le> delay \<and> delay \<le> 30000)"

lemma alive_schedule:
  "1000 \<le> hc_delay c \<Longrightarrow> hc_delay c \<le> 30000 \<Longrightarrow> stream_alive (stream_part (fst (schedule_reconnect c)))"
  by (simp add: schedule_reconnect_def stream_part_def stream_alive_def)

lemma alive_connected: "stream_alive (stream_part (fst (event_connected c)))"
  by (simp add: event_connected_def reset_backoff_def stream_part_def stream_alive_def)

lemma alive_connect:
  assumes "1000 \<le> hc_delay c" and "hc_delay c \<le> 30000"
  shows "stream_alive (stream_part (fst (connect_events qs env c)))"
proof -
  let ?c0 = "c\<lparr>hc_event := None, hc_connect_timer := False\<rparr>"
  let ?c1 = "snd (next_outcome (?c0\<lparr>hc_event := Some EventOpening\<rparr>))"
  have timer: "stream_alive (stream_part d) \<Longrightarrow> stream_alive (stream_part (d\<lparr>hc_connect_timer := True\<rparr>))" for d
    by (auto simp: stream_alive_def stream_part_def)
  have "stream_alive (stream_part (fst (schedule_reconnect ?c0)))"
    "stream_alive (stream_part (fst (event_error EventClosed ?c1)))"
    using assms by (simp_all add: alive_schedule event_error_def Let_def)
  moreover have "stream_alive (stream_part (?c1\<lparr>hc_connect_timer := True\<rparr>))"
    using assms by (simp add: stream_alive_def stream_part_def)
  ultimately show ?thesis
    using alive_connected timer by (simp add: connect_events_def Let_def split_beta split: connect_outcome.split)
qed

lemma alive_client_step:
  assumes "stream_alive (stream_part c)"
  shows "stream_alive (stream_part (fst (client_step qs env ev c)))"
proof -
  have delay: "1000 \<le> hc_delay c" "hc_delay c \<le> 30000"
    using assms by (simp_all add: stream_alive_def stream_part_def)
  have fin: "stream_part (fst (finish_command success d)) = stream_part d" for success d
    by (simp add: stream_part_def)
  have buffer: "stream_part (d\<lparr>hc_command_buffer := b\<rparr>) = stream_part d"
    "stream_part (d\<lparr>hc_event_buffer := b\<rparr>) = stream_part d" "stream_part (d\<lparr>hc_orphans := ks\<rparr>) = stream_part d" for d b ks
    by (simp_all add: stream_part_def)
  show ?thesis
  proof (cases ev)
    case (EvStreamError socket)
    then show ?thesis using assms delay
      by (cases socket) (auto simp: event_error_def Let_def alive_schedule, simp add: stream_alive_def stream_part_def)
  next
    case EvConnectTimeout
    then show ?thesis using assms delay
      by (auto simp: connect_timeout_def Let_def alive_schedule) (auto simp: stream_alive_def stream_part_def)
  qed (use assms delay in \<open>simp_all add: alive_connected alive_schedule alive_connect event_readable_def
      event_disconnected_def reconnect_timeout_def command_connected_def command_readable_def
      command_disconnected_def command_error_def fin buffer Let_def split_beta split: option.split\<close>)
qed

lemma hypr_stream_step:
  "hypr_stream (fst (hypr_step qs env ev st)) =
   (case fst ev of
      HyStart \<Rightarrow> stream_part (fst (connect_events qs env ((hy_client st)\<lparr>hc_outcomes := snd ev\<rparr>)))
    | HyClient ce \<Rightarrow> stream_part (fst (client_step qs env ce ((hy_client st)\<lparr>hc_outcomes := snd ev\<rparr>)))
    | _ \<Rightarrow> hypr_stream st)"
proof -
  have outs: "stream_part ((hy_client st)\<lparr>hc_outcomes := os\<rparr>) = hypr_stream st" for os
    by (simp add: hypr_stream_def stream_part_def)
  show ?thesis
    by (cases "fst ev") (simp_all add: hypr_step_def split_beta hypr_start_def hypr_client_event_def
      hypr_stream_signals hypr_refresh_timer_def hypr_begin_refresh_def hypr_stream_ops outs
      hypr_activate_workspace_def hypr_activate_slot_def hypr_activate_special_def hypr_stream_nested
      hypr_request_window_def Let_def)
qed

text \<open>C28. Once started, the client never gives up the event stream: whatever happens to its sockets, the
  stream is open, or an attempt is supervised by the connect timeout, or the reconnect timer runs, and the
  delay before a retry stays between one and thirty seconds.\<close>

theorem hypr_stream_retried:
  "case stream_part (hy_client (hypr_steps qs env ((HyStart, outcomes) # evs) (hypr_init event_path command_path))) of
     (socket, timer, reconnect, delay) \<Rightarrow>
       (socket = Some EventOpen \<or> reconnect \<or> timer \<and> socket \<noteq> None) \<and> 1000 \<le> delay \<and> delay \<le> 30000"
proof -
  have "stream_alive (hypr_stream (hypr_steps qs env ((HyStart, outcomes) # evs) (hypr_init event_path command_path)))"
  proof (induction evs rule: rev_induct)
    case Nil
    show ?case
      by (simp add: hypr_steps_def hypr_stream_step alive_connect hypr_init_def client_init_def)
  next
    case (snoc ev evs)
    let ?st = "hypr_steps qs env ((HyStart, outcomes) # evs) (hypr_init event_path command_path)"
    let ?c = "(hy_client ?st)\<lparr>hc_outcomes := snd ev\<rparr>"
    have "stream_alive (stream_part ?c)" using snoc by (simp add: hypr_stream_def stream_part_def)
    moreover from this have "1000 \<le> hc_delay ?c" "hc_delay ?c \<le> 30000"
      by (simp_all only: stream_alive_def stream_part_def split_beta fst_conv snd_conv)
    ultimately have "stream_alive (hypr_stream (fst (hypr_step qs env ev ?st)))"
      using snoc alive_connect [of ?c qs env] alive_client_step [of ?c qs env]
      unfolding hypr_stream_step by (cases "fst ev") simp_all
    then show ?case by (simp add: hypr_steps_def)
  qed
  then show ?thesis by (simp add: stream_alive_def hypr_stream_def)
qed


section \<open>The commands of one event\<close>

lemma hypr_waiting_le: "hypr_waiting st \<le> 2"
  by (simp add: hypr_waiting_def)

lemma attempts_run_or_fail: "attempts (snd (hypr_run_or_fail qs env command diagnostic st)) \<le> 3"
  using hypr_attempts(1) [of qs env command st] hypr_waiting_le [of st]
  by (simp add: hypr_run_or_fail_def split_beta Let_def)

lemma attempts_drain_after: "attempts (snd r) = 0 \<Longrightarrow> attempts (snd (hypr_drain_after qs env r)) \<le> 3"
  using hypr_attempts(2) [of qs env "fst r"] hypr_waiting_le [of "fst r"]
  by (simp add: hypr_drain_after_def split_beta Let_def)

lemma attempts_publish [simp]: "attempts (snd (hypr_publish qs response st)) = 0"
  by (simp add: hypr_publish_def Let_def split: option.split json.split)

lemma attempts_command: "attempts (snd (hypr_handle_command qs env response success st)) \<le> 3"
  by (simp add: hypr_handle_command_def attempts_run_or_fail attempts_drain_after hypr_lua_workspace_def
      hypr_lua_window_def hypr_activation_done_def Let_def split_beta split: hypr_phase.split option.split)

lemma attempts_dispatch: "attempts (snd (hypr_dispatch qs env ws st)) \<le> 3"
  using hypr_attempts(3) [of qs env ws st] hypr_waiting_le [of st] by simp

lemma attempts_quiet_signals: "list_all quiet_signal sigs \<Longrightarrow> attempts (snd (hypr_signals qs env sigs st)) = 0"
proof (induction sigs arbitrary: st)
  case (Cons sig sigs)
  then show ?case by (cases sig) (simp_all add: split_beta)
qed simp

lemma attempts_request: "attempts (snd (hypr_request_window qs env request st)) \<le> 3"
proof -
  have "attempts (snd (snd (hypr_run qs env command st'))) \<le> 3" for command st'
    using hypr_attempts(1) [of qs env command st'] hypr_waiting_le [of st'] by simp
  then show ?thesis by (simp add: hypr_request_window_def Let_def split_beta)
qed

text \<open>C29. One event makes at most three attempts to send a command, also when connections fail inside the
  calls: the command itself and the two activations that may wait for it. So the nested callbacks end.\<close>

theorem hypr_cascade_bound: "attempts (snd (hypr_step qs env ev st)) \<le> 3"
proof -
  obtain e outcomes where ev: "ev = (e, outcomes)" by fastforce
  let ?st = "st\<lparr>hy_client := (hy_client st)\<lparr>hc_outcomes := outcomes\<rparr>\<rparr>"
  have "attempts (snd (hypr_handle qs env e ?st)) \<le> 3"
  proof (cases e)
    case HyStart
    have "list_all quiet_signal (snd (connect_events qs env (hy_client ?st)))"
      using connect_events_quiet by blast
    from attempts_quiet_signals [OF this, of qs env] show ?thesis
      using HyStart by (simp add: hypr_start_def split_beta)
  next
    case (HyClient ce)
    obtain c sigs where step: "client_step qs env ce (hy_client ?st) = (c, sigs)" by fastforce
    have res: "snd (hypr_client_event qs env ce ?st) = snd (hypr_signals qs env sigs (?st\<lparr>hy_client := c\<rparr>))"
      using step by (simp add: hypr_client_event_def)
    from step have "attempts (snd (hypr_client_event qs env ce ?st)) \<le> 3"
    proof (cases rule: client_step_cases)
      case quiet
      then show ?thesis unfolding res by (simp add: attempts_quiet_signals)
    next
      case (finished response success)
      then show ?thesis unfolding res using attempts_command by (simp add: split_beta)
    next
      case lost
      then obtain rest where "sigs = ClEventsDisconnected # rest" "list_all quiet_signal rest" by blast
      then show ?thesis unfolding res by (simp add: split_beta hypr_stream_lost_def attempts_quiet_signals)
    qed
    then show ?thesis using HyClient by simp
  next
    case HyRefreshTimer
    then show ?thesis by (simp add: hypr_refresh_timer_def hypr_begin_refresh_def attempts_run_or_fail)
  qed (simp_all add: hypr_activate_workspace_def hypr_activate_slot_def hypr_activate_special_def
      attempts_dispatch attempts_request)
  then show ?thesis by (simp add: hypr_step_def ev)
qed

section \<open>Lines of the event stream\<close>

lemma take_lines_append:
  "take_lines line (s @ s') =
   (fst (take_lines line s) @ fst (take_lines (snd (take_lines line s)) s'), snd (take_lines (snd (take_lines line s)) s'))"
  by (induction line s rule: take_lines.induct) (auto simp: split_beta)

lemma take_lines_plain: "CHR 0x0A \<notin> set s \<Longrightarrow> take_lines line s = ([], line @ s)"
  by (induction line s rule: take_lines.induct) auto

lemma take_lines_rest: "CHR 0x0A \<notin> set line \<Longrightarrow> CHR 0x0A \<notin> set (snd (take_lines line s))"
  by (induction line s rule: take_lines.induct) (simp_all add: split_beta)

text \<open>The events the client emits for a sequence of reads.\<close>

fun read_events :: "string list \<Rightarrow> hypr_client \<Rightarrow> hypr_client \<times> client_output list" where
  "read_events [] c = (c, [])"
| "read_events (chunk # chunks) c =
     (let (c1, out1) = event_readable chunk c; (c2, out2) = read_events chunks c1 in (c2, out1 @ out2))"

lemma event_readable_lines:
  assumes "length chunk \<le> 4096" and "CHR 0x0A \<notin> set (hc_event_buffer c)"
  shows "snd (event_readable chunk c) = map ClLine (fst (take_lines (hc_event_buffer c) chunk)) \<and>
    hc_event_buffer (fst (event_readable chunk c)) = snd (take_lines (hc_event_buffer c) chunk)"
  using assms take_lines_append [of "[]" "hc_event_buffer c" chunk] take_lines_plain [OF assms(2), of "[]"]
  by (simp add: event_readable_def Let_def split_beta)

lemma read_events_lines:
  assumes "\<forall>chunk \<in> set chunks. length chunk \<le> 4096" and "CHR 0x0A \<notin> set (hc_event_buffer c)"
  shows "snd (read_events chunks c) = map ClLine (fst (take_lines (hc_event_buffer c) (concat chunks))) \<and>
    hc_event_buffer (fst (read_events chunks c)) = snd (take_lines (hc_event_buffer c) (concat chunks))"
  using assms
proof (induction chunks arbitrary: c)
  case (Cons chunk chunks)
  let ?c1 = "fst (event_readable chunk c)"
  have here: "snd (event_readable chunk c) = map ClLine (fst (take_lines (hc_event_buffer c) chunk))"
    "hc_event_buffer ?c1 = snd (take_lines (hc_event_buffer c) chunk)"
    using event_readable_lines [of chunk c] Cons.prems by simp_all
  have "CHR 0x0A \<notin> set (hc_event_buffer ?c1)"
    using here(2) take_lines_rest [OF Cons.prems(2), of chunk] by simp
  then show ?case
    using Cons.IH [of ?c1] Cons.prems(1) here
    by (simp add: split_beta take_lines_append [of "hc_event_buffer c" chunk "concat chunks"])
qed simp

lemma take_lines_joined:
  "\<forall>l \<in> set ls. CHR 0x0A \<notin> set l \<Longrightarrow> CHR 0x0A \<notin> set rest \<Longrightarrow>
   take_lines [] (concat (map (\<lambda>l. l @ [CHR 0x0A]) ls) @ rest) = (ls, rest)"
proof (induction ls)
  case (Cons l ls)
  then show ?case
    by (simp add: take_lines_append [of "[]" l] take_lines_plain)
qed (simp add: take_lines_plain)

text \<open>C30. The lines Hyprland sends are the lines the backend receives, in order and each once, however the
  stream is cut into reads of at most 4096 bytes; an incomplete last line is kept. What the buffer already
  holds, an incomplete line of earlier reads, counts as the beginning of the stream, also when it was
  read before the stream was lost and opened again.\<close>

theorem event_lines_roundtrip:
  assumes "\<forall>l \<in> set ls. CHR 0x0A \<notin> set l" and "CHR 0x0A \<notin> set rest" and "CHR 0x0A \<notin> set (hc_event_buffer c)"
    and "\<forall>chunk \<in> set chunks. length chunk \<le> 4096"
    and "hc_event_buffer c @ concat chunks = concat (map (\<lambda>l. l @ [CHR 0x0A]) ls) @ rest"
  shows "snd (read_events chunks c) = map ClLine ls \<and> hc_event_buffer (fst (read_events chunks c)) = rest"
proof -
  have "take_lines (hc_event_buffer c) (concat chunks) = take_lines [] (hc_event_buffer c @ concat chunks)"
    using take_lines_plain [OF assms(3), of "[]"]
    by (simp add: take_lines_append [of "[]" "hc_event_buffer c"])
  also have "\<dots> = (ls, rest)" unfolding assms(5) by (rule take_lines_joined [OF assms(1,2)])
  finally show ?thesis using read_events_lines [OF assms(4,3)] by simp
qed

lemma event_lines_roundtrip_witness:
  "snd (read_events [''ent>>'', ''1'' @ [CHR 0x0A] @ ''focus''] ((client_init '''' '''')\<lparr>hc_event_buffer := ''urg''\<rparr>)) =
   [ClLine ''urgent>>1'']"
  using event_lines_roundtrip [of "[''urgent>>1'']" "''focus''" "(client_init '''' '''')\<lparr>hc_event_buffer := ''urg''\<rparr>"
      "[''ent>>'', ''1'' @ [CHR 0x0A] @ ''focus'']"]
  by simp

end
