(* ===== verification/Hyprland_Views.thy ===== *)
theory Hyprland_Views
  imports Hyprland_Snapshot
begin

text \<open>
  What a Hyprland snapshot shows: which workspaces and outputs are occupied, and which window is the active
  one of an output, in terms of the clients rather than of the tables the code builds.
\<close>

section \<open>Clients of a workspace\<close>

definition titled_on :: "int \<Rightarrow> hypr_client_info list \<Rightarrow> hypr_client_info list" where
  "titled_on ws clients = filter (\<lambda>c. hci_class c \<noteq> '''' \<and> hci_title c \<noteq> '''' \<and> hci_workspace c = ws) clients"

text \<open>The most recently focused client, the first one of several.\<close>

definition most_recent :: "hypr_client_info list \<Rightarrow> hypr_client_info option" where
  "most_recent cs = find (\<lambda>c. \<forall>d \<in> set cs. hci_focus c \<le> hci_focus d) cs"

lemma minimum_exists: "xs \<noteq> [] \<Longrightarrow> \<exists>b \<in> set xs. \<forall>d \<in> set xs. (f b :: int) \<le> f d"
proof (induction xs rule: list_nonempty_induct)
  case (cons x xs)
  then obtain b where "b \<in> set xs" "\<forall>d \<in> set xs. f b \<le> f d" by blast
  then show ?case by (cases "f x \<le> f b") (auto intro!: bexI [of _ x] bexI [of _ b] dest: order_trans)
qed simp

lemma most_recent_None: "most_recent cs = None \<longleftrightarrow> cs = []"
  using minimum_exists [of cs hci_focus] by (auto simp: most_recent_def find_None_iff)

lemma most_recent_Some: "most_recent cs = Some b \<Longrightarrow> b \<in> set cs \<and> (\<forall>d \<in> set cs. hci_focus b \<le> hci_focus d)"
  by (auto simp: most_recent_def find_Some_iff)

lemma most_recent_snoc:
  "most_recent (cs @ [c]) =
   (case most_recent cs of None \<Rightarrow> Some c | Some b \<Rightarrow> if hci_focus c < hci_focus b then Some c else Some b)"
proof (cases "most_recent cs")
  case None
  then show ?thesis by (simp add: most_recent_None) (simp add: most_recent_def)
next
  case (Some b)
  note b = most_recent_Some [OF Some]
  show ?thesis
  proof (cases "hci_focus c < hci_focus b")
    case True
    have "\<not> (\<forall>d \<in> set (cs @ [c]). hci_focus y \<le> hci_focus d)" if "y \<in> set cs" for y
      using that b True by force
    then have "find (\<lambda>y. \<forall>d \<in> set (cs @ [c]). hci_focus y \<le> hci_focus d) cs = None"
      by (simp add: find_None_iff)
    moreover have "\<forall>d \<in> set (cs @ [c]). hci_focus c \<le> hci_focus d" using b True by fastforce
    ultimately show ?thesis using Some True by (simp add: most_recent_def find_append)
  next
    case False
    have same: "(\<forall>d \<in> set (cs @ [c]). hci_focus y \<le> hci_focus d) \<longleftrightarrow> (\<forall>d \<in> set cs. hci_focus y \<le> hci_focus d)" for y
      using b False by fastforce
    have "find (\<lambda>y. \<forall>d \<in> set (cs @ [c]). hci_focus y \<le> hci_focus d) cs = Some b"
      using Some unfolding most_recent_def same .
    then show ?thesis using Some False by (simp add: most_recent_def find_append)
  qed
qed

lemma hash_get_insert [simp]: "hash_get d (hash_insert k v m) k' = (if k' = k then v else hash_get d m k')"
  by (simp add: hash_get_def)

lemma titled_on_snoc:
  "titled_on ws (cs @ [c]) =
   titled_on ws cs @ (if hci_class c \<noteq> '''' \<and> hci_title c \<noteq> '''' \<and> hci_workspace c = ws then [c] else [])"
  by (simp add: titled_on_def)

lemma collect_clients_tables:
  "hash_get 0 (fst (collect_clients cs)) ws = int (length (titled_on ws cs)) \<and>
   hash_value (snd (collect_clients cs)) ws = most_recent (titled_on ws cs)"
proof (induction cs arbitrary: ws rule: rev_induct)
  case Nil
  then show ?case by (simp add: collect_clients_def hash_get_def titled_on_def most_recent_def)
next
  case (snoc c cs)
  have step: "collect_clients (cs @ [c]) = collect_client c (collect_clients cs)"
    by (simp add: collect_clients_def)
  show ?case
    unfolding step titled_on_snoc
    using snoc.IH [of ws] snoc.IH [of "hci_workspace c"]
    by (auto simp: collect_client_def split_beta most_recent_snoc split: option.split)
qed

section \<open>The listing\<close>

definition json_workspace :: "json \<Rightarrow> int" where
  "json_workspace v = json_integer 32 0 (member (json_object v) ''id'')"

definition json_name :: "json \<Rightarrow> string" where
  "json_name v = json_text (member (json_object v) ''name'')"

definition json_listed :: "json \<Rightarrow> bool" where
  "json_listed v \<longleftrightarrow> json_workspace v \<noteq> 0 \<and> json_name v \<noteq> ''''"

definition json_special :: "json \<Rightarrow> bool" where
  "json_special v \<longleftrightarrow> workspace_special (json_workspace v) (json_name v)"

definition shown_outputs :: "hypr_monitors \<Rightarrow> json \<Rightarrow> string list" where
  "shown_outputs m v = (case hash_value (hm_outputs m) (json_workspace v) of Some output \<Rightarrow> [output] | None \<Rightarrow> [])"

abbreviation "has_titled clients v \<equiv> titled_on (json_workspace v) clients \<noteq> []"

text \<open>What the properties say about one workspace of the reply.\<close>

definition shown_workspace :: "hypr_monitors \<Rightarrow> hypr_client_info list \<Rightarrow> json \<Rightarrow>
    string \<times> string \<times> string list \<times> bool \<times> bool option" where
  "shown_workspace m clients v = (if json_special v then json_name v else integer_text (json_workspace v),
     json_name v, shown_outputs m v, json_workspace v \<in> set (hm_active m), Some (has_titled clients v))"

definition shown_window :: "hypr_monitors \<Rightarrow> hypr_client_info list \<Rightarrow> json \<Rightarrow> (string \<times> comp_active_window) option" where
  "shown_window m clients v = (if json_workspace v \<in> set (hm_active m)
     then map_option (\<lambda>c. (hash_get '''' (hm_outputs m) (json_workspace v),
            \<lparr>aw_app_id = hci_class c, aw_title = hci_title c, aw_category = ''''\<rparr>))
          (most_recent (titled_on (json_workspace v) clients))
     else None)"

text \<open>The occupancy of an output: of the active workspaces of the reply that are on it.\<close>

definition active_on :: "hypr_monitors \<Rightarrow> string \<Rightarrow> json \<Rightarrow> bool" where
  "active_on m screen v \<longleftrightarrow> json_workspace v \<in> set (hm_active m) \<and> screen \<in> set (shown_outputs m v)"

definition shown_occupied :: "hypr_monitors \<Rightarrow> hypr_client_info list \<Rightarrow> string \<Rightarrow> json list \<Rightarrow> bool option" where
  "shown_occupied m clients screen vs =
     (if \<exists>v \<in> set vs. active_on m screen v
      then Some (\<exists>v \<in> set vs. active_on m screen v \<and> has_titled clients v) else None)"

definition tuple_of :: "comp_workspace \<Rightarrow> string \<times> string \<times> string list \<times> bool \<times> bool option" where
  "tuple_of w = (cw_id w, cw_display_name w, cw_outputs w, cw_active w, cw_occupied w)"

definition special_tuple :: "special_workspace \<Rightarrow> string \<times> string \<times> string list \<times> bool \<times> bool option" where
  "special_tuple s = (sp_id s, sp_name s, sp_monitors s, sp_active s, Some (sp_occupied s))"

lemma append_workspace_shown:
  fixes clients :: "hypr_client_info list" and v :: json and m :: hypr_monitors and qs :: "'a qstring_ops_scheme"
  defines "l' l \<equiv> append_workspace qs clients m (collect_clients clients) v l"
  shows "map tuple_of (hl_workspaces (l' l)) = map tuple_of (hl_workspaces l) @
      (if json_listed v \<and> \<not> json_special v then [shown_workspace m clients v] else [])"
    and "map special_tuple (hl_specials (l' l)) = map special_tuple (hl_specials l) @
      (if json_listed v \<and> json_special v then [shown_workspace m clients v] else [])"
    and "hash_value (hl_active_windows (l' l)) screen =
      (case if json_listed v then shown_window m clients v else None of
         Some (o', w) \<Rightarrow> if screen = o' then Some w else hash_value (hl_active_windows l) screen
       | None \<Rightarrow> hash_value (hl_active_windows l) screen)"
    and "hash_value (hl_occupied_outputs (l' l)) screen =
      (if json_listed v \<and> active_on m screen v
       then Some (hash_get False (hl_occupied_outputs l) screen \<or> has_titled clients v)
       else hash_value (hl_occupied_outputs l) screen)"
proof -
  let ?ws = "json_workspace v"
  let ?entry = "workspace_entry qs clients m (fst (collect_clients clients)) ?ws (json_name v) (hl_urgent l) (hl_order l)"
  have count: "(hash_get 0 (fst (collect_clients clients)) ?ws > 0) = has_titled clients v"
    and best: "hash_value (snd (collect_clients clients)) ?ws = most_recent (titled_on ?ws clients)"
    using collect_clients_tables [of clients ?ws] by simp_all
  have entry: "tuple_of ?entry = shown_workspace m clients v" "special_tuple (special_entry ?entry) = shown_workspace m clients v"
    by (simp_all add: workspace_entry_def tuple_of_def special_tuple_def special_entry_def shown_workspace_def
        json_special_def shown_outputs_def count Let_def)
  have outs: "cw_outputs ?entry = shown_outputs m v" "(cw_occupied ?entry = Some True) = has_titled clients v"
    by (simp_all add: workspace_entry_def shown_outputs_def count Let_def)
  note defs = l'_def append_workspace_def Let_def json_listed_def json_special_def json_workspace_def json_name_def
  show "map tuple_of (hl_workspaces (l' l)) = map tuple_of (hl_workspaces l) @
      (if json_listed v \<and> \<not> json_special v then [shown_workspace m clients v] else [])"
    using entry(1) unfolding defs by (simp split: option.split bool.split)
  show "map special_tuple (hl_specials (l' l)) = map special_tuple (hl_specials l) @
      (if json_listed v \<and> json_special v then [shown_workspace m clients v] else [])"
    using entry(2) unfolding defs by (simp split: option.split bool.split)
  show "hash_value (hl_active_windows (l' l)) screen =
      (case if json_listed v then shown_window m clients v else None of
         Some (o', w) \<Rightarrow> if screen = o' then Some w else hash_value (hl_active_windows l) screen
       | None \<Rightarrow> hash_value (hl_active_windows l) screen)"
    using best unfolding defs shown_window_def by (auto split: option.split bool.split)
  show "hash_value (hl_occupied_outputs (l' l)) screen =
      (if json_listed v \<and> active_on m screen v
       then Some (hash_get False (hl_occupied_outputs l) screen \<or> has_titled clients v)
       else hash_value (hl_occupied_outputs l) screen)"
    using outs unfolding defs active_on_def shown_outputs_def by (auto split: option.split bool.split)
qed

text \<open>C31. The snapshot lists every workspace with an identifier and a name, in the order of the reply: the
  ordinary ones by number and the special ones apart; a workspace is occupied exactly when a client with
  class and title is on it. The active window of an output is the most recently focused such client of the
  last listed of the workspaces that are active there and have one, and there is none if no workspace is;
  an output is occupied exactly when one of the workspaces active there is.\<close>

theorem hypr_snapshot_shows:
  "let l = append_workspaces qs clients m urgents workspaces in
    map tuple_of (hl_workspaces l) =
      map (shown_workspace m clients) (filter (\<lambda>v. json_listed v \<and> \<not> json_special v) workspaces) \<and>
    map special_tuple (hl_specials l) =
      map (shown_workspace m clients) (filter (\<lambda>v. json_listed v \<and> json_special v) workspaces) \<and>
    (\<forall>screen. hash_value (hl_active_windows l) screen =
       map_of (rev (List.map_filter (shown_window m clients) (filter json_listed workspaces))) screen) \<and>
    (\<forall>screen. hash_value (hl_occupied_outputs l) screen = shown_occupied m clients screen (filter json_listed workspaces))"
proof -
  have "map tuple_of (hl_workspaces (append_workspaces qs clients m urgents vs)) =
      map (shown_workspace m clients) (filter (\<lambda>v. json_listed v \<and> \<not> json_special v) vs) \<and>
    map special_tuple (hl_specials (append_workspaces qs clients m urgents vs)) =
      map (shown_workspace m clients) (filter (\<lambda>v. json_listed v \<and> json_special v) vs) \<and>
    hash_value (hl_active_windows (append_workspaces qs clients m urgents vs)) screen =
      map_of (rev (List.map_filter (shown_window m clients) (filter json_listed vs))) screen \<and>
    hash_value (hl_occupied_outputs (append_workspaces qs clients m urgents vs)) screen =
      shown_occupied m clients screen (filter json_listed vs)" for vs screen
  proof (induction vs rule: rev_induct)
    case Nil
    show ?case by (simp add: append_workspaces_def shown_occupied_def List.map_filter_def)
  next
    case (snoc v vs)
    have step: "append_workspaces qs clients m urgents (vs @ [v]) =
        append_workspace qs clients m (collect_clients clients) v (append_workspaces qs clients m urgents vs)"
      by (simp add: append_workspaces_def)
    have windows: "map_of (rev (List.map_filter (shown_window m clients) (filter json_listed (vs @ [v])))) screen =
        (case if json_listed v then shown_window m clients v else None of
           Some (o', w) \<Rightarrow> if screen = o' then Some w
             else map_of (rev (List.map_filter (shown_window m clients) (filter json_listed vs))) screen
         | None \<Rightarrow> map_of (rev (List.map_filter (shown_window m clients) (filter json_listed vs))) screen)"
      by (auto simp: List.map_filter_def split: option.split)
    have occupied: "shown_occupied m clients screen (filter json_listed (vs @ [v])) =
        (if json_listed v \<and> active_on m screen v
         then Some (shown_occupied m clients screen (filter json_listed vs) = Some True \<or> has_titled clients v)
         else shown_occupied m clients screen (filter json_listed vs))"
      by (auto simp: shown_occupied_def)
    have "hash_get False (hl_occupied_outputs (append_workspaces qs clients m urgents vs)) screen =
        (shown_occupied m clients screen (filter json_listed vs) = Some True)"
      using snoc by (simp add: hash_get_def split: option.split)
    moreover note snoc
    ultimately show ?case
      unfolding step append_workspace_shown windows occupied
      by (intro conjI) (simp_all split: option.split)
  qed
  then show ?thesis unfolding Let_def by blast
qed

end
