(* ===== verification/Audio_Models.thy ===== *)
theory Audio_Models
  imports Qt_Prelude
begin

text \<open>
  The records of \<open>AudioTypes.h\<close> and the list models \<open>AudioDeviceModel\<close> and \<open>AudioStreamModel\<close>. The
  models tell their views which roles of a row changed; a view that reads only those roles again still
  shows every row. The device model also keeps the data of the first default device as a property.
\<close>

section \<open>Records\<close>

datatype audio_device_type = Sink | Source

datatype audio_stream_type = SinkInput | SourceOutput

datatype audio_health = HealthConnected | HealthReconnecting | HealthFailed

record audio_device =
  ad_index :: "32 word"
  ad_name :: string
  ad_description :: string
  ad_display_name :: string
  ad_raw_description :: string
  ad_vendor_name :: string
  ad_product_name :: string
  ad_port_name :: string
  ad_port_description :: string
  ad_form_factor :: string
  ad_volume :: "8 word"
  ad_muted :: bool
  ad_default :: bool
  ad_type :: audio_device_type
  ad_bus_type :: string
  ad_channel_count :: "8 word"
  ad_sample_rate :: "32 word"
  ad_codec :: string
  ad_icon_name :: string

record audio_stream =
  as_index :: "32 word"
  as_name :: string
  as_application :: string
  as_icon_name :: string
  as_device :: "32 word"
  as_volume :: "8 word"
  as_muted :: bool
  as_type :: audio_stream_type
  as_application_id :: string
  as_process_binary :: string

definition default_audio_device :: audio_device where
  "default_audio_device = \<lparr>ad_index = 0, ad_name = '''', ad_description = '''', ad_display_name = '''',
     ad_raw_description = '''', ad_vendor_name = '''', ad_product_name = '''', ad_port_name = '''',
     ad_port_description = '''', ad_form_factor = '''', ad_volume = 0, ad_muted = False, ad_default = False,
     ad_type = Sink, ad_bus_type = '''', ad_channel_count = 0, ad_sample_rate = 0, ad_codec = '''',
     ad_icon_name = ''''\<rparr>"

definition default_audio_stream :: audio_stream where
  "default_audio_stream = \<lparr>as_index = 0, as_name = '''', as_application = '''', as_icon_name = '''',
     as_device = 0, as_volume = 0, as_muted = False, as_type = SinkInput, as_application_id = '''',
     as_process_binary = ''''\<rparr>"

section \<open>Roles\<close>

text \<open>What a role shows, as a \<open>QVariant\<close>.\<close>

datatype role_value = RvNone | RvNumber "32 word" | RvText string | RvByte "8 word" | RvFlag bool

datatype device_role =
    DeviceId | DeviceName | Description | DisplayName | RawDescription | VendorName | ProductName | PortName
  | PortDescription | FormFactor | DeviceVolume | DeviceMuted | IsDefault | BusType | ChannelCount | SampleRate
  | Codec | DeviceIcon

datatype stream_role =
    StreamId | StreamName | Application | StreamIcon | StreamVolume | StreamMuted | CurrentDevice
  | ApplicationId | ProcessBinary

fun device_value :: "audio_device \<Rightarrow> device_role \<Rightarrow> role_value" where
  "device_value d DeviceId = RvNumber (ad_index d)"
| "device_value d DeviceName = RvText (ad_name d)"
| "device_value d Description = RvText (ad_description d)"
| "device_value d DisplayName = RvText (ad_display_name d)"
| "device_value d RawDescription = RvText (ad_raw_description d)"
| "device_value d VendorName = RvText (ad_vendor_name d)"
| "device_value d ProductName = RvText (ad_product_name d)"
| "device_value d PortName = RvText (ad_port_name d)"
| "device_value d PortDescription = RvText (ad_port_description d)"
| "device_value d FormFactor = RvText (ad_form_factor d)"
| "device_value d DeviceVolume = RvByte (ad_volume d)"
| "device_value d DeviceMuted = RvFlag (ad_muted d)"
| "device_value d IsDefault = RvFlag (ad_default d)"
| "device_value d BusType = RvText (ad_bus_type d)"
| "device_value d ChannelCount = RvByte (ad_channel_count d)"
| "device_value d SampleRate = RvNumber (ad_sample_rate d)"
| "device_value d Codec = RvText (ad_codec d)"
| "device_value d DeviceIcon = RvText (ad_icon_name d)"

fun stream_value :: "audio_stream \<Rightarrow> stream_role \<Rightarrow> role_value" where
  "stream_value s StreamId = RvNumber (as_index s)"
| "stream_value s StreamName = RvText (as_name s)"
| "stream_value s Application = RvText (as_application s)"
| "stream_value s StreamIcon = RvText (as_icon_name s)"
| "stream_value s StreamVolume = RvByte (as_volume s)"
| "stream_value s StreamMuted = RvFlag (as_muted s)"
| "stream_value s CurrentDevice = RvNumber (as_device s)"
| "stream_value s ApplicationId = RvText (as_application_id s)"
| "stream_value s ProcessBinary = RvText (as_process_binary s)"

definition device_data :: "audio_device list \<Rightarrow> int \<Rightarrow> device_role \<Rightarrow> role_value" where
  "device_data rows row role =
     (if row < 0 \<or> row \<ge> int (length rows) then RvNone else device_value (rows ! nat row) role)"

definition stream_data :: "audio_stream list \<Rightarrow> int \<Rightarrow> stream_role \<Rightarrow> role_value" where
  "stream_data rows row role =
     (if row < 0 \<or> row \<ge> int (length rows) then RvNone else stream_value (rows ! nat row) role)"

definition device_role_names :: "(device_role \<times> string) list" where
  "device_role_names = [(DeviceId, ''deviceId''), (DeviceName, ''name''), (Description, ''description''),
     (DisplayName, ''displayName''), (RawDescription, ''rawDescription''), (VendorName, ''vendorName''),
     (ProductName, ''productName''), (PortName, ''portName''), (PortDescription, ''portDescription''),
     (FormFactor, ''formFactor''), (DeviceVolume, ''volume''), (DeviceMuted, ''muted''),
     (IsDefault, ''isDefault''), (BusType, ''busType''), (ChannelCount, ''channelCount''),
     (SampleRate, ''sampleRate''), (Codec, ''codec''), (DeviceIcon, ''iconName'')]"

definition stream_role_names :: "(stream_role \<times> string) list" where
  "stream_role_names = [(StreamId, ''streamId''), (StreamName, ''name''), (Application, ''application''),
     (StreamIcon, ''iconName''), (StreamVolume, ''volume''), (StreamMuted, ''muted''),
     (CurrentDevice, ''currentDevice''), (ApplicationId, ''applicationId''), (ProcessBinary, ''processBinary'')]"

definition changed_roles :: "audio_device \<Rightarrow> audio_device \<Rightarrow> device_role list" where
  "changed_roles p c =
     (if ad_index p \<noteq> ad_index c then [DeviceId] else []) @
     (if ad_name p \<noteq> ad_name c then [DeviceName] else []) @
     (if ad_description p \<noteq> ad_description c then [Description] else []) @
     (if ad_display_name p \<noteq> ad_display_name c then [DisplayName] else []) @
     (if ad_raw_description p \<noteq> ad_raw_description c then [RawDescription] else []) @
     (if ad_vendor_name p \<noteq> ad_vendor_name c then [VendorName] else []) @
     (if ad_product_name p \<noteq> ad_product_name c then [ProductName] else []) @
     (if ad_port_name p \<noteq> ad_port_name c then [PortName] else []) @
     (if ad_port_description p \<noteq> ad_port_description c then [PortDescription] else []) @
     (if ad_form_factor p \<noteq> ad_form_factor c then [FormFactor] else []) @
     (if ad_volume p \<noteq> ad_volume c then [DeviceVolume] else []) @
     (if ad_muted p \<noteq> ad_muted c then [DeviceMuted] else []) @
     (if ad_default p \<noteq> ad_default c then [IsDefault] else []) @
     (if ad_bus_type p \<noteq> ad_bus_type c then [BusType] else []) @
     (if ad_channel_count p \<noteq> ad_channel_count c then [ChannelCount] else []) @
     (if ad_sample_rate p \<noteq> ad_sample_rate c then [SampleRate] else []) @
     (if ad_codec p \<noteq> ad_codec c then [Codec] else []) @
     (if ad_icon_name p \<noteq> ad_icon_name c then [DeviceIcon] else [])"

section \<open>The device model\<close>

text \<open>A map from the role names to the values of a device, as \<open>refreshDefaultDevice\<close> builds it.\<close>

definition device_map :: "audio_device \<Rightarrow> (string \<times> role_value) list" where
  "device_map d = map (\<lambda>(role, name). (name, device_value d role)) device_role_names"

record device_model =
  dm_rows :: "audio_device list"
  dm_default :: "(string \<times> role_value) list"

text \<open>As the row notifications, \<open>DefaultDeviceChanged\<close> carries what its receiver reads.\<close>

datatype device_signal =
    DeviceInserted nat audio_device
  | DeviceUpdated nat audio_device "device_role list"
  | DeviceTaken nat
  | DevicesReset
  | DefaultDeviceChanged "(string \<times> role_value) list"

definition device_model_init :: device_model where
  "device_model_init = \<lparr>dm_rows = [], dm_default = []\<rparr>"

definition default_map :: "audio_device list \<Rightarrow> (string \<times> role_value) list" where
  "default_map rows = (case find ad_default rows of Some d \<Rightarrow> device_map d | None \<Rightarrow> [])"

definition refresh_default :: "device_model \<Rightarrow> device_model \<times> device_signal list" where
  "refresh_default m =
     (let next_map = default_map (dm_rows m) in
      if next_map = dm_default m then (m, []) else (m\<lparr>dm_default := next_map\<rparr>, [DefaultDeviceChanged next_map]))"

definition device_add :: "audio_device \<Rightarrow> device_model \<Rightarrow> device_model \<times> device_signal list" where
  "device_add d m =
     (let row = row_of ad_index (ad_index d) (dm_rows m) in
      if row < length (dm_rows m) then
        (let roles = changed_roles (dm_rows m ! row) d in
         if roles = [] then (m, [])
         else
           let (m', out) = refresh_default (m\<lparr>dm_rows := (dm_rows m)[row := d]\<rparr>)
           in (m', DeviceUpdated row d roles # out))
      else
        let (m', out) = refresh_default (m\<lparr>dm_rows := dm_rows m @ [d]\<rparr>)
        in (m', DeviceInserted (length (dm_rows m)) d # out))"

definition device_change :: "audio_device \<Rightarrow> device_model \<Rightarrow> device_model \<times> device_signal list" where
  "device_change d m =
     (let row = row_of ad_index (ad_index d) (dm_rows m) in
      if row < length (dm_rows m) then
        (let roles = changed_roles (dm_rows m ! row) d in
         if roles = [] then (m, [])
         else
           let (m', out) = refresh_default (m\<lparr>dm_rows := (dm_rows m)[row := d]\<rparr>)
           in (m', DeviceUpdated row d roles # out))
      else device_add d m)"

definition device_remove :: "32 word \<Rightarrow> device_model \<Rightarrow> device_model \<times> device_signal list" where
  "device_remove k m =
     (let row = row_of ad_index k (dm_rows m) in
      if row < length (dm_rows m) then
        (let (m', out) = refresh_default (m\<lparr>dm_rows := remove_row row (dm_rows m)\<rparr>) in (m', DeviceTaken row # out))
      else (m, []))"

definition device_clear :: "device_model \<Rightarrow> device_model \<times> device_signal list" where
  "device_clear m = (let (m', out) = refresh_default (m\<lparr>dm_rows := []\<rparr>) in (m', DevicesReset # out))"

section \<open>The stream model\<close>

definition stream_add :: "audio_stream \<Rightarrow> audio_stream list \<Rightarrow> audio_stream list \<times> audio_stream row_signal list" where
  "stream_add s rows =
     (let row = row_of as_index (as_index s) rows in
      if row < length rows then (rows[row := s], [RowChanged row s])
      else (rows @ [s], [RowInserted (length rows) s]))"

definition stream_change :: "audio_stream \<Rightarrow> audio_stream list \<Rightarrow> audio_stream list \<times> audio_stream row_signal list" where
  "stream_change s rows =
     (let row = row_of as_index (as_index s) rows in
      if row < length rows then (rows[row := s], [RowChanged row s]) else stream_add s rows)"

definition stream_remove :: "32 word \<Rightarrow> audio_stream list \<Rightarrow> audio_stream list \<times> audio_stream row_signal list" where
  "stream_remove k rows =
     (let row = row_of as_index k rows in
      if row < length rows then (remove_row row rows, [RowRemoved row]) else (rows, []))"

definition stream_clear :: "audio_stream list \<Rightarrow> audio_stream list \<times> audio_stream row_signal list" where
  "stream_clear rows = ([], [ModelReset []])"

datatype stream_change_op = StreamAdded audio_stream | StreamChanged audio_stream | StreamRemoved "32 word" | StreamsCleared

fun stream_model_apply ::
  "stream_change_op \<Rightarrow> audio_stream list \<Rightarrow> audio_stream list \<times> audio_stream row_signal list" where
  "stream_model_apply (StreamAdded s) rows = stream_add s rows"
| "stream_model_apply (StreamChanged s) rows = stream_change s rows"
| "stream_model_apply (StreamRemoved k) rows = stream_remove k rows"
| "stream_model_apply StreamsCleared rows = stream_clear rows"

interpretation stream_view: row_observed stream_model_apply
proof unfold_locales
  fix op rows
  show "replay (snd (stream_model_apply op rows)) rows = fst (stream_model_apply op rows)"
    by (cases op) (simp_all add: stream_add_def stream_change_def stream_remove_def stream_clear_def Let_def)
qed

end
