(* ===== verification/Audio_Controller.thy ===== *)
theory Audio_Controller
  imports Audio_Models
begin

text \<open>
  \<open>AudioController.cpp\<close> and the interface \<open>AudioBackend.h\<close> between it and a backend. A call to the
  backend and a signal to a client are outputs, in the order in which the controller makes them. Every
  call to the backend is the last action of the operation that makes it, and no handler of a backend
  signal calls the backend, so a backend that emits signals inside a call meets a controller between
  operations.
\<close>

section \<open>The interface of a backend\<close>

datatype audio_call =
    CallStart
  | CallStop
  | CallStartLevel
  | CallStopLevel
  | CallDeviceVolume "32 word" int
  | CallDeviceMuted "32 word" bool
  | CallSourceVolume "32 word" int
  | CallSourceMuted "32 word" bool
  | CallDefaultOutput "32 word"
  | CallDefaultInput "32 word"
  | CallDefaultOutputByName string
  | CallDefaultInputByName string
  | CallStreamVolume "32 word" int
  | CallStreamMuted "32 word" bool
  | CallMoveStream "32 word" "32 word"

datatype audio_signal =
    SigDeviceAdded audio_device
  | SigSinkRemoved "32 word"
  | SigSourceRemoved "32 word"
  | SigDeviceChanged audio_device
  | SigStreamAdded audio_stream
  | SigStreamRemoved "32 word"
  | SigStreamChanged audio_stream
  | SigAvailable bool
  | SigHealth audio_health
  | SigInputLevel int

section \<open>State\<close>

record audio_state =
  ac_backend :: bool
  ac_outputs :: device_model
  ac_inputs :: device_model
  ac_playback :: "audio_stream list"
  ac_recording :: "audio_stream list"
  ac_default_output :: "32 word"
  ac_input_level :: int
  ac_level_users :: int
  ac_volume :: int
  ac_muted :: bool
  ac_available :: bool
  ac_started :: bool
  ac_health :: audio_health

datatype audio_out =
    OutputsChanged device_signal
  | InputsChanged device_signal
  | PlaybackChanged "audio_stream row_signal"
  | RecordingChanged "audio_stream row_signal"
  | BackendCall audio_call
  | VolumeChanged
  | MutedChanged
  | AvailableChanged
  | HealthStateChanged
  | DefaultOutputIdChanged
  | InputLevelChanged int

definition invalid_audio_index :: "32 word" where
  "invalid_audio_index = 0xFFFFFFFF"

definition audio_init :: "bool \<Rightarrow> audio_state" where
  "audio_init has_backend = \<lparr>ac_backend = has_backend, ac_outputs = device_model_init,
     ac_inputs = device_model_init, ac_playback = [], ac_recording = [], ac_default_output = invalid_audio_index,
     ac_input_level = 0, ac_level_users = 0, ac_volume = 0, ac_muted = False, ac_available = False,
     ac_started = False, ac_health = HealthConnected\<rparr>"

section \<open>Requests of the clients\<close>

text \<open>The shape of most setters: the call goes to the backend when there is one.\<close>

definition call_backend :: "audio_call \<Rightarrow> audio_state \<Rightarrow> audio_state \<times> audio_out list" where
  "call_backend c st = (st, if ac_backend st then [BackendCall c] else [])"

definition audio_start :: "audio_state \<Rightarrow> audio_state \<times> audio_out list" where
  "audio_start st =
     (if ac_started st then (st, [])
      else let st1 = st\<lparr>ac_started := True\<rparr> in if \<not> ac_backend st1 then (st1, []) else (st1, [BackendCall CallStart]))"

definition set_volume :: "int \<Rightarrow> audio_state \<Rightarrow> audio_state \<times> audio_out list" where
  "set_volume percent st =
     (if \<not> ac_backend st \<or> ac_default_output st = invalid_audio_index then (st, [])
      else (st, [BackendCall (CallDeviceVolume (ac_default_output st) percent)]))"

definition set_default_output_muted :: "bool \<Rightarrow> audio_state \<Rightarrow> audio_state \<times> audio_out list" where
  "set_default_output_muted m st =
     (if \<not> ac_backend st \<or> ac_default_output st = invalid_audio_index then (st, [])
      else (st, [BackendCall (CallDeviceMuted (ac_default_output st) m)]))"

definition start_level_monitoring :: "audio_state \<Rightarrow> audio_state \<times> audio_out list" where
  "start_level_monitoring st =
     (let st1 = st\<lparr>ac_level_users := ac_level_users st + 1\<rparr> in
      (st1, if ac_backend st1 \<and> ac_level_users st1 = 1 then [BackendCall CallStartLevel] else []))"

definition stop_level_monitoring :: "audio_state \<Rightarrow> audio_state \<times> audio_out list" where
  "stop_level_monitoring st =
     (if ac_level_users st = 0 then (st, [])
      else
        let st1 = st\<lparr>ac_level_users := ac_level_users st - 1\<rparr> in
        (st1, if ac_backend st1 \<and> ac_level_users st1 = 0 then [BackendCall CallStopLevel] else []))"

datatype audio_request =
    ReqSetVolume int
  | ReqSetDefaultOutput "32 word"
  | ReqSetDefaultInput "32 word"
  | ReqSetDefaultOutputByName string
  | ReqSetDefaultInputByName string
  | ReqSetDeviceVolume "32 word" int
  | ReqSetDeviceMuted "32 word" bool
  | ReqSetDefaultOutputMuted bool
  | ReqSetInputDeviceVolume "32 word" int
  | ReqSetInputDeviceMuted "32 word" bool
  | ReqSetStreamVolume "32 word" int
  | ReqSetStreamMuted "32 word" bool
  | ReqMoveStreamToOutput "32 word" "32 word"
  | ReqMoveStreamToInput "32 word" "32 word"

fun audio_request_step :: "audio_request \<Rightarrow> audio_state \<Rightarrow> audio_state \<times> audio_out list" where
  "audio_request_step (ReqSetVolume percent) st = set_volume percent st"
| "audio_request_step (ReqSetDefaultOutput k) st = call_backend (CallDefaultOutput k) st"
| "audio_request_step (ReqSetDefaultInput k) st = call_backend (CallDefaultInput k) st"
| "audio_request_step (ReqSetDefaultOutputByName name) st = call_backend (CallDefaultOutputByName name) st"
| "audio_request_step (ReqSetDefaultInputByName name) st = call_backend (CallDefaultInputByName name) st"
| "audio_request_step (ReqSetDeviceVolume k percent) st = call_backend (CallDeviceVolume k percent) st"
| "audio_request_step (ReqSetDeviceMuted k m) st = call_backend (CallDeviceMuted k m) st"
| "audio_request_step (ReqSetDefaultOutputMuted m) st = set_default_output_muted m st"
| "audio_request_step (ReqSetInputDeviceVolume k percent) st = call_backend (CallSourceVolume k percent) st"
| "audio_request_step (ReqSetInputDeviceMuted k m) st = call_backend (CallSourceMuted k m) st"
| "audio_request_step (ReqSetStreamVolume k percent) st = call_backend (CallStreamVolume k percent) st"
| "audio_request_step (ReqSetStreamMuted k m) st = call_backend (CallStreamMuted k m) st"
| "audio_request_step (ReqMoveStreamToOutput k sink) st = call_backend (CallMoveStream k sink) st"
| "audio_request_step (ReqMoveStreamToInput k source) st = call_backend (CallMoveStream k source) st"

section \<open>Signals of the backend\<close>

definition apply_volume :: "int \<Rightarrow> audio_state \<Rightarrow> audio_state \<times> audio_out list" where
  "apply_volume v st = (if ac_volume st = v then (st, []) else (st\<lparr>ac_volume := v\<rparr>, [VolumeChanged]))"

definition apply_muted :: "bool \<Rightarrow> audio_state \<Rightarrow> audio_state \<times> audio_out list" where
  "apply_muted m st = (if ac_muted st = m then (st, []) else (st\<lparr>ac_muted := m\<rparr>, [MutedChanged]))"

definition apply_input_level :: "int \<Rightarrow> audio_state \<Rightarrow> audio_state \<times> audio_out list" where
  "apply_input_level v st =
     (if ac_input_level st = v then (st, []) else (st\<lparr>ac_input_level := v\<rparr>, [InputLevelChanged v]))"

definition set_available :: "bool \<Rightarrow> audio_state \<Rightarrow> audio_state \<times> audio_out list" where
  "set_available v st =
     (let (st1, out1) =
            (if \<not> v then
               let (playback, sigs1) = stream_clear (ac_playback st); (recording, sigs2) = stream_clear (ac_recording st)
               in (st\<lparr>ac_playback := playback, ac_recording := recording\<rparr>,
                   map PlaybackChanged sigs1 @ map RecordingChanged sigs2)
             else (st, []))
      in if ac_available st1 = v then (st1, out1) else (st1\<lparr>ac_available := v\<rparr>, out1 @ [AvailableChanged]))"

definition set_health :: "audio_health \<Rightarrow> audio_state \<Rightarrow> audio_state \<times> audio_out list" where
  "set_health h st = (if ac_health st = h then (st, []) else (st\<lparr>ac_health := h\<rparr>, [HealthStateChanged]))"

definition apply_default_device :: "audio_device \<Rightarrow> audio_state \<Rightarrow> audio_state \<times> audio_out list" where
  "apply_default_device d st =
     (if ad_type d = Sink then
        let (st1, out1) =
              (if ac_default_output st \<noteq> ad_index d
               then (st\<lparr>ac_default_output := ad_index d\<rparr>, [DefaultOutputIdChanged]) else (st, []));
            (st2, out2) = apply_volume (int (unat (ad_volume d))) st1;
            (st3, out3) = apply_muted (ad_muted d) st2
        in (st3, out1 @ out2 @ out3)
      else (st, []))"

definition on_device ::
  "(audio_device \<Rightarrow> device_model \<Rightarrow> device_model \<times> device_signal list) \<Rightarrow> audio_device \<Rightarrow>
   audio_state \<Rightarrow> audio_state \<times> audio_out list" where
  "on_device apply_device d st =
     (let (st1, out1) =
            (if ad_type d = Sink then
               let (m, sigs) = apply_device d (ac_outputs st) in (st\<lparr>ac_outputs := m\<rparr>, map OutputsChanged sigs)
             else
               let (m, sigs) = apply_device d (ac_inputs st) in (st\<lparr>ac_inputs := m\<rparr>, map InputsChanged sigs));
          (st2, out2) = (if ad_default d then apply_default_device d st1 else (st1, []))
      in (st2, out1 @ out2))"

definition on_device_added :: "audio_device \<Rightarrow> audio_state \<Rightarrow> audio_state \<times> audio_out list" where
  "on_device_added d st = on_device device_add d st"

definition on_device_changed :: "audio_device \<Rightarrow> audio_state \<Rightarrow> audio_state \<times> audio_out list" where
  "on_device_changed d st = on_device device_change d st"

definition on_sink_removed :: "32 word \<Rightarrow> audio_state \<Rightarrow> audio_state \<times> audio_out list" where
  "on_sink_removed k st =
     (let (m, sigs) = device_remove k (ac_outputs st); st1 = st\<lparr>ac_outputs := m\<rparr> in
      if k = ac_default_output st1
      then (st1\<lparr>ac_default_output := invalid_audio_index\<rparr>, map OutputsChanged sigs @ [DefaultOutputIdChanged])
      else (st1, map OutputsChanged sigs))"

definition on_source_removed :: "32 word \<Rightarrow> audio_state \<Rightarrow> audio_state \<times> audio_out list" where
  "on_source_removed k st =
     (let (m, sigs) = device_remove k (ac_inputs st) in (st\<lparr>ac_inputs := m\<rparr>, map InputsChanged sigs))"

definition on_stream ::
  "(audio_stream \<Rightarrow> audio_stream list \<Rightarrow> audio_stream list \<times> audio_stream row_signal list) \<Rightarrow> audio_stream \<Rightarrow>
   audio_state \<Rightarrow> audio_state \<times> audio_out list" where
  "on_stream apply_stream s st =
     (if as_type s = SinkInput then
        let (rows, sigs) = apply_stream s (ac_playback st) in (st\<lparr>ac_playback := rows\<rparr>, map PlaybackChanged sigs)
      else
        let (rows, sigs) = apply_stream s (ac_recording st) in (st\<lparr>ac_recording := rows\<rparr>, map RecordingChanged sigs))"

definition on_stream_added :: "audio_stream \<Rightarrow> audio_state \<Rightarrow> audio_state \<times> audio_out list" where
  "on_stream_added s st = on_stream stream_add s st"

definition on_stream_changed :: "audio_stream \<Rightarrow> audio_state \<Rightarrow> audio_state \<times> audio_out list" where
  "on_stream_changed s st = on_stream stream_change s st"

definition on_stream_removed :: "32 word \<Rightarrow> audio_state \<Rightarrow> audio_state \<times> audio_out list" where
  "on_stream_removed k st =
     (let (playback, sigs1) = stream_remove k (ac_playback st); (recording, sigs2) = stream_remove k (ac_recording st)
      in (st\<lparr>ac_playback := playback, ac_recording := recording\<rparr>,
          map PlaybackChanged sigs1 @ map RecordingChanged sigs2))"

text \<open>The connections that \<open>start\<close> makes: a signal that comes before them reaches nobody.\<close>

fun on_signal :: "audio_signal \<Rightarrow> audio_state \<Rightarrow> audio_state \<times> audio_out list" where
  "on_signal (SigAvailable v) st = set_available v st"
| "on_signal (SigHealth h) st = set_health h st"
| "on_signal (SigDeviceAdded d) st = on_device_added d st"
| "on_signal (SigDeviceChanged d) st = on_device_changed d st"
| "on_signal (SigSinkRemoved k) st = on_sink_removed k st"
| "on_signal (SigSourceRemoved k) st = on_source_removed k st"
| "on_signal (SigStreamAdded s) st = on_stream_added s st"
| "on_signal (SigStreamRemoved k) st = on_stream_removed k st"
| "on_signal (SigStreamChanged s) st = on_stream_changed s st"
| "on_signal (SigInputLevel v) st = apply_input_level v st"

datatype audio_event =
    ClientStart
  | ClientRequest audio_request
  | ClientStartLevel
  | ClientStopLevel
  | BackendSignal audio_signal

fun audio_step :: "audio_event \<Rightarrow> audio_state \<Rightarrow> audio_state \<times> audio_out list" where
  "audio_step ClientStart st = audio_start st"
| "audio_step (ClientRequest r) st = audio_request_step r st"
| "audio_step ClientStartLevel st = start_level_monitoring st"
| "audio_step ClientStopLevel st = stop_level_monitoring st"
| "audio_step (BackendSignal s) st = (if ac_started st \<and> ac_backend st then on_signal s st else (st, []))"

fun audio_run :: "audio_event list \<Rightarrow> audio_state \<Rightarrow> audio_state \<times> audio_out list" where
  "audio_run [] st = (st, [])"
| "audio_run (e # es) st =
     (let (st1, out1) = audio_step e st; (st2, out2) = audio_run es st1 in (st2, out1 @ out2))"

end
