(* ===== verification/Audio_Runs.thy ===== *)
theory Audio_Runs
  imports Audio_Controller
begin

text \<open>
  What holds of the audio list models and of the controller after any sequence of requests and signals:
  a view that rereads only the roles it is told of shows every device; the four models are the maps that
  the signals of the backend describe; the state of the controller stays well formed; and the calls that
  start and stop the level monitor alternate.
\<close>

section \<open>Views of the device model\<close>

text \<open>
  What a view keeps of a row is the value of every role. It reads all of them when the row is inserted
  and only those of the notification when the row changes. The second component is the default device.
\<close>

type_synonym device_view = "(device_role \<Rightarrow> role_value) list \<times> (string \<times> role_value) list"

definition reread :: "audio_device \<Rightarrow> device_role list \<Rightarrow> (device_role \<Rightarrow> role_value) \<Rightarrow> device_role \<Rightarrow> role_value" where
  "reread d roles shown = (\<lambda>role. if role \<in> set roles then device_value d role else shown role)"

fun device_replay1 :: "device_signal \<Rightarrow> device_view \<Rightarrow> device_view" where
  "device_replay1 (DeviceInserted i d) (rows, def) = (take i rows @ device_value d # drop i rows, def)"
| "device_replay1 (DeviceUpdated i d roles) (rows, def) = (rows[i := reread d roles (rows ! i)], def)"
| "device_replay1 (DeviceTaken i) (rows, def) = (remove_row i rows, def)"
| "device_replay1 DevicesReset (rows, def) = ([], def)"
| "device_replay1 (DefaultDeviceChanged m) (rows, def) = (rows, m)"

definition device_replay :: "device_signal list \<Rightarrow> device_view \<Rightarrow> device_view" where
  "device_replay sigs v = fold device_replay1 sigs v"

definition shown_of :: "device_model \<Rightarrow> device_view" where
  "shown_of m = (map device_value (dm_rows m), dm_default m)"

datatype device_op = DeviceAdd audio_device | DeviceChange audio_device | DeviceRemove "32 word" | DevicesClear

fun device_apply :: "device_op \<Rightarrow> device_model \<Rightarrow> device_model \<times> device_signal list" where
  "device_apply (DeviceAdd d) m = device_add d m"
| "device_apply (DeviceChange d) m = device_change d m"
| "device_apply (DeviceRemove k) m = device_remove k m"
| "device_apply DevicesClear m = device_clear m"

fun device_run :: "device_op list \<Rightarrow> device_model \<Rightarrow> device_model \<times> device_signal list" where
  "device_run [] m = (m, [])"
| "device_run (op # ops) m =
     (let (m1, out1) = device_apply op m; (m2, out2) = device_run ops m1 in (m2, out1 @ out2))"

lemma device_replay_simps [row_simps, simp]:
  "device_replay [] v = v"
  "device_replay (s # sigs) v = device_replay sigs (device_replay1 s v)"
  "device_replay (sigs @ sigs') v = device_replay sigs' (device_replay sigs v)"
  by (simp_all add: device_replay_def)

text \<open>A role that is not reported has not changed.\<close>

lemma changed_roles_complete: "role \<notin> set (changed_roles p c) \<Longrightarrow> device_value c role = device_value p role"
  by (cases role) (auto simp: changed_roles_def split: if_splits)

lemma reread_changed: "reread c (changed_roles p c) (device_value p) = device_value c"
  by (rule ext) (simp add: reread_def changed_roles_complete)

lemma changed_roles_Nil:
  assumes "changed_roles p c = []" and "ad_type p = ad_type c"
  shows "p = c"
proof -
  have same: "device_value c role = device_value p role" for role
    by (rule changed_roles_complete) (simp add: assms(1))
  show ?thesis
    using same [of DeviceId] same [of DeviceName] same [of Description] same [of DisplayName]
      same [of RawDescription] same [of VendorName] same [of ProductName] same [of PortName]
      same [of PortDescription] same [of FormFactor] same [of DeviceVolume] same [of DeviceMuted]
      same [of IsDefault] same [of BusType] same [of ChannelCount] same [of SampleRate] same [of Codec]
      same [of DeviceIcon] assms(2)
    by (intro audio_device.equality) simp_all
qed

lemma refresh_default_shown:
  "refresh_default m = (m', out) \<Longrightarrow>
   dm_rows m' = dm_rows m \<and> dm_default m' = default_map (dm_rows m) \<and>
   device_replay out (rows, dm_default m) = (rows, dm_default m')"
  by (auto simp: refresh_default_def Let_def split: if_splits)

lemma refresh_default_model:
  "fst (refresh_default m) = m\<lparr>dm_default := default_map (dm_rows m)\<rparr>"
  by (simp add: refresh_default_def Let_def)

lemma refresh_default_replay:
  "device_replay (snd (refresh_default m)) (rows, dm_default m) = (rows, default_map (dm_rows m))"
  by (simp add: refresh_default_def Let_def)

lemma device_change_add: "device_change d m = device_add d m"
  by (simp add: device_change_def device_add_def Let_def)

text \<open>What an addition does to the rows: nothing when no role changes, otherwise store the device.\<close>

definition store_device :: "audio_device \<Rightarrow> audio_device list \<Rightarrow> audio_device list" where
  "store_device d rows =
     (let row = row_of ad_index (ad_index d) rows in
      if row < length rows then if changed_roles (rows ! row) d = [] then rows else rows[row := d]
      else rows @ [d])"

lemma device_add_rows:
  assumes "dm_default m = default_map (dm_rows m)"
  shows "fst (device_add d m) =
     \<lparr>dm_rows = store_device d (dm_rows m), dm_default = default_map (store_device d (dm_rows m))\<rparr>"
  using assms by (simp add: device_add_def store_device_def Let_def split_beta refresh_default_model)

lemma device_remove_rows:
  assumes "dm_default m = default_map (dm_rows m)"
  shows "fst (device_remove k m) =
     (let rows = (let row = row_of ad_index k (dm_rows m) in
        if row < length (dm_rows m) then remove_row row (dm_rows m) else dm_rows m)
      in \<lparr>dm_rows = rows, dm_default = default_map rows\<rparr>)"
  using assms by (simp add: device_remove_def Let_def split_beta refresh_default_model)

lemma device_clear_rows: "fst (device_clear m) = \<lparr>dm_rows = [], dm_default = default_map []\<rparr>"
  by (simp add: device_clear_def split_beta refresh_default_model)

lemma refresh_rows_replay:
  "device_replay (snd (refresh_default (m\<lparr>dm_rows := rows\<rparr>))) (shown, dm_default m) = (shown, default_map rows)"
  using refresh_default_replay [of "m\<lparr>dm_rows := rows\<rparr>" shown] by simp

lemma refresh_rows_model:
  "fst (refresh_default (m\<lparr>dm_rows := rows\<rparr>)) = m\<lparr>dm_rows := rows, dm_default := default_map rows\<rparr>"
  by (simp add: refresh_default_model)

lemma row_signals_replay:
  assumes "device_replay1 sig (map device_value (dm_rows m), dm_default m) = (map device_value rows, dm_default m)"
  shows "device_replay (sig # snd (refresh_default (m\<lparr>dm_rows := rows\<rparr>))) (shown_of m) =
     shown_of (fst (refresh_default (m\<lparr>dm_rows := rows\<rparr>)))"
  using assms by (simp add: shown_of_def refresh_rows_replay refresh_rows_model)

lemma device_add_replay: "device_replay (snd (device_add d m)) (shown_of m) = shown_of (fst (device_add d m))"
proof (cases "ad_index d \<in> ad_index ` set (dm_rows m)")
  case True
  let ?row = "row_of ad_index (ad_index d) (dm_rows m)"
  have less: "?row < length (dm_rows m)" using True by simp
  then have "device_replay1 (DeviceUpdated ?row d (changed_roles (dm_rows m ! ?row) d))
      (map device_value (dm_rows m), dm_default m) = (map device_value ((dm_rows m)[?row := d]), dm_default m)"
    by (simp add: reread_changed map_update)
  note row_signals_replay [OF this]
  then show ?thesis
    using less by (simp add: device_add_def Let_def split_beta del: row_of_less_iff)
next
  case False
  have "device_replay1 (DeviceInserted (length (dm_rows m)) d) (map device_value (dm_rows m), dm_default m) =
      (map device_value (dm_rows m @ [d]), dm_default m)" by simp
  note row_signals_replay [OF this]
  then show ?thesis using False by (simp add: device_add_def Let_def split_beta)
qed

lemma device_remove_replay:
  "device_replay (snd (device_remove k m)) (shown_of m) = shown_of (fst (device_remove k m))"
proof (cases "k \<in> ad_index ` set (dm_rows m)")
  case True
  have "device_replay1 (DeviceTaken (row_of ad_index k (dm_rows m))) (map device_value (dm_rows m), dm_default m) =
      (map device_value (remove_row (row_of ad_index k (dm_rows m)) (dm_rows m)), dm_default m)"
    by (simp add: map_remove_row)
  note row_signals_replay [OF this]
  then show ?thesis using True by (simp add: device_remove_def Let_def split_beta)
next
  case False
  then show ?thesis by (simp add: device_remove_def)
qed

lemma device_clear_replay: "device_replay (snd (device_clear m)) (shown_of m) = shown_of (fst (device_clear m))"
proof -
  have "device_replay1 DevicesReset (map device_value (dm_rows m), dm_default m) = (map device_value [], dm_default m)"
    by simp
  note row_signals_replay [OF this]
  then show ?thesis by (simp add: device_clear_def split_beta)
qed

lemma device_apply_replay:
  "device_replay (snd (device_apply op m)) (shown_of m) = shown_of (fst (device_apply op m))"
  by (cases op) (simp_all add: device_add_replay device_change_add device_remove_replay device_clear_replay)

lemma device_apply_default:
  assumes "dm_default m = default_map (dm_rows m)"
  shows "dm_default (fst (device_apply op m)) = default_map (dm_rows (fst (device_apply op m)))"
  using assms by (cases op)
    (simp_all add: device_change_add device_add_rows device_remove_rows device_clear_rows Let_def)

section \<open>Rows with distinct indices\<close>

lemma map_replace_row:
  "map f (xs[row_of f (f x) xs := x]) = map f xs"
  by (induction xs) auto

lemma store_device_index:
  "distinct (map ad_index rows) \<Longrightarrow> distinct (map ad_index (store_device d rows))"
  by (auto simp: store_device_def Let_def map_replace_row)

lemma remove_row_index:
  "distinct (map f rows) \<Longrightarrow> distinct (map f (remove_row i rows))"
  by (simp add: map_remove_row distinct_remove_row)

lemma device_apply_distinct:
  assumes "dm_default m = default_map (dm_rows m)" and "distinct (map ad_index (dm_rows m))"
  shows "distinct (map ad_index (dm_rows (fst (device_apply op m))))"
  using assms by (cases op)
    (simp_all add: device_change_add device_add_rows device_remove_rows device_clear_rows Let_def
      store_device_index remove_row_index)

lemma device_run_kept:
  assumes "dm_default m = default_map (dm_rows m)" and "distinct (map ad_index (dm_rows m))"
  shows "device_replay (snd (device_run ops m)) (shown_of m) = shown_of (fst (device_run ops m)) \<and>
    dm_default (fst (device_run ops m)) = default_map (dm_rows (fst (device_run ops m))) \<and>
    distinct (map ad_index (dm_rows (fst (device_run ops m))))"
  using assms
proof (induction ops arbitrary: m)
  case Nil
  then show ?case by simp
next
  case (Cons op ops)
  from Cons.IH [OF device_apply_default [OF Cons.prems(1)] device_apply_distinct [OF Cons.prems]]
  show ?case by (simp add: split_beta device_apply_replay)
qed

text \<open>After any sequence of additions, changes, removals and resets, a view that rereads only the roles
  it was told of shows every role of every device, the default device it read last is the first device
  marked as default, and no two rows have the same index.\<close>

theorem audio_device_views:
  "device_replay (snd (device_run ops device_model_init)) ([], []) =
     (map device_value (dm_rows (fst (device_run ops device_model_init))),
      default_map (dm_rows (fst (device_run ops device_model_init)))) \<and>
   distinct (map ad_index (dm_rows (fst (device_run ops device_model_init))))"
proof -
  have "dm_default device_model_init = default_map (dm_rows device_model_init)"
    "distinct (map ad_index (dm_rows device_model_init))" "shown_of device_model_init = ([], [])" "default_map [] = []"
    by (simp_all add: device_model_init_def default_map_def shown_of_def)
  with device_run_kept [OF this(1,2), of ops] show ?thesis by (simp add: shown_of_def)
qed


section \<open>The controller is well formed\<close>

definition model_ok :: "audio_device_type \<Rightarrow> device_model \<Rightarrow> bool" where
  "model_ok ty m =
     (dm_default m = default_map (dm_rows m) \<and> distinct (map ad_index (dm_rows m)) \<and>
      (\<forall>d\<in>set (dm_rows m). ad_type d = ty))"

definition streams_ok :: "audio_stream_type \<Rightarrow> audio_stream list \<Rightarrow> bool" where
  "streams_ok ty rows = (distinct (map as_index rows) \<and> (\<forall>s\<in>set rows. as_type s = ty))"

definition audio_ok :: "audio_state \<Rightarrow> bool" where
  "audio_ok st =
     (model_ok Sink (ac_outputs st) \<and> model_ok Source (ac_inputs st) \<and>
      streams_ok SinkInput (ac_playback st) \<and> streams_ok SourceOutput (ac_recording st) \<and>
      (ac_default_output st = invalid_audio_index \<or>
       ac_default_output st \<in> ad_index ` set (dm_rows (ac_outputs st))) \<and>
      0 \<le> ac_level_users st \<and> 0 \<le> ac_volume st \<and> ac_volume st \<le> 255)"

lemma set_store_device: "set (store_device d rows) \<subseteq> insert d (set rows)"
  by (auto simp: store_device_def Let_def dest: subsetD [OF set_update_subset_insert])

lemma index_store_device: "ad_index ` set (store_device d rows) = insert (ad_index d) (ad_index ` set rows)"
proof -
  have "set (map ad_index (store_device d rows)) = insert (ad_index d) (set (map ad_index rows))"
    by (auto simp: store_device_def Let_def map_replace_row simp del: set_map)
       (auto)
  then show ?thesis by simp
qed

lemma model_ok_add:
  assumes "model_ok ty m" and "ad_type d = ty"
  shows "model_ok ty (fst (device_add d m))"
  using assms set_store_device [of d "dm_rows m"]
  by (auto simp: model_ok_def device_add_rows store_device_index)

lemma model_ok_remove:
  assumes "model_ok ty m"
  shows "model_ok ty (fst (device_remove k m))"
  using assms set_remove_row [of "row_of ad_index k (dm_rows m)" "dm_rows m"]
  by (auto simp: model_ok_def device_remove_rows remove_row_index Let_def simp del: row_of_less_iff)

lemma index_device_add:
  "model_ok ty m \<Longrightarrow>
   ad_index ` set (dm_rows (fst (device_add d m))) = insert (ad_index d) (ad_index ` set (dm_rows m))"
  by (simp add: model_ok_def device_add_rows index_store_device)

lemma rows_device_remove:
  assumes "model_ok ty m"
  shows "dm_rows (fst (device_remove k m)) = filter (\<lambda>d. ad_index d \<noteq> k) (dm_rows m)"
proof (cases "k \<in> ad_index ` set (dm_rows m)")
  case True
  with assms show ?thesis by (simp add: model_ok_def device_remove_rows Let_def remove_row_of)
next
  case False
  then have "filter (\<lambda>d. ad_index d \<noteq> k) (dm_rows m) = dm_rows m" by (auto intro: filter_True)
  with False assms show ?thesis by (simp add: model_ok_def device_remove_rows Let_def)
qed

lemma stream_change_add: "stream_change s rows = stream_add s rows"
  by (simp add: stream_change_def stream_add_def Let_def)

lemma streams_ok_add:
  assumes "streams_ok ty rows" and "as_type s = ty"
  shows "streams_ok ty (fst (stream_add s rows))"
  using assms subsetD [OF set_update_subset_insert [of rows "row_of as_index (as_index s) rows" s]]
  by (auto simp: streams_ok_def stream_add_def Let_def map_replace_row)

lemma rows_stream_remove:
  assumes "streams_ok ty rows"
  shows "fst (stream_remove k rows) = filter (\<lambda>s. as_index s \<noteq> k) rows"
proof (cases "k \<in> as_index ` set rows")
  case True
  with assms show ?thesis by (simp add: streams_ok_def stream_remove_def Let_def remove_row_of)
next
  case False
  then have "filter (\<lambda>s. as_index s \<noteq> k) rows = rows" by (auto intro: filter_True)
  with False show ?thesis by (simp add: stream_remove_def Let_def)
qed

lemma streams_ok_filter: "streams_ok ty rows \<Longrightarrow> streams_ok ty (filter P rows)"
  by (simp add: streams_ok_def distinct_map_filter)

lemma streams_ok_remove: "streams_ok ty rows \<Longrightarrow> streams_ok ty (fst (stream_remove k rows))"
  by (simp add: rows_stream_remove streams_ok_filter)

lemma apply_default_device_state:
  "fst (apply_default_device d st) =
     (if ad_type d = Sink then st\<lparr>ac_default_output := ad_index d, ac_volume := int (unat (ad_volume d)),
        ac_muted := ad_muted d\<rparr> else st)"
  by (simp add: apply_default_device_def apply_volume_def apply_muted_def Let_def)

lemma on_device_state:
  "fst (on_device device_add d st) =
     (if ad_type d = Sink then
        (let st1 = st\<lparr>ac_outputs := fst (device_add d (ac_outputs st))\<rparr> in
         if ad_default d then st1\<lparr>ac_default_output := ad_index d, ac_volume := int (unat (ad_volume d)),
           ac_muted := ad_muted d\<rparr> else st1)
      else st\<lparr>ac_inputs := fst (device_add d (ac_inputs st))\<rparr>)"
  by (simp add: on_device_def Let_def split_beta apply_default_device_state)

lemma on_device_changed_added: "on_device_changed d st = on_device_added d st"
  by (simp add: on_device_changed_def on_device_added_def on_device_def device_change_add)

lemma on_stream_changed_added: "on_stream_changed s st = on_stream_added s st"
  by (simp add: on_stream_changed_def on_stream_added_def on_stream_def stream_change_add)

lemma on_device_added_ok:
  assumes "audio_ok st"
  shows "audio_ok (fst (on_device_added d st))"
proof -
  have "int (unat (ad_volume d)) \<le> 255" using unsigned_less [of "ad_volume d", where ?'a = int] by simp
  then show ?thesis
    using assms by (cases "ad_type d")
      (auto simp: on_device_added_def on_device_state audio_ok_def Let_def model_ok_add index_device_add)
qed

lemma on_sink_removed_ok:
  assumes "audio_ok st"
  shows "audio_ok (fst (on_sink_removed k st))"
  using assms by (auto simp: on_sink_removed_def audio_ok_def Let_def split_beta model_ok_remove rows_device_remove)

lemma on_source_removed_ok: "audio_ok st \<Longrightarrow> audio_ok (fst (on_source_removed k st))"
  by (simp add: on_source_removed_def audio_ok_def split_beta model_ok_remove)

lemma on_stream_added_ok: "audio_ok st \<Longrightarrow> audio_ok (fst (on_stream_added s st))"
  by (cases "as_type s") (simp_all add: on_stream_added_def on_stream_def audio_ok_def split_beta streams_ok_add)

lemma on_stream_removed_ok: "audio_ok st \<Longrightarrow> audio_ok (fst (on_stream_removed k st))"
  by (simp add: on_stream_removed_def audio_ok_def split_beta streams_ok_remove)

lemma set_available_state:
  "fst (set_available v st) =
     (if v then st else st\<lparr>ac_playback := [], ac_recording := []\<rparr>)\<lparr>ac_available := v\<rparr>"
  by (simp add: set_available_def Let_def split_beta stream_clear_def)

lemma set_available_ok: "audio_ok st \<Longrightarrow> audio_ok (fst (set_available v st))"
  by (simp add: set_available_state audio_ok_def streams_ok_def)

lemma on_signal_ok: "audio_ok st \<Longrightarrow> audio_ok (fst (on_signal s st))"
proof (cases s)
  case (SigHealth h)
  assume "audio_ok st"
  then show ?thesis by (simp add: SigHealth set_health_def audio_ok_def)
next
  case (SigInputLevel v)
  assume "audio_ok st"
  then show ?thesis by (simp add: SigInputLevel apply_input_level_def audio_ok_def)
qed (simp_all add: set_available_ok on_device_added_ok on_device_changed_added on_sink_removed_ok
    on_source_removed_ok on_stream_added_ok on_stream_changed_added on_stream_removed_ok)

lemma audio_request_state: "fst (audio_request_step r st) = st"
  by (cases r) (simp_all add: call_backend_def set_volume_def set_default_output_muted_def)

lemma audio_step_ok:
  assumes "audio_ok st"
  shows "audio_ok (fst (audio_step e st))"
proof (cases e)
  case (BackendSignal s)
  then show ?thesis using assms by (simp add: on_signal_ok)
qed (use assms in \<open>simp_all add: audio_request_state audio_start_def start_level_monitoring_def
    stop_level_monitoring_def audio_ok_def Let_def\<close>)

lemma audio_run_ok: "audio_ok st \<Longrightarrow> audio_ok (fst (audio_run es st))"
  by (induction es arbitrary: st) (simp_all add: split_beta audio_step_ok)

lemma audio_init_ok: "audio_ok (audio_init b)"
  by (simp add: audio_ok_def audio_init_def model_ok_def streams_ok_def device_model_init_def default_map_def)


text \<open>C34. After any sequence of client requests and backend signals, the rows of each of the four models have
  distinct indices and the type of their model, both default devices are the first device marked as default,
  the default output is none or a row of the outputs, the number of level monitoring users is not negative
  and the volume fits a byte.\<close>

theorem audio_state_well_formed: "audio_ok (fst (audio_run es (audio_init b)))"
  by (rule audio_run_ok) (rule audio_init_ok)

section \<open>The models follow the signals\<close>

text \<open>
  The abstract controller: four maps from indices to the record last reported, and the last value of each
  signal. The default output is the last sink reported as default, until that sink is removed.
\<close>

record audio_spec =
  sp_sinks :: "32 word \<rightharpoonup> audio_device"
  sp_sources :: "32 word \<rightharpoonup> audio_device"
  sp_playback :: "32 word \<rightharpoonup> audio_stream"
  sp_recording :: "32 word \<rightharpoonup> audio_stream"
  sp_output :: "32 word"
  sp_volume :: int
  sp_muted :: bool
  sp_available :: bool
  sp_health :: audio_health
  sp_level :: int

definition spec_init :: audio_spec where
  "spec_init = \<lparr>sp_sinks = (\<lambda>_. None), sp_sources = (\<lambda>_. None), sp_playback = (\<lambda>_. None),
     sp_recording = (\<lambda>_. None), sp_output = invalid_audio_index, sp_volume = 0, sp_muted = False,
     sp_available = False, sp_health = HealthConnected, sp_level = 0\<rparr>"

definition spec_device :: "audio_device \<Rightarrow> audio_spec \<Rightarrow> audio_spec" where
  "spec_device d sp =
     (if ad_type d = Source then sp\<lparr>sp_sources := (sp_sources sp)(ad_index d \<mapsto> d)\<rparr>
      else let sp1 = sp\<lparr>sp_sinks := (sp_sinks sp)(ad_index d \<mapsto> d)\<rparr> in
        if ad_default d
        then sp1\<lparr>sp_output := ad_index d, sp_volume := int (unat (ad_volume d)), sp_muted := ad_muted d\<rparr>
        else sp1)"

definition spec_stream :: "audio_stream \<Rightarrow> audio_spec \<Rightarrow> audio_spec" where
  "spec_stream s sp =
     (if as_type s = SinkInput then sp\<lparr>sp_playback := (sp_playback sp)(as_index s \<mapsto> s)\<rparr>
      else sp\<lparr>sp_recording := (sp_recording sp)(as_index s \<mapsto> s)\<rparr>)"

fun spec_signal :: "audio_signal \<Rightarrow> audio_spec \<Rightarrow> audio_spec" where
  "spec_signal (SigDeviceAdded d) sp = spec_device d sp"
| "spec_signal (SigDeviceChanged d) sp = spec_device d sp"
| "spec_signal (SigSinkRemoved k) sp =
     sp\<lparr>sp_sinks := (sp_sinks sp)(k := None), sp_output := if k = sp_output sp then invalid_audio_index else sp_output sp\<rparr>"
| "spec_signal (SigSourceRemoved k) sp = sp\<lparr>sp_sources := (sp_sources sp)(k := None)\<rparr>"
| "spec_signal (SigStreamAdded s) sp = spec_stream s sp"
| "spec_signal (SigStreamChanged s) sp = spec_stream s sp"
| "spec_signal (SigStreamRemoved k) sp =
     sp\<lparr>sp_playback := (sp_playback sp)(k := None), sp_recording := (sp_recording sp)(k := None)\<rparr>"
| "spec_signal (SigAvailable v) sp =
     (if v then sp else sp\<lparr>sp_playback := (\<lambda>_. None), sp_recording := (\<lambda>_. None)\<rparr>)\<lparr>sp_available := v\<rparr>"
| "spec_signal (SigHealth h) sp = sp\<lparr>sp_health := h\<rparr>"
| "spec_signal (SigInputLevel v) sp = sp\<lparr>sp_level := v\<rparr>"

definition abstract_audio :: "audio_state \<Rightarrow> audio_spec" where
  "abstract_audio st = \<lparr>sp_sinks = (\<lambda>k. find_by ad_index k (dm_rows (ac_outputs st))),
     sp_sources = (\<lambda>k. find_by ad_index k (dm_rows (ac_inputs st))),
     sp_playback = (\<lambda>k. find_by as_index k (ac_playback st)),
     sp_recording = (\<lambda>k. find_by as_index k (ac_recording st)), sp_output = ac_default_output st,
     sp_volume = ac_volume st, sp_muted = ac_muted st, sp_available = ac_available st, sp_health = ac_health st,
     sp_level = ac_input_level st\<rparr>"

text \<open>The signals that reach the controller: those after its first start, when it has a backend.\<close>

fun heard :: "bool \<Rightarrow> audio_event list \<Rightarrow> audio_signal list" where
  "heard on [] = []"
| "heard on (ClientStart # es) = heard True es"
| "heard on (BackendSignal s # es) = (if on then s # heard on es else heard on es)"
| "heard on (_ # es) = heard on es"

lemma find_by_update:
  "idf x \<in> idf ` set xs \<Longrightarrow>
   find_by idf k (xs[row_of idf (idf x) xs := x]) = (if k = idf x then Some x else find_by idf k xs)"
  by (induction xs) auto

lemma find_by_remove: "find_by idf k (filter (\<lambda>x. idf x \<noteq> r) xs) = (if k = r then None else find_by idf k xs)"
  by (induction xs) auto

lemma find_store_device:
  assumes "\<forall>x\<in>set rows. ad_type x = ad_type d"
  shows "find_by ad_index k (store_device d rows) = (if k = ad_index d then Some d else find_by ad_index k rows)"
proof (cases "ad_index d \<in> ad_index ` set rows")
  case True
  let ?old = "rows ! row_of ad_index (ad_index d) rows"
  have found: "find_by ad_index (ad_index d) rows = Some ?old" by (rule find_by_row_of [OF True])
  then have type: "ad_type ?old = ad_type d" using assms find_by_Some by metis
  show ?thesis
  proof (cases "changed_roles ?old d = []")
    case same: True
    then have "?old = d" using type by (rule changed_roles_Nil)
    with same found True show ?thesis by (auto simp: store_device_def Let_def)
  next
    case False
    with True show ?thesis by (simp add: store_device_def Let_def find_by_update)
  qed
next
  case False
  then show ?thesis by (simp add: store_device_def Let_def find_by_append split: option.split)
qed


lemma find_device_add:
  assumes "model_ok ty m" and "ad_type d = ty"
  shows "(\<lambda>k. find_by ad_index k (dm_rows (fst (device_add d m)))) =
     (\<lambda>k. find_by ad_index k (dm_rows m))(ad_index d \<mapsto> d)"
  using assms by (auto simp: model_ok_def device_add_rows find_store_device)

lemma find_device_remove:
  assumes "model_ok ty m"
  shows "(\<lambda>k. find_by ad_index k (dm_rows (fst (device_remove r m)))) =
     (\<lambda>k. find_by ad_index k (dm_rows m))(r := None)"
  using assms by (auto simp: rows_device_remove find_by_remove)

lemma find_stream_add:
  "(\<lambda>k. find_by as_index k (fst (stream_add s rows))) = (\<lambda>k. find_by as_index k rows)(as_index s \<mapsto> s)"
proof (cases "as_index s \<in> as_index ` set rows")
  case True
  then show ?thesis by (auto simp: stream_add_def Let_def find_by_update)
next
  case False
  then show ?thesis by (auto simp: stream_add_def Let_def find_by_append split: option.split)
qed

lemma find_stream_remove:
  assumes "streams_ok ty rows"
  shows "(\<lambda>k. find_by as_index k (fst (stream_remove r rows))) = (\<lambda>k. find_by as_index k rows)(r := None)"
  using assms by (auto simp: rows_stream_remove find_by_remove)

lemma abstract_device_added:
  assumes "audio_ok st"
  shows "abstract_audio (fst (on_device_added d st)) = spec_device d (abstract_audio st)"
proof -
  have "model_ok Sink (ac_outputs st)" "model_ok Source (ac_inputs st)" using assms by (simp_all add: audio_ok_def)
  then show ?thesis
    by (cases "ad_type d")
      (simp_all add: on_device_added_def on_device_state abstract_audio_def spec_device_def Let_def find_device_add)
qed

lemma abstract_stream_added: "abstract_audio (fst (on_stream_added s st)) = spec_stream s (abstract_audio st)"
  by (cases "as_type s")
    (simp_all add: on_stream_added_def on_stream_def abstract_audio_def spec_stream_def split_beta find_stream_add)

lemma abstract_removals:
  assumes "audio_ok st"
  shows "abstract_audio (fst (on_sink_removed k st)) = spec_signal (SigSinkRemoved k) (abstract_audio st)"
    and "abstract_audio (fst (on_source_removed k st)) = spec_signal (SigSourceRemoved k) (abstract_audio st)"
    and "abstract_audio (fst (on_stream_removed k st)) = spec_signal (SigStreamRemoved k) (abstract_audio st)"
proof -
  have ok: "model_ok Sink (ac_outputs st)" "model_ok Source (ac_inputs st)" "streams_ok SinkInput (ac_playback st)"
    "streams_ok SourceOutput (ac_recording st)" using assms by (simp_all add: audio_ok_def)
  show "abstract_audio (fst (on_sink_removed k st)) = spec_signal (SigSinkRemoved k) (abstract_audio st)"
    "abstract_audio (fst (on_source_removed k st)) = spec_signal (SigSourceRemoved k) (abstract_audio st)"
    "abstract_audio (fst (on_stream_removed k st)) = spec_signal (SigStreamRemoved k) (abstract_audio st)"
    using ok by (simp_all add: on_sink_removed_def on_source_removed_def on_stream_removed_def abstract_audio_def
        split_beta Let_def find_device_remove find_stream_remove)
qed

lemma abstract_signal:
  assumes "audio_ok st"
  shows "abstract_audio (fst (on_signal s st)) = spec_signal s (abstract_audio st)"
proof (cases s)
  case (SigAvailable v)
  then show ?thesis by (simp add: set_available_state abstract_audio_def)
next
  case (SigHealth h)
  then show ?thesis by (simp add: set_health_def abstract_audio_def)
next
  case (SigInputLevel v)
  then show ?thesis by (simp add: apply_input_level_def abstract_audio_def)
qed (use assms in \<open>simp_all add: abstract_device_added on_device_changed_added abstract_stream_added
    on_stream_changed_added abstract_removals [OF assms]\<close>)

lemma on_signal_frame:
  "ac_started (fst (on_signal s st)) = ac_started st \<and> ac_backend (fst (on_signal s st)) = ac_backend st \<and>
   ac_level_users (fst (on_signal s st)) = ac_level_users st"
  by (cases s) (simp_all add: set_available_state set_health_def apply_input_level_def on_device_added_def
      on_device_state on_device_changed_added on_sink_removed_def on_source_removed_def on_stream_added_def
      on_stream_def on_stream_changed_added on_stream_removed_def Let_def split_beta)

lemma audio_run_refines:
  assumes "audio_ok st" and "ac_backend st"
  shows "abstract_audio (fst (audio_run es st)) = fold spec_signal (heard (ac_started st) es) (abstract_audio st)"
  using assms
proof (induction es arbitrary: st)
  case Nil
  then show ?case by simp
next
  case (Cons e es)
  have ok: "audio_ok (fst (audio_step e st))" by (rule audio_step_ok [OF Cons.prems(1)])
  have backend: "ac_backend (fst (audio_step e st))"
    using Cons.prems(2) by (cases e) (simp_all add: audio_start_def audio_request_state start_level_monitoring_def
        stop_level_monitoring_def Let_def on_signal_frame)
  note IH = Cons.IH [OF ok backend]
  show ?case
  proof (cases e)
    case (BackendSignal s)
    then show ?thesis using IH Cons.prems
      by (cases "ac_started st") (simp_all add: split_beta abstract_signal on_signal_frame)
  qed (use IH Cons.prems in \<open>simp_all add: split_beta audio_start_def audio_request_state start_level_monitoring_def
      stop_level_monitoring_def Let_def abstract_audio_def split: if_splits\<close>)
qed

text \<open>The controller refines its abstract specification: after any sequence of requests and backend
  signals, the device and stream models are exactly the maps, and the other observable values the last
  values, that the signals heard since the start describe.\<close>

theorem audio_controller_refines:
  "abstract_audio (fst (audio_run es (audio_init True))) = fold spec_signal (heard False es) spec_init"
proof -
  have "abstract_audio (audio_init True) = spec_init" "ac_backend (audio_init True)"
    "\<not> ac_started (audio_init True)"
    by (simp_all add: abstract_audio_def audio_init_def spec_init_def device_model_init_def)
  with audio_run_refines [OF audio_init_ok, of True es] show ?thesis by simp
qed


section \<open>The level monitor\<close>

text \<open>The calls of an output list that start or stop the level monitor.\<close>

fun level_call :: "audio_out \<Rightarrow> bool option" where
  "level_call (BackendCall CallStartLevel) = Some True"
| "level_call (BackendCall CallStopLevel) = Some False"
| "level_call _ = None"

fun level_calls :: "audio_out list \<Rightarrow> bool list" where
  "level_calls [] = []"
| "level_calls (x # out) = (case level_call x of None \<Rightarrow> [] | Some b \<Rightarrow> [b]) @ level_calls out"

fun alternates :: "bool \<Rightarrow> bool list \<Rightarrow> bool" where
  "alternates on [] = True"
| "alternates on (b # bs) = (b = (\<not> on) \<and> alternates b bs)"

lemma level_calls_append [simp]: "level_calls (out @ out') = level_calls out @ level_calls out'"
  by (induction out) simp_all

lemma alternates_append:
  "alternates on (bs @ bs') \<longleftrightarrow> alternates on bs \<and> alternates (last (on # bs)) bs'"
  by (induction bs arbitrary: on) auto

lemma level_calls_map:
  "(\<And>x. level_call (f x) = None) \<Longrightarrow> level_calls (map f xs) = []"
  by (induction xs) simp_all

lemma level_calls_rows [simp]:
  "level_calls (map OutputsChanged ds) = []" "level_calls (map InputsChanged ds) = []"
  "level_calls (map PlaybackChanged ss) = []" "level_calls (map RecordingChanged ss) = []"
  by (simp_all add: level_calls_map)


lemma on_device_silent: "level_calls (snd (on_device f d st)) = []"
  by (simp add: on_device_def apply_default_device_def apply_volume_def apply_muted_def Let_def split_beta)

lemma on_signal_silent: "level_calls (snd (on_signal s st)) = []"
  by (cases s) (simp_all add: set_available_def set_health_def apply_input_level_def on_device_added_def
      on_device_silent on_device_changed_def on_sink_removed_def on_source_removed_def on_stream_added_def
      on_stream_def on_stream_changed_def on_stream_removed_def Let_def split_beta)

lemma audio_request_silent: "level_calls (snd (audio_request_step r st)) = []"
  by (cases r) (simp_all add: call_backend_def set_volume_def set_default_output_muted_def)

lemma level_step:
  assumes "0 \<le> ac_level_users st" and "ac_backend st"
  shows "alternates (0 < ac_level_users st) (level_calls (snd (audio_step e st))) \<and>
    last ((0 < ac_level_users st) # level_calls (snd (audio_step e st))) = (0 < ac_level_users (fst (audio_step e st))) \<and>
    0 \<le> ac_level_users (fst (audio_step e st)) \<and> ac_backend (fst (audio_step e st))"
proof (cases e)
  case (BackendSignal s)
  then show ?thesis using assms by (simp add: on_signal_silent on_signal_frame)
next
  case ClientStartLevel
  then show ?thesis using assms by (auto simp: start_level_monitoring_def Let_def)
next
  case ClientStopLevel
  then show ?thesis using assms by (auto simp: stop_level_monitoring_def Let_def)
qed (use assms in \<open>simp_all add: audio_request_state audio_request_silent audio_start_def Let_def\<close>)

lemma level_run:
  assumes "0 \<le> ac_level_users st" and "ac_backend st"
  shows "alternates (0 < ac_level_users st) (level_calls (snd (audio_run es st))) \<and>
    last ((0 < ac_level_users st) # level_calls (snd (audio_run es st))) = (0 < ac_level_users (fst (audio_run es st)))"
  using assms
proof (induction es arbitrary: st)
  case Nil
  then show ?case by simp
next
  case (Cons e es)
  note step = level_step [OF Cons.prems, of e]
  from step have "0 \<le> ac_level_users (fst (audio_step e st))" "ac_backend (fst (audio_step e st))" by simp_all
  note IH = Cons.IH [OF this]
  have glue: "last (a # bs @ cs) = last (last (a # bs) # cs)" for a :: bool and bs cs by (simp add: last_append)
  from step IH show ?case
    by (simp only: audio_run.simps Let_def split_beta fst_conv snd_conv level_calls_append alternates_append glue)
qed

text \<open>The calls that start and stop the level monitor of the backend alternate, beginning with a start,
  and the last one is a start exactly when someone is using the monitor.\<close>

theorem audio_level_calls_alternate:
  "alternates False (level_calls (snd (audio_run es (audio_init True)))) \<and>
   last (False # level_calls (snd (audio_run es (audio_init True)))) =
     (0 < ac_level_users (fst (audio_run es (audio_init True))))"
  using level_run [of "audio_init True" es] by (simp add: audio_init_def)

end
