(* ===== verification/PulseAudio_Devices.thy ===== *)
theory PulseAudio_Devices
  imports Audio_Models
begin

text \<open>
  The conversions of \<open>PulseAudioBackend.cpp\<close>: volumes between PulseAudio's raw scale and per cent, and
  the records of sinks, sources and streams that PulseAudio reports into those of the models. Qt's UTF-8
  coding and case folding are a parameter; the values that libpulse computes from a structure
  (the average of its channel volumes) are fields of the record that stands for it.
\<close>

section \<open>Volumes\<close>

text \<open>\<open>PA_VOLUME_NORM\<close>, the raw volume of 100 per cent in the API of PulseAudio.\<close>

definition volume_norm :: "64 word" where
  "volume_norm = 65536"

definition clamp_percent :: "int \<Rightarrow> int" where
  "clamp_percent percent = max 0 (min 100 percent)"

definition volume_from_percent :: "int \<Rightarrow> 32 word" where
  "volume_from_percent percent =
     (let clamped = clamp_percent percent in ucast ((word_of_int clamped * volume_norm + 50) div 100 :: 64 word))"

definition volume_to_percent :: "32 word \<Rightarrow> 8 word" where
  "volume_to_percent raw =
     (let pct = sint (ucast ((ucast raw * 100 + volume_norm div 2) div volume_norm :: 64 word) :: 32 word)
      in word_of_int (clamp_percent pct))"

lemma uint_small [simp]: "0 \<le> n \<Longrightarrow> n < 2 ^ LENGTH('a) \<Longrightarrow> uint (word_of_int n :: 'a :: len word) = n"
  by (simp add: uint_word_of_int)

lemma volume_from_percent_int: "uint (volume_from_percent p) = (clamp_percent p * 65536 + 50) div 100"
proof -
  let ?c = "clamp_percent p"
  have range: "0 \<le> ?c" "?c \<le> 100" by (auto simp: clamp_percent_def)
  have "word_of_int ?c * volume_norm + 50 = (word_of_int (?c * 65536 + 50) :: 64 word)"
    by (simp add: volume_norm_def)
  moreover have "uint (word_of_int (?c * 65536 + 50) :: 64 word) = ?c * 65536 + 50"
    using range by (intro uint_small) auto
  ultimately have "uint ((word_of_int ?c * volume_norm + 50) div 100 :: 64 word) = (?c * 65536 + 50) div 100"
    by (simp add: uint_div)
  moreover have "(?c * 65536 + 50) div 100 < 2 ^ 32" using range by (simp add: div_less_iff_less_mult)
  ultimately show ?thesis using range
    by (simp add: volume_from_percent_def Let_def unsigned_ucast_eq unsigned_take_bit_eq take_bit_int_eq_self)
qed

lemma uint_range: "0 \<le> uint w" "uint (w :: 'a :: len word) < 2 ^ LENGTH('a)"
  using unsigned_less [of w, where ?'a = int] by simp_all

lemma volume_to_percent_int: "uint (volume_to_percent raw) = clamp_percent ((uint raw * 100 + 32768) div 65536)"
proof -
  let ?q = "(uint raw * 100 + 32768) div 65536"
  have raw: "0 \<le> uint raw" "uint raw < 4294967296" using uint_range [of raw] by simp_all
  then have q: "0 \<le> ?q" "?q < 2 ^ 31"
    by (simp_all add: div_less_iff_less_mult pos_imp_zdiv_nonneg_iff)
  have half: "(volume_norm div 2 :: 64 word) = 32768" by (simp add: volume_norm_def)
  have "uint (ucast raw * 100 + volume_norm div 2 :: 64 word) = uint raw * 100 + 32768"
    using raw by (simp only: half) (simp add: uint_word_ariths unsigned_ucast_eq unsigned_take_bit_eq take_bit_int_eq_self)
  then have wide: "uint ((ucast raw * 100 + volume_norm div 2) div volume_norm :: 64 word) = ?q"
    by (simp add: uint_div volume_norm_def)
  have "uint (ucast ((ucast raw * 100 + volume_norm div 2) div volume_norm :: 64 word) :: 32 word) = ?q"
    using q by (simp only: unsigned_ucast_eq unsigned_take_bit_eq wide) (simp add: take_bit_int_eq_self)
  then have "sint (ucast ((ucast raw * 100 + volume_norm div 2) div volume_norm :: 64 word) :: 32 word) = ?q"
    using q by (simp only: sint_uint) (simp add: signed_take_bit_int_eq_self)
  moreover have "0 \<le> clamp_percent ?q" "clamp_percent ?q \<le> 100" by (auto simp: clamp_percent_def)
  ultimately show ?thesis by (simp add: volume_to_percent_def Let_def)
qed

lemma volume_percent_roundtrip_value:
  "uint (volume_to_percent (volume_from_percent p)) = clamp_percent p"
  "\<bar>100 * uint (volume_from_percent p) - 65536 * clamp_percent p\<bar> \<le> 50"
proof -
  let ?c = "clamp_percent p"
  have c: "0 \<le> ?c" "?c \<le> 100" by (auto simp: clamp_percent_def)
  let ?r = "(?c * 65536 + 50) div 100"
  have "100 * ?r + (?c * 65536 + 50) mod 100 = ?c * 65536 + 50" by (rule mult_div_mod_eq)
  moreover have "0 \<le> (?c * 65536 + 50) mod 100" "(?c * 65536 + 50) mod 100 < 100" by simp_all
  ultimately have near: "100 * ?r \<le> ?c * 65536 + 50" "?c * 65536 - 50 < 100 * ?r" by linarith+
  have "(?r * 100 + 32768) div 65536 = ?c"
    by (rule int_div_pos_eq [where r = "?r * 100 + 32768 - 65536 * ?c"]) (use near in linarith)+
  then show "uint (volume_to_percent (volume_from_percent p)) = ?c"
    using c by (simp add: volume_to_percent_int volume_from_percent_int clamp_percent_def)
  show "\<bar>100 * uint (volume_from_percent p) - 65536 * ?c\<bar> \<le> 50"
    using near by (simp add: volume_from_percent_int)
qed

text \<open>C35. A volume set in per cent is read back as the same percentage after clamping it to 0..100; the raw
  value sent never exceeds the normal volume and is the raw value nearest to the percentage; both
  conversions are monotone; and what is read is never above 100 per cent, however loud the raw volume is.\<close>

theorem volume_percent_roundtrip:
  "uint (volume_to_percent (volume_from_percent p)) = clamp_percent p \<and>
   uint (volume_from_percent p) \<le> 65536 \<and>
   \<bar>100 * uint (volume_from_percent p) - 65536 * clamp_percent p\<bar> \<le> 50 \<and>
   mono (\<lambda>q. uint (volume_from_percent q)) \<and>
   mono (\<lambda>raw. uint (volume_to_percent raw)) \<and>
   uint (volume_to_percent raw) \<le> 100"
proof -
  have "uint (volume_from_percent p) \<le> 65536"
    by (auto simp: volume_from_percent_int clamp_percent_def)
  moreover have "mono (\<lambda>q. uint (volume_from_percent q))"
    by (intro monoI) (auto simp: volume_from_percent_int clamp_percent_def intro: zdiv_mono1)
  moreover have "mono (\<lambda>raw. uint (volume_to_percent raw))"
  proof (intro monoI)
    fix v w :: "32 word"
    assume "v \<le> w"
    then have "(uint v * 100 + 32768) div 65536 \<le> (uint w * 100 + 32768) div 65536"
      by (intro zdiv_mono1) (simp_all add: word_le_def)
    then show "uint (volume_to_percent v) \<le> uint (volume_to_percent w)"
      by (auto simp: volume_to_percent_int clamp_percent_def)
  qed
  moreover have "uint (volume_to_percent raw) \<le> 100"
    by (auto simp: volume_to_percent_int clamp_percent_def)
  ultimately show ?thesis using volume_percent_roundtrip_value [of p] by blast
qed


section \<open>Properties of a device\<close>

text \<open>The keys of a property list that the source reads; \<open>PropKey\<close> is a key written out as text.\<close>

datatype pulse_prop =
    PropFormFactor | PropBus | PropDeviceIcon | PropVendorName | PropProductName | PropDeviceDescription
  | PropApplicationId | PropApplicationBinary | PropApplicationName | PropApplicationIcon | PropKey string

type_synonym pulse_proplist = "(pulse_prop \<times> string) list option"

record pulse_text =
  pt_from_utf8 :: "string \<Rightarrow> string"
  pt_to_utf8 :: "string \<Rightarrow> string"
  pt_fold :: "char \<Rightarrow> char"

record pulse_device_info =
  pi_index :: "32 word"
  pi_name :: "string option"
  pi_description :: "string option"
  pi_volume_avg :: "32 word"
  pi_volume_channels :: "8 word"
  pi_mute :: int
  pi_map_channels :: "8 word"
  pi_rate :: "32 word"
  pi_port :: "(string option \<times> string option) option"
  pi_props :: pulse_proplist
  pi_monitor_of :: "32 word"

record pulse_stream_info =
  si_index :: "32 word"
  si_name :: "string option"
  si_props :: pulse_proplist
  si_device :: "32 word"
  si_volume_avg :: "32 word"
  si_volume_channels :: "8 word"
  si_mute :: int

definition prop_gets :: "pulse_proplist \<Rightarrow> pulse_prop \<Rightarrow> string option" where
  "prop_gets props key = (case props of None \<Rightarrow> None | Some m \<Rightarrow> map_of m key)"

text \<open>\<open>QString::fromUtf8\<close> of a C string that may be a null pointer.\<close>

definition utf8_or_empty :: "pulse_text \<Rightarrow> string option \<Rightarrow> string" where
  "utf8_or_empty pt s = pt_from_utf8 pt (case s of None \<Rightarrow> '''' | Some v \<Rightarrow> v)"

definition property_value :: "pulse_text \<Rightarrow> pulse_proplist \<Rightarrow> pulse_prop \<Rightarrow> string" where
  "property_value pt props key = utf8_or_empty pt (prop_gets props key)"

definition contains_folded :: "pulse_text \<Rightarrow> string \<Rightarrow> string \<Rightarrow> bool" where
  "contains_folded pt s needle =
     list_ex (\<lambda>i. take (length needle) (drop i (map (pt_fold pt) s)) = map (pt_fold pt) needle) [0..<Suc (length s)]"

definition looks_digital :: "pulse_text \<Rightarrow> string \<Rightarrow> string \<Rightarrow> string \<Rightarrow> bool" where
  "looks_digital pt form_factor device port =
     (form_factor = ''hdmi'' \<or> contains_folded pt device ''hdmi'' \<or> contains_folded pt device ''spdif'' \<or>
      contains_folded pt device ''iec958'' \<or> contains_folded pt port ''hdmi'' \<or>
      contains_folded pt port ''spdif'' \<or> contains_folded pt port ''iec958'')"

definition classify_bus_type :: "pulse_text \<Rightarrow> pulse_proplist \<Rightarrow> string \<Rightarrow> string \<Rightarrow> string" where
  "classify_bus_type pt props device port =
     (let form_factor = property_value pt props PropFormFactor in
      if looks_digital pt form_factor device port then ''Digital''
      else
        let bus = property_value pt props PropBus in
        if bus = ''bluetooth'' then ''Bluetooth''
        else if bus = ''usb'' then ''Digital''
        else if bus \<noteq> '''' then ''Analog''
        else ''Unknown'')"

definition icon_name_of :: "pulse_text \<Rightarrow> pulse_proplist \<Rightarrow> bool \<Rightarrow> string \<Rightarrow> string \<Rightarrow> string" where
  "icon_name_of pt props is_sink device port =
     (let reported = property_value pt props PropDeviceIcon;
          form_factor = property_value pt props PropFormFactor;
          generic = (reported = '''' \<or> reported = ''audio-card'' \<or>
            take (length ''audio-card-'') reported = ''audio-card-'')
      in if is_sink \<and> generic \<and> looks_digital pt form_factor device port then ''video-display''
         else if \<not> is_sink \<and> generic then ''audio-input-microphone''
         else if reported \<noteq> '''' then reported
         else if form_factor = ''headphone'' then ''audio-headphones''
         else if form_factor = ''headset'' \<or> form_factor = ''hands-free'' then ''audio-headset''
         else if form_factor = ''microphone'' then ''audio-input-microphone''
         else if form_factor = ''speaker'' \<or> form_factor = ''internal'' \<or> form_factor = '''' then
           (if is_sink then ''audio-speakers'' else ''audio-input-microphone'')
         else '''')"

definition bluetooth_codec :: "pulse_text \<Rightarrow> pulse_proplist \<Rightarrow> string" where
  "bluetooth_codec pt props =
     (case props of
        None \<Rightarrow> ''PCM''
      | Some _ \<Rightarrow>
          (case prop_gets props (PropKey ''bluez.codec_name'') of
             Some (c # cs) \<Rightarrow> pt_from_utf8 pt (c # cs)
           | _ \<Rightarrow>
               (case prop_gets props (PropKey ''bluetooth.codec'') of
                  Some (c # cs) \<Rightarrow> pt_from_utf8 pt (c # cs)
                | _ \<Rightarrow> ''PCM'')))"

definition populate_identity ::
  "pulse_text \<Rightarrow> pulse_proplist \<Rightarrow> string option \<Rightarrow> string option \<Rightarrow> audio_device \<Rightarrow> audio_device" where
  "populate_identity pt props port_name port_description d =
     (let d1 = d\<lparr>ad_raw_description := ad_description d,
                 ad_vendor_name := property_value pt props PropVendorName,
                 ad_product_name := property_value pt props PropProductName,
                 ad_form_factor := property_value pt props PropFormFactor,
                 ad_port_name := utf8_or_empty pt port_name,
                 ad_port_description := utf8_or_empty pt port_description\<rparr>;
          described = property_value pt props PropDeviceDescription
      in d1\<lparr>ad_display_name :=
           (if ad_bus_type d1 = ''Digital'' \<and> ad_port_description d1 \<noteq> '''' then ad_port_description d1
            else if described \<noteq> '''' then described
            else if ad_product_name d1 \<noteq> '''' then ad_product_name d1
            else if ad_description d1 \<noteq> '''' then ad_description d1
            else ad_name d1)\<rparr>)"

definition port_name_of :: "pulse_device_info \<Rightarrow> string option" where
  "port_name_of info = (case pi_port info of None \<Rightarrow> None | Some (name, _) \<Rightarrow> name)"

definition port_description_of :: "pulse_device_info \<Rightarrow> string option" where
  "port_description_of info = (case pi_port info of None \<Rightarrow> None | Some (_, desc) \<Rightarrow> desc)"

definition active_port_name :: "pulse_text \<Rightarrow> pulse_device_info \<Rightarrow> string" where
  "active_port_name pt info =
     (case pi_port info of None \<Rightarrow> '''' | Some (name, _) \<Rightarrow> utf8_or_empty pt name)"

text \<open>The record before the warning about missing metadata; the state of the backend keeps that warning.\<close>

definition sink_to_device :: "pulse_text \<Rightarrow> string \<Rightarrow> pulse_device_info \<Rightarrow> audio_device" where
  "sink_to_device pt default_sink info =
     (let name = utf8_or_empty pt (pi_name info);
          d = default_audio_device\<lparr>ad_index := pi_index info, ad_name := name,
            ad_description := utf8_or_empty pt (pi_description info),
            ad_volume := volume_to_percent (pi_volume_avg info), ad_muted := (pi_mute info \<noteq> 0),
            ad_default := (name = default_sink), ad_type := Sink, ad_channel_count := pi_map_channels info,
            ad_sample_rate := pi_rate info,
            ad_bus_type := classify_bus_type pt (pi_props info) name (active_port_name pt info)\<rparr>;
          d1 = populate_identity pt (pi_props info) (port_name_of info) (port_description_of info) d;
          d2 = d1\<lparr>ad_icon_name := icon_name_of pt (pi_props info) True name (active_port_name pt info)\<rparr>
      in if ad_bus_type d2 = ''Bluetooth'' then d2\<lparr>ad_codec := bluetooth_codec pt (pi_props info)\<rparr> else d2)"

definition source_to_device :: "pulse_text \<Rightarrow> string \<Rightarrow> pulse_device_info \<Rightarrow> audio_device" where
  "source_to_device pt default_source info =
     (let name = utf8_or_empty pt (pi_name info);
          d = default_audio_device\<lparr>ad_index := pi_index info, ad_name := name,
            ad_description := utf8_or_empty pt (pi_description info),
            ad_volume := volume_to_percent (pi_volume_avg info), ad_muted := (pi_mute info \<noteq> 0),
            ad_default := (name = default_source), ad_type := Source, ad_channel_count := pi_map_channels info,
            ad_sample_rate := pi_rate info,
            ad_bus_type := classify_bus_type pt (pi_props info) name (active_port_name pt info)\<rparr>;
          d1 = populate_identity pt (pi_props info) (port_name_of info) (port_description_of info) d;
          d2 = d1\<lparr>ad_icon_name := icon_name_of pt (pi_props info) False name (active_port_name pt info)\<rparr>
      in if ad_bus_type d2 = ''Bluetooth'' then d2\<lparr>ad_codec := bluetooth_codec pt (pi_props info)\<rparr> else d2)"

definition sink_input_to_stream :: "pulse_text \<Rightarrow> pulse_stream_info \<Rightarrow> audio_stream" where
  "sink_input_to_stream pt info =
     default_audio_stream\<lparr>as_index := si_index info, as_name := utf8_or_empty pt (si_name info),
       as_application_id := property_value pt (si_props info) PropApplicationId,
       as_process_binary := property_value pt (si_props info) PropApplicationBinary,
       as_application := property_value pt (si_props info) PropApplicationName,
       as_icon_name := property_value pt (si_props info) PropApplicationIcon, as_device := si_device info,
       as_volume := volume_to_percent (si_volume_avg info), as_muted := (si_mute info \<noteq> 0),
       as_type := SinkInput\<rparr>"

definition source_output_to_stream :: "pulse_text \<Rightarrow> pulse_stream_info \<Rightarrow> audio_stream" where
  "source_output_to_stream pt info =
     default_audio_stream\<lparr>as_index := si_index info, as_name := utf8_or_empty pt (si_name info),
       as_application_id := property_value pt (si_props info) PropApplicationId,
       as_process_binary := property_value pt (si_props info) PropApplicationBinary,
       as_application := property_value pt (si_props info) PropApplicationName,
       as_icon_name := property_value pt (si_props info) PropApplicationIcon, as_device := si_device info,
       as_volume := volume_to_percent (si_volume_avg info), as_muted := (si_mute info \<noteq> 0),
       as_type := SourceOutput\<rparr>"

section \<open>What is reported of a device\<close>

lemma sink_to_device_fields [simp]:
  "ad_index (sink_to_device pt def info) = pi_index info"
  "ad_type (sink_to_device pt def info) = Sink"
  "ad_volume (sink_to_device pt def info) = volume_to_percent (pi_volume_avg info)"
  "ad_name (sink_to_device pt def info) = utf8_or_empty pt (pi_name info)"
  "ad_default (sink_to_device pt def info) = (utf8_or_empty pt (pi_name info) = def)"
  by (simp_all add: sink_to_device_def populate_identity_def Let_def)

lemma source_to_device_fields [simp]:
  "ad_index (source_to_device pt def info) = pi_index info"
  "ad_type (source_to_device pt def info) = Source"
  "ad_volume (source_to_device pt def info) = volume_to_percent (pi_volume_avg info)"
  "ad_name (source_to_device pt def info) = utf8_or_empty pt (pi_name info)"
  "ad_default (source_to_device pt def info) = (utf8_or_empty pt (pi_name info) = def)"
  by (simp_all add: source_to_device_def populate_identity_def Let_def)

text \<open>A device with a name is never shown without one.\<close>

lemma display_name_shown:
  "ad_name d \<noteq> '''' \<Longrightarrow> ad_display_name (populate_identity pt props port desc d) \<noteq> ''''"
  by (simp add: populate_identity_def Let_def)

text \<open>An icon is missing only for an output whose form factor is none of the known ones.\<close>

lemma icon_missing_iff:
  "icon_name_of pt props is_sink device port = '''' \<longleftrightarrow>
     is_sink \<and> property_value pt props PropDeviceIcon = '''' \<and>
     \<not> looks_digital pt (property_value pt props PropFormFactor) device port \<and>
     property_value pt props PropFormFactor \<notin>
       {''headphone'', ''headset'', ''hands-free'', ''microphone'', ''speaker'', ''internal'', ''''}"
  by (simp add: icon_name_of_def Let_def)


end
