(* ===== verification/PulseAudio_Backend.thy ===== *)
theory PulseAudio_Backend
  imports PulseAudio_Devices Audio_Controller Text_Numbers
begin

text \<open>
  \<open>PulseAudioBackend\<close>: its state, the calls of the controller, the callbacks of libpulse and what the
  event loop of Qt runs later.

  \<^item> Calls of libpulse are outputs in the order in which they are made; calls that only register or drop
    callbacks are one output for the pair of them, and reference counts of operations are left out.
    Whether a call that can fail succeeds is the next value of \<open>pu_results\<close>; a call
    nothing is said about succeeds.
  \<^item> A callback of libpulse runs with the lock of its main loop held and is one step. Where the source
    posts a function to the Qt thread (\<open>Qt::QueuedConnection\<close>), the step appends it to
    \<open>pu_queue\<close>, and \<open>RunPosted\<close> runs the oldest.
  \<^item> A callback is registered with an object of libpulse and removed before the object is released, so it
    comes only while the object is there; the guards of \<open>pulse_step\<close> say so.
\<close>

section \<open>State\<close>

text \<open>A request is allocated by a setter and is known to libpulse by its address, here a number.\<close>

record volume_request =
  vr_percent :: int

datatype posted =
    PostSignal audio_signal
  | PostReady
  | PostLost
  | PostRetryLevel

record pulse_state =
  pu_started :: bool
  pu_running :: bool
  pu_mainloop :: bool
  pu_api :: bool
  pu_context :: bool
  pu_default_sink :: string
  pu_default_source :: string
  pu_warned :: "64 word list"
  pu_level_stream :: bool
  pu_level_warned :: bool
  pu_level_requested :: bool
  pu_level_retries :: nat
  pu_attempt :: nat
  pu_timer :: bool
  pu_health :: audio_health
  pu_backoff :: "nat list"
  pu_queue :: "posted list"
  pu_requests :: "(nat \<times> volume_request) list"
  pu_next_request :: nat
  pu_results :: "bool list"

text \<open>Who asked for the description of an object: a listing or a new object, a change, or a setter.\<close>

datatype info_use = ListInfo | ChangedInfo | VolumeInfo nat

datatype pulse_out =
    Emit audio_signal
  | ReconnectTimer nat
  | MetadataWarning "32 word"
  | LevelWarning
  | PaMainloopNew | PaMainloopApi | PaMainloopStart | PaMainloopStop | PaMainloopFree
  | PaLock | PaUnlock
  | PaContextNew | PaContextCallbacks bool | PaContextConnect | PaContextDisconnect
  | PaSubscribe | PaServerInfo | PaSinkList | PaSourceList | PaSinkInputList | PaSourceOutputList
  | PaSinkInfo "32 word" info_use | PaSourceInfo "32 word" info_use
  | PaSinkInputInfo "32 word" info_use | PaSourceOutputInfo "32 word" info_use
  | PaSetSinkVolume "32 word" nat "32 word" | PaSetSourceVolume "32 word" nat "32 word"
  | PaSetSinkInputVolume "32 word" nat "32 word"
  | PaSetSinkMute "32 word" bool | PaSetSourceMute "32 word" bool | PaSetSinkInputMute "32 word" bool
  | PaSetDefaultSink string | PaSetDefaultSource string | PaMoveSinkInput "32 word" "32 word"
  | PaStreamNew | PaStreamCallbacks bool | PaStreamConnect string | PaStreamDisconnect | PaStreamUnref
  | PaStreamDrop

definition default_backoff :: "nat list" where
  "default_backoff = [1000, 2000, 4000, 8000, 16000, 30000]"

definition max_reconnect_attempts :: nat where
  "max_reconnect_attempts = 8"

definition max_level_retries :: nat where
  "max_level_retries = 3"

definition pulse_init :: pulse_state where
  "pulse_init = \<lparr>pu_started = False, pu_running = False, pu_mainloop = False, pu_api = False,
     pu_context = False, pu_default_sink = '''', pu_default_source = '''', pu_warned = [], pu_level_stream = False,
     pu_level_warned = False, pu_level_requested = False, pu_level_retries = 0, pu_attempt = 0, pu_timer = False,
     pu_health = HealthConnected, pu_backoff = default_backoff, pu_queue = [], pu_requests = [],
     pu_next_request = 0, pu_results = []\<rparr>"

definition take_result :: "pulse_state \<Rightarrow> bool \<times> pulse_state" where
  "take_result st = (case pu_results st of [] \<Rightarrow> (True, st) | r # rs \<Rightarrow> (r, st\<lparr>pu_results := rs\<rparr>))"

definition post :: "posted \<Rightarrow> pulse_state \<Rightarrow> pulse_state" where
  "post p st = st\<lparr>pu_queue := pu_queue st @ [p]\<rparr>"

section \<open>The level stream\<close>

definition start_level_stream :: "pulse_text \<Rightarrow> pulse_state \<Rightarrow> bool \<times> pulse_state \<times> pulse_out list" where
  "start_level_stream pt st =
     (if \<not> pu_context st \<or> pu_level_stream st then (pu_level_stream st, st, [])
      else
        let (made, st1) = take_result st in
        if \<not> made then (False, st1, [PaStreamNew])
        else
          let (connected, st2) = take_result st1;
              opening = [PaStreamNew, PaStreamCallbacks True, PaStreamConnect (pt_to_utf8 pt (pu_default_source st2))]
          in if \<not> connected then (False, st2, opening @ [PaStreamCallbacks False, PaStreamUnref])
             else (True, st2\<lparr>pu_level_stream := True, pu_level_warned := False\<rparr>, opening))"

definition stop_level_stream :: "pulse_state \<Rightarrow> pulse_state \<times> pulse_out list" where
  "stop_level_stream st =
     (if \<not> pu_level_stream st then (st, [])
      else (st\<lparr>pu_level_stream := False\<rparr>, [PaStreamCallbacks False, PaStreamDisconnect, PaStreamUnref]))"

datatype stream_state = StreamReady | StreamFailed | StreamOther

definition level_stream_state :: "stream_state \<Rightarrow> pulse_state \<Rightarrow> pulse_state \<times> pulse_out list" where
  "level_stream_state s st =
     (if s = StreamReady then (st, [])
      else if s \<noteq> StreamFailed then (st, [])
      else
        let st1 = post (PostSignal (SigInputLevel 0)) st;
            (st2, out) = (if pu_level_warned st1 then (st1, []) else (st1\<lparr>pu_level_warned := True\<rparr>, [LevelWarning]))
        in (post PostRetryLevel st2, out))"

text \<open>
  What a read finds: peeking fails, there is nothing, there is a hole, or there are bytes. A sample is given
  by the integer that the source casts its size in per cent to, 0 where there are too few bytes for one.
\<close>

datatype peeked = PeekFailed | PeekNothing | PeekHole | PeekSample int

definition level_stream_read :: "peeked \<Rightarrow> pulse_state \<Rightarrow> pulse_state \<times> pulse_out list" where
  "level_stream_read p st =
     (case p of
        PeekFailed \<Rightarrow> (st, [])
      | PeekNothing \<Rightarrow> (st, [])
      | PeekHole \<Rightarrow> (st, [PaStreamDrop])
      | PeekSample n \<Rightarrow> (post (PostSignal (SigInputLevel (clamp_percent n))) st, [PaStreamDrop]))"

section \<open>The context\<close>

definition context_ready :: "pulse_state \<Rightarrow> pulse_state \<times> pulse_out list" where
  "context_ready st = (post PostReady st, [PaSubscribe, PaServerInfo])"

definition context_failed :: "pulse_state \<Rightarrow> pulse_state \<times> pulse_out list" where
  "context_failed st = (post PostLost st, [])"

definition teardown_context :: "pulse_state \<Rightarrow> pulse_state \<times> pulse_out list" where
  "teardown_context st =
     (if \<not> pu_context st then (st, [])
      else
        let (st1, out) = stop_level_stream st
        in (st1\<lparr>pu_context := False\<rparr>, PaLock # out @ [PaContextCallbacks False, PaContextDisconnect, PaUnlock]))"

definition connect_new_context :: "pulse_state \<Rightarrow> bool \<times> pulse_state \<times> pulse_out list" where
  "connect_new_context st =
     (let (made, st1) = take_result st in
      if \<not> made then (False, st1\<lparr>pu_context := False\<rparr>, [PaContextNew])
      else
        let (connected, st2) = take_result (st1\<lparr>pu_context := True\<rparr>)
        in (connected, st2, [PaContextNew, PaContextCallbacks True, PaLock, PaContextConnect, PaUnlock]))"

section \<open>Reconnecting\<close>

definition set_health_state :: "audio_health \<Rightarrow> pulse_state \<Rightarrow> pulse_state \<times> pulse_out list" where
  "set_health_state h st =
     (if pu_health st = h then (st, []) else (st\<lparr>pu_health := h\<rparr>, [Emit (SigHealth h)]))"

text \<open>The schedule is never empty: it is the default one or the one a test sets.\<close>

definition backoff_delay :: "nat list \<Rightarrow> nat \<Rightarrow> nat" where
  "backoff_delay schedule attempt = schedule ! min attempt (length schedule - 1)"

definition schedule_pulse_reconnect :: "pulse_state \<Rightarrow> pulse_state \<times> pulse_out list" where
  "schedule_pulse_reconnect st =
     (if pu_attempt st \<ge> max_reconnect_attempts then set_health_state HealthFailed st
      else (st\<lparr>pu_attempt := pu_attempt st + 1, pu_timer := True\<rparr>,
            [ReconnectTimer (backoff_delay (pu_backoff st) (pu_attempt st))]))"

definition on_context_lost :: "pulse_state \<Rightarrow> pulse_state \<times> pulse_out list" where
  "on_context_lost st =
     (if pu_timer st then (st, [])
      else if pu_health st = HealthFailed then (st, [])
      else
        let (st1, out1) = set_health_state HealthReconnecting st;
            (st2, out2) = schedule_pulse_reconnect st1
        in (st2, out1 @ out2))"

definition on_reconnect_succeeded :: "pulse_state \<Rightarrow> pulse_state \<times> pulse_out list" where
  "on_reconnect_succeeded st = set_health_state HealthConnected (st\<lparr>pu_attempt := 0, pu_timer := False\<rparr>)"

definition attempt_reconnect :: "pulse_state \<Rightarrow> pulse_state \<times> pulse_out list" where
  "attempt_reconnect st =
     (let (st1, out1) = teardown_context st;
          (connected, st2, out2) = connect_new_context st1;
          (st3, out3) = (if \<not> connected then on_context_lost st2 else (st2, []))
      in (st3, out1 @ out2 @ out3))"

section \<open>Starting and stopping\<close>

definition pulse_start :: "pulse_state \<Rightarrow> pulse_state \<times> pulse_out list" where
  "pulse_start st =
     (if pu_started st then (st, [])
      else
        let (made, st1) = take_result (st\<lparr>pu_started := True\<rparr>) in
        if \<not> made then (st1\<lparr>pu_mainloop := False, pu_api := False\<rparr>, [PaMainloopNew])
        else
          let (api, st2) = take_result (st1\<lparr>pu_mainloop := True\<rparr>); st3 = st2\<lparr>pu_api := api\<rparr> in
          if \<not> api then (st3, [PaMainloopNew, PaMainloopApi])
          else
            let (running, st4) = take_result st3; st5 = st4\<lparr>pu_running := running\<rparr> in
            if \<not> running then (st5, [PaMainloopNew, PaMainloopApi, PaMainloopStart])
            else
              let (connected, st6, out) = connect_new_context st5;
                  (st7, out') = (if \<not> connected then on_context_lost st6 else (st6, []))
              in (st7, [PaMainloopNew, PaMainloopApi, PaMainloopStart] @ out @ out'))"

definition pulse_stop :: "pulse_state \<Rightarrow> pulse_state \<times> pulse_out list" where
  "pulse_stop st =
     (let st1 = st\<lparr>pu_timer := False, pu_level_requested := False, pu_level_retries := 0\<rparr> in
      if \<not> pu_mainloop st1 then (st1, [])
      else
        let (st2, out) =
              (if pu_context st1 then
                 let (st2, out) = stop_level_stream st1
                 in (st2, PaLock # out @ [PaContextCallbacks False, PaContextDisconnect, PaUnlock])
               else (st1, []))
        in (st2\<lparr>pu_mainloop := False, pu_api := False, pu_context := False, pu_running := False, pu_started := False\<rparr>,
            out @ (if pu_running st2 then [PaMainloopStop] else []) @ [PaMainloopFree]))"

section \<open>The level monitor\<close>

definition start_level_monitor :: "pulse_text \<Rightarrow> pulse_state \<Rightarrow> pulse_state \<times> pulse_out list" where
  "start_level_monitor pt st =
     (if \<not> pu_mainloop st then (st, [])
      else
        let (ok, st1, out) = start_level_stream pt (st\<lparr>pu_level_requested := True\<rparr>)
        in (if \<not> ok then post PostRetryLevel st1 else st1, PaLock # out @ [PaUnlock]))"

definition stop_level_monitor :: "pulse_state \<Rightarrow> pulse_state \<times> pulse_out list" where
  "stop_level_monitor st =
     (let st1 = st\<lparr>pu_level_requested := False, pu_level_retries := 0\<rparr> in
      if \<not> pu_mainloop st1 then (st1, [])
      else
        let (st2, out) = stop_level_stream st1
        in (post (PostSignal (SigInputLevel 0)) st2, PaLock # out @ [PaUnlock]))"

definition retry_level_monitor :: "pulse_text \<Rightarrow> pulse_state \<Rightarrow> pulse_state \<times> pulse_out list" where
  "retry_level_monitor pt st =
     (if \<not> pu_level_requested st \<or> \<not> pu_mainloop st \<or> pu_level_retries st \<ge> max_level_retries then (st, [])
      else
        let (st1, out1) = stop_level_stream (st\<lparr>pu_level_retries := pu_level_retries st + 1\<rparr>);
            (ok, st2, out2) = start_level_stream pt st1
        in (if \<not> ok then post PostRetryLevel st2 else st2, PaLock # out1 @ out2 @ [PaUnlock]))"

section \<open>The setters\<close>

text \<open>Most setters: nothing without a context and a main loop, else one call with the lock held.\<close>

definition locked_call :: "pulse_out \<Rightarrow> pulse_state \<Rightarrow> pulse_state \<times> pulse_out list" where
  "locked_call c st = (if \<not> pu_context st \<or> \<not> pu_mainloop st then (st, []) else (st, [PaLock, c, PaUnlock]))"

text \<open>The volume setters ask for the description first, to know the number of channels.\<close>

definition request_volume ::
  "(info_use \<Rightarrow> pulse_out) \<Rightarrow> int \<Rightarrow> pulse_state \<Rightarrow> pulse_state \<times> pulse_out list" where
  "request_volume ask percent st =
     (if \<not> pu_context st \<or> \<not> pu_mainloop st then (st, [])
      else
        let n = pu_next_request st;
            (issued, st1) = take_result (st\<lparr>pu_next_request := n + 1\<rparr>);
            st2 = (if issued then st1\<lparr>pu_requests := pu_requests st1 @ [(n, \<lparr>vr_percent = percent\<rparr>)]\<rparr> else st1)
        in (st2, [PaLock, ask (VolumeInfo n), PaUnlock]))"

fun pulse_call :: "pulse_text \<Rightarrow> audio_call \<Rightarrow> pulse_state \<Rightarrow> pulse_state \<times> pulse_out list" where
  "pulse_call pt CallStart st = pulse_start st"
| "pulse_call pt CallStop st = pulse_stop st"
| "pulse_call pt CallStartLevel st = start_level_monitor pt st"
| "pulse_call pt CallStopLevel st = stop_level_monitor st"
| "pulse_call pt (CallDeviceVolume k percent) st = request_volume (PaSinkInfo k) percent st"
| "pulse_call pt (CallDeviceMuted k m) st = locked_call (PaSetSinkMute k m) st"
| "pulse_call pt (CallSourceVolume k percent) st = request_volume (PaSourceInfo k) percent st"
| "pulse_call pt (CallSourceMuted k m) st = locked_call (PaSetSourceMute k m) st"
| "pulse_call pt (CallDefaultOutput k) st = locked_call (PaSetDefaultSink (pt_to_utf8 pt (decimal (unat k)))) st"
| "pulse_call pt (CallDefaultInput k) st = locked_call (PaSetDefaultSource (pt_to_utf8 pt (decimal (unat k)))) st"
| "pulse_call pt (CallDefaultOutputByName name) st = locked_call (PaSetDefaultSink (pt_to_utf8 pt name)) st"
| "pulse_call pt (CallDefaultInputByName name) st = locked_call (PaSetDefaultSource (pt_to_utf8 pt name)) st"
| "pulse_call pt (CallStreamVolume k percent) st = request_volume (PaSinkInputInfo k) percent st"
| "pulse_call pt (CallStreamMuted k m) st = locked_call (PaSetSinkInputMute k m) st"
| "pulse_call pt (CallMoveStream k device) st = locked_call (PaMoveSinkInput k device) st"

section \<open>Notifications and descriptions\<close>

text \<open>The key of a device in the set of warnings: its type above its index, in 64 bits.\<close>

definition device_key :: "audio_device_type \<Rightarrow> 32 word \<Rightarrow> 64 word" where
  "device_key ty k = or (push_bit 32 (case ty of Sink \<Rightarrow> 0 | Source \<Rightarrow> 1)) (ucast k)"

definition warn_if_missing :: "audio_device \<Rightarrow> pulse_state \<Rightarrow> pulse_state \<times> pulse_out list" where
  "warn_if_missing d st =
     (let missing = (ad_bus_type d = ''Unknown'' \<or> ad_icon_name d = '''');
          key = device_key (ad_type d) (ad_index d)
      in if \<not> missing \<or> key \<in> set (pu_warned st) then (st, [])
         else (st\<lparr>pu_warned := key # pu_warned st\<rparr>, [MetadataWarning (ad_index d)]))"

datatype facility = FacSink | FacSource | FacSinkInput | FacSourceOutput | FacServer | FacOther

datatype change_kind = EventNew | EventChange | EventRemove

definition info_for :: "change_kind \<Rightarrow> info_use" where
  "info_for e = (if e = EventNew then ListInfo else ChangedInfo)"

definition handle_sink_event :: "change_kind \<Rightarrow> 32 word \<Rightarrow> pulse_state \<Rightarrow> pulse_state \<times> pulse_out list" where
  "handle_sink_event e k st =
     (if e = EventRemove then
        (post (PostSignal (SigSinkRemoved k)) (st\<lparr>pu_warned := removeAll (device_key Sink k) (pu_warned st)\<rparr>), [])
      else (st, [PaSinkInfo k (info_for e)]))"

definition handle_source_event :: "change_kind \<Rightarrow> 32 word \<Rightarrow> pulse_state \<Rightarrow> pulse_state \<times> pulse_out list" where
  "handle_source_event e k st =
     (if e = EventRemove then
        (post (PostSignal (SigSourceRemoved k)) (st\<lparr>pu_warned := removeAll (device_key Source k) (pu_warned st)\<rparr>), [])
      else (st, [PaSourceInfo k (info_for e)]))"

definition handle_sink_input_event :: "change_kind \<Rightarrow> 32 word \<Rightarrow> pulse_state \<Rightarrow> pulse_state \<times> pulse_out list" where
  "handle_sink_input_event e k st =
     (if e = EventRemove then (post (PostSignal (SigStreamRemoved k)) st, [])
      else (st, [PaSinkInputInfo k (info_for e)]))"

definition handle_source_output_event :: "change_kind \<Rightarrow> 32 word \<Rightarrow> pulse_state \<Rightarrow> pulse_state \<times> pulse_out list" where
  "handle_source_output_event e k st =
     (if e = EventRemove then (post (PostSignal (SigStreamRemoved k)) st, [])
      else (st, [PaSourceOutputInfo k (info_for e)]))"

definition on_subscription :: "facility \<Rightarrow> change_kind \<Rightarrow> 32 word \<Rightarrow> pulse_state \<Rightarrow> pulse_state \<times> pulse_out list" where
  "on_subscription f e k st =
     (case f of
        FacSink \<Rightarrow> handle_sink_event e k st
      | FacSource \<Rightarrow> handle_source_event e k st
      | FacSinkInput \<Rightarrow> handle_sink_input_event e k st
      | FacSourceOutput \<Rightarrow> handle_source_output_event e k st
      | FacServer \<Rightarrow> (st, [PaServerInfo])
      | FacOther \<Rightarrow> (st, []))"

text \<open>The names of the default sink and source as the server reports them; either may be a null pointer.\<close>

definition on_server_info ::
  "pulse_text \<Rightarrow> (string option \<times> string option) option \<Rightarrow> pulse_state \<Rightarrow> pulse_state \<times> pulse_out list" where
  "on_server_info pt info st =
     (case info of
        None \<Rightarrow> (st, [])
      | Some (sink, source) \<Rightarrow>
          let new_source = utf8_or_empty pt source;
              source_changed = (pu_level_stream st \<and> new_source \<noteq> pu_default_source st);
              st1 = st\<lparr>pu_default_sink := utf8_or_empty pt sink, pu_default_source := new_source\<rparr>;
              lists = [PaSinkList, PaSourceList, PaSinkInputList, PaSourceOutputList]
          in if source_changed then
               let (st2, out2) = stop_level_stream st1; (_, st3, out3) = start_level_stream pt st2
               in (st3, lists @ out2 @ out3)
             else (st1, lists))"

text \<open>The callback of a volume request: the volume is set on every channel, and the last call frees it.\<close>

definition on_volume_info ::
  "(32 word \<Rightarrow> nat \<Rightarrow> 32 word \<Rightarrow> pulse_out) \<Rightarrow> nat \<Rightarrow> (32 word \<times> 8 word) option \<Rightarrow> pulse_state \<Rightarrow>
   pulse_state \<times> pulse_out list" where
  "on_volume_info send n info st =
     (case map_of (pu_requests st) n of
        None \<Rightarrow> (st, [])
      | Some r \<Rightarrow>
          (case info of
             None \<Rightarrow> (st\<lparr>pu_requests := AList.delete n (pu_requests st)\<rparr>, [])
           | Some (k, channels) \<Rightarrow> (st, [send k (max 1 (unat channels)) (volume_from_percent (vr_percent r))])))"

definition on_sink_info ::
  "pulse_text \<Rightarrow> info_use \<Rightarrow> pulse_device_info option \<Rightarrow> pulse_state \<Rightarrow> pulse_state \<times> pulse_out list" where
  "on_sink_info pt use info st =
     (case use of
        VolumeInfo n \<Rightarrow> on_volume_info PaSetSinkVolume n (map_option (\<lambda>i. (pi_index i, pi_volume_channels i)) info) st
      | _ \<Rightarrow>
          (case info of
             None \<Rightarrow> (st, [])
           | Some i \<Rightarrow>
               let d = sink_to_device pt (pu_default_sink st) i; (st1, out) = warn_if_missing d st
               in (post (PostSignal (if use = ListInfo then SigDeviceAdded d else SigDeviceChanged d)) st1, out)))"

text \<open>Sources that monitor a sink are no input devices.\<close>

definition on_source_info ::
  "pulse_text \<Rightarrow> info_use \<Rightarrow> pulse_device_info option \<Rightarrow> pulse_state \<Rightarrow> pulse_state \<times> pulse_out list" where
  "on_source_info pt use info st =
     (case use of
        VolumeInfo n \<Rightarrow> on_volume_info PaSetSourceVolume n (map_option (\<lambda>i. (pi_index i, pi_volume_channels i)) info) st
      | _ \<Rightarrow>
          (case info of
             None \<Rightarrow> (st, [])
           | Some i \<Rightarrow>
               if pi_monitor_of i \<noteq> invalid_audio_index then (st, [])
               else
                 let d = source_to_device pt (pu_default_source st) i; (st1, out) = warn_if_missing d st
                 in (post (PostSignal (if use = ListInfo then SigDeviceAdded d else SigDeviceChanged d)) st1, out)))"

definition on_sink_input_info ::
  "pulse_text \<Rightarrow> info_use \<Rightarrow> pulse_stream_info option \<Rightarrow> pulse_state \<Rightarrow> pulse_state \<times> pulse_out list" where
  "on_sink_input_info pt use info st =
     (case use of
        VolumeInfo n \<Rightarrow>
          on_volume_info PaSetSinkInputVolume n (map_option (\<lambda>i. (si_index i, si_volume_channels i)) info) st
      | _ \<Rightarrow>
          (case info of
             None \<Rightarrow> (st, [])
           | Some i \<Rightarrow>
               let s = sink_input_to_stream pt i
               in (post (PostSignal (if use = ListInfo then SigStreamAdded s else SigStreamChanged s)) st, [])))"

definition on_source_output_info ::
  "pulse_text \<Rightarrow> info_use \<Rightarrow> pulse_stream_info option \<Rightarrow> pulse_state \<Rightarrow> pulse_state \<times> pulse_out list" where
  "on_source_output_info pt use info st =
     (case info of
        None \<Rightarrow> (st, [])
      | Some i \<Rightarrow>
          let s = source_output_to_stream pt i
          in (post (PostSignal (if use = ListInfo then SigStreamAdded s else SigStreamChanged s)) st, []))"

section \<open>Steps\<close>

definition run_posted :: "pulse_text \<Rightarrow> pulse_state \<Rightarrow> pulse_state \<times> pulse_out list" where
  "run_posted pt st =
     (case pu_queue st of
        [] \<Rightarrow> (st, [])
      | p # ps \<Rightarrow>
          let st1 = st\<lparr>pu_queue := ps\<rparr> in
          (case p of
             PostSignal s \<Rightarrow> (st1, [Emit s])
           | PostReady \<Rightarrow> let (st2, out) = on_reconnect_succeeded st1 in (st2, Emit (SigAvailable True) # out)
           | PostLost \<Rightarrow> let (st2, out) = on_context_lost st1 in (st2, Emit (SigAvailable False) # out)
           | PostRetryLevel \<Rightarrow> retry_level_monitor pt st1))"

definition pulse_timeout :: "pulse_state \<Rightarrow> pulse_state \<times> pulse_out list" where
  "pulse_timeout st = (if pu_timer st then attempt_reconnect (st\<lparr>pu_timer := False\<rparr>) else (st, []))"

datatype pulse_event =
    ContextReady | ContextFailed
  | Subscription facility change_kind "32 word"
  | ServerInfo "(string option \<times> string option) option"
  | SinkInfo info_use "pulse_device_info option"
  | SourceInfo info_use "pulse_device_info option"
  | SinkInputInfo info_use "pulse_stream_info option"
  | SourceOutputInfo info_use "pulse_stream_info option"
  | LevelState stream_state
  | LevelRead peeked

text \<open>A callback of libpulse: those of the context come while it is there, those of the stream likewise.\<close>

fun pulse_callback :: "pulse_text \<Rightarrow> pulse_event \<Rightarrow> pulse_state \<Rightarrow> pulse_state \<times> pulse_out list" where
  "pulse_callback pt (LevelState s) st = (if pu_level_stream st then level_stream_state s st else (st, []))"
| "pulse_callback pt (LevelRead p) st = (if pu_level_stream st then level_stream_read p st else (st, []))"
| "pulse_callback pt ContextReady st = (if pu_context st then context_ready st else (st, []))"
| "pulse_callback pt ContextFailed st = (if pu_context st then context_failed st else (st, []))"
| "pulse_callback pt (Subscription f e k) st = (if pu_context st then on_subscription f e k st else (st, []))"
| "pulse_callback pt (ServerInfo info) st = (if pu_context st then on_server_info pt info st else (st, []))"
| "pulse_callback pt (SinkInfo use info) st = (if pu_context st then on_sink_info pt use info st else (st, []))"
| "pulse_callback pt (SourceInfo use info) st = (if pu_context st then on_source_info pt use info st else (st, []))"
| "pulse_callback pt (SinkInputInfo use info) st =
     (if pu_context st then on_sink_input_info pt use info st else (st, []))"
| "pulse_callback pt (SourceOutputInfo use info) st =
     (if pu_context st then on_source_output_info pt use info st else (st, []))"

datatype pulse_step_kind = Called audio_call | Callback pulse_event | RunPosted | ReconnectTimeout

fun pulse_step :: "pulse_text \<Rightarrow> pulse_step_kind \<Rightarrow> pulse_state \<Rightarrow> pulse_state \<times> pulse_out list" where
  "pulse_step pt (Called c) st = pulse_call pt c st"
| "pulse_step pt (Callback e) st = pulse_callback pt e st"
| "pulse_step pt RunPosted st = run_posted pt st"
| "pulse_step pt ReconnectTimeout st = pulse_timeout st"

fun pulse_run :: "pulse_text \<Rightarrow> pulse_step_kind list \<Rightarrow> pulse_state \<Rightarrow> pulse_state \<times> pulse_out list" where
  "pulse_run pt [] st = (st, [])"
| "pulse_run pt (e # es) st =
     (let (st1, out1) = pulse_step pt e st; (st2, out2) = pulse_run pt es st1 in (st2, out1 @ out2))"


end
