(* ===== verification/PulseAudio_Runs.thy ===== *)
theory PulseAudio_Runs
  imports PulseAudio_Backend
begin

text \<open>
  What holds of every run of the PulseAudio backend: the lock of the main loop is held around every call
  that needs it and is always given back; the waits before attempts to reconnect follow the schedule and
  end after eight; and what is posted to the Qt thread runs out although a failed level monitor posts
  itself again.
\<close>

section \<open>The lock\<close>

text \<open>The calls on a connected context or on a stream. Making a context and registering its callbacks come
  before it is connected; the calls on the main loop itself take no lock.\<close>

fun needs_lock :: "pulse_out \<Rightarrow> bool" where
  "needs_lock (Emit s) = False"
| "needs_lock (ReconnectTimer n) = False"
| "needs_lock (MetadataWarning k) = False"
| "needs_lock LevelWarning = False"
| "needs_lock PaMainloopNew = False"
| "needs_lock PaMainloopApi = False"
| "needs_lock PaMainloopStart = False"
| "needs_lock PaMainloopStop = False"
| "needs_lock PaMainloopFree = False"
| "needs_lock PaContextNew = False"
| "needs_lock (PaContextCallbacks on) = (\<not> on)"
| "needs_lock _ = True"

text \<open>Follow the lock through a list of calls: \<open>None\<close> when it is taken twice, released without being
  held, or not held by a call that needs it.\<close>

fun lock_after :: "bool \<Rightarrow> pulse_out list \<Rightarrow> bool option" where
  "lock_after held [] = Some held"
| "lock_after held (PaLock # out) = (if held then None else lock_after True out)"
| "lock_after held (PaUnlock # out) = (if held then lock_after False out else None)"
| "lock_after held (x # out) = (if needs_lock x \<and> \<not> held then None else lock_after held out)"

lemma lock_after_append [simp]:
  "lock_after held (xs @ ys) = (case lock_after held xs of None \<Rightarrow> None | Some h \<Rightarrow> lock_after h ys)"
  by (induction held xs rule: lock_after.induct) simp_all

named_theorems lock_simps \<open>the lock after each part of an operation\<close>

lemma lock_level_stream [lock_simps]:
  "lock_after True (snd (stop_level_stream st)) = Some True"
  "lock_after True (snd (snd (start_level_stream pt st))) = Some True"
  by (simp_all add: stop_level_stream_def start_level_stream_def Let_def split_beta)

lemma lock_level_callbacks [lock_simps]:
  "lock_after True (snd (level_stream_state s st)) = Some True"
  "lock_after True (snd (level_stream_read p st)) = Some True"
  by (simp_all add: level_stream_state_def level_stream_read_def Let_def split: peeked.split)

lemma lock_context [lock_simps]:
  "lock_after False (snd (teardown_context st)) = Some False"
  "lock_after False (snd (snd (connect_new_context st))) = Some False"
  by (simp_all add: teardown_context_def connect_new_context_def Let_def split_beta lock_simps)

lemma lock_health [lock_simps]: "lock_after h (snd (set_health_state s st)) = Some h"
  by (simp add: set_health_state_def)

lemma lock_lost [lock_simps]:
  "lock_after h (snd (schedule_pulse_reconnect st)) = Some h"
  "lock_after h (snd (on_context_lost st)) = Some h"
  "lock_after h (snd (on_reconnect_succeeded st)) = Some h"
  by (simp_all add: schedule_pulse_reconnect_def on_context_lost_def on_reconnect_succeeded_def Let_def split_beta
      lock_health)

lemma lock_monitor [lock_simps]:
  "lock_after False (snd (start_level_monitor pt st)) = Some False"
  "lock_after False (snd (stop_level_monitor st)) = Some False"
  "lock_after False (snd (retry_level_monitor pt st)) = Some False"
  by (simp_all add: start_level_monitor_def stop_level_monitor_def retry_level_monitor_def Let_def split_beta
      lock_level_stream)

lemma lock_attempt [lock_simps]: "lock_after False (snd (attempt_reconnect st)) = Some False"
  by (simp add: attempt_reconnect_def Let_def split_beta lock_context lock_lost)

lemma lock_start [lock_simps]: "lock_after False (snd (pulse_start st)) = Some False"
  by (simp add: pulse_start_def Let_def split_beta lock_context lock_lost)

lemma lock_stop [lock_simps]: "lock_after False (snd (pulse_stop st)) = Some False"
  by (simp add: pulse_stop_def Let_def split_beta lock_level_stream)

lemma lock_setter [lock_simps]:
  "needs_lock c \<Longrightarrow> c \<noteq> PaLock \<Longrightarrow> c \<noteq> PaUnlock \<Longrightarrow> lock_after False (snd (locked_call c st)) = Some False"
  by (cases c) (simp_all add: locked_call_def)

lemma lock_request [lock_simps]:
  "lock_after False (snd (request_volume (PaSinkInfo k) p st)) = Some False"
  "lock_after False (snd (request_volume (PaSourceInfo k) p st)) = Some False"
  "lock_after False (snd (request_volume (PaSinkInputInfo k) p st)) = Some False"
  by (simp_all add: request_volume_def Let_def split_beta)

lemma lock_call: "lock_after False (snd (pulse_call pt c st)) = Some False"
  by (cases c) (simp_all add: lock_simps)

lemma lock_volume_info [lock_simps]:
  "lock_after True (snd (on_volume_info PaSetSinkVolume n info st)) = Some True"
  "lock_after True (snd (on_volume_info PaSetSourceVolume n info st)) = Some True"
  "lock_after True (snd (on_volume_info PaSetSinkInputVolume n info st)) = Some True"
  by (simp_all add: on_volume_info_def split: option.split)

lemma lock_warn [lock_simps]: "lock_after h (snd (warn_if_missing d st)) = Some h"
  by (simp add: warn_if_missing_def Let_def)

lemma lock_info [lock_simps]:
  "lock_after True (snd (on_sink_info pt use info st)) = Some True"
  "lock_after True (snd (on_source_info pt use info st)) = Some True"
  "lock_after True (snd (on_sink_input_info pt use stream st)) = Some True"
  "lock_after True (snd (on_source_output_info pt use stream st)) = Some True"
  by (simp_all add: on_sink_info_def on_source_info_def on_sink_input_info_def on_source_output_info_def Let_def
      split_beta lock_volume_info lock_warn split: info_use.split option.split)

lemma lock_server_info [lock_simps]: "lock_after True (snd (on_server_info pt info st)) = Some True"
  by (simp add: on_server_info_def Let_def split_beta lock_level_stream split: option.split)

lemma lock_subscription [lock_simps]: "lock_after True (snd (on_subscription f e k st)) = Some True"
  by (simp add: on_subscription_def handle_sink_event_def handle_source_event_def handle_sink_input_event_def
      handle_source_output_event_def split: facility.split)

lemma lock_context_callbacks [lock_simps]:
  "lock_after True (snd (context_ready st)) = Some True" "lock_after True (snd (context_failed st)) = Some True"
  by (simp_all add: context_ready_def context_failed_def)

lemma lock_callback: "lock_after True (snd (pulse_callback pt e st)) = Some True"
  by (cases e) (simp_all add: lock_simps)

lemma lock_posted: "lock_after False (snd (run_posted pt st)) = Some False"
  by (simp add: run_posted_def Let_def split_beta lock_simps split: list.split posted.split)

text \<open>C38. In every step the lock of PulseAudio's main loop is held around each call on the connected context
  or on the level stream, it is never taken twice, and the Qt thread always gives it back; a callback, which
  runs with the lock held, leaves it held.\<close>

theorem pulse_lock_discipline:
  "lock_after False (snd (pulse_call pt c st)) = Some False \<and>
   lock_after False (snd (run_posted pt st)) = Some False \<and>
   lock_after False (snd (pulse_timeout st)) = Some False \<and>
   lock_after True (snd (pulse_callback pt e st)) = Some True"
  by (simp add: lock_call lock_posted lock_callback pulse_timeout_def lock_attempt)

section \<open>Posted functions run out\<close>

text \<open>What is left to run: the queue, and the retries that the level monitor may still post.\<close>

definition posted_work :: "pulse_state \<Rightarrow> nat" where
  "posted_work st = length (pu_queue st) + (max_level_retries - pu_level_retries st)"

definition streams_made :: "pulse_out list \<Rightarrow> nat" where
  "streams_made out = length (filter (\<lambda>x. x = PaStreamNew) out)"

lemma streams_made_simps [simp]:
  "streams_made [] = 0" "streams_made (x # out) = (if x = PaStreamNew then 1 else 0) + streams_made out"
  "streams_made (xs @ ys) = streams_made xs + streams_made ys"
  by (simp_all add: streams_made_def)

lemma take_result_frame [simp]:
  "pu_queue (snd (take_result st)) = pu_queue st" "pu_level_retries (snd (take_result st)) = pu_level_retries st"
  "pu_timer (snd (take_result st)) = pu_timer st" "pu_attempt (snd (take_result st)) = pu_attempt st"
  "pu_health (snd (take_result st)) = pu_health st" "pu_backoff (snd (take_result st)) = pu_backoff st"
  "pu_level_stream (snd (take_result st)) = pu_level_stream st"
  by (simp_all add: take_result_def split: list.split)

lemma stop_level_stream_frame [simp]:
  "pu_queue (fst (stop_level_stream st)) = pu_queue st"
  "pu_level_retries (fst (stop_level_stream st)) = pu_level_retries st"
  "pu_timer (fst (stop_level_stream st)) = pu_timer st" "pu_attempt (fst (stop_level_stream st)) = pu_attempt st"
  "pu_health (fst (stop_level_stream st)) = pu_health st" "pu_backoff (fst (stop_level_stream st)) = pu_backoff st"
  "streams_made (snd (stop_level_stream st)) = 0"
  by (simp_all add: stop_level_stream_def)

lemma start_level_stream_frame [simp]:
  "pu_queue (fst (snd (start_level_stream pt st))) = pu_queue st"
  "pu_level_retries (fst (snd (start_level_stream pt st))) = pu_level_retries st"
  "pu_timer (fst (snd (start_level_stream pt st))) = pu_timer st"
  "pu_attempt (fst (snd (start_level_stream pt st))) = pu_attempt st"
  "pu_health (fst (snd (start_level_stream pt st))) = pu_health st"
  "pu_backoff (fst (snd (start_level_stream pt st))) = pu_backoff st"
  by (simp_all add: start_level_stream_def Let_def split_beta)

lemma start_level_stream_made: "streams_made (snd (snd (start_level_stream pt st))) \<le> 1"
  by (simp add: start_level_stream_def Let_def split_beta)

lemma set_health_state_frame [simp]:
  "pu_queue (fst (set_health_state h st)) = pu_queue st"
  "pu_level_retries (fst (set_health_state h st)) = pu_level_retries st"
  "pu_timer (fst (set_health_state h st)) = pu_timer st" "pu_attempt (fst (set_health_state h st)) = pu_attempt st"
  "pu_backoff (fst (set_health_state h st)) = pu_backoff st" "pu_health (fst (set_health_state h st)) = h"
  "streams_made (snd (set_health_state h st)) = 0"
  by (simp_all add: set_health_state_def)

lemma context_lost_frame [simp]:
  "pu_queue (fst (on_context_lost st)) = pu_queue st"
  "pu_level_retries (fst (on_context_lost st)) = pu_level_retries st" "streams_made (snd (on_context_lost st)) = 0"
  by (simp_all add: on_context_lost_def schedule_pulse_reconnect_def Let_def split_beta)

lemma reconnect_succeeded_frame [simp]:
  "pu_queue (fst (on_reconnect_succeeded st)) = pu_queue st"
  "pu_level_retries (fst (on_reconnect_succeeded st)) = pu_level_retries st"
  "streams_made (snd (on_reconnect_succeeded st)) = 0"
  by (simp_all add: on_reconnect_succeeded_def)

lemma retry_level_monitor_work:
  "posted_work (fst (retry_level_monitor pt st)) \<le> posted_work st"
  "streams_made (snd (retry_level_monitor pt st)) + (max_level_retries - pu_level_retries (fst (retry_level_monitor pt st)))
     \<le> max_level_retries - pu_level_retries st"
  using start_level_stream_made [of pt "fst (stop_level_stream (st\<lparr>pu_level_retries := pu_level_retries st + 1\<rparr>))"]
  by (auto simp: retry_level_monitor_def posted_work_def post_def Let_def split_beta)

lemma run_posted_work:
  "posted_work (fst (run_posted pt st)) \<le> posted_work st - (if pu_queue st = [] then 0 else 1)"
proof (cases "pu_queue st")
  case Nil
  then show ?thesis by (simp add: run_posted_def)
next
  case (Cons p ps)
  have less: "posted_work (st\<lparr>pu_queue := ps\<rparr>) = posted_work st - 1" by (simp add: posted_work_def Cons)
  show ?thesis
  proof (cases p)
    case PostRetryLevel
    then show ?thesis
      using retry_level_monitor_work(1) [of pt "st\<lparr>pu_queue := ps\<rparr>"] less Cons by (simp add: run_posted_def)
  qed (simp_all add: run_posted_def Cons posted_work_def Let_def split_beta)
qed

lemma run_posted_streams:
  "streams_made (snd (run_posted pt st)) + (max_level_retries - pu_level_retries (fst (run_posted pt st)))
     \<le> max_level_retries - pu_level_retries st"
proof (cases "pu_queue st")
  case Nil
  then show ?thesis by (simp add: run_posted_def)
next
  case (Cons p ps)
  show ?thesis
  proof (cases p)
    case PostRetryLevel
    then show ?thesis
      using retry_level_monitor_work(2) [of pt "st\<lparr>pu_queue := ps\<rparr>"] Cons by (simp add: run_posted_def)
  qed (simp_all add: run_posted_def Cons Let_def split_beta)
qed

lemma posted_work_run:
  "posted_work (fst (pulse_run pt (replicate n RunPosted) st)) \<le> posted_work st - n \<or>
   pu_queue (fst (pulse_run pt (replicate n RunPosted) st)) = []"
proof (induction n arbitrary: st)
  case 0
  then show ?case by simp
next
  case (Suc n)
  let ?st1 = "fst (run_posted pt st)"
  have step: "fst (pulse_run pt (replicate (Suc n) RunPosted) st) = fst (pulse_run pt (replicate n RunPosted) ?st1)"
    by (simp add: split_beta)
  show ?case
  proof (cases "pu_queue st = []")
    case True
    then have "?st1 = st" by (simp add: run_posted_def)
    moreover have "pu_queue (fst (pulse_run pt (replicate n RunPosted) st)) = []" for n
      using True by (induction n) (simp_all add: run_posted_def split_beta)
    ultimately show ?thesis unfolding step by simp
  next
    case False
    then have "posted_work ?st1 \<le> posted_work st - 1" using run_posted_work [of pt st] by simp
    then show ?thesis using Suc.IH [of ?st1] unfolding step by linarith
  qed
qed

lemma streams_made_run:
  "streams_made (snd (pulse_run pt (replicate n RunPosted) st)) +
     (max_level_retries - pu_level_retries (fst (pulse_run pt (replicate n RunPosted) st)))
     \<le> max_level_retries - pu_level_retries st"
proof (induction n arbitrary: st)
  case (Suc n)
  from run_posted_streams [of pt st] Suc.IH [of "fst (run_posted pt st)"] show ?case by (simp add: split_beta)
qed simp

text \<open>C37. What is posted to the Qt thread runs out: unless something new happens, three more turns of the event
  loop than there are posted functions leave none, however often opening the level stream fails, and any
  number of turns makes at most three new streams.\<close>

theorem pulse_posts_run_out:
  "pu_queue (fst (pulse_run pt (replicate (length (pu_queue st) + 3) RunPosted) st)) = [] \<and>
   streams_made (snd (pulse_run pt (replicate n RunPosted) st)) \<le> 3"
proof
  have "posted_work st \<le> length (pu_queue st) + 3" by (simp add: posted_work_def max_level_retries_def)
  then show "pu_queue (fst (pulse_run pt (replicate (length (pu_queue st) + 3) RunPosted) st)) = []"
    using posted_work_run [of pt "length (pu_queue st) + 3" st] by (auto simp: posted_work_def)
  show "streams_made (snd (pulse_run pt (replicate n RunPosted) st)) \<le> 3"
    using streams_made_run [of pt n st] by (simp add: max_level_retries_def)
qed


section \<open>The schedule of attempts to reconnect\<close>

text \<open>The waits started since the client was last told that the service is available.\<close>

fun waits_from :: "nat list \<Rightarrow> pulse_out list \<Rightarrow> nat list" where
  "waits_from ws [] = ws"
| "waits_from ws (ReconnectTimer d # out) = waits_from (ws @ [d]) out"
| "waits_from ws (Emit (SigAvailable True) # out) = waits_from [] out"
| "waits_from ws (_ # out) = waits_from ws out"

definition waits_since_ready :: "pulse_out list \<Rightarrow> nat list" where
  "waits_since_ready out = waits_from [] out"

lemma waits_append [simp]: "waits_from ws (xs @ ys) = waits_from (waits_from ws xs) ys"
  by (induction ws xs rule: waits_from.induct) simp_all

text \<open>The waits after \<open>n\<close> attempts, and the part of the state they depend on.\<close>

definition planned_waits :: "nat list \<Rightarrow> nat \<Rightarrow> nat list" where
  "planned_waits schedule n = map (backoff_delay schedule) [0..<n]"

text \<open>Availability and health are never posted as such: the functions that report them emit them.\<close>

fun plain_post :: "posted \<Rightarrow> bool" where
  "plain_post (PostSignal (SigAvailable v)) = False"
| "plain_post (PostSignal (SigHealth h)) = False"
| "plain_post _ = True"

definition waits_ok :: "pulse_state \<Rightarrow> nat list \<Rightarrow> bool" where
  "waits_ok st ws =
     (ws = planned_waits (pu_backoff st) (pu_attempt st) \<and> pu_attempt st \<le> max_reconnect_attempts \<and>
      list_all plain_post (pu_queue st))"

lemma planned_waits_Suc: "planned_waits schedule (Suc n) = planned_waits schedule n @ [backoff_delay schedule n]"
  by (simp add: planned_waits_def)

text \<open>An operation that neither waits nor tells of the service keeps the plan.\<close>

definition no_waits :: "pulse_out list \<Rightarrow> bool" where
  "no_waits out = (\<forall>x\<in>set out. (\<forall>d. x \<noteq> ReconnectTimer d) \<and> x \<noteq> Emit (SigAvailable True))"

lemma no_waits_from: "no_waits out \<Longrightarrow> waits_from ws out = ws"
proof (induction out)
  case (Cons x out)
  then have rest: "waits_from ws out = ws" and x: "\<And>d. x \<noteq> ReconnectTimer d" "x \<noteq> Emit (SigAvailable True)"
    by (simp_all add: no_waits_def)
  show ?case
  proof (cases x)
    case (Emit s)
    then show ?thesis using x rest
    proof (cases s)
      case (SigAvailable v)
      then show ?thesis using x rest Emit by (cases v) simp_all
    qed simp_all
  qed (use x rest in simp_all)
qed simp

lemma no_waits_simps [simp]:
  "no_waits []" "no_waits (xs @ ys) = (no_waits xs \<and> no_waits ys)"
  "no_waits (x # out) = ((\<forall>d. x \<noteq> ReconnectTimer d) \<and> x \<noteq> Emit (SigAvailable True) \<and> no_waits out)"
  by (auto simp: no_waits_def)

definition same_plan :: "pulse_state \<Rightarrow> pulse_state \<Rightarrow> bool" where
  "same_plan st st' =
     (pu_attempt st' = pu_attempt st \<and> pu_backoff st' = pu_backoff st \<and>
      (list_all plain_post (pu_queue st) \<longrightarrow> list_all plain_post (pu_queue st')))"

lemma quiet_step: "waits_ok st ws \<Longrightarrow> same_plan st st' \<Longrightarrow> no_waits out \<Longrightarrow> waits_ok st' (waits_from ws out)"
  by (auto simp: waits_ok_def same_plan_def no_waits_from)

named_theorems plan_simps \<open>operations that keep the plan\<close>

lemma plan_level [plan_simps]:
  "same_plan st (fst (stop_level_stream st))" "no_waits (snd (stop_level_stream st))"
  "no_waits (snd (snd (start_level_stream pt st)))"
  by (simp_all add: same_plan_def stop_level_stream_def start_level_stream_def Let_def split_beta)

lemma plan_teardown [plan_simps]:
  "same_plan st (fst (teardown_context st))" "no_waits (snd (teardown_context st))"
  by (simp_all add: same_plan_def teardown_context_def stop_level_stream_def Let_def split_beta)

lemma plan_connect [plan_simps]:
  "same_plan st (fst (snd (connect_new_context st)))" "no_waits (snd (snd (connect_new_context st)))"
  by (simp_all add: same_plan_def connect_new_context_def Let_def split_beta take_result_def split: list.split)

lemma waits_lost:
  assumes "waits_ok st ws"
  shows "waits_ok (fst (on_context_lost st)) (waits_from ws (snd (on_context_lost st)))"
  using assms by (auto simp: on_context_lost_def schedule_pulse_reconnect_def set_health_state_def waits_ok_def
      planned_waits_Suc max_reconnect_attempts_def)

lemma waits_attempt:
  assumes "waits_ok st ws"
  shows "waits_ok (fst (attempt_reconnect st)) (waits_from ws (snd (attempt_reconnect st)))"
proof -
  obtain st1 out1 where tear: "teardown_context st = (st1, out1)" by (cases "teardown_context st")
  obtain c st2 out2 where conn: "connect_new_context st1 = (c, st2, out2)" by (cases "connect_new_context st1")
  have ok1: "waits_ok st1 (waits_from ws out1)"
    using quiet_step [OF assms] plan_teardown [of st] by (simp add: tear)
  have ok2: "waits_ok st2 (waits_from (waits_from ws out1) out2)"
    using quiet_step [OF ok1] plan_connect [of st1] by (simp add: conn)
  show ?thesis
    using ok2 waits_lost [OF ok2] by (simp add: attempt_reconnect_def tear conn split_beta)
qed

lemma waits_start:
  assumes "waits_ok st ws"
  shows "waits_ok (fst (pulse_start st)) (waits_from ws (snd (pulse_start st)))"
proof -
  let ?st5 = "\<lambda>r. (snd (take_result ((snd (take_result ((snd (take_result (st\<lparr>pu_started := True\<rparr>)))
      \<lparr>pu_mainloop := True\<rparr>)))\<lparr>pu_api := True\<rparr>)))\<lparr>pu_running := r\<rparr>"
  have ok: "waits_ok (?st5 r) (waits_from ws [PaMainloopNew, PaMainloopApi, PaMainloopStart])" for r
    using assms by (simp add: waits_ok_def)
  obtain c st6 out where conn: "connect_new_context (?st5 True) = (c, st6, out)" by (metis prod_cases3)
  have ok6: "waits_ok st6 (waits_from (waits_from ws [PaMainloopNew, PaMainloopApi, PaMainloopStart]) out)"
    using quiet_step [OF ok [of True]] plan_connect [of "?st5 True"] by (simp add: conn)
  show ?thesis
    using assms ok [of False] ok6 waits_lost [OF ok6]
    by (auto simp: pulse_start_def Let_def split_beta conn waits_ok_def)
qed


lemma plan_stop [plan_simps]: "same_plan st (fst (pulse_stop st))" "no_waits (snd (pulse_stop st))"
  by (simp_all add: same_plan_def pulse_stop_def stop_level_stream_def Let_def split_beta)

lemma plan_monitor [plan_simps]:
  "same_plan st (fst (start_level_monitor pt st))" "no_waits (snd (start_level_monitor pt st))"
  "same_plan st (fst (stop_level_monitor st))" "no_waits (snd (stop_level_monitor st))"
  "same_plan st (fst (retry_level_monitor pt st))" "no_waits (snd (retry_level_monitor pt st))"
  by (simp_all add: same_plan_def start_level_monitor_def stop_level_monitor_def retry_level_monitor_def Let_def
      split_beta post_def plan_simps)

lemma plan_setter [plan_simps]:
  "same_plan st (fst (locked_call c st))" "same_plan st (fst (request_volume ask p st))"
  "needs_lock c \<Longrightarrow> no_waits (snd (locked_call c st))"
  "no_waits (snd (request_volume (PaSinkInfo k) p st))" "no_waits (snd (request_volume (PaSourceInfo k) p st))"
  "no_waits (snd (request_volume (PaSinkInputInfo k) p st))"
  by (auto simp: same_plan_def locked_call_def request_volume_def Let_def split_beta take_result_def
      split: list.split)

lemma plan_call:
  assumes "c \<noteq> CallStart"
  shows "same_plan st (fst (pulse_call pt c st))" "no_waits (snd (pulse_call pt c st))"
  using assms by (cases c; simp add: plan_simps)+

lemma plan_volume_info [plan_simps]:
  "same_plan st (fst (on_volume_info send n info st))"
  "no_waits (snd (on_volume_info PaSetSinkVolume n info st))"
  "no_waits (snd (on_volume_info PaSetSourceVolume n info st))"
  "no_waits (snd (on_volume_info PaSetSinkInputVolume n info st))"
  by (simp_all add: on_volume_info_def same_plan_def split: option.split)

lemma plan_warn [plan_simps]:
  "pu_queue (fst (warn_if_missing d st)) = pu_queue st" "pu_attempt (fst (warn_if_missing d st)) = pu_attempt st"
  "pu_backoff (fst (warn_if_missing d st)) = pu_backoff st" "no_waits (snd (warn_if_missing d st))"
  by (simp_all add: warn_if_missing_def Let_def)

lemma same_plan_refl [simp]: "same_plan st st"
  by (simp add: same_plan_def)

lemma plan_info [plan_simps]:
  "same_plan st (fst (on_sink_info pt use info st))" "no_waits (snd (on_sink_info pt use info st))"
  "same_plan st (fst (on_source_info pt use info st))" "no_waits (snd (on_source_info pt use info st))"
  by (simp_all add: on_sink_info_def on_source_info_def Let_def split_beta plan_simps split: info_use.split option.split)
     (simp_all add: same_plan_def post_def plan_warn)

lemma plan_stream_info [plan_simps]:
  "same_plan st (fst (on_sink_input_info pt use stream st))" "no_waits (snd (on_sink_input_info pt use stream st))"
  "same_plan st (fst (on_source_output_info pt use stream st))" "no_waits (snd (on_source_output_info pt use stream st))"
  by (simp_all add: on_sink_input_info_def on_source_output_info_def Let_def plan_simps
      split: info_use.split option.split) (simp_all add: same_plan_def post_def)

lemma plan_server_info [plan_simps]:
  "same_plan st (fst (on_server_info pt info st))" "no_waits (snd (on_server_info pt info st))"
  by (simp_all add: on_server_info_def Let_def split_beta plan_simps split: option.split)
     (simp_all add: same_plan_def)

lemma plan_subscription [plan_simps]:
  "same_plan st (fst (on_subscription f e k st))" "no_waits (snd (on_subscription f e k st))"
  by (simp_all add: on_subscription_def handle_sink_event_def handle_source_event_def handle_sink_input_event_def
      handle_source_output_event_def same_plan_def post_def split: facility.split)

lemma plan_context_events [plan_simps]:
  "same_plan st (fst (context_ready st))" "no_waits (snd (context_ready st))"
  "same_plan st (fst (context_failed st))" "no_waits (snd (context_failed st))"
  "same_plan st (fst (level_stream_state s st))" "no_waits (snd (level_stream_state s st))"
  "same_plan st (fst (level_stream_read p st))" "no_waits (snd (level_stream_read p st))"
  by (simp_all add: context_ready_def context_failed_def level_stream_state_def level_stream_read_def same_plan_def
      post_def Let_def split: peeked.split)

lemma plan_callback: "same_plan st (fst (pulse_callback pt e st))" "no_waits (snd (pulse_callback pt e st))"
  by (cases e; simp add: plan_simps)+

lemma waits_posted:
  assumes "waits_ok st ws"
  shows "waits_ok (fst (run_posted pt st)) (waits_from ws (snd (run_posted pt st)))"
proof (cases "pu_queue st")
  case Nil
  then show ?thesis using assms by (simp add: run_posted_def)
next
  case (Cons p ps)
  have ok: "waits_ok (st\<lparr>pu_queue := ps\<rparr>) ws" using assms by (auto simp: waits_ok_def Cons)
  show ?thesis
  proof (cases p)
    case (PostSignal s)
    then have "no_waits [Emit s]" using assms by (auto simp: waits_ok_def Cons)
    from no_waits_from [OF this] show ?thesis using ok by (simp add: run_posted_def Cons PostSignal)
  next
    case PostReady
    have "waits_ok (fst (on_reconnect_succeeded (st\<lparr>pu_queue := ps\<rparr>)))
        (waits_from [] (snd (on_reconnect_succeeded (st\<lparr>pu_queue := ps\<rparr>))))"
      using ok by (simp add: on_reconnect_succeeded_def set_health_state_def waits_ok_def planned_waits_def)
    then show ?thesis by (simp add: run_posted_def Cons PostReady split_beta Let_def)
  next
    case PostLost
    then show ?thesis using waits_lost [OF ok] by (simp add: run_posted_def Cons split_beta Let_def)
  next
    case PostRetryLevel
    then show ?thesis
      using quiet_step [OF ok plan_monitor(5) plan_monitor(6)] by (simp add: run_posted_def Cons)
  qed
qed

lemma waits_step:
  assumes "waits_ok st ws"
  shows "waits_ok (fst (pulse_step pt e st)) (waits_from ws (snd (pulse_step pt e st)))"
proof (cases e)
  case (Called c)
  show ?thesis
  proof (cases "c = CallStart")
    case True
    then show ?thesis using waits_start [OF assms] by (simp add: Called)
  next
    case False
    then show ?thesis using quiet_step [OF assms plan_call [OF False]] by (simp add: Called)
  qed
next
  case (Callback ev)
  then show ?thesis using quiet_step [OF assms plan_callback] by simp
next
  case RunPosted
  then show ?thesis using waits_posted [OF assms] by simp
next
  case ReconnectTimeout
  have "waits_ok (st\<lparr>pu_timer := False\<rparr>) ws" using assms by (simp add: waits_ok_def)
  from waits_attempt [OF this] show ?thesis using assms by (simp add: ReconnectTimeout pulse_timeout_def)
qed

lemma waits_run:
  assumes "waits_ok st ws"
  shows "waits_ok (fst (pulse_run pt es st)) (waits_from ws (snd (pulse_run pt es st)))"
  using assms
proof (induction es arbitrary: st ws)
  case (Cons e es)
  from Cons.IH [OF waits_step [OF Cons.prems]] show ?case by (simp add: split_beta)
qed simp

lemma take_planned: "n \<le> m \<Longrightarrow> planned_waits schedule n = take n (planned_waits schedule m)"
  by (simp add: planned_waits_def take_map)

lemma backoff_kept: "pu_backoff (fst (pulse_run pt es st)) = pu_backoff st"
proof (induction es arbitrary: st)
  case (Cons e es)
  have "pu_backoff (fst (pulse_step pt e st)) = pu_backoff st"
  proof (cases e)
    case (Called c)
    then show ?thesis
      using plan_call [where c = c and st = st and pt = pt]
      by (cases "c = CallStart") (simp_all add: same_plan_def pulse_start_def connect_new_context_def
          on_context_lost_def schedule_pulse_reconnect_def Let_def split_beta)
  next
    case (Callback ev)
    then show ?thesis using plan_callback(1) [where st = st and pt = pt and e = ev] by (simp add: same_plan_def)
  next
    case RunPosted
    have "pu_backoff (fst (retry_level_monitor pt (st\<lparr>pu_queue := ps\<rparr>))) = pu_backoff st" for ps
      using plan_monitor(5) [where st = "st\<lparr>pu_queue := ps\<rparr>" and pt = pt] by (simp add: same_plan_def)
    then show ?thesis
      by (simp add: RunPosted run_posted_def on_reconnect_succeeded_def on_context_lost_def
          schedule_pulse_reconnect_def Let_def split_beta split: list.split posted.split)
  next
    case ReconnectTimeout
    have "pu_backoff (fst (snd (connect_new_context s))) = pu_backoff s" for s
      using plan_connect(1) [of s] by (simp add: same_plan_def)
    moreover have "pu_backoff (fst (teardown_context s)) = pu_backoff s" for s
      using plan_teardown(1) [of s] by (simp add: same_plan_def)
    ultimately show ?thesis
      by (simp add: ReconnectTimeout pulse_timeout_def attempt_reconnect_def on_context_lost_def
          schedule_pulse_reconnect_def Let_def split_beta)
  qed
  then show ?case using Cons.IH [of "fst (pulse_step pt e st)"] by (simp add: split_beta)
qed simp

text \<open>C36. In every run the waits started since the service was last available are a beginning of 1, 2, 4, 8, 16,
  30, 30 and 30 seconds, one for each attempt counted, so that at most eight attempts are made in a row.\<close>

theorem pulse_reconnect_schedule:
  "waits_since_ready (snd (pulse_run pt es pulse_init)) =
     take (pu_attempt (fst (pulse_run pt es pulse_init))) [1000, 2000, 4000, 8000, 16000, 30000, 30000, 30000] \<and>
   pu_attempt (fst (pulse_run pt es pulse_init)) \<le> 8"
proof -
  let ?st = "fst (pulse_run pt es pulse_init)"
  have "waits_ok pulse_init []" by (simp add: waits_ok_def pulse_init_def planned_waits_def)
  from waits_run [OF this, of pt es] have ok: "waits_ok ?st (waits_since_ready (snd (pulse_run pt es pulse_init)))"
    by (simp add: waits_since_ready_def)
  have all: "planned_waits default_backoff 8 = [1000, 2000, 4000, 8000, 16000, 30000, 30000, 30000]"
    by (simp add: planned_waits_def default_backoff_def backoff_delay_def upt_rec)
  have "pu_backoff ?st = default_backoff" by (simp add: backoff_kept) (simp add: pulse_init_def)
  then show ?thesis
    using ok take_planned [of "pu_attempt ?st" 8 default_backoff] by (simp add: waits_ok_def max_reconnect_attempts_def all)
qed


end
