(* ===== verification/Audio_System.thy ===== *)
theory Audio_System
  imports Audio_Runs PulseAudio_Runs
begin

text \<open>
  The controller and the PulseAudio backend together. A request of a client makes the controller call the
  backend; what the backend emits, in the call or later from the event loop, reaches the controller at once.
\<close>

section \<open>The composed system\<close>

record audio_system =
  sy_controller :: audio_state
  sy_backend :: pulse_state

datatype audio_client_event = StartAudio | RequestAudio audio_request | StartLevel | StopLevel

datatype system_event = FromClient audio_client_event | FromServer pulse_event | TurnOfLoop | TimerFires

fun controller_event :: "audio_client_event \<Rightarrow> audio_event" where
  "controller_event StartAudio = ClientStart"
| "controller_event (RequestAudio r) = ClientRequest r"
| "controller_event StartLevel = ClientStartLevel"
| "controller_event StopLevel = ClientStopLevel"

fun calls_of :: "audio_out list \<Rightarrow> audio_call list" where
  "calls_of [] = []"
| "calls_of (BackendCall c # out) = c # calls_of out"
| "calls_of (_ # out) = calls_of out"

fun emitted :: "pulse_out list \<Rightarrow> audio_signal list" where
  "emitted [] = []"
| "emitted (Emit s # out) = s # emitted out"
| "emitted (_ # out) = emitted out"

definition deliver :: "pulse_out list \<Rightarrow> audio_state \<Rightarrow> audio_state" where
  "deliver out st = fst (audio_run (map BackendSignal (emitted out)) st)"

definition backend_moves :: "pulse_text \<Rightarrow> pulse_step_kind list \<Rightarrow> audio_system \<Rightarrow> audio_system \<times> pulse_out list" where
  "backend_moves pt moves sys =
     (let (b, out) = pulse_run pt moves (sy_backend sys)
      in (sys\<lparr>sy_controller := deliver out (sy_controller sys), sy_backend := b\<rparr>, out))"

fun system_step :: "pulse_text \<Rightarrow> system_event \<Rightarrow> audio_system \<Rightarrow> audio_system \<times> pulse_out list" where
  "system_step pt (FromClient e) sys =
     (let (c, out) = audio_step (controller_event e) (sy_controller sys)
      in backend_moves pt (map Called (calls_of out)) (sys\<lparr>sy_controller := c\<rparr>))"
| "system_step pt (FromServer e) sys = backend_moves pt [Callback e] sys"
| "system_step pt TurnOfLoop sys = backend_moves pt [RunPosted] sys"
| "system_step pt TimerFires sys = backend_moves pt [ReconnectTimeout] sys"

fun system_run :: "pulse_text \<Rightarrow> system_event list \<Rightarrow> audio_system \<Rightarrow> audio_system \<times> pulse_out list" where
  "system_run pt [] sys = (sys, [])"
| "system_run pt (e # es) sys =
     (let (s1, out1) = system_step pt e sys; (s2, out2) = system_run pt es s1 in (s2, out1 @ out2))"

text \<open>The environment of a run: which calls of libpulse will succeed.\<close>

definition system_init :: "bool list \<Rightarrow> audio_system" where
  "system_init results = \<lparr>sy_controller = audio_init True, sy_backend = pulse_init\<lparr>pu_results := results\<rparr>\<rparr>"

section \<open>Health\<close>

text \<open>The health of the backend changes only with a signal that tells of it.\<close>

fun health_after :: "audio_health \<Rightarrow> pulse_out list \<Rightarrow> audio_health" where
  "health_after h [] = h"
| "health_after h (Emit (SigHealth h') # out) = health_after h' out"
| "health_after h (_ # out) = health_after h out"

lemma health_after_append [simp]: "health_after h (xs @ ys) = health_after (health_after h xs) ys"
  by (induction h xs rule: health_after.induct) simp_all

named_theorems health_simps \<open>operations of the backend and the health they leave\<close>

definition health_told :: "pulse_state \<Rightarrow> pulse_state \<Rightarrow> pulse_out list \<Rightarrow> bool" where
  "health_told st st' out = (pu_health st' = health_after (pu_health st) out)"

lemma set_health_told [health_simps]:
  "pu_health (fst (set_health_state h st)) = health_after (pu_health st) (snd (set_health_state h st))"
  by (simp add: set_health_state_def)

lemma lost_told [health_simps]:
  "pu_health (fst (on_context_lost st)) = health_after (pu_health st) (snd (on_context_lost st))"
  "pu_health (fst (on_reconnect_succeeded st)) = health_after (pu_health st) (snd (on_reconnect_succeeded st))"
  by (simp_all add: on_context_lost_def schedule_pulse_reconnect_def on_reconnect_succeeded_def set_health_state_def
      Let_def)

lemma stream_told [health_simps]:
  "health_after h (snd (stop_level_stream st)) = h" "health_after h (snd (snd (start_level_stream pt st))) = h"
  by (simp_all add: stop_level_stream_def start_level_stream_def Let_def split_beta)

lemma context_told [health_simps]:
  "health_after h (snd (teardown_context st)) = h" "pu_health (fst (teardown_context st)) = pu_health st"
  "health_after h (snd (snd (connect_new_context st))) = h"
  "pu_health (fst (snd (connect_new_context st))) = pu_health st"
  by (simp_all add: teardown_context_def connect_new_context_def Let_def split_beta health_simps)

lemma lifecycle_told [health_simps]:
  "pu_health (fst (attempt_reconnect st)) = health_after (pu_health st) (snd (attempt_reconnect st))"
  "pu_health (fst (pulse_start st)) = health_after (pu_health st) (snd (pulse_start st))"
  "pu_health (fst (pulse_stop st)) = health_after (pu_health st) (snd (pulse_stop st))"
  by (simp_all add: attempt_reconnect_def pulse_start_def pulse_stop_def Let_def split_beta health_simps)

lemma monitor_told [health_simps]:
  "pu_health (fst (start_level_monitor pt st)) = health_after (pu_health st) (snd (start_level_monitor pt st))"
  "pu_health (fst (stop_level_monitor st)) = health_after (pu_health st) (snd (stop_level_monitor st))"
  "pu_health (fst (retry_level_monitor pt st)) = health_after (pu_health st) (snd (retry_level_monitor pt st))"
  by (simp_all add: start_level_monitor_def stop_level_monitor_def retry_level_monitor_def Let_def split_beta
      post_def health_simps)

lemma call_told:
  "pu_health (fst (pulse_call pt c st)) = health_after (pu_health st) (snd (pulse_call pt c st))"
  by (cases c) (simp_all add: health_simps locked_call_def request_volume_def Let_def split_beta)

lemma volume_info_told [health_simps]:
  "pu_health (fst (on_volume_info send n info st)) = pu_health st"
  "health_after h (snd (on_volume_info PaSetSinkVolume n info st)) = h"
  "health_after h (snd (on_volume_info PaSetSourceVolume n info st)) = h"
  "health_after h (snd (on_volume_info PaSetSinkInputVolume n info st)) = h"
  by (simp_all add: on_volume_info_def split: option.split)

lemma info_told [health_simps]:
  "pu_health (fst (on_sink_info pt use info st)) = health_after (pu_health st) (snd (on_sink_info pt use info st))"
  "pu_health (fst (on_source_info pt use info st)) = health_after (pu_health st) (snd (on_source_info pt use info st))"
  "pu_health (fst (on_sink_input_info pt use stream st)) =
     health_after (pu_health st) (snd (on_sink_input_info pt use stream st))"
  "pu_health (fst (on_source_output_info pt use stream st)) =
     health_after (pu_health st) (snd (on_source_output_info pt use stream st))"
  by (simp_all add: on_sink_info_def on_source_info_def on_sink_input_info_def on_source_output_info_def
      warn_if_missing_def post_def Let_def health_simps split: info_use.split option.split)

lemma server_told [health_simps]:
  "pu_health (fst (on_server_info pt info st)) = health_after (pu_health st) (snd (on_server_info pt info st))"
  "pu_health (fst (on_subscription f e k st)) = health_after (pu_health st) (snd (on_subscription f e k st))"
  "pu_health (fst (level_stream_state s st)) = health_after (pu_health st) (snd (level_stream_state s st))"
  "pu_health (fst (level_stream_read p st)) = health_after (pu_health st) (snd (level_stream_read p st))"
  by (simp_all add: on_server_info_def on_subscription_def handle_sink_event_def handle_source_event_def
      handle_sink_input_event_def handle_source_output_event_def level_stream_state_def level_stream_read_def
      post_def Let_def split_beta health_simps split: option.split facility.split peeked.split)

lemma callback_told:
  "pu_health (fst (pulse_callback pt e st)) = health_after (pu_health st) (snd (pulse_callback pt e st))"
  by (cases e) (simp_all add: health_simps context_ready_def context_failed_def post_def)

lemma posted_told:
  assumes "list_all plain_post (pu_queue st)"
  shows "pu_health (fst (run_posted pt st)) = health_after (pu_health st) (snd (run_posted pt st))"
proof (cases "pu_queue st")
  case Nil
  then show ?thesis by (simp add: run_posted_def)
next
  case (Cons p ps)
  show ?thesis
  proof (cases p)
    case (PostSignal s)
    then show ?thesis using assms by (cases s) (simp_all add: run_posted_def Cons)
  qed (simp_all add: run_posted_def Cons Let_def split_beta health_simps)
qed

lemma step_told:
  assumes "list_all plain_post (pu_queue st)"
  shows "pu_health (fst (pulse_step pt e st)) = health_after (pu_health st) (snd (pulse_step pt e st))"
  using assms by (cases e) (simp_all add: call_told callback_told posted_told pulse_timeout_def health_simps)

lemma run_told:
  assumes "waits_ok st ws"
  shows "pu_health (fst (pulse_run pt es st)) = health_after (pu_health st) (snd (pulse_run pt es st))"
  using assms
proof (induction es arbitrary: st ws)
  case (Cons e es)
  have "list_all plain_post (pu_queue st)" using Cons.prems by (simp add: waits_ok_def)
  from step_told [OF this] Cons.IH [OF waits_step [OF Cons.prems]] show ?case by (simp add: split_beta)
qed simp

section \<open>The controller follows the backend\<close>

lemma emitted_append [simp]: "emitted (xs @ ys) = emitted xs @ emitted ys"
  by (induction xs rule: emitted.induct) simp_all

lemma spec_health: "sp_health (fold spec_signal (emitted out) sp) = health_after (sp_health sp) out"
proof (induction out arbitrary: sp rule: emitted.induct)
  case (2 s out)
  then show ?case by (cases s) (simp_all add: spec_device_def spec_stream_def Let_def)
qed simp_all

lemma heard_all: "heard True (map BackendSignal ss) = ss"
  by (induction ss) simp_all

lemma deliver_keeps:
  "ac_started (fst (audio_run (map BackendSignal ss) st)) = ac_started st \<and>
   ac_backend (fst (audio_run (map BackendSignal ss) st)) = ac_backend st"
  by (induction ss arbitrary: st) (simp_all add: split_beta on_signal_frame)

lemma deliver_spec:
  assumes "audio_ok st" and "ac_backend st" and "ac_started st"
  shows "abstract_audio (deliver out st) = fold spec_signal (emitted out) (abstract_audio st)"
  using audio_run_refines [OF assms(1,2), of "map BackendSignal (emitted out)"] assms(3)
  by (simp add: deliver_def heard_all)

lemma deliver_health:
  assumes "audio_ok st" and "ac_backend st" and "ac_started st"
  shows "ac_health (deliver out st) = health_after (ac_health st) out"
proof -
  have "sp_health (abstract_audio st') = ac_health st'" for st' by (simp add: abstract_audio_def)
  then show ?thesis using spec_health [of out "abstract_audio st"] deliver_spec [OF assms] by metis
qed

text \<open>Before the start of the controller the backend is idle and nothing moves it.\<close>

definition idle_backend :: "pulse_state \<Rightarrow> bool" where
  "idle_backend b =
     (\<not> pu_context b \<and> \<not> pu_mainloop b \<and> \<not> pu_level_stream b \<and> pu_queue b = [] \<and> \<not> pu_timer b)"

lemma idle_call:
  assumes "idle_backend b" and "c \<noteq> CallStart"
  shows "idle_backend (fst (pulse_call pt c b)) \<and> snd (pulse_call pt c b) = [] \<and>
    pu_health (fst (pulse_call pt c b)) = pu_health b"
  using assms by (cases c) (simp_all add: idle_backend_def pulse_stop_def start_level_monitor_def
      stop_level_monitor_def locked_call_def request_volume_def Let_def)

lemma idle_callback: "idle_backend b \<Longrightarrow> pulse_callback pt e b = (b, [])"
  by (cases e) (simp_all add: idle_backend_def)

definition system_ok :: "audio_system \<Rightarrow> bool" where
  "system_ok sys =
     (audio_ok (sy_controller sys) \<and> ac_backend (sy_controller sys) \<and> (\<exists>ws. waits_ok (sy_backend sys) ws) \<and>
      ac_health (sy_controller sys) = pu_health (sy_backend sys) \<and>
      (\<not> ac_started (sy_controller sys) \<longrightarrow> idle_backend (sy_backend sys)))"

lemma moves_ok:
  assumes ok: "audio_ok c" "ac_backend c" "waits_ok b ws" "ac_health c = pu_health b"
    and started: "ac_started c"
    and moves: "backend_moves pt moves \<lparr>sy_controller = c, sy_backend = b\<rparr> = (sys', out)"
  shows "system_ok sys' \<and> abstract_audio (sy_controller sys') = fold spec_signal (emitted out) (abstract_audio c)"
proof -
  have out: "out = snd (pulse_run pt moves b)" and sys': "sys' = \<lparr>sy_controller = deliver out c,
      sy_backend = fst (pulse_run pt moves b)\<rparr>"
    using moves by (auto simp: backend_moves_def split_beta)
  have "audio_ok (deliver out c)" by (simp add: deliver_def audio_run_ok ok(1))
  moreover have "ac_backend (deliver out c)" "ac_started (deliver out c)"
    using deliver_keeps [of "emitted out" c] ok(2) started by (simp_all add: deliver_def)
  moreover have "ac_health (deliver out c) = pu_health (fst (pulse_run pt moves b))"
    using deliver_health [OF ok(1,2) started, of out] run_told [OF ok(3), of pt moves] ok(4) by (simp add: out)
  ultimately show ?thesis
    using waits_run [OF ok(3), of pt moves] deliver_spec [OF ok(1,2) started, of out]
    by (auto simp: sys' system_ok_def)
qed

lemma audio_system_eta: "\<lparr>sy_controller = sy_controller sys, sy_backend = sy_backend sys\<rparr> = sys"
  by simp

lemma moves_idle:
  assumes "system_ok sys" and "\<not> ac_started (sy_controller sys)"
    and "move = RunPosted \<or> move = ReconnectTimeout \<or> (\<exists>e. move = Callback e)"
  shows "backend_moves pt [move] sys = (sys, [])"
proof -
  have idle: "idle_backend (sy_backend sys)" using assms(1,2) by (simp add: system_ok_def)
  have "pulse_step pt move (sy_backend sys) = (sy_backend sys, [])"
    using assms(3) idle by (auto simp: idle_callback run_posted_def pulse_timeout_def idle_backend_def)
  then show ?thesis by (simp add: backend_moves_def deliver_def)
qed

lemma audio_step_keeps:
  "ac_backend (fst (audio_step e st)) = ac_backend st \<and> ac_started (fst (audio_step e st)) = (ac_started st \<or> e = ClientStart)"
  by (cases e) (simp_all add: audio_start_def audio_request_state start_level_monitoring_def
      stop_level_monitoring_def Let_def on_signal_frame)

lemma client_step_abstract:
  "abstract_audio (fst (audio_step (controller_event e) st)) = abstract_audio st \<and>
   ac_health (fst (audio_step (controller_event e) st)) = ac_health st"
  by (cases e) (simp_all add: audio_start_def audio_request_state start_level_monitoring_def
      stop_level_monitoring_def Let_def abstract_audio_def)

lemma calls_before_start:
  "e \<noteq> StartAudio \<Longrightarrow> CallStart \<notin> set (calls_of (snd (audio_step (controller_event e) st)))"
proof (cases e)
  case (RequestAudio r)
  then show ?thesis by (cases r) (simp_all add: call_backend_def set_volume_def set_default_output_muted_def)
qed (simp_all add: start_level_monitoring_def stop_level_monitoring_def Let_def)

lemma idle_calls:
  assumes "idle_backend b" and "CallStart \<notin> set cs"
  shows "idle_backend (fst (pulse_run pt (map Called cs) b)) \<and> snd (pulse_run pt (map Called cs) b) = [] \<and>
    pu_health (fst (pulse_run pt (map Called cs) b)) = pu_health b"
  using assms
proof (induction cs arbitrary: b)
  case (Cons c cs)
  from Cons.prems have "c \<noteq> CallStart" by auto
  note call = idle_call [OF Cons.prems(1) this, of pt]
  then have "idle_backend (fst (pulse_call pt c b))" by simp
  from Cons.IH [OF this] Cons.prems(2) call show ?case by (simp add: split_beta)
qed simp


lemma client_step_ok:
  assumes "system_ok sys"
  shows "system_ok (fst (system_step pt (FromClient e) sys)) \<and>
    abstract_audio (sy_controller (fst (system_step pt (FromClient e) sys))) =
      fold spec_signal (emitted (snd (system_step pt (FromClient e) sys))) (abstract_audio (sy_controller sys))"
proof -
  let ?c = "sy_controller sys" and ?b = "sy_backend sys"
  let ?c1 = "fst (audio_step (controller_event e) ?c)"
  let ?calls = "calls_of (snd (audio_step (controller_event e) ?c))"
  obtain ws where ok: "audio_ok ?c" "ac_backend ?c" "waits_ok ?b ws" "ac_health ?c = pu_health ?b"
    and idle: "\<not> ac_started ?c \<Longrightarrow> idle_backend ?b" using assms by (auto simp: system_ok_def)
  have c1: "audio_ok ?c1" "ac_backend ?c1" "ac_health ?c1 = pu_health ?b" "abstract_audio ?c1 = abstract_audio ?c"
    "ac_started ?c1 = (ac_started ?c \<or> e = StartAudio)"
    using audio_step_ok [OF ok(1)] audio_step_keeps client_step_abstract ok(2,4)
    by (auto simp: audio_step_keeps elim: controller_event.elims)
  have step: "system_step pt (FromClient e) sys =
      backend_moves pt (map Called ?calls) \<lparr>sy_controller = ?c1, sy_backend = ?b\<rparr>"
    by (cases sys) (simp add: split_beta)
  show ?thesis
  proof (cases "ac_started ?c1")
    case True
    show ?thesis
      using moves_ok [OF c1(1,2) ok(3) c1(3) True prod.collapse [symmetric], of pt "map Called ?calls"]
      unfolding step c1(4) .
  next
    case False
    then have none: "CallStart \<notin> set ?calls" and "\<not> ac_started ?c" using calls_before_start c1(5) by auto
    note quiet = idle_calls [OF idle [OF this(2)] none, of pt]
    have "\<exists>ws. waits_ok (fst (pulse_run pt (map Called ?calls) ?b)) ws" using waits_run [OF ok(3)] by blast
    then have "system_ok \<lparr>sy_controller = ?c1, sy_backend = fst (pulse_run pt (map Called ?calls) ?b)\<rparr>"
      using quiet c1 by (simp add: system_ok_def)
    moreover have "backend_moves pt (map Called ?calls) \<lparr>sy_controller = ?c1, sy_backend = ?b\<rparr> =
        (\<lparr>sy_controller = ?c1, sy_backend = fst (pulse_run pt (map Called ?calls) ?b)\<rparr>, [])"
      using quiet by (simp add: backend_moves_def split_beta deliver_def)
    ultimately show ?thesis unfolding step by (simp add: c1(4))
  qed
qed

lemma system_step_ok:
  assumes "system_ok sys"
  shows "system_ok (fst (system_step pt e sys)) \<and>
    abstract_audio (sy_controller (fst (system_step pt e sys))) =
      fold spec_signal (emitted (snd (system_step pt e sys))) (abstract_audio (sy_controller sys))"
proof (cases "\<exists>ce. e = FromClient ce")
  case True
  then show ?thesis using client_step_ok [OF assms] by auto
next
  case False
  then obtain move where step: "system_step pt e sys = backend_moves pt [move] sys"
    and move: "move = RunPosted \<or> move = ReconnectTimeout \<or> (\<exists>ev. move = Callback ev)"
    by (cases e) auto
  show ?thesis
  proof (cases "ac_started (sy_controller sys)")
    case True
    obtain ws where ok: "audio_ok (sy_controller sys)" "ac_backend (sy_controller sys)"
      "waits_ok (sy_backend sys) ws" "ac_health (sy_controller sys) = pu_health (sy_backend sys)"
      using assms by (auto simp: system_ok_def)
    have "backend_moves pt [move] \<lparr>sy_controller = sy_controller sys, sy_backend = sy_backend sys\<rparr> =
        (fst (system_step pt e sys), snd (system_step pt e sys))"
      unfolding step audio_system_eta by simp
    from moves_ok [OF ok True this] show ?thesis by simp
  next
    case False
    then show ?thesis using moves_idle [OF assms False move] assms by (simp add: step)
  qed
qed

lemma system_run_ok:
  assumes "system_ok sys"
  shows "system_ok (fst (system_run pt es sys)) \<and>
    abstract_audio (sy_controller (fst (system_run pt es sys))) =
      fold spec_signal (emitted (snd (system_run pt es sys))) (abstract_audio (sy_controller sys))"
  using assms
proof (induction es arbitrary: sys)
  case (Cons e es)
  note step = system_step_ok [OF Cons.prems, of pt e]
  from Cons.IH [OF conjunct1 [OF step]] step show ?case by (simp add: split_beta)
qed simp

text \<open>C32. In every run of controller and backend together, whatever libpulse answers and whenever its callbacks
  come, the models and values of the controller are exactly what the signals the backend has emitted so far
  describe: none is lost, none comes before the controller listens; and both agree on the health.\<close>

theorem audio_system_follows:
  "abstract_audio (sy_controller (fst (system_run pt es (system_init rs)))) =
     fold spec_signal (emitted (snd (system_run pt es (system_init rs)))) spec_init \<and>
   ac_health (sy_controller (fst (system_run pt es (system_init rs)))) =
     pu_health (sy_backend (fst (system_run pt es (system_init rs)))) \<and>
   audio_ok (sy_controller (fst (system_run pt es (system_init rs))))"
proof -
  have "waits_ok (pulse_init\<lparr>pu_results := rs\<rparr>) []"
    by (simp add: waits_ok_def pulse_init_def planned_waits_def)
  then have ok: "system_ok (system_init rs)"
    by (auto simp: system_ok_def system_init_def audio_init_ok idle_backend_def)
       (simp_all add: audio_init_def pulse_init_def)
  have "abstract_audio (sy_controller (system_init rs)) = spec_init"
    by (simp add: abstract_audio_def system_init_def audio_init_def spec_init_def device_model_init_def)
  then show ?thesis using system_run_ok [OF ok, of pt es] by (simp add: system_ok_def)
qed

section \<open>A volume set by a client\<close>

text \<open>C33. Setting the volume of the default output sends one request to PulseAudio for that sink, and its answer
  makes the backend set every channel to the raw volume of the percentage; when the server then reports the
  sink with that volume, the controller shows the percentage asked for, cut to 0..100.\<close>

theorem volume_end_to_end:
  assumes "system_ok sys" and "ac_started (sy_controller sys)"
    and "ac_default_output (sy_controller sys) = k" and "k \<noteq> invalid_audio_index"
    and "pu_context (sy_backend sys)" and "pu_mainloop (sy_backend sys)"
    and "pu_queue (sy_backend sys) = []" and "pu_results (sy_backend sys) = []"
    and "map_of (pu_requests (sy_backend sys)) (pu_next_request (sy_backend sys)) = None"
    and "pi_index i = k" and "pi_index j = k" and "pi_volume_avg j = volume_from_percent p"
    and "utf8_or_empty pt (pi_name j) = pu_default_sink (sy_backend sys)"
    and run: "system_run pt [FromClient (RequestAudio (ReqSetVolume p)),
        FromServer (SinkInfo (VolumeInfo (pu_next_request (sy_backend sys))) (Some i)),
        FromServer (SinkInfo ChangedInfo (Some j)), TurnOfLoop] sys = (sys', out)"
  shows "ac_volume (sy_controller sys') = clamp_percent p \<and>
     PaSetSinkVolume k (max 1 (unat (pi_volume_channels i))) (volume_from_percent p) \<in> set out"
proof -
  let ?b = "sy_backend sys" and ?n = "pu_next_request (sy_backend sys)"
  let ?d = "sink_to_device pt (pu_default_sink ?b) j"
  let ?b1 = "?b\<lparr>pu_next_request := ?n + 1, pu_requests := pu_requests ?b @ [(?n, \<lparr>vr_percent = p\<rparr>)]\<rparr>"
  let ?b3 = "post (PostSignal (SigDeviceChanged ?d)) (fst (warn_if_missing ?d ?b1))"
  let ?sys1 = "sys\<lparr>sy_backend := ?b1\<rparr>" and ?sys3 = "sys\<lparr>sy_backend := ?b3\<rparr>"
  let ?set = "PaSetSinkVolume k (max 1 (unat (pi_volume_channels i))) (volume_from_percent p)"
  have "ac_backend (sy_controller sys)" using assms(1) by (simp add: system_ok_def)
  then have s1: "system_step pt (FromClient (RequestAudio (ReqSetVolume p))) sys =
      (?sys1, [PaLock, PaSinkInfo k (VolumeInfo ?n), PaUnlock])"
    using assms(3-8) by (simp add: set_volume_def backend_moves_def request_volume_def take_result_def Let_def deliver_def)
  have s2: "system_step pt (FromServer (SinkInfo (VolumeInfo ?n) (Some i))) ?sys1 = (?sys1, [?set])"
    using assms(5,9,10) by (simp add: backend_moves_def on_sink_info_def on_volume_info_def deliver_def map_add_def)
  have warn: "emitted (snd (warn_if_missing ?d ?b1)) = []" "pu_queue (fst (warn_if_missing ?d ?b1)) = []"
    using assms(7) by (simp_all add: warn_if_missing_def Let_def)
  have s3: "system_step pt (FromServer (SinkInfo ChangedInfo (Some j))) ?sys1 = (?sys3, snd (warn_if_missing ?d ?b1))"
    using assms(5) warn by (simp add: backend_moves_def on_sink_info_def Let_def split_beta deliver_def)
  have s4: "snd (system_step pt TurnOfLoop ?sys3) = [Emit (SigDeviceChanged ?d)]"
    using warn by (simp add: backend_moves_def run_posted_def post_def split_beta)
  have out: "out = [PaLock, PaSinkInfo k (VolumeInfo ?n), PaUnlock, ?set] @ snd (warn_if_missing ?d ?b1) @
      [Emit (SigDeviceChanged ?d)]"
    using arg_cong [OF run [symmetric], of snd]
    by (simp only: system_run.simps s1 s2 s3 s4 Let_def split_beta fst_conv snd_conv append_Nil2
        append_Cons append_Nil)
  have "abstract_audio (sy_controller sys') = fold spec_signal (emitted out) (abstract_audio (sy_controller sys))"
    using system_run_ok [OF assms(1)] run by (metis fst_conv snd_conv)
  then have "sp_volume (abstract_audio (sy_controller sys')) = uint (volume_to_percent (volume_from_percent p))"
    using assms(12,13) by (simp add: out warn spec_device_def Let_def)
  then have "ac_volume (sy_controller sys') = clamp_percent p"
    using volume_percent_roundtrip_value [of p] by (simp add: abstract_audio_def)
  then show ?thesis by (simp add: out)
qed

definition demo_pulse_text :: pulse_text where
  "demo_pulse_text = \<lparr>pt_from_utf8 = (\<lambda>s. s), pt_to_utf8 = (\<lambda>s. s), pt_fold = (\<lambda>c. c)\<rparr>"

definition demo_sink_info :: pulse_device_info where
  "demo_sink_info = \<lparr>pi_index = 5, pi_name = Some ''main'', pi_description = None, pi_volume_avg = 65536,
     pi_volume_channels = 2, pi_mute = 0, pi_map_channels = 2, pi_rate = 48000, pi_port = None, pi_props = None,
     pi_monitor_of = 0\<rparr>"

definition demo_system :: audio_system where
  "demo_system =
     (let d = default_audio_device\<lparr>ad_index := 5, ad_name := ''main'', ad_default := True\<rparr> in
      \<lparr>sy_controller = (audio_init True)\<lparr>ac_started := True, ac_default_output := 5,
         ac_outputs := \<lparr>dm_rows = [d], dm_default = default_map [d]\<rparr>\<rparr>,
       sy_backend = pulse_init\<lparr>pu_started := True, pu_mainloop := True, pu_context := True, pu_default_sink := ''main''\<rparr>\<rparr>)"

lemma demo_system_ok: "system_ok demo_system"
proof -
  have "waits_ok (sy_backend demo_system) []"
    by (simp add: demo_system_def Let_def pulse_init_def waits_ok_def planned_waits_def)
  then show ?thesis
    by (auto simp: demo_system_def Let_def system_ok_def audio_ok_def audio_init_def pulse_init_def model_ok_def
        streams_ok_def device_model_init_def default_audio_device_def default_map_def)
qed

theorem volume_end_to_end_witness:
  "ac_volume (sy_controller (fst (system_run demo_pulse_text [FromClient (RequestAudio (ReqSetVolume 130)),
     FromServer (SinkInfo (VolumeInfo 0) (Some demo_sink_info)),
     FromServer (SinkInfo ChangedInfo (Some demo_sink_info)), TurnOfLoop] demo_system))) = 100"
proof -
  have raw: "volume_from_percent 130 = 65536"
    by (simp add: volume_from_percent_def clamp_percent_def volume_norm_def)
  have state: "ac_started (sy_controller demo_system)" "ac_default_output (sy_controller demo_system) = 5"
    "pu_context (sy_backend demo_system)" "pu_mainloop (sy_backend demo_system)"
    "pu_queue (sy_backend demo_system) = []" "pu_results (sy_backend demo_system) = []"
    "map_of (pu_requests (sy_backend demo_system)) (pu_next_request (sy_backend demo_system)) = None"
    "pu_next_request (sy_backend demo_system) = 0"
    "utf8_or_empty demo_pulse_text (pi_name demo_sink_info) = pu_default_sink (sy_backend demo_system)"
    by (simp_all add: demo_system_def Let_def pulse_init_def utf8_or_empty_def demo_pulse_text_def demo_sink_info_def)
  have info: "pi_index demo_sink_info = 5" "pi_volume_avg demo_sink_info = volume_from_percent 130"
    by (simp_all add: demo_sink_info_def raw)
  have valid: "(5 :: 32 word) \<noteq> invalid_audio_index" by (simp add: invalid_audio_index_def)
  have "clamp_percent 130 = 100" by (simp add: clamp_percent_def)
  with volume_end_to_end [OF demo_system_ok state(1,2) valid state(3-7) info(1) info(1) info(2) state(9)
      prod.collapse [symmetric], unfolded state(8)] show ?thesis by simp
qed


section \<open>Corner cases\<close>

text \<open>Short runs that show what the code does where its parts do not meet. A main loop that could not be made
  is never tried again, because stopping returns early and leaves the backend marked as started.\<close>

lemma failed_mainloop_not_retried:
  "snd (pulse_run demo_pulse_text [Called CallStart, Called CallStop, Called CallStart]
     (pulse_init\<lparr>pu_results := [False]\<rparr>)) = [PaMainloopNew]"
  by (simp add: pulse_start_def pulse_stop_def take_result_def pulse_init_def Let_def)

text \<open>A function posted before the backend is stopped still starts a timer, and the timer makes a context
  although there is no main loop any more.\<close>

lemma reconnect_after_stop:
  "let (st, out) = pulse_run demo_pulse_text
     [Called CallStart, Callback ContextFailed, Called CallStop, RunPosted, ReconnectTimeout] pulse_init
   in PaContextNew \<in> set (drop 14 out) \<and> PaMainloopFree \<in> set (take 14 out) \<and> \<not> pu_mainloop st \<and> \<not> pu_api st"
  by (simp add: pulse_start_def pulse_stop_def take_result_def pulse_init_def Let_def connect_new_context_def
      context_failed_def post_def run_posted_def pulse_timeout_def attempt_reconnect_def on_context_lost_def
      set_health_state_def schedule_pulse_reconnect_def max_reconnect_attempts_def stop_level_stream_def
      teardown_context_def)

text \<open>A user that asks for the input level before the controller is started is counted, but nothing ever
  asks the backend again.\<close>

lemma level_user_before_start:
  "let (sys, out) = system_run demo_pulse_text [FromClient StartLevel, FromClient StartAudio, FromServer ContextReady,
       TurnOfLoop] (system_init [])
   in ac_level_users (sy_controller sys) = 1 \<and> \<not> pu_level_requested (sy_backend sys) \<and> PaStreamNew \<notin> set out"
  by (simp add: system_init_def audio_init_def pulse_init_def start_level_monitoring_def audio_start_def
      backend_moves_def deliver_def start_level_monitor_def pulse_start_def take_result_def connect_new_context_def
      context_ready_def post_def run_posted_def on_reconnect_succeeded_def set_health_state_def set_available_def
      Let_def)

text \<open>A level stream that is lost with the context is not opened again when the context is.\<close>

lemma level_stream_not_restored:
  "let (sys, out) = system_run demo_pulse_text [FromClient StartAudio, FromServer ContextReady, TurnOfLoop,
       FromClient StartLevel, FromServer ContextFailed, TurnOfLoop, TimerFires, FromServer ContextReady, TurnOfLoop]
     (system_init [])
   in pu_level_requested (sy_backend sys) \<and> \<not> pu_level_stream (sy_backend sys) \<and>
      ac_health (sy_controller sys) = HealthConnected \<and> pu_queue (sy_backend sys) = []"
  by (simp add: system_init_def audio_init_def pulse_init_def start_level_monitoring_def audio_start_def
      backend_moves_def deliver_def start_level_monitor_def pulse_start_def take_result_def connect_new_context_def
      context_ready_def context_failed_def post_def run_posted_def on_reconnect_succeeded_def set_health_state_def
      set_available_def set_health_def on_context_lost_def schedule_pulse_reconnect_def max_reconnect_attempts_def
      start_level_stream_def stop_level_stream_def teardown_context_def attempt_reconnect_def pulse_timeout_def
      stream_clear_def Let_def)

text \<open>Losing the service empties the stream models and leaves the device models as they are.\<close>

lemma devices_kept_without_service:
  "ac_outputs (fst (set_available False st)) = ac_outputs st \<and> ac_inputs (fst (set_available False st)) = ac_inputs st \<and>
   ac_playback (fst (set_available False st)) = [] \<and> ac_recording (fst (set_available False st)) = []"
  by (simp add: set_available_state)

text \<open>Moving a recording stream to an input moves the playback stream with the same index instead.\<close>

lemma move_to_input_moves_playback:
  assumes "ac_backend c" and "pu_context b" and "pu_mainloop b"
  shows "snd (system_step pt (FromClient (RequestAudio (ReqMoveStreamToInput k source)))
     \<lparr>sy_controller = c, sy_backend = b\<rparr>) = [PaLock, PaMoveSinkInput k source, PaUnlock]"
  using assms by (simp add: call_backend_def backend_moves_def locked_call_def)


end
