(* ===== verification/Wayland_Generic.thy ===== *)
theory Wayland_Generic
  imports Compositor_Types
begin

text \<open>
  \<open>GenericWorkspaceState.h\<close> and \<open>GenericBackend.cpp\<close>: workspaces announced by the ext-workspace-v1
  protocol. The objects of Wayland are numbers. Whether a protocol object is active as soon as it is made
  is chosen by the environment, as are the screens of the application, each with its Wayland output where
  it has one.
\<close>

section \<open>The state of a workspace\<close>

record generic_workspace =
  gw_workspace :: comp_workspace
  gw_hidden :: bool

definition generic_workspace_init :: "int \<Rightarrow> generic_workspace" where
  "generic_workspace_init order = \<lparr>gw_workspace = default_workspace\<lparr>cw_id := ''handle:'' @ integer_text order,
     cw_stable_order := order, cw_can_activate := False\<rparr>, gw_hidden = False\<rparr>"

definition generic_set_id :: "string \<Rightarrow> generic_workspace \<Rightarrow> generic_workspace" where
  "generic_set_id s w =
     (if s \<noteq> '''' then w\<lparr>gw_workspace := (gw_workspace w)\<lparr>cw_id := ''protocol:'' @ s\<rparr>\<rparr> else w)"

definition generic_set_name :: "string \<Rightarrow> generic_workspace \<Rightarrow> generic_workspace" where
  "generic_set_name s w = w\<lparr>gw_workspace := (gw_workspace w)\<lparr>cw_display_name := s\<rparr>\<rparr>"

definition generic_set_state :: "32 word \<Rightarrow> generic_workspace \<Rightarrow> generic_workspace" where
  "generic_set_state s w =
     w\<lparr>gw_workspace := (gw_workspace w)\<lparr>cw_active := (and s 1 \<noteq> 0), cw_urgent := (and s 2 \<noteq> 0)\<rparr>,
       gw_hidden := (and s 4 \<noteq> 0)\<rparr>"

definition generic_set_capabilities :: "32 word \<Rightarrow> generic_workspace \<Rightarrow> generic_workspace" where
  "generic_set_capabilities c w = w\<lparr>gw_workspace := (gw_workspace w)\<lparr>cw_can_activate := (and c 1 \<noteq> 0)\<rparr>\<rparr>"

section \<open>Groups\<close>

type_synonym wayland_screens = "(nat option \<times> string) list"

record generic_group =
  gg_object :: nat
  gg_name :: string
  gg_outputs :: "nat list"
  gg_workspaces :: "nat list"

text \<open>\<open>removeDuplicates\<close> keeps the first of equal entries.\<close>

definition remove_duplicates :: "'a list \<Rightarrow> 'a list" where
  "remove_duplicates xs = rev (remdups (rev xs))"

definition output_names :: "wayland_screens \<Rightarrow> generic_group \<Rightarrow> string list" where
  "output_names screens g =
     remove_duplicates (concat (map (\<lambda>out. map snd (filter (\<lambda>(native, _). native = Some out) screens)) (gg_outputs g)))"

section \<open>State\<close>

record generic_state =
  ge_groups :: "generic_group list"
  ge_handles :: "(nat, generic_workspace) qhash"
  ge_next_order :: int
  ge_next_group :: int
  ge_protocol :: bool
  ge_active :: bool
  ge_finished :: bool
  ge_timer :: bool

datatype generic_out =
    GenericSnapshot comp_snapshot
  | ActivateHandle nat
  | CommitProtocol
  | DestroyHandle nat
  | DestroyGroup nat

definition generic_init :: generic_state where
  "generic_init = \<lparr>ge_groups = [], ge_handles = [], ge_next_order = 0, ge_next_group = 0, ge_protocol = False,
     ge_active = False, ge_finished = False, ge_timer = False\<rparr>"

definition generic_clear :: "generic_state \<Rightarrow> generic_state" where
  "generic_clear st = st\<lparr>ge_groups := [], ge_handles := []\<rparr>"

definition generic_connect :: "bool \<Rightarrow> generic_state \<Rightarrow> generic_state" where
  "generic_connect active st = (generic_clear st)\<lparr>ge_finished := False, ge_protocol := True, ge_active := active\<rparr>"

definition generic_protocol_finished :: "generic_state \<Rightarrow> generic_state \<times> generic_out list" where
  "generic_protocol_finished st =
     ((generic_clear (st\<lparr>ge_finished := True\<rparr>))\<lparr>ge_timer := True\<rparr>,
      [GenericSnapshot (no_snapshot\<lparr>cs_diagnostic := ''ext-workspace-v1 is unavailable''\<rparr>)])"

definition generic_start :: "bool \<Rightarrow> generic_state \<Rightarrow> generic_state \<times> generic_out list" where
  "generic_start active st =
     (let st1 = (if \<not> ge_protocol st then generic_connect active st else st) in
      (st1, if \<not> ge_active st1
        then [GenericSnapshot (no_snapshot\<lparr>cs_diagnostic := ''waiting for ext-workspace-v1''\<rparr>)] else []))"

definition generic_active_changed :: "bool \<Rightarrow> generic_state \<Rightarrow> generic_state \<times> generic_out list" where
  "generic_active_changed active st =
     (let st1 = st\<lparr>ge_active := active\<rparr> in if \<not> active then generic_protocol_finished st1 else (st1, []))"

section \<open>Publishing\<close>

definition generic_entry :: "wayland_screens \<Rightarrow> generic_group list \<Rightarrow> nat \<Rightarrow> generic_workspace \<Rightarrow> comp_workspace" where
  "generic_entry screens groups h w =
     (let member = filter (\<lambda>g. h \<in> set (gg_workspaces g)) groups in
      (gw_workspace w)\<lparr>cw_outputs := remove_duplicates (cw_outputs (gw_workspace w) @ concat (map (output_names screens) member)),
        cw_groups := cw_groups (gw_workspace w) @ map gg_name member\<rparr>)"

fun generic_publish_all ::
  "wayland_screens \<Rightarrow> generic_group list \<Rightarrow> (nat, generic_workspace) qhash \<Rightarrow> comp_snapshot \<Rightarrow> comp_snapshot" where
  "generic_publish_all screens groups [] sn = sn"
| "generic_publish_all screens groups ((h, w) # hs) sn =
     (if gw_hidden w then generic_publish_all screens groups hs sn
      else
        let e = generic_entry screens groups h w in
        generic_publish_all screens groups hs
          (if cw_id e \<noteq> '''' then
             sn\<lparr>cs_capabilities := (cs_capabilities sn)\<lparr>cap_workspace_activation :=
                 (cap_workspace_activation (cs_capabilities sn) \<or> cw_can_activate e)\<rparr>,
               cs_workspaces := cs_workspaces sn @ [e]\<rparr>
           else sn))"

definition generic_base_snapshot :: comp_snapshot where
  "generic_base_snapshot = no_snapshot\<lparr>cs_connected := True, cs_capabilities := no_capabilities\<lparr>
     cap_workspace_listing := True, cap_workspace_activation := False, cap_urgency := True\<rparr>\<rparr>"

definition generic_done :: "wayland_screens \<Rightarrow> generic_state \<Rightarrow> generic_state \<times> generic_out list" where
  "generic_done screens st =
     (if ge_finished st then (st, [])
      else (st, [GenericSnapshot (generic_publish_all screens (ge_groups st) (ge_handles st) generic_base_snapshot)]))"

section \<open>Activation and removal\<close>

fun generic_activate_first ::
  "bool \<Rightarrow> string \<Rightarrow> (nat, generic_workspace) qhash \<Rightarrow> generic_out list" where
  "generic_activate_first usable k [] = []"
| "generic_activate_first usable k ((h, w) # hs) =
     (if usable \<and> \<not> gw_hidden w \<and> cw_can_activate (gw_workspace w) \<and> cw_id (gw_workspace w) = k
      then [ActivateHandle h, CommitProtocol]
      else generic_activate_first usable k hs)"

definition generic_activate :: "string \<Rightarrow> generic_state \<Rightarrow> generic_state \<times> generic_out list" where
  "generic_activate k st =
     (st, generic_activate_first (ge_protocol st \<and> \<not> ge_finished st \<and> ge_active st) k (ge_handles st))"

definition generic_remove_handle :: "nat \<Rightarrow> generic_state \<Rightarrow> generic_state \<times> generic_out list" where
  "generic_remove_handle h st = (st\<lparr>ge_handles := hash_remove h (ge_handles st)\<rparr>, [DestroyHandle h])"

text \<open>\<open>removeOne\<close> removes the first entry, here the only group with that object.\<close>

fun remove_group :: "nat \<Rightarrow> generic_group list \<Rightarrow> generic_group list" where
  "remove_group g [] = []"
| "remove_group g (x # xs) = (if gg_object x = g then xs else x # remove_group g xs)"

definition generic_remove_group :: "nat \<Rightarrow> generic_state \<Rightarrow> generic_state \<times> generic_out list" where
  "generic_remove_group g st = (st\<lparr>ge_groups := remove_group g (ge_groups st)\<rparr>, [DestroyGroup g])"

section \<open>Events\<close>

definition change_handle :: "nat \<Rightarrow> (generic_workspace \<Rightarrow> generic_workspace) \<Rightarrow> generic_state \<Rightarrow> generic_state" where
  "change_handle h f st =
     (case hash_value (ge_handles st) h of None \<Rightarrow> st
      | Some w \<Rightarrow> st\<lparr>ge_handles := hash_insert h (f w) (ge_handles st)\<rparr>)"

definition change_group :: "nat \<Rightarrow> (generic_group \<Rightarrow> generic_group) \<Rightarrow> generic_state \<Rightarrow> generic_state" where
  "change_group g f st = st\<lparr>ge_groups := map (\<lambda>x. if gg_object x = g then f x else x) (ge_groups st)\<rparr>"

definition group_output_enter :: "nat \<Rightarrow> generic_group \<Rightarrow> generic_group" where
  "group_output_enter out g = (if out \<in> set (gg_outputs g) then g else g\<lparr>gg_outputs := gg_outputs g @ [out]\<rparr>)"

definition group_output_leave :: "nat \<Rightarrow> generic_group \<Rightarrow> generic_group" where
  "group_output_leave out g = g\<lparr>gg_outputs := remove1 out (gg_outputs g)\<rparr>"

definition group_workspace_enter :: "nat \<Rightarrow> generic_group \<Rightarrow> generic_group" where
  "group_workspace_enter h g = g\<lparr>gg_workspaces := List.insert h (gg_workspaces g)\<rparr>"

definition group_workspace_leave :: "nat \<Rightarrow> generic_group \<Rightarrow> generic_group" where
  "group_workspace_leave h g = g\<lparr>gg_workspaces := removeAll h (gg_workspaces g)\<rparr>"

definition generic_new_group :: "nat \<Rightarrow> generic_state \<Rightarrow> generic_state" where
  "generic_new_group g st =
     st\<lparr>ge_groups := ge_groups st @ [\<lparr>gg_object = g, gg_name = ''group:'' @ integer_text (ge_next_group st),
         gg_outputs = [], gg_workspaces = []\<rparr>], ge_next_group := ge_next_group st + 1\<rparr>"

definition generic_new_handle :: "nat \<Rightarrow> generic_state \<Rightarrow> generic_state" where
  "generic_new_handle h st =
     st\<lparr>ge_handles := hash_insert h (generic_workspace_init (ge_next_order st)) (ge_handles st),
        ge_next_order := ge_next_order st + 1\<rparr>"

datatype generic_event =
    GenericStart bool
  | GenericTimeout bool
  | GenericActiveChanged bool
  | GenericFinished
  | GenericDone wayland_screens
  | GenericActivate string
  | NewGroup nat
  | NewHandle nat
  | HandleId nat string
  | HandleName nat string
  | HandleState nat "32 word"
  | HandleCapabilities nat "32 word"
  | HandleRemoved nat
  | GroupOutputEnter nat nat
  | GroupOutputLeave nat nat
  | GroupWorkspaceEnter nat nat
  | GroupWorkspaceLeave nat nat
  | GroupRemoved nat

fun generic_step :: "generic_event \<Rightarrow> generic_state \<Rightarrow> generic_state \<times> generic_out list" where
  "generic_step (GenericStart active) st = generic_start active st"
| "generic_step (GenericTimeout active) st =
     (if ge_timer st then (generic_connect active (st\<lparr>ge_timer := False\<rparr>), []) else (st, []))"
| "generic_step (GenericActiveChanged active) st =
     (if ge_protocol st then generic_active_changed active st else (st, []))"
| "generic_step GenericFinished st = (if ge_protocol st then generic_protocol_finished st else (st, []))"
| "generic_step (GenericDone screens) st = (if ge_protocol st then generic_done screens st else (st, []))"
| "generic_step (GenericActivate k) st = generic_activate k st"
| "generic_step (NewGroup g) st = (if ge_protocol st then generic_new_group g st else st, [])"
| "generic_step (NewHandle h) st = (if ge_protocol st then generic_new_handle h st else st, [])"
| "generic_step (HandleId h s) st = (change_handle h (generic_set_id s) st, [])"
| "generic_step (HandleName h s) st = (change_handle h (generic_set_name s) st, [])"
| "generic_step (HandleState h s) st = (change_handle h (generic_set_state s) st, [])"
| "generic_step (HandleCapabilities h c) st = (change_handle h (generic_set_capabilities c) st, [])"
| "generic_step (HandleRemoved h) st =
     (if hash_contains (ge_handles st) h then generic_remove_handle h st else (st, []))"
| "generic_step (GroupOutputEnter g out) st = (change_group g (group_output_enter out) st, [])"
| "generic_step (GroupOutputLeave g out) st = (change_group g (group_output_leave out) st, [])"
| "generic_step (GroupWorkspaceEnter g h) st = (change_group g (group_workspace_enter h) st, [])"
| "generic_step (GroupWorkspaceLeave g h) st = (change_group g (group_workspace_leave h) st, [])"
| "generic_step (GroupRemoved g) st =
     (if g \<in> gg_object ` set (ge_groups st) then generic_remove_group g st else (st, []))"

fun generic_run :: "generic_event list \<Rightarrow> generic_state \<Rightarrow> generic_state \<times> generic_out list" where
  "generic_run [] st = (st, [])"
| "generic_run (e # es) st =
     (let (st1, out1) = generic_step e st; (st2, out2) = generic_run es st1 in (st2, out1 @ out2))"

section \<open>What a snapshot shows\<close>

lemma generic_publish_workspaces:
  "cs_workspaces (generic_publish_all screens groups hs sn) = cs_workspaces sn @
     filter (\<lambda>e. cw_id e \<noteq> '''') (map (\<lambda>(h, w). generic_entry screens groups h w) (filter (\<lambda>(h, w). \<not> gw_hidden w) hs))"
  by (induction screens groups hs sn rule: generic_publish_all.induct) (simp_all add: Let_def)

lemma generic_publish_activation:
  "cap_workspace_activation (cs_capabilities (generic_publish_all screens groups hs sn)) =
     (cap_workspace_activation (cs_capabilities sn) \<or>
      (\<exists>e\<in>set (filter (\<lambda>e. cw_id e \<noteq> '''')
         (map (\<lambda>(h, w). generic_entry screens groups h w) (filter (\<lambda>(h, w). \<not> gw_hidden w) hs))). cw_can_activate e))"
  by (induction screens groups hs sn rule: generic_publish_all.induct) (auto simp: Let_def)

lemma generic_publish_connected:
  "cs_connected (generic_publish_all screens groups hs sn) = cs_connected sn"
  by (induction screens groups hs sn rule: generic_publish_all.induct) (simp_all add: Let_def)

lemma generic_entry_fields [simp]:
  "cw_id (generic_entry screens groups h w) = cw_id (gw_workspace w)"
  "cw_can_activate (generic_entry screens groups h w) = cw_can_activate (gw_workspace w)"
  by (simp_all add: generic_entry_def Let_def)

text \<open>Identifiers are never empty: a workspace starts with one and only a non-empty one replaces it.\<close>

definition handles_ok :: "generic_state \<Rightarrow> bool" where
  "handles_ok st =
     (hash_ok (ge_handles st) \<and>
      (\<forall>h w. hash_value (ge_handles st) h = Some w \<longrightarrow> cw_id (gw_workspace w) \<noteq> ''''))"

lemma change_handle_ok:
  assumes "handles_ok st" and "\<And>w. cw_id (gw_workspace w) \<noteq> '''' \<Longrightarrow> cw_id (gw_workspace (f w)) \<noteq> ''''"
  shows "handles_ok (change_handle h f st)"
  using assms by (auto simp: change_handle_def handles_ok_def split: option.split)

lemma generic_step_ok:
  assumes "handles_ok st"
  shows "handles_ok (fst (generic_step e st))"
proof (cases e)
  case (NewHandle h)
  have "handles_ok (generic_new_handle h st)"
    using assms by (auto simp: generic_new_handle_def handles_ok_def generic_workspace_init_def)
  then show ?thesis using assms by (simp add: NewHandle)
next
  case (HandleRemoved h)
  then show ?thesis
    using assms by (auto simp: generic_remove_handle_def handles_ok_def)
next
  case (NewGroup g)
  then show ?thesis using assms by (simp add: generic_new_group_def handles_ok_def)
next
  case (HandleId h s)
  then show ?thesis using change_handle_ok [OF assms] by (simp add: generic_set_id_def)
next
  case (HandleName h s)
  then show ?thesis using change_handle_ok [OF assms] by (simp add: generic_set_name_def)
next
  case (HandleState h s)
  then show ?thesis using change_handle_ok [OF assms] by (simp add: generic_set_state_def)
next
  case (HandleCapabilities h s)
  then show ?thesis using change_handle_ok [OF assms] by (simp add: generic_set_capabilities_def)
qed (use assms in \<open>simp_all add: generic_start_def generic_connect_def generic_clear_def generic_active_changed_def
    generic_protocol_finished_def generic_done_def generic_activate_def change_group_def generic_remove_group_def
    handles_ok_def Let_def\<close>)

lemma generic_run_ok: "handles_ok st \<Longrightarrow> handles_ok (fst (generic_run es st))"
  by (induction es arbitrary: st) (simp_all add: split_beta generic_step_ok)

lemma generic_activate_first_iff:
  "generic_activate_first usable k hs =
     (if usable then
        (case find (\<lambda>(h, w). \<not> gw_hidden w \<and> cw_can_activate (gw_workspace w) \<and> cw_id (gw_workspace w) = k) hs of
           None \<Rightarrow> [] | Some (h, _) \<Rightarrow> [ActivateHandle h, CommitProtocol])
      else [])"
  by (induction usable k hs rule: generic_activate_first.induct) auto

section \<open>Activation follows the published snapshot\<close>

text \<open>The snapshot published last, and the workspaces it offers to activate.\<close>

fun generic_published :: "generic_out list \<Rightarrow> comp_snapshot option" where
  "generic_published [] = None"
| "generic_published (GenericSnapshot sn # out) = (case generic_published out of None \<Rightarrow> Some sn | s \<Rightarrow> s)"
| "generic_published (_ # out) = generic_published out"

definition offers :: "comp_snapshot \<Rightarrow> string \<Rightarrow> bool" where
  "offers sn k = list_ex (\<lambda>ws. cw_id ws = k \<and> cw_can_activate ws) (cs_workspaces sn)"

definition can_activate_now :: "generic_state \<Rightarrow> string \<Rightarrow> bool" where
  "can_activate_now st k \<longleftrightarrow> (\<exists>h w. hash_value (ge_handles st) h = Some w \<and> \<not> gw_hidden w \<and>
     cw_can_activate (gw_workspace w) \<and> cw_id (gw_workspace w) = k)"

text \<open>The events that announce, remove or change a workspace in a way that matters to its activation.\<close>

fun changes_workspace :: "generic_event \<Rightarrow> bool" where
  "changes_workspace (NewHandle _) = True"
| "changes_workspace (HandleId _ _) = True"
| "changes_workspace (HandleState _ _) = True"
| "changes_workspace (HandleCapabilities _ _) = True"
| "changes_workspace (HandleRemoved _) = True"
| "changes_workspace _ = False"

definition generic_usable :: "generic_state \<Rightarrow> bool" where
  "generic_usable st \<longleftrightarrow> ge_protocol st \<and> ge_active st \<and> \<not> ge_finished st"

text \<open>The timer of the reconnect runs only after the protocol has finished. State and published snapshot agree: the protocol is in use and the snapshot offers what can be activated,
  or there are no workspaces and it offers none.\<close>

definition timer_ok :: "generic_state \<Rightarrow> bool" where
  "timer_ok st \<longleftrightarrow> (ge_timer st \<longrightarrow> ge_finished st \<and> ge_protocol st)"

definition agrees :: "generic_state \<Rightarrow> comp_snapshot \<Rightarrow> bool" where
  "agrees st sn \<longleftrightarrow> (generic_usable st \<and> offers sn = can_activate_now st \<or>
      ge_handles st = [] \<and> cs_workspaces sn = []) \<and>
     cap_workspace_activation (cs_capabilities sn) = list_ex cw_can_activate (cs_workspaces sn)"

lemma generic_published_append:
  "generic_published (xs @ ys) = (case generic_published ys of None \<Rightarrow> generic_published xs | s \<Rightarrow> s)"
  by (induction xs rule: generic_published.induct) (simp_all split: option.split)

lemma generic_done_published:
  assumes "handles_ok st" and "\<not> ge_finished st"
  obtains sn where "generic_done screens st = (st, [GenericSnapshot sn])" "offers sn = can_activate_now st"
    "cap_workspace_activation (cs_capabilities sn) = list_ex cw_can_activate (cs_workspaces sn)"
    "ge_handles st = [] \<Longrightarrow> cs_workspaces sn = []"
proof -
  let ?sn = "generic_publish_all screens (ge_groups st) (ge_handles st) generic_base_snapshot"
  have listed: "cs_workspaces ?sn = filter (\<lambda>e. cw_id e \<noteq> '''') (map (\<lambda>(h, w). generic_entry screens (ge_groups st) h w)
      (filter (\<lambda>(h, w). \<not> gw_hidden w) (ge_handles st)))"
    by (simp add: generic_publish_workspaces generic_base_snapshot_def no_snapshot_def)
  have rows: "(h, w) \<in> set (ge_handles st) \<longleftrightarrow> hash_value (ge_handles st) h = Some w" for h w
    using assms(1) by (simp add: handles_ok_def hash_ok_def)
  have "offers ?sn k = can_activate_now st k" for k
    using assms(1) by (force simp: offers_def can_activate_now_def list_ex_iff listed rows handles_ok_def)
  moreover have "cap_workspace_activation (cs_capabilities ?sn) = list_ex cw_can_activate (cs_workspaces ?sn)"
    by (simp only: listed generic_publish_activation list_ex_iff) (simp add: generic_base_snapshot_def)
  ultimately show thesis using that [of ?sn] assms(2) listed
    by (simp add: generic_done_def fun_eq_iff generic_base_snapshot_def no_snapshot_def)
qed

lemma can_activate_cong:
  "ge_handles st' = ge_handles st \<Longrightarrow> can_activate_now st' = can_activate_now st"
  by (simp add: can_activate_now_def fun_eq_iff)

lemma agrees_same:
  assumes "agrees st sn" and "ge_handles st' = ge_handles st" and "generic_usable st' = generic_usable st"
  shows "agrees st' sn"
  using assms can_activate_cong [OF assms(2)] by (simp add: agrees_def)

lemma agrees_offers: "agrees st sn \<Longrightarrow> offers sn = can_activate_now st"
  by (elim agrees_def [THEN iffD1, elim_format] conjE disjE) (simp_all add: offers_def can_activate_now_def fun_eq_iff)

lemma agrees_empty:
  "ge_handles st = [] \<Longrightarrow> cs_workspaces sn = [] \<Longrightarrow> \<not> cap_workspace_activation (cs_capabilities sn) \<Longrightarrow> agrees st sn"
  by (simp add: agrees_def)

lemma unavailable_agrees:
  "ge_handles st = [] \<Longrightarrow> agrees st (no_snapshot\<lparr>cs_diagnostic := text\<rparr>)"
  by (rule agrees_empty) (simp_all add: no_snapshot_def no_capabilities_def)

lemma activate_published [simp]: "generic_published (generic_activate_first usable k hs) = None"
  by (induction usable k hs rule: generic_activate_first.induct) simp_all

lemma agrees_active: "agrees st sn \<Longrightarrow> agrees (st\<lparr>ge_active := True\<rparr>) sn"
  by (auto simp: agrees_def generic_usable_def can_activate_now_def fun_eq_iff)

lemma agrees_step:
  assumes ok: "handles_ok st" "timer_ok st" and agree: "agrees st sn" and "\<not> changes_workspace e"
  shows "agrees (fst (generic_step e st)) (case generic_published (snd (generic_step e st)) of None \<Rightarrow> sn | Some s \<Rightarrow> s)"
proof (cases e)
  case (GenericDone screens)
  show ?thesis
  proof (cases "ge_protocol st \<and> \<not> ge_finished st")
    case True
    then obtain sn' where "generic_done screens st = (st, [GenericSnapshot sn'])" "offers sn' = can_activate_now st"
        "cap_workspace_activation (cs_capabilities sn') = list_ex cw_can_activate (cs_workspaces sn')"
        "ge_handles st = [] \<Longrightarrow> cs_workspaces sn' = []"
      using generic_done_published [OF ok(1)] by blast
    then show ?thesis using True agree GenericDone by (auto simp: agrees_def)
  next
    case False
    then show ?thesis using agree GenericDone by (auto simp: generic_done_def)
  qed
next
  case (GenericStart active)
  show ?thesis
  proof (cases "ge_protocol st \<and> ge_active st")
    case True
    then show ?thesis using agree GenericStart by (simp add: generic_start_def Let_def)
  next
    case False
    show ?thesis
    proof (cases "ge_protocol st")
      case True
      with False agree have "ge_handles st = []" by (auto simp: agrees_def generic_usable_def)
      then show ?thesis using True False GenericStart unavailable_agrees [of st]
        by (simp add: generic_start_def Let_def)
    next
      case fresh: False
      with agree have none: "cs_workspaces sn = []" "\<not> cap_workspace_activation (cs_capabilities sn)"
        by (auto simp: agrees_def generic_usable_def)
      let ?st = "generic_connect active st"
      have "ge_handles ?st = []" by (simp add: generic_connect_def generic_clear_def)
      then have "agrees ?st sn" "agrees ?st (no_snapshot\<lparr>cs_diagnostic := d\<rparr>)" for d
        using agrees_empty [OF _ none] unavailable_agrees by blast+
      then show ?thesis using fresh GenericStart by (simp add: generic_start_def Let_def)
    qed
  qed
next
  case (GenericTimeout active)
  show ?thesis
  proof (cases "ge_timer st")
    case True
    with ok(2) agree have "cs_workspaces sn = []" "\<not> cap_workspace_activation (cs_capabilities sn)"
      by (auto simp: agrees_def generic_usable_def timer_ok_def)
    then show ?thesis using True GenericTimeout
      by (simp add: generic_connect_def generic_clear_def agrees_empty)
  qed (use agree GenericTimeout in simp)
next
  case (HandleName h s)
  have "hash_value (ge_handles (change_handle h (generic_set_name s) st)) h' =
      map_option (\<lambda>w. if h' = h then generic_set_name s w else w) (hash_value (ge_handles st) h')" for h'
    by (cases "hash_value (ge_handles st) h'"; cases "hash_value (ge_handles st) h") (auto simp: change_handle_def)
  note rows = this
  have "can_activate_now (change_handle h (generic_set_name s) st) k = can_activate_now st k" for k
  proof
    assume "can_activate_now (change_handle h (generic_set_name s) st) k"
    then show "can_activate_now st k"
      unfolding can_activate_now_def rows map_option_eq_Some
      by (elim exE conjE) (fastforce simp: generic_set_name_def split: if_splits)
  next
    assume "can_activate_now st k"
    then obtain h' w where "hash_value (ge_handles st) h' = Some w" "\<not> gw_hidden w"
        "cw_can_activate (gw_workspace w)" "cw_id (gw_workspace w) = k"
      unfolding can_activate_now_def by blast
    then show "can_activate_now (change_handle h (generic_set_name s) st) k"
      unfolding can_activate_now_def rows by (intro exI [of _ h']) (simp add: generic_set_name_def)
  qed
  then have "can_activate_now (change_handle h (generic_set_name s) st) = can_activate_now st" by (simp add: fun_eq_iff)
  moreover have "generic_usable (change_handle h (generic_set_name s) st) = generic_usable st"
    "ge_handles st = [] \<Longrightarrow> ge_handles (change_handle h (generic_set_name s) st) = []"
    by (auto simp: generic_usable_def change_handle_def split: option.split)
  ultimately show ?thesis using agree HandleName by (auto simp: agrees_def)
qed (use assms agrees_same [OF agree] agrees_active [OF agree] unavailable_agrees in \<open>auto simp: generic_active_changed_def generic_protocol_finished_def
    generic_clear_def generic_activate_def generic_new_group_def change_group_def generic_remove_group_def generic_usable_def Let_def\<close>)

lemma generic_step_timer: "timer_ok st \<Longrightarrow> timer_ok (fst (generic_step e st))"
  by (cases e) (auto simp: timer_ok_def generic_start_def generic_connect_def generic_clear_def generic_active_changed_def
      generic_protocol_finished_def generic_done_def generic_activate_def generic_new_group_def generic_new_handle_def
      change_handle_def change_group_def generic_remove_handle_def generic_remove_group_def Let_def split: option.split)

lemma generic_run_timer: "timer_ok st \<Longrightarrow> timer_ok (fst (generic_run es st))"
  by (induction es arbitrary: st) (simp_all add: split_beta generic_step_timer)

lemma agrees_run:
  "handles_ok st \<Longrightarrow> timer_ok st \<Longrightarrow> agrees st sn \<Longrightarrow> \<forall>e \<in> set es. \<not> changes_workspace e \<Longrightarrow>
   agrees (fst (generic_run es st)) (case generic_published (snd (generic_run es st)) of None \<Rightarrow> sn | Some s \<Rightarrow> s)"
proof (induction es arbitrary: st sn)
  case (Cons e es)
  let ?st1 = "fst (generic_step e st)"
  let ?sn1 = "case generic_published (snd (generic_step e st)) of None \<Rightarrow> sn | Some s \<Rightarrow> s"
  have "agrees ?st1 ?sn1" using agrees_step [OF Cons.prems(1-3), of e] Cons.prems(4) by simp
  from Cons.IH [OF generic_step_ok [OF Cons.prems(1)] generic_step_timer [OF Cons.prems(2)] this] Cons.prems(4)
  show ?case by (auto simp: split_beta generic_published_append split: option.splits)
qed simp

lemma generic_run_append:
  "generic_run (xs @ ys) st = (let (st1, out1) = generic_run xs st; (st2, out2) = generic_run ys st1 in (st2, out1 @ out2))"
  by (induction xs arbitrary: st) (simp_all add: split_beta Let_def)

text \<open>What activation sends.\<close>

lemma generic_activate_sends:
  assumes ok: "handles_ok st" and usable: "generic_usable st \<or> ge_handles st = []"
  shows "if can_activate_now st k
    then \<exists>h w. hash_value (ge_handles st) h = Some w \<and> \<not> gw_hidden w \<and> cw_id (gw_workspace w) = k \<and>
      snd (generic_activate k st) = [ActivateHandle h, CommitProtocol]
    else snd (generic_activate k st) = []"
proof -
  let ?fit = "\<lambda>(h, w). \<not> gw_hidden w \<and> cw_can_activate (gw_workspace w) \<and> cw_id (gw_workspace w) = k"
  have rows: "(h, w) \<in> set (ge_handles st) \<longleftrightarrow> hash_value (ge_handles st) h = Some w" for h w
    using ok by (simp add: handles_ok_def hash_ok_def)
  have sent: "snd (generic_activate k st) = (case find ?fit (ge_handles st) of
      None \<Rightarrow> [] | Some (h, _) \<Rightarrow> [ActivateHandle h, CommitProtocol])"
    using usable by (auto simp: generic_activate_def generic_activate_first_iff generic_usable_def)
  show ?thesis
  proof (cases "find ?fit (ge_handles st)")
    case None
    then have "\<not> can_activate_now st k" by (auto simp: find_None_iff can_activate_now_def simp flip: rows)
    then show ?thesis using None sent by simp
  next
    case (Some p)
    obtain h w where p: "p = (h, w)" by (cases p)
    have "hash_value (ge_handles st) h = Some w" "?fit (h, w)"
      using find_Some_member [OF Some] by (simp_all add: p rows)
    then show ?thesis using Some p sent by (auto simp: can_activate_now_def)
  qed
qed

text \<open>C40. Activation follows the published snapshot. From a \<open>done\<close> event that comes while the protocol is in use, and
  as long as the compositor does not announce, remove or change a workspace again, activating a workspace
  sends a request and its commit for a workspace of that identifier when the snapshot published last
  lists it as able to be activated, and nothing otherwise, also when the protocol is lost and found again; and that
  snapshot claims the capability exactly when it lists such a workspace.\<close>

theorem generic_activation_matches:
  assumes "generic_run (before @ GenericDone screens # after) generic_init = (st, out)"
    and "ge_protocol (fst (generic_run before generic_init))" and "ge_active (fst (generic_run before generic_init))"
    and "\<not> ge_finished (fst (generic_run before generic_init))" and "\<forall>e \<in> set after. \<not> changes_workspace e"
  shows "\<exists>sn. generic_published out = Some sn \<and>
     (\<forall>k. if \<exists>ws\<in>set (cs_workspaces sn). cw_id ws = k \<and> cw_can_activate ws then
        \<exists>h w. hash_value (ge_handles st) h = Some w \<and> \<not> gw_hidden w \<and> cw_id (gw_workspace w) = k \<and>
          snd (generic_activate k st) = [ActivateHandle h, CommitProtocol]
      else snd (generic_activate k st) = []) \<and>
     cap_workspace_activation (cs_capabilities sn) = (\<exists>ws\<in>set (cs_workspaces sn). cw_can_activate ws)"
proof -
  let ?st0 = "fst (generic_run before generic_init)"
  have "handles_ok generic_init" "timer_ok generic_init"
    by (simp_all add: handles_ok_def generic_init_def timer_ok_def)
  then have ok: "handles_ok ?st0" "timer_ok ?st0" by (simp_all add: generic_run_ok generic_run_timer)
  obtain sn0 where sn0: "generic_done screens ?st0 = (?st0, [GenericSnapshot sn0])" "offers sn0 = can_activate_now ?st0"
      "cap_workspace_activation (cs_capabilities sn0) = list_ex cw_can_activate (cs_workspaces sn0)"
    using generic_done_published [OF ok(1) assms(4)] by metis
  have first: "agrees ?st0 sn0" using sn0(2,3) assms(2-4) by (simp add: agrees_def generic_usable_def)
  define sn where "sn = (case generic_published (snd (generic_run after ?st0)) of None \<Rightarrow> sn0 | Some s \<Rightarrow> s)"
  have parts: "st = fst (generic_run after ?st0)"
      "out = snd (generic_run before generic_init) @ GenericSnapshot sn0 # snd (generic_run after ?st0)"
    using assms(1) sn0(1) assms(2) by (simp_all add: generic_run_append split_beta Let_def)
  have agree: "agrees st sn" unfolding parts(1) sn_def by (rule agrees_run [OF ok first assms(5)])
  have "generic_published out = Some sn" by (simp add: parts(2) sn_def generic_published_append split: option.split)
  moreover have "handles_ok st" unfolding parts(1) by (rule generic_run_ok [OF ok(1)])
  then have sends: "if can_activate_now st k
      then \<exists>h w. hash_value (ge_handles st) h = Some w \<and> \<not> gw_hidden w \<and> cw_id (gw_workspace w) = k \<and>
        snd (generic_activate k st) = [ActivateHandle h, CommitProtocol]
      else snd (generic_activate k st) = []" for k
    using agree by (intro generic_activate_sends) (simp_all add: agrees_def, blast)
  have "offers sn = can_activate_now st"
    by (rule agrees_offers [OF agree])
  then have "(\<exists>ws\<in>set (cs_workspaces sn). cw_id ws = k \<and> cw_can_activate ws) = can_activate_now st k" for k
    by (simp add: fun_eq_iff offers_def list_ex_iff)
  with sends have "if \<exists>ws\<in>set (cs_workspaces sn). cw_id ws = k \<and> cw_can_activate ws
      then \<exists>h w. hash_value (ge_handles st) h = Some w \<and> \<not> gw_hidden w \<and> cw_id (gw_workspace w) = k \<and>
        snd (generic_activate k st) = [ActivateHandle h, CommitProtocol]
      else snd (generic_activate k st) = []" for k by simp
  moreover have "cap_workspace_activation (cs_capabilities sn) = (\<exists>ws\<in>set (cs_workspaces sn). cw_can_activate ws)"
    using agree by (simp add: agrees_def list_ex_iff Bex_def)
  ultimately show ?thesis by (intro exI [of _ sn] conjI allI)
qed

text \<open>Between the events that change a workspace and the \<open>done\<close> event that makes them valid, activation goes by the
  changed properties although the published snapshot still shows the old ones.\<close>

lemma generic_activation_early:
  "let (st, out) = generic_run [GenericStart True, NewHandle 7, HandleId 7 ''web'', HandleCapabilities 7 1, GenericDone [],
       HandleCapabilities 7 0] generic_init
   in (case generic_published out of Some sn \<Rightarrow> offers sn ''protocol:web'' | None \<Rightarrow> False) \<and>
     snd (generic_activate ''protocol:web'' st) = []"
  by code_simp

lemma generic_activation_matches_witness:
  "snd (generic_activate ''protocol:web'' (fst (generic_run ([GenericStart True, NewHandle 7, HandleId 7 ''web'',
     HandleCapabilities 7 1] @ GenericDone [] # [HandleName 7 ''w'']) generic_init))) = [ActivateHandle 7, CommitProtocol]"
proof -
  let ?before = "[GenericStart True, NewHandle 7, HandleId 7 ''web'', HandleCapabilities 7 1]"
  let ?r = "generic_run (?before @ GenericDone [] # [HandleName 7 ''w'']) generic_init"
  have used: "ge_protocol (fst (generic_run ?before generic_init))" "ge_active (fst (generic_run ?before generic_init))"
    "\<not> ge_finished (fst (generic_run ?before generic_init))" "\<forall>e \<in> set [HandleName 7 ''w'']. \<not> changes_workspace e"
    and offered: "(case generic_published (snd ?r) of Some sn \<Rightarrow> offers sn ''protocol:web'' | None \<Rightarrow> False)"
    and one: "map fst (ge_handles (fst ?r)) = [7]"
    by code_simp+
  from generic_activation_matches [OF surjective_pairing used] obtain sn where
    "generic_published (snd ?r) = Some sn" and
    act: "if \<exists>ws\<in>set (cs_workspaces sn). cw_id ws = ''protocol:web'' \<and> cw_can_activate ws then
        \<exists>h w. hash_value (ge_handles (fst ?r)) h = Some w \<and> \<not> gw_hidden w \<and> cw_id (gw_workspace w) = ''protocol:web'' \<and>
          snd (generic_activate ''protocol:web'' (fst ?r)) = [ActivateHandle h, CommitProtocol]
      else snd (generic_activate ''protocol:web'' (fst ?r)) = []" by blast
  then have "\<exists>ws\<in>set (cs_workspaces sn). cw_id ws = ''protocol:web'' \<and> cw_can_activate ws"
    using offered by (simp add: offers_def list_ex_iff)
  with act obtain h w where "hash_value (ge_handles (fst ?r)) h = Some w"
    "snd (generic_activate ''protocol:web'' (fst ?r)) = [ActivateHandle h, CommitProtocol]" by auto
  moreover from this(1) have "h \<in> set (map fst (ge_handles (fst ?r)))" by (metis map_of_SomeD image_eqI fst_conv set_map)
  ultimately show ?thesis unfolding one by simp
qed

end
