(* ===== verification/Wayland_Labwc.thy ===== *)
theory Wayland_Labwc
  imports Wayland_Generic
begin

text \<open>
  \<open>ForeignToplevelState.h\<close> and \<open>LabwcBackend.cpp\<close>: the windows of the wlr-foreign-toplevel protocol
  beside the workspaces of \<open>GenericBackend\<close>. A zero timer that publishes is the flag \<open>lb_pending\<close>. Identifiers of
  windows (UUIDs), versions of protocol objects, and whether a new protocol object is active or a seat exists
  are chosen by the environment. \<open>lb_screens\<close> stands for the screens of the application.
\<close>

section \<open>Windows\<close>

record toplevel_properties =
  tp_window :: comp_active_window
  tp_outputs :: "nat list"
  tp_activated :: bool
  tp_minimized :: bool
  tp_maximized :: bool
  tp_fullscreen :: bool
  tp_order :: "64 word"

record toplevel_state =
  ts_pending :: toplevel_properties
  ts_committed :: toplevel_properties
  ts_ready :: bool

definition no_properties :: toplevel_properties where
  "no_properties = \<lparr>tp_window = \<lparr>aw_app_id = '''', aw_title = '''', aw_category = ''''\<rparr>, tp_outputs = [],
     tp_activated = False, tp_minimized = False, tp_maximized = False, tp_fullscreen = False, tp_order = 0\<rparr>"

definition toplevel_init :: toplevel_state where
  "toplevel_init = \<lparr>ts_pending = no_properties, ts_committed = no_properties, ts_ready = False\<rparr>"

definition foreign_operations :: "int \<Rightarrow> window_command list" where
  "foreign_operations version =
     [Activate, Minimize, Restore, Maximize, Unmaximize, Close] @
     (if version \<ge> 2 then [Fullscreen, Unfullscreen] else [])"

text \<open>A window that becomes active gets the next number of the order; one that stays active keeps its own.\<close>

definition toplevel_set_activated :: "bool \<Rightarrow> 64 word \<Rightarrow> toplevel_state \<Rightarrow> toplevel_state \<times> 64 word" where
  "toplevel_set_activated activated order ts =
     (let (p, order1) =
            (if activated \<and> \<not> tp_activated (ts_pending ts)
             then ((ts_pending ts)\<lparr>tp_order := order + 1\<rparr>, order + 1) else (ts_pending ts, order))
      in (ts\<lparr>ts_pending := p\<lparr>tp_activated := activated\<rparr>\<rparr>, order1))"

definition toplevel_commit :: "toplevel_state \<Rightarrow> toplevel_state" where
  "toplevel_commit ts = ts\<lparr>ts_committed := ts_pending ts, ts_ready := True\<rparr>"

text \<open>The search for the active window, with the one selected so far.\<close>

fun toplevel_active_from :: "toplevel_state option \<Rightarrow> toplevel_state list \<Rightarrow> toplevel_state option" where
  "toplevel_active_from selected [] = selected"
| "toplevel_active_from selected (w # ws) =
     toplevel_active_from
       (if tp_activated (ts_committed w) \<and>
          (case selected of None \<Rightarrow> True | Some s \<Rightarrow> tp_order (ts_committed w) > tp_order (ts_committed s))
        then Some w else selected) ws"

definition toplevel_active :: "toplevel_state list \<Rightarrow> toplevel_state option" where
  "toplevel_active ws = toplevel_active_from None ws"

definition toplevel_on_outputs ::
  "(nat, string) qhash \<Rightarrow> toplevel_state \<Rightarrow> (string, comp_active_window) qhash" where
  "toplevel_on_outputs names ts =
     fold (\<lambda>out result.
        (let name = (case hash_value names out of None \<Rightarrow> '''' | Some n \<Rightarrow> n) in
         if name \<noteq> '''' then hash_insert name (tp_window (ts_committed ts)) result else result))
      (tp_outputs (ts_committed ts)) []"

definition merge_labwc ::
  "comp_snapshot \<Rightarrow> bool \<Rightarrow> (string, comp_active_window) qhash \<Rightarrow> comp_snapshot" where
  "merge_labwc workspace windows_available windows =
     (let s1 = (if cs_connected workspace then workspace else no_snapshot);
          s2 = s1\<lparr>cs_connected := (cs_connected s1 \<or> windows_available),
                  cs_capabilities := (cs_capabilities s1)\<lparr>cap_active_window := windows_available\<rparr>,
                  cs_active_windows := (if windows_available then windows else [])\<rparr>
      in s2\<lparr>cs_diagnostic := (if cs_connected s2 then ''''
             else ''labwc workspace and foreign-toplevel protocols are unavailable'')\<rparr>)"

section \<open>State\<close>

record labwc_window =
  lw_object :: nat
  lw_id :: string
  lw_version :: int
  lw_state :: toplevel_state

record labwc_state =
  lb_maximum_version :: int
  lb_generic :: generic_state
  lb_workspace :: comp_snapshot
  lb_protocol :: bool
  lb_windows :: "labwc_window list"
  lb_timer :: bool
  lb_order :: "64 word"
  lb_available :: bool
  lb_pending :: bool
  lb_screens :: wayland_screens

datatype labwc_out =
    LabwcSnapshot comp_snapshot
  | WorkspaceOut generic_out
  | WindowRequest nat window_command
  | CommandResult command_result

definition labwc_init :: "int \<Rightarrow> wayland_screens \<Rightarrow> labwc_state" where
  "labwc_init maximum_version screens = \<lparr>lb_maximum_version = max 1 (min 3 maximum_version), lb_generic = generic_init,
     lb_workspace = no_snapshot, lb_protocol = False, lb_windows = [], lb_timer = False, lb_order = 0,
     lb_available = False, lb_pending = False, lb_screens = screens\<rparr>"

definition labwc_schedule :: "labwc_state \<Rightarrow> labwc_state" where
  "labwc_schedule st = (if lb_pending st then st else st\<lparr>lb_pending := True\<rparr>)"

definition labwc_finished :: "labwc_state \<Rightarrow> labwc_state" where
  "labwc_finished st = (labwc_schedule (st\<lparr>lb_available := False, lb_windows := []\<rparr>))\<lparr>lb_timer := True\<rparr>"

definition labwc_connect :: "bool \<Rightarrow> labwc_state \<Rightarrow> labwc_state" where
  "labwc_connect active st =
     (let st1 = st\<lparr>lb_windows := [], lb_protocol := True, lb_available := False\<rparr> in
      if active then labwc_schedule (st1\<lparr>lb_available := True\<rparr>) else labwc_finished st1)"

definition labwc_active_changed :: "bool \<Rightarrow> labwc_state \<Rightarrow> labwc_state" where
  "labwc_active_changed active st =
     (if \<not> active then labwc_finished st else labwc_schedule (st\<lparr>lb_available := True, lb_timer := False\<rparr>))"

text \<open>What the workspace backend emits: its snapshots are kept and published later.\<close>

fun labwc_absorb :: "generic_out list \<Rightarrow> labwc_state \<Rightarrow> labwc_state \<times> labwc_out list" where
  "labwc_absorb [] st = (st, [])"
| "labwc_absorb (GenericSnapshot sn # out) st = labwc_absorb out (labwc_schedule (st\<lparr>lb_workspace := sn\<rparr>))"
| "labwc_absorb (x # out) st = (let (st1, out1) = labwc_absorb out st in (st1, WorkspaceOut x # out1))"

definition labwc_generic :: "generic_event \<Rightarrow> labwc_state \<Rightarrow> labwc_state \<times> labwc_out list" where
  "labwc_generic e st =
     (let (g, out) = generic_step e (lb_generic st) in labwc_absorb out (st\<lparr>lb_generic := g\<rparr>))"

definition labwc_start :: "bool \<Rightarrow> bool \<Rightarrow> labwc_state \<Rightarrow> labwc_state \<times> labwc_out list" where
  "labwc_start generic_active active st =
     (let (st1, out) = labwc_generic (GenericStart generic_active) st
      in (if \<not> lb_protocol st1 then labwc_connect active st1 else st1, out))"

section \<open>Publishing\<close>

definition screen_names :: "wayland_screens \<Rightarrow> (nat, string) qhash" where
  "screen_names screens =
     fold (\<lambda>(native, name) names. case native of None \<Rightarrow> names | Some out \<Rightarrow> hash_insert out name names) screens []"

definition labwc_entry :: "(nat, string) qhash \<Rightarrow> labwc_window \<Rightarrow> comp_window" where
  "labwc_entry names w =
     (let v = ts_committed (lw_state w) in
      default_window\<lparr>win_id := lw_id w, win_title := aw_title (tp_window v), win_app_id := aw_app_id (tp_window v),
        win_outputs := sort (hash_keys (toplevel_on_outputs names (lw_state w))), win_activated := tp_activated v,
        win_minimized := tp_minimized v, win_maximized := tp_maximized v, win_fullscreen := tp_fullscreen v,
        win_operations := foreign_operations (lw_version w)\<rparr>)"

definition labwc_show ::
  "wayland_screens \<Rightarrow> comp_snapshot \<Rightarrow> bool \<Rightarrow> labwc_window list \<Rightarrow> comp_snapshot" where
  "labwc_show screens workspace available ready =
     (let names = screen_names screens;
          windows = (case toplevel_active (map lw_state ready) of
            None \<Rightarrow> [] | Some active \<Rightarrow> toplevel_on_outputs names active);
          sn = merge_labwc workspace available windows
      in sn\<lparr>cs_capabilities := (cs_capabilities sn)\<lparr>cap_window_listing := available\<rparr>,
            cs_windows := map (labwc_entry names) ready\<rparr>)"

definition labwc_ready :: "labwc_state \<Rightarrow> labwc_window list" where
  "labwc_ready st = (if lb_available st then filter (\<lambda>w. ts_ready (lw_state w)) (lb_windows st) else [])"

definition labwc_snapshot :: "labwc_state \<Rightarrow> comp_snapshot" where
  "labwc_snapshot st = labwc_show (lb_screens st) (lb_workspace st) (lb_available st) (labwc_ready st)"

definition labwc_publish :: "labwc_state \<Rightarrow> labwc_state \<times> labwc_out list" where
  "labwc_publish st =
     (if lb_pending st then (st\<lparr>lb_pending := False\<rparr>, [LabwcSnapshot (labwc_snapshot st)]) else (st, []))"

section \<open>Commands\<close>

text \<open>The loop over the windows does not stop at a match, so the last one counts.\<close>

definition labwc_target :: "string \<Rightarrow> labwc_state \<Rightarrow> labwc_window option" where
  "labwc_target k st = find (\<lambda>w. lw_id w = k \<and> ts_ready (lw_state w)) (rev (lb_windows st))"

definition labwc_command :: "bool \<Rightarrow> string \<Rightarrow> window_command \<Rightarrow> labwc_state \<Rightarrow> labwc_out list" where
  "labwc_command has_seat k cmd st =
     (if \<not> lb_available st then [CommandResult CommandDisconnected]
      else
        (case labwc_target k st of
           None \<Rightarrow> [CommandResult CommandInvalidWindow]
         | Some w \<Rightarrow>
             if cmd \<notin> set (foreign_operations (lw_version w)) then [CommandResult CommandUnsupported]
             else if cmd = Activate \<and> \<not> has_seat then [CommandResult CommandMissingSeat]
             else [WindowRequest (lw_object w) cmd, CommandResult CommandAccepted]))"

section \<open>Events\<close>

text \<open>The states of a window in the protocol: the numbers its description gives them.\<close>

definition state_maximized :: "32 word" where "state_maximized = 0"
definition state_minimized :: "32 word" where "state_minimized = 1"
definition state_activated :: "32 word" where "state_activated = 2"
definition state_fullscreen :: "32 word" where "state_fullscreen = 3"

definition toplevel_set_states :: "32 word list \<Rightarrow> 64 word \<Rightarrow> toplevel_state \<Rightarrow> toplevel_state \<times> 64 word" where
  "toplevel_set_states states order ts =
     toplevel_set_activated (state_activated \<in> set states) order
       (ts\<lparr>ts_pending := (ts_pending ts)\<lparr>tp_minimized := (state_minimized \<in> set states),
          tp_maximized := (state_maximized \<in> set states), tp_fullscreen := (state_fullscreen \<in> set states)\<rparr>\<rparr>)"

definition change_pending :: "nat \<Rightarrow> (toplevel_properties \<Rightarrow> toplevel_properties) \<Rightarrow> labwc_state \<Rightarrow> labwc_state" where
  "change_pending h f st = st\<lparr>lb_windows := map (\<lambda>w. if lw_object w = h
     then w\<lparr>lw_state := (lw_state w)\<lparr>ts_pending := f (ts_pending (lw_state w))\<rparr>\<rparr> else w) (lb_windows st)\<rparr>"

definition labwc_window_states :: "nat \<Rightarrow> 32 word list \<Rightarrow> labwc_state \<Rightarrow> labwc_state" where
  "labwc_window_states h states st =
     (case find (\<lambda>w. lw_object w = h) (lb_windows st) of
        None \<Rightarrow> st
      | Some w \<Rightarrow>
          let (ts, order) = toplevel_set_states states (lb_order st) (lw_state w)
          in st\<lparr>lb_windows := map (\<lambda>x. if lw_object x = h then x\<lparr>lw_state := (lw_state x)\<lparr>ts_pending := ts_pending ts\<rparr>\<rparr> else x)
                  (lb_windows st), lb_order := order\<rparr>)"

definition labwc_window_done :: "nat \<Rightarrow> labwc_state \<Rightarrow> labwc_state" where
  "labwc_window_done h st =
     (if h \<in> lw_object ` set (lb_windows st) then
        labwc_schedule (st\<lparr>lb_windows := map (\<lambda>w. if lw_object w = h then w\<lparr>lw_state := toplevel_commit (lw_state w)\<rparr> else w)
          (lb_windows st)\<rparr>)
      else st)"

fun remove_window :: "nat \<Rightarrow> labwc_window list \<Rightarrow> labwc_window list" where
  "remove_window h [] = []"
| "remove_window h (w # ws) = (if lw_object w = h then ws else w # remove_window h ws)"

definition labwc_window_closed :: "nat \<Rightarrow> labwc_state \<Rightarrow> labwc_state" where
  "labwc_window_closed h st =
     (if h \<in> lw_object ` set (lb_windows st)
      then labwc_schedule (st\<lparr>lb_windows := remove_window h (lb_windows st)\<rparr>) else st)"

definition labwc_new_window :: "nat \<Rightarrow> string \<Rightarrow> int \<Rightarrow> labwc_state \<Rightarrow> labwc_state" where
  "labwc_new_window h k version st =
     st\<lparr>lb_windows := lb_windows st @ [\<lparr>lw_object = h, lw_id = k, lw_version = version, lw_state = toplevel_init\<rparr>]\<rparr>"

datatype labwc_event =
    LabwcStart bool bool
  | LabwcTimeout bool
  | LabwcActiveChanged bool
  | LabwcFinished
  | LabwcPublishDue
  | LabwcScreens wayland_screens
  | LabwcGeneric generic_event
  | LabwcCommand bool string window_command
  | NewWindow nat string int
  | WindowTitle nat string
  | WindowAppId nat string
  | WindowOutputEnter nat nat
  | WindowOutputLeave nat nat
  | WindowStates nat "32 word list"
  | WindowDone nat
  | WindowClosed nat

fun labwc_step :: "labwc_event \<Rightarrow> labwc_state \<Rightarrow> labwc_state \<times> labwc_out list" where
  "labwc_step (LabwcStart generic_active active) st = labwc_start generic_active active st"
| "labwc_step (LabwcTimeout active) st =
     (if lb_timer st then labwc_connect active (st\<lparr>lb_timer := False\<rparr>) else st, [])"
| "labwc_step (LabwcActiveChanged active) st = (if lb_protocol st then labwc_active_changed active st else st, [])"
| "labwc_step LabwcFinished st = (if lb_protocol st then labwc_finished st else st, [])"
| "labwc_step LabwcPublishDue st = labwc_publish st"
| "labwc_step (LabwcScreens screens) st = (labwc_schedule (st\<lparr>lb_screens := screens\<rparr>), [])"
| "labwc_step (LabwcGeneric e) st = labwc_generic e st"
| "labwc_step (LabwcCommand has_seat k cmd) st = (st, labwc_command has_seat k cmd st)"
| "labwc_step (NewWindow h k version) st = (if lb_protocol st then labwc_new_window h k version st else st, [])"
| "labwc_step (WindowTitle h s) st =
     (change_pending h (\<lambda>p. p\<lparr>tp_window := (tp_window p)\<lparr>aw_title := s\<rparr>\<rparr>) st, [])"
| "labwc_step (WindowAppId h s) st =
     (change_pending h (\<lambda>p. p\<lparr>tp_window := (tp_window p)\<lparr>aw_app_id := s\<rparr>\<rparr>) st, [])"
| "labwc_step (WindowOutputEnter h out) st =
     (change_pending h (\<lambda>p. p\<lparr>tp_outputs := List.insert out (tp_outputs p)\<rparr>) st, [])"
| "labwc_step (WindowOutputLeave h out) st =
     (change_pending h (\<lambda>p. p\<lparr>tp_outputs := removeAll out (tp_outputs p)\<rparr>) st, [])"
| "labwc_step (WindowStates h states) st = (labwc_window_states h states st, [])"
| "labwc_step (WindowDone h) st = (labwc_window_done h st, [])"
| "labwc_step (WindowClosed h) st = (labwc_window_closed h st, [])"

fun labwc_run :: "labwc_event list \<Rightarrow> labwc_state \<Rightarrow> labwc_state \<times> labwc_out list" where
  "labwc_run [] st = (st, [])"
| "labwc_run (e # es) st =
     (let (st1, out1) = labwc_step e st; (st2, out2) = labwc_run es st1 in (st2, out1 @ out2))"

section \<open>No published snapshot goes stale\<close>

fun published :: "labwc_out list \<Rightarrow> comp_snapshot list" where
  "published [] = []"
| "published (LabwcSnapshot sn # out) = sn # published out"
| "published (_ # out) = published out"

lemma published_append [simp]: "published (xs @ ys) = published xs @ published ys"
  by (induction xs rule: published.induct) simp_all

text \<open>The snapshot depends on the committed properties only.\<close>

lemma on_outputs_committed:
  "ts_committed a = ts_committed b \<Longrightarrow> toplevel_on_outputs names a = toplevel_on_outputs names b"
  by (simp only: toplevel_on_outputs_def)

definition pending_only :: "(labwc_window \<Rightarrow> labwc_window) \<Rightarrow> bool" where
  "pending_only f =
     (\<forall>w. lw_id (f w) = lw_id w \<and> lw_version (f w) = lw_version w \<and>
          ts_committed (lw_state (f w)) = ts_committed (lw_state w) \<and> ts_ready (lw_state (f w)) = ts_ready (lw_state w))"

lemma labwc_entry_pending:
  assumes "pending_only f"
  shows "labwc_entry names (f w) = labwc_entry names w"
proof -
  have "ts_committed (lw_state (f w)) = ts_committed (lw_state w)" "lw_id (f w) = lw_id w"
    "lw_version (f w) = lw_version w" using assms by (simp_all add: pending_only_def)
  then show ?thesis using on_outputs_committed [of "lw_state (f w)" "lw_state w" names] by (simp add: labwc_entry_def)
qed

lemma active_committed:
  assumes "list_all2 (\<lambda>a b. ts_committed a = ts_committed b) xs ys"
    and "rel_option (\<lambda>a b. ts_committed a = ts_committed b) s t"
  shows "rel_option (\<lambda>a b. ts_committed a = ts_committed b) (toplevel_active_from s xs) (toplevel_active_from t ys)"
  using assms
proof (induction xs ys arbitrary: s t rule: list_all2_induct)
  case (Cons x xs y ys)
  have "(case s of None \<Rightarrow> True | Some s \<Rightarrow> tp_order (ts_committed x) > tp_order (ts_committed s)) =
      (case t of None \<Rightarrow> True | Some s \<Rightarrow> tp_order (ts_committed y) > tp_order (ts_committed s))"
    using Cons.hyps(1) Cons.prems by (cases s; cases t) simp_all
  then show ?case using Cons.hyps(1) Cons.prems by (auto intro!: Cons.IH)
qed simp

lemma active_outputs_pending:
  assumes "pending_only f"
  shows "(case toplevel_active (map lw_state (map f ws)) of None \<Rightarrow> [] | Some a \<Rightarrow> toplevel_on_outputs names a) =
      (case toplevel_active (map lw_state ws) of None \<Rightarrow> [] | Some a \<Rightarrow> toplevel_on_outputs names a)"
proof -
  have "list_all2 (\<lambda>a b. ts_committed a = ts_committed b) (map lw_state (map f ws)) (map lw_state ws)"
    using assms by (induction ws) (simp_all add: pending_only_def)
  then have "rel_option (\<lambda>a b. ts_committed a = ts_committed b)
      (toplevel_active (map lw_state (map f ws))) (toplevel_active (map lw_state ws))"
    unfolding toplevel_active_def by (intro active_committed) auto
  then show ?thesis by (cases rule: option.rel_cases) (auto intro: on_outputs_committed)
qed

lemma labwc_show_pending:
  assumes "pending_only f"
  shows "labwc_show screens workspace available (map f ws) = labwc_show screens workspace available ws"
proof -
  have "map (labwc_entry names) (map f ws) = map (labwc_entry names) ws" for names
    by (simp add: labwc_entry_pending [OF assms])
  then show ?thesis unfolding labwc_show_def Let_def by (simp only: active_outputs_pending [OF assms])
qed

lemma snapshot_pending:
  assumes "pending_only f"
  shows "labwc_snapshot (st\<lparr>lb_windows := map f (lb_windows st)\<rparr>) = labwc_snapshot st"
proof -
  have ready: "filter (\<lambda>w. ts_ready (lw_state w)) (map f ws) = map f (filter (\<lambda>w. ts_ready (lw_state w)) ws)" for ws
    using assms by (induction ws) (simp_all add: pending_only_def)
  then show ?thesis
    by (simp add: labwc_snapshot_def labwc_ready_def labwc_show_pending [OF assms] del: filter_map)
qed

text \<open>The last snapshot published shows the state, or another one is due.\<close>

definition labwc_fresh :: "labwc_state \<Rightarrow> comp_snapshot \<Rightarrow> bool" where
  "labwc_fresh st sn = (lb_pending st \<or> sn = labwc_snapshot st)"

lemma labwc_snapshot_frame [simp]:
  "labwc_snapshot (st\<lparr>lb_generic := g\<rparr>) = labwc_snapshot st"
  "labwc_snapshot (st\<lparr>lb_order := n\<rparr>) = labwc_snapshot st"
  "labwc_snapshot (st\<lparr>lb_pending := b\<rparr>) = labwc_snapshot st"
  by (simp_all add: labwc_snapshot_def labwc_ready_def)

lemma labwc_new_window_snapshot [simp]: "labwc_snapshot (labwc_new_window h k v st) = labwc_snapshot st"
  by (simp add: labwc_new_window_def labwc_snapshot_def labwc_ready_def toplevel_init_def)

lemma labwc_schedule_pending [simp]: "lb_pending (labwc_schedule st)"
  by (simp add: labwc_schedule_def)

lemma labwc_finished_pending [simp]: "lb_pending (labwc_finished st)"
  by (simp add: labwc_finished_def)

lemma labwc_connect_pending [simp]: "lb_pending (labwc_connect active st)"
  by (simp add: labwc_connect_def Let_def)

lemma labwc_absorb_silent [simp]: "published (snd (labwc_absorb out st)) = []"
  by (induction out st rule: labwc_absorb.induct) (auto simp: split_beta)

lemma labwc_absorb_fresh: "labwc_fresh st sn \<Longrightarrow> labwc_fresh (fst (labwc_absorb out st)) sn"
  by (induction out st rule: labwc_absorb.induct) (auto simp: split_beta labwc_fresh_def)

lemma labwc_generic_fresh:
  assumes "labwc_fresh st sn"
  shows "published (snd (labwc_generic e st)) = [] \<and> labwc_fresh (fst (labwc_generic e st)) sn"
proof -
  have "labwc_fresh (st\<lparr>lb_generic := g\<rparr>) sn" for g
    using assms by (simp add: labwc_fresh_def)
  then show ?thesis by (simp add: labwc_generic_def split_beta labwc_absorb_fresh)
qed

lemma pending_windows_fresh:
  assumes "labwc_fresh st sn" and "pending_only f"
  shows "labwc_fresh (st\<lparr>lb_windows := map f (lb_windows st)\<rparr>) sn"
  using assms snapshot_pending [OF assms(2), of st] by (simp add: labwc_fresh_def)

lemma change_pending_fresh: "labwc_fresh st sn \<Longrightarrow> labwc_fresh (change_pending h f st) sn"
  unfolding change_pending_def by (intro pending_windows_fresh) (simp_all add: pending_only_def)

lemma window_states_fresh:
  assumes "labwc_fresh st sn"
  shows "labwc_fresh (labwc_window_states h states st) sn"
proof -
  have order: "labwc_fresh (s\<lparr>lb_order := n\<rparr>) sn = labwc_fresh s sn" for s n
    by (simp add: labwc_fresh_def)
  have "labwc_fresh (st\<lparr>lb_windows := map (\<lambda>x. if lw_object x = h then x\<lparr>lw_state := (lw_state x)\<lparr>ts_pending := p\<rparr>\<rparr> else x)
      (lb_windows st)\<rparr>) sn" for p
    by (intro pending_windows_fresh [OF assms]) (simp add: pending_only_def)
  then have "labwc_fresh (st\<lparr>lb_windows := map (\<lambda>x. if lw_object x = h then x\<lparr>lw_state := (lw_state x)\<lparr>ts_pending := p\<rparr>\<rparr>
      else x) (lb_windows st), lb_order := n\<rparr>) sn" for p n
    using order by blast
  then show ?thesis using assms by (simp add: labwc_window_states_def split_beta split: option.split)
qed

lemma labwc_step_fresh:
  assumes "labwc_fresh st sn"
  shows "labwc_fresh (fst (labwc_step e st)) (last (sn # published (snd (labwc_step e st))))"
proof (cases e)
  case (LabwcStart a b)
  then show ?thesis
    using labwc_generic_fresh [OF assms, of "GenericStart a"]
    by (simp add: labwc_start_def split_beta) (simp add: labwc_fresh_def)
next
  case (LabwcGeneric ge)
  then show ?thesis using labwc_generic_fresh [OF assms, of ge] by simp
next
  case (LabwcCommand s k c)
  then show ?thesis using assms by (simp add: labwc_command_def split: option.split)
next
  case LabwcPublishDue
  then show ?thesis using assms by (auto simp: labwc_publish_def labwc_fresh_def)
next
  case (NewWindow h k v)
  have "lb_pending (labwc_new_window h k v st) = lb_pending st" by (simp add: labwc_new_window_def)
  then show ?thesis using assms by (simp add: NewWindow labwc_fresh_def)
qed (use assms in \<open>simp_all add: change_pending_fresh window_states_fresh labwc_window_done_def
    labwc_window_closed_def labwc_active_changed_def\<close>, simp_all add: labwc_fresh_def)

text \<open>C39. The last snapshot that the labwc backend published always shows the current state: what is committed of
  the windows, the workspaces, the availability and the screens; or else another snapshot is already due.
  (Before the first one, nothing has changed since the start.)\<close>

theorem labwc_never_stale:
  "lb_pending (fst (labwc_run es (labwc_init version screens))) \<or>
   last (labwc_snapshot (labwc_init version screens) # published (snd (labwc_run es (labwc_init version screens)))) =
     labwc_snapshot (fst (labwc_run es (labwc_init version screens)))"
proof -
  have "labwc_fresh (fst (labwc_run es st)) (last (sn # published (snd (labwc_run es st))))"
    if "labwc_fresh st sn" for st sn
    using that
  proof (induction es arbitrary: st sn)
    case (Cons e es)
    have glue: "last (a # xs @ ys) = last (last (a # xs) # ys)" for a :: comp_snapshot and xs ys
      by (simp add: last_append)
    show ?case
      using Cons.IH [OF labwc_step_fresh [OF Cons.prems, of e]]
      by (simp only: labwc_run.simps Let_def split_beta fst_conv snd_conv published_append glue)
  qed simp
  from this [of "labwc_init version screens" "labwc_snapshot (labwc_init version screens)"] show ?thesis
    unfolding labwc_fresh_def by auto
qed

text \<open>A window command is accepted exactly when the protocol is available, a committed window has the
  identifier, its version of the protocol knows the command and, to activate it, there is a seat; only then
  is a request sent, one, to that window; every refusal names its reason.\<close>

lemma labwc_command_result:
  "labwc_command has_seat k cmd st =
     (if \<not> lb_available st then [CommandResult CommandDisconnected]
      else if \<not> (\<exists>w\<in>set (lb_windows st). lw_id w = k \<and> ts_ready (lw_state w)) then [CommandResult CommandInvalidWindow]
      else
        let w = last (filter (\<lambda>w. lw_id w = k \<and> ts_ready (lw_state w)) (lb_windows st)) in
        if cmd \<in> {Fullscreen, Unfullscreen} \<and> lw_version w < 2 then [CommandResult CommandUnsupported]
        else if cmd = Activate \<and> \<not> has_seat then [CommandResult CommandMissingSeat]
        else [WindowRequest (lw_object w) cmd, CommandResult CommandAccepted])"
proof -
  let ?P = "\<lambda>w. lw_id w = k \<and> ts_ready (lw_state w)"
  have found: "find P (rev xs) = (if \<exists>x\<in>set xs. P x then Some (last (filter P xs)) else None)"
    for P and xs :: "labwc_window list"
  proof (induction xs rule: rev_induct)
    case (snoc x xs)
    then show ?case by (auto simp: find_append)
  qed simp
  have supported: "cmd \<notin> set (foreign_operations v) \<longleftrightarrow> cmd \<in> {Fullscreen, Unfullscreen} \<and> v < 2" for v
    by (cases cmd) (auto simp: foreign_operations_def)
  show ?thesis
  proof (cases "\<exists>w\<in>set (lb_windows st). ?P w")
    case True
    then show ?thesis unfolding labwc_command_def labwc_target_def found supported Let_def by simp
  next
    case False
    then show ?thesis unfolding labwc_command_def labwc_target_def found
      by (simp only: if_False if_True option.case not_False_eq_True)
  qed
qed

end
