(* ===== verification/Compositor_Factory.thy ===== *)
theory Compositor_Factory
  imports Hyprland_Ipc
begin

text \<open>
  \<open>CompositorFactory.cpp\<close>: which backend serves the running desktop. The environment of the process is a map;
  an unset variable reads as empty. Lower case and white space are those of Qt, parameters as elsewhere.
\<close>

section \<open>Selection\<close>

datatype backend_kind = HyprlandKind | SwayKind | LabwcKind | WaylandKind

text \<open>\<open>split\<close> at a character: the parts in order, empty ones included.\<close>

fun split_at :: "char \<Rightarrow> string \<Rightarrow> string list" where
  "split_at c [] = [[]]"
| "split_at c (x # xs) =
     (if x = c then [] # split_at c xs
      else (case split_at c xs of [] \<Rightarrow> [[x]] | part # parts \<Rightarrow> (x # part) # parts))"

definition env_value :: "(string, string) qhash \<Rightarrow> string \<Rightarrow> string" where
  "env_value env key = (case hash_value env key of None \<Rightarrow> '''' | Some v \<Rightarrow> v)"

definition known_desktop :: "string \<Rightarrow> backend_kind option" where
  "known_desktop s =
     (if s = ''hyprland'' then Some HyprlandKind
      else if s = ''sway'' then Some SwayKind
      else if s = ''labwc'' then Some LabwcKind
      else None)"

definition named_desktops :: "(char \<Rightarrow> bool) \<Rightarrow> (char \<Rightarrow> char) \<Rightarrow> (string, string) qhash \<Rightarrow> backend_kind list" where
  "named_desktops space lower env =
     fold (\<lambda>token found.
        (case known_desktop (map lower (trim_with space token)) of None \<Rightarrow> found | Some k \<Rightarrow> List.insert k found))
      (split_at (CHR '':'') (env_value env ''XDG_CURRENT_DESKTOP'')) []"

definition desktop_markers :: "(string, string) qhash \<Rightarrow> backend_kind list" where
  "desktop_markers env =
     (if env_value env ''HYPRLAND_INSTANCE_SIGNATURE'' \<noteq> '''' then [HyprlandKind] else []) @
     (if env_value env ''SWAYSOCK'' \<noteq> '''' then [SwayKind] else []) @
     (if env_value env ''LABWC_PID'' \<noteq> '''' then [LabwcKind] else [])"

definition select_backend :: "(char \<Rightarrow> bool) \<Rightarrow> (char \<Rightarrow> char) \<Rightarrow> (string, string) qhash \<Rightarrow> backend_kind" where
  "select_backend space lower env =
     (case named_desktops space lower env of
        [] \<Rightarrow> (case desktop_markers env of [k] \<Rightarrow> k | _ \<Rightarrow> WaylandKind)
      | [k] \<Rightarrow> k
      | _ \<Rightarrow> WaylandKind)"

text \<open>What is made for an identifier; the Wayland backends are left out of some builds.\<close>

datatype made_backend = MadeHyprland | MadeSway | MadeLabwc | MadeGeneric | MadeUnavailable

definition create_backend :: "bool \<Rightarrow> string \<Rightarrow> made_backend" where
  "create_backend wayland_built k =
     (if k = ''hyprland'' then MadeHyprland
      else if k = ''sway'' then MadeSway
      else if wayland_built \<and> k = ''labwc'' then MadeLabwc
      else if wayland_built \<and> k = ''wayland'' then MadeGeneric
      else MadeUnavailable)"

fun kind_text :: "backend_kind \<Rightarrow> string" where
  "kind_text HyprlandKind = ''hyprland''"
| "kind_text SwayKind = ''sway''"
| "kind_text LabwcKind = ''labwc''"
| "kind_text WaylandKind = ''wayland''"

section \<open>What is selected\<close>

definition mentions :: "(char \<Rightarrow> bool) \<Rightarrow> (char \<Rightarrow> char) \<Rightarrow> (string, string) qhash \<Rightarrow> backend_kind \<Rightarrow> bool" where
  "mentions space lower env k =
     (\<exists>token\<in>set (split_at (CHR '':'') (env_value env ''XDG_CURRENT_DESKTOP'')).
        known_desktop (map lower (trim_with space token)) = Some k)"

lemma found_desktops:
  "set (fold (\<lambda>token found. case f token of None \<Rightarrow> found | Some k \<Rightarrow> List.insert k found) tokens ks) =
     set ks \<union> {k. \<exists>token\<in>set tokens. f token = Some k} \<and>
   (distinct ks \<longrightarrow> distinct (fold (\<lambda>token found. case f token of None \<Rightarrow> found | Some k \<Rightarrow> List.insert k found) tokens ks))"
proof (induction tokens arbitrary: ks)
  case (Cons t ts)
  show ?case
  proof (cases "f t")
    case None
    then show ?thesis using Cons.IH [of ks] by auto
  next
    case (Some k)
    then show ?thesis using Cons.IH [of "List.insert k ks"] by auto
  qed
qed simp

lemma named_desktops_set:
  "set (named_desktops space lower env) = {k. mentions space lower env k} \<and> distinct (named_desktops space lower env)"
  using found_desktops [of "\<lambda>token. known_desktop (map lower (trim_with space token))"
      "split_at (CHR '':'') (env_value env ''XDG_CURRENT_DESKTOP'')" "[]"]
  by (simp add: named_desktops_def mentions_def)

lemma distinct_one: "distinct xs \<Longrightarrow> k \<in> set xs \<Longrightarrow> (\<forall>j\<in>set xs. j = k) \<Longrightarrow> xs = [k]"
  by (cases xs rule: remdups_adj.cases) auto

text \<open>The backend selected is the one desktop that the session names; when it names none that is known, the one
  whose marker is set; in any doubt the generic one.\<close>

lemma select_backend_named:
  assumes "mentions space lower env k"
  shows "select_backend space lower env = (if \<exists>j. j \<noteq> k \<and> mentions space lower env j then WaylandKind else k)"
proof -
  let ?ds = "named_desktops space lower env"
  have ds: "set ?ds = {k. mentions space lower env k}" "distinct ?ds" using named_desktops_set by blast+
  show ?thesis
  proof (cases "\<exists>j. j \<noteq> k \<and> mentions space lower env j")
    case True
    then obtain j where "j \<in> set ?ds" "k \<in> set ?ds" "j \<noteq> k" using assms ds by auto
    then have "\<exists>a b cs. ?ds = a # b # cs" by (cases ?ds rule: remdups_adj.cases) auto
    with True show ?thesis by (auto simp: select_backend_def)
  next
    case False
    then have "?ds = [k]" using assms ds by (intro distinct_one) auto
    with False show ?thesis by (auto simp: select_backend_def)
  qed
qed

lemma select_backend_unnamed:
  assumes "\<forall>k. \<not> mentions space lower env k"
  shows "select_backend space lower env = (case desktop_markers env of [k] \<Rightarrow> k | _ \<Rightarrow> WaylandKind)"
proof -
  have "set (named_desktops space lower env) = {}" using named_desktops_set assms by auto
  then show ?thesis by (simp add: select_backend_def)
qed

text \<open>Every selection makes a backend when the Wayland backends are built.\<close>

lemma selection_is_made: "create_backend True (kind_text (select_backend space lower env)) \<noteq> MadeUnavailable"
  by (cases "select_backend space lower env") (simp_all add: create_backend_def)

end
