(* ===== verification/Model_Roles.thy ===== *)
theory Model_Roles
  imports Storage_Models Bluetooth_Controller
begin

text \<open>
  What the list models of storage and Bluetooth show of a row: \<open>data\<close> and \<open>roleNames\<close> of
  \<open>StorageDriveModel\<close>, \<open>StorageVolumeModel\<close>, \<open>BluetoothAdapterModel\<close> and \<open>BluetoothDeviceModel\<close>. A role
  that does not exist and a row out of range show nothing, as does an optional field without a value. The
  roles of a class are its enumeration, in that order.
\<close>

section \<open>Values\<close>

text \<open>The \<open>QVariant\<close> of a field; the unsigned types are shown as the number they hold.\<close>

datatype shown_value =
    ShownNothing
  | ShownText string
  | ShownTexts "string list"
  | ShownFlag bool
  | ShownNumber int
  | ShownSigned int

fun shown_optional :: "int option \<Rightarrow> shown_value" where
  "shown_optional None = ShownNothing"
| "shown_optional (Some n) = ShownSigned n"

definition shown_row :: "('a \<Rightarrow> 'r \<Rightarrow> shown_value) \<Rightarrow> 'a list \<Rightarrow> int \<Rightarrow> 'r option \<Rightarrow> shown_value" where
  "shown_row show_item rows row role =
     (if row < 0 \<or> row \<ge> int (length rows) then ShownNothing
      else (case role of None \<Rightarrow> ShownNothing | Some r \<Rightarrow> show_item (rows ! nat row) r))"

lemma shown_optional_eq [simp]: "shown_optional a = shown_optional b \<longleftrightarrow> a = b"
  by (cases a; cases b) simp_all

section \<open>Drives\<close>

datatype drive_model_role =
    DrIdRole | DrVendorRole | DrModelRole | DrSerialRole | DrConnectionBusRole | DrSiblingIdRole
  | DrRemovableRole | DrMediaRemovableRole | DrMediaPresentRole | DrOpticalRole | DrCanEjectRole
  | DrCanPowerOffRole | DrMediaRole | DrMediaCompatibilityRole | DrRotationRateRole

fun drive_shown :: "storage_drive \<Rightarrow> drive_model_role \<Rightarrow> shown_value" where
  "drive_shown x DrIdRole = ShownText (sd_id x)"
| "drive_shown x DrVendorRole = ShownText (sd_vendor x)"
| "drive_shown x DrModelRole = ShownText (sd_model x)"
| "drive_shown x DrSerialRole = ShownText (sd_serial x)"
| "drive_shown x DrConnectionBusRole = ShownText (sd_connection_bus x)"
| "drive_shown x DrSiblingIdRole = ShownText (sd_sibling x)"
| "drive_shown x DrRemovableRole = ShownFlag (sd_removable x)"
| "drive_shown x DrMediaRemovableRole = ShownFlag (sd_media_removable x)"
| "drive_shown x DrMediaPresentRole = ShownFlag (sd_media_present x)"
| "drive_shown x DrOpticalRole = ShownFlag (sd_optical x)"
| "drive_shown x DrCanEjectRole = ShownFlag (sd_can_eject x)"
| "drive_shown x DrCanPowerOffRole = ShownFlag (sd_can_power_off x)"
| "drive_shown x DrMediaRole = ShownText (sd_media x)"
| "drive_shown x DrMediaCompatibilityRole = ShownTexts (sd_media_compatibility x)"
| "drive_shown x DrRotationRateRole = shown_optional (sd_rotation_rate x)"

definition drive_data :: "storage_drive list \<Rightarrow> int \<Rightarrow> drive_model_role option \<Rightarrow> shown_value" where
  "drive_data rows row role = shown_row drive_shown rows row role"

definition drive_role_names :: "(drive_model_role \<times> string) list" where
  "drive_role_names = [(DrIdRole, ''id''), (DrVendorRole, ''vendor''), (DrModelRole, ''model''),
     (DrSerialRole, ''serial''), (DrConnectionBusRole, ''connectionBus''),
     (DrSiblingIdRole, ''siblingId''), (DrRemovableRole, ''removable''),
     (DrMediaRemovableRole, ''mediaRemovable''), (DrMediaPresentRole, ''mediaPresent''),
     (DrOpticalRole, ''optical''), (DrCanEjectRole, ''canEject''), (DrCanPowerOffRole, ''canPowerOff''),
     (DrMediaRole, ''media''), (DrMediaCompatibilityRole, ''mediaCompatibility''),
     (DrRotationRateRole, ''rotationRate'')]"

lemma drive_shown_all: "drive_shown x = drive_shown y \<longleftrightarrow> x = y"
proof
  assume "drive_shown x = drive_shown y"
  then have same: "drive_shown x role = drive_shown y role" for role by simp
  show "x = y"
    using same [of DrIdRole]
      same [of DrVendorRole]
      same [of DrModelRole]
      same [of DrSerialRole]
      same [of DrConnectionBusRole]
      same [of DrSiblingIdRole]
      same [of DrRemovableRole]
      same [of DrMediaRemovableRole]
      same [of DrMediaPresentRole]
      same [of DrOpticalRole]
      same [of DrCanEjectRole]
      same [of DrCanPowerOffRole]
      same [of DrMediaRole]
      same [of DrMediaCompatibilityRole]
      same [of DrRotationRateRole]
    by (intro storage_drive.equality) (simp_all add: word_uint_eq_iff)
qed simp

lemma drive_roles_named: "r \<in> fst ` set drive_role_names \<and> distinct (map snd drive_role_names)"
  by (cases r) (simp_all add: drive_role_names_def)

section \<open>Volumes\<close>

datatype volume_model_role =
    VoIdRole | VoDriveIdRole | VoLabelRole | VoDeviceRole | VoFilesystemTypeRole | VoUsageRole
  | VoPartitionTypeRole | VoCryptoBackingIdRole | VoMountPointsRole | VoCapacityRole
  | VoHintIgnoreRole | VoHintSystemRole | VoLoopRole | VoPartitionContainerRole | VoLockedRole
  | VoCanMountRole | VoCanUnmountRole | VoPartitionNameRole | VoPartitionNumberRole | VoHintNameRole
  | VoHintIconNameRole | VoHintSymbolicIconNameRole

fun volume_shown :: "storage_volume \<Rightarrow> volume_model_role \<Rightarrow> shown_value" where
  "volume_shown x VoIdRole = ShownText (sv_id x)"
| "volume_shown x VoDriveIdRole = ShownText (sv_drive x)"
| "volume_shown x VoLabelRole = ShownText (sv_label x)"
| "volume_shown x VoDeviceRole = ShownText (sv_device x)"
| "volume_shown x VoFilesystemTypeRole = ShownText (sv_filesystem_type x)"
| "volume_shown x VoUsageRole = ShownText (sv_usage x)"
| "volume_shown x VoPartitionTypeRole = ShownText (sv_partition_type x)"
| "volume_shown x VoCryptoBackingIdRole = ShownText (sv_crypto_backing x)"
| "volume_shown x VoMountPointsRole = ShownTexts (sv_mount_points x)"
| "volume_shown x VoCapacityRole = ShownNumber (uint (sv_capacity x))"
| "volume_shown x VoHintIgnoreRole = ShownFlag (sv_hint_ignore x)"
| "volume_shown x VoHintSystemRole = ShownFlag (sv_hint_system x)"
| "volume_shown x VoLoopRole = ShownFlag (sv_loop x)"
| "volume_shown x VoPartitionContainerRole = ShownFlag (sv_partition_container x)"
| "volume_shown x VoLockedRole = ShownFlag (sv_locked x)"
| "volume_shown x VoCanMountRole = ShownFlag (sv_can_mount x)"
| "volume_shown x VoCanUnmountRole = ShownFlag (sv_can_unmount x)"
| "volume_shown x VoPartitionNameRole = ShownText (sv_partition_name x)"
| "volume_shown x VoPartitionNumberRole = ShownNumber (uint (sv_partition_number x))"
| "volume_shown x VoHintNameRole = ShownText (sv_hint_name x)"
| "volume_shown x VoHintIconNameRole = ShownText (sv_hint_icon_name x)"
| "volume_shown x VoHintSymbolicIconNameRole = ShownText (sv_hint_symbolic_icon_name x)"

definition volume_data :: "storage_volume list \<Rightarrow> int \<Rightarrow> volume_model_role option \<Rightarrow> shown_value" where
  "volume_data rows row role = shown_row volume_shown rows row role"

definition volume_role_names :: "(volume_model_role \<times> string) list" where
  "volume_role_names = [(VoIdRole, ''id''), (VoDriveIdRole, ''driveId''), (VoLabelRole, ''label''),
     (VoDeviceRole, ''device''), (VoFilesystemTypeRole, ''filesystemType''), (VoUsageRole, ''usage''),
     (VoPartitionTypeRole, ''partitionType''), (VoCryptoBackingIdRole, ''cryptoBackingId''),
     (VoMountPointsRole, ''mountPoints''), (VoCapacityRole, ''capacity''),
     (VoHintIgnoreRole, ''hintIgnore''), (VoHintSystemRole, ''hintSystem''), (VoLoopRole, ''loop''),
     (VoPartitionContainerRole, ''partitionContainer''), (VoLockedRole, ''locked''),
     (VoCanMountRole, ''canMount''), (VoCanUnmountRole, ''canUnmount''),
     (VoPartitionNameRole, ''partitionName''), (VoPartitionNumberRole, ''partitionNumber''),
     (VoHintNameRole, ''hintName''), (VoHintIconNameRole, ''hintIconName''),
     (VoHintSymbolicIconNameRole, ''hintSymbolicIconName'')]"

lemma volume_shown_all: "volume_shown x = volume_shown y \<longleftrightarrow> x = y"
proof
  assume "volume_shown x = volume_shown y"
  then have same: "volume_shown x role = volume_shown y role" for role by simp
  show "x = y"
    using same [of VoIdRole]
      same [of VoDriveIdRole]
      same [of VoLabelRole]
      same [of VoDeviceRole]
      same [of VoFilesystemTypeRole]
      same [of VoUsageRole]
      same [of VoPartitionTypeRole]
      same [of VoCryptoBackingIdRole]
      same [of VoMountPointsRole]
      same [of VoCapacityRole]
      same [of VoHintIgnoreRole]
      same [of VoHintSystemRole]
      same [of VoLoopRole]
      same [of VoPartitionContainerRole]
      same [of VoLockedRole]
      same [of VoCanMountRole]
      same [of VoCanUnmountRole]
      same [of VoPartitionNameRole]
      same [of VoPartitionNumberRole]
      same [of VoHintNameRole]
      same [of VoHintIconNameRole]
      same [of VoHintSymbolicIconNameRole]
    by (intro storage_volume.equality) (simp_all add: word_uint_eq_iff)
qed simp

lemma volume_roles_named: "r \<in> fst ` set volume_role_names \<and> distinct (map snd volume_role_names)"
  by (cases r) (simp_all add: volume_role_names_def)

section \<open>Adapters\<close>

datatype adapter_model_role =
    AdIdRole | AdAddressRole | AdAliasRole | AdPoweredRole | AdDiscoverableRole | AdDiscoveringRole

fun adapter_shown :: "bt_adapter \<Rightarrow> adapter_model_role \<Rightarrow> shown_value" where
  "adapter_shown x AdIdRole = ShownText (ad_id x)"
| "adapter_shown x AdAddressRole = ShownText (ad_address x)"
| "adapter_shown x AdAliasRole = ShownText (ad_alias x)"
| "adapter_shown x AdPoweredRole = ShownFlag (ad_powered x)"
| "adapter_shown x AdDiscoverableRole = ShownFlag (ad_discoverable x)"
| "adapter_shown x AdDiscoveringRole = ShownFlag (ad_discovering x)"

definition adapter_data :: "bt_adapter list \<Rightarrow> int \<Rightarrow> adapter_model_role option \<Rightarrow> shown_value" where
  "adapter_data rows row role = shown_row adapter_shown rows row role"

definition adapter_role_names :: "(adapter_model_role \<times> string) list" where
  "adapter_role_names = [(AdIdRole, ''id''), (AdAddressRole, ''address''), (AdAliasRole, ''alias''),
     (AdPoweredRole, ''powered''), (AdDiscoverableRole, ''discoverable''),
     (AdDiscoveringRole, ''discovering'')]"

lemma adapter_shown_all: "adapter_shown x = adapter_shown y \<longleftrightarrow> x = y"
proof
  assume "adapter_shown x = adapter_shown y"
  then have same: "adapter_shown x role = adapter_shown y role" for role by simp
  show "x = y"
    using same [of AdIdRole]
      same [of AdAddressRole]
      same [of AdAliasRole]
      same [of AdPoweredRole]
      same [of AdDiscoverableRole]
      same [of AdDiscoveringRole]
    by (intro bt_adapter.equality) (simp_all add: word_uint_eq_iff)
qed simp

lemma adapter_roles_named: "r \<in> fst ` set adapter_role_names \<and> distinct (map snd adapter_role_names)"
  by (cases r) (simp_all add: adapter_role_names_def)

section \<open>Bluetooth devices\<close>

datatype bt_device_model_role =
    DeIdRole | DeAdapterIdRole | DeAddressRole | DeAddressTypeRole | DeNameRole | DeAliasRole
  | DeIconRole | DeDeviceClassRole | DeAppearanceRole | DePairedRole | DeBondedRole | DeTrustedRole
  | DeBlockedRole | DeConnectedRole | DeRssiRole | DeBatteryRole | DeUuidsRole

fun bt_device_shown :: "bt_device \<Rightarrow> bt_device_model_role \<Rightarrow> shown_value" where
  "bt_device_shown x DeIdRole = ShownText (dv_id x)"
| "bt_device_shown x DeAdapterIdRole = ShownText (dv_adapter x)"
| "bt_device_shown x DeAddressRole = ShownText (dv_address x)"
| "bt_device_shown x DeAddressTypeRole = ShownText (dv_address_type x)"
| "bt_device_shown x DeNameRole = ShownText (dv_name x)"
| "bt_device_shown x DeAliasRole = ShownText (dv_alias x)"
| "bt_device_shown x DeIconRole = ShownText (dv_icon x)"
| "bt_device_shown x DeDeviceClassRole = ShownNumber (uint (dv_class x))"
| "bt_device_shown x DeAppearanceRole = ShownNumber (uint (dv_appearance x))"
| "bt_device_shown x DePairedRole = ShownFlag (dv_paired x)"
| "bt_device_shown x DeBondedRole = ShownFlag (dv_bonded x)"
| "bt_device_shown x DeTrustedRole = ShownFlag (dv_trusted x)"
| "bt_device_shown x DeBlockedRole = ShownFlag (dv_blocked x)"
| "bt_device_shown x DeConnectedRole = ShownFlag (dv_connected x)"
| "bt_device_shown x DeRssiRole = shown_optional (dv_rssi x)"
| "bt_device_shown x DeBatteryRole = shown_optional (dv_battery x)"
| "bt_device_shown x DeUuidsRole = ShownTexts (dv_uuids x)"

definition bt_device_data :: "bt_device list \<Rightarrow> int \<Rightarrow> bt_device_model_role option \<Rightarrow> shown_value" where
  "bt_device_data rows row role = shown_row bt_device_shown rows row role"

definition bt_device_role_names :: "(bt_device_model_role \<times> string) list" where
  "bt_device_role_names = [(DeIdRole, ''id''), (DeAdapterIdRole, ''adapterId''), (DeAddressRole, ''address''),
     (DeAddressTypeRole, ''addressType''), (DeNameRole, ''name''), (DeAliasRole, ''alias''),
     (DeIconRole, ''icon''), (DeDeviceClassRole, ''deviceClass''), (DeAppearanceRole, ''appearance''),
     (DePairedRole, ''paired''), (DeBondedRole, ''bonded''), (DeTrustedRole, ''trusted''),
     (DeBlockedRole, ''blocked''), (DeConnectedRole, ''connected''), (DeRssiRole, ''rssi''),
     (DeBatteryRole, ''battery''), (DeUuidsRole, ''uuids'')]"

lemma bt_device_shown_all: "bt_device_shown x = bt_device_shown y \<longleftrightarrow> x = y"
proof
  assume "bt_device_shown x = bt_device_shown y"
  then have same: "bt_device_shown x role = bt_device_shown y role" for role by simp
  show "x = y"
    using same [of DeIdRole]
      same [of DeAdapterIdRole]
      same [of DeAddressRole]
      same [of DeAddressTypeRole]
      same [of DeNameRole]
      same [of DeAliasRole]
      same [of DeIconRole]
      same [of DeDeviceClassRole]
      same [of DeAppearanceRole]
      same [of DePairedRole]
      same [of DeBondedRole]
      same [of DeTrustedRole]
      same [of DeBlockedRole]
      same [of DeConnectedRole]
      same [of DeRssiRole]
      same [of DeBatteryRole]
      same [of DeUuidsRole]
    by (intro bt_device.equality) (simp_all add: word_uint_eq_iff)
qed simp

lemma bt_device_roles_named: "r \<in> fst ` set bt_device_role_names \<and> distinct (map snd bt_device_role_names)"
  by (cases r) (simp_all add: bt_device_role_names_def)

section \<open>Nothing is hidden\<close>

text \<open>What the four models show determines their items: two models show the same in every row and role exactly
  when they hold the same items in the same order.\<close>

lemma shown_rows_all:
  assumes "\<And>x y. show_item x = show_item y \<longleftrightarrow> x = y"
  shows "(length xs = length ys \<and> (\<forall>i r. shown_row show_item xs i r = shown_row show_item ys i r)) \<longleftrightarrow> xs = ys"
proof
  assume same: "length xs = length ys \<and> (\<forall>i r. shown_row show_item xs i r = shown_row show_item ys i r)"
  show "xs = ys"
  proof (rule nth_equalityI)
    fix i
    assume i: "i < length xs"
    have "show_item (xs ! i) r = show_item (ys ! i) r" for r
    proof -
      have "shown_row show_item xs (int i) (Some r) = shown_row show_item ys (int i) (Some r)" using same by blast
      then show ?thesis using i same by (simp add: shown_row_def)
    qed
    then show "xs ! i = ys ! i" using assms by blast
  qed (use same in simp)
qed simp

lemma storage_models_shown:
  "(length ds = length ds' \<and> (\<forall>i r. drive_data ds i r = drive_data ds' i r)) \<longleftrightarrow> ds = ds'"
  "(length vs = length vs' \<and> (\<forall>i r. volume_data vs i r = volume_data vs' i r)) \<longleftrightarrow> vs = vs'"
  unfolding drive_data_def volume_data_def
  by (rule shown_rows_all, rule drive_shown_all) (rule shown_rows_all, rule volume_shown_all)

lemma bluetooth_models_shown:
  "(length as = length as' \<and> (\<forall>i r. adapter_data as i r = adapter_data as' i r)) \<longleftrightarrow> as = as'"
  "(length ds = length ds' \<and> (\<forall>i r. bt_device_data ds i r = bt_device_data ds' i r)) \<longleftrightarrow> ds = ds'"
  unfolding adapter_data_def bt_device_data_def
  by (rule shown_rows_all, rule adapter_shown_all) (rule shown_rows_all, rule bt_device_shown_all)

end
