(* ===== verification/Spec2Isabelle.thy ===== *)
theory Spec2Isabelle
  imports Storage_System_Runs Bluetooth_System_Runs Sway_Runs Hyprland_Stream Hyprland_Views Audio_System Wayland_Labwc
    Compositor_Factory Model_Roles
begin

text \<open>
  A model of HoloNight's system services: the Qt library that a desktop shell uses to follow and control
  storage, Bluetooth, audio and the compositor. Each subsystem has a controller with list models for the
  shell and one or more backends that talk to a service of the system; the compositor backends publish
  snapshots directly. All theories below are imported here, and this text is their documentation.

  \<^bold>\<open>Conventions.\<close> A class is a record, an enumeration a datatype, a method or slot a function from the old
  state to the new state and the list of outputs (signals, calls, commands) in the order in which the code
  makes them. What comes from outside (replies, callbacks, timers that fire, values that libraries compute)
  is an event, and a run is a list of events; the theorems hold for every run. Zero timers, queued
  invocations and pending calls are fields of the state. Strings are lists of characters, a
  \<open>QHash\<close> or \<open>QMap\<close> an association list (\<open>qhash\<close>), unsigned integers words of their width, and signed ones
  \<open>int\<close>. Code outside the repository is a parameter (\<open>qstring_ops\<close>, \<open>json_ops\<close>, \<open>pulse_text\<close>, the conversions of
  D-Bus values) or a choice of the environment carried by the events.

  \<^bold>\<open>Shared.\<close>
  \<^item> \<open>Qt_Prelude\<close>: hashes, records with an identifier, row notifications, and the interface
    \<open>row_observed\<close>: a view that replays the notifications of a model holds its rows.
  \<^item> \<open>Text_Numbers\<close>: decimal text. \<open>Json_Values\<close>: JSON values and the accessors of \<open>QJsonValue\<close>.
    \<open>DBus_Values\<close>: the values and objects the D-Bus services report.
  \<^item> \<open>Refresh_Protocol\<close>: the interface of a backend that asks for snapshots while
    changes come in, interpreted for UDisks2 and for BlueZ: a notified change makes every call in flight
    stale, and until a snapshot asked for after it is published a current call is in flight.

  \<^bold>\<open>Storage\<close> (\<open>src/src/storage\<close>).
  \<^item> \<open>Storage_Models\<close>: \<open>StorageTypes.h\<close> and \<open>apply\<close> and \<open>find\<close> of the two list models.
  \<^item> \<open>Storage_Controller\<close>: \<open>StorageController.cpp\<close>; \<open>storage_begin\<close> is \<open>begin\<close> with its
    checks and the zero timer, \<open>storage_advance\<close> the unmount, eject and power-off steps, \<open>storage_reply\<close> the
    answer of the backend.
  \<^item> \<open>Storage_Runs\<close>, \<open>Storage_Safety\<close>: every command is justified in the state that sends it, scopes
    are exclusive, every request completes exactly once, losing the service completes all of them, and
    the views follow.
  \<^item> \<open>UDisks2_Backend\<close>: \<open>UDisks2Backend.cpp\<close>, commands, owner changes, refreshing, and the building of a
    snapshot. The number of passes over crypto backing devices is the number of volumes, which
    \<open>udisks_inherit_drives\<close> shows to be enough. \<open>UDisks2_Refresh\<close>, \<open>UDisks2_Snapshots\<close>: no lost update,
    results only after a fresh snapshot, what a snapshot holds, commands answered at most once.
  \<^item> \<open>Storage_System\<close>: controller and backend connected as the constructor of the controller does; each
    component runs as it does alone (\<open>storage_system_contract\<close>), so the theorems above hold of both.
    \<open>Storage_System_Runs\<close>: no step of a request is lost between them, and the success of a request is
    reported together with the models of a snapshot asked for after UDisks2 answered its command.

  \<^bold>\<open>Bluetooth\<close> (\<open>src/src/bluetooth\<close>).
  \<^item> \<open>Bluetooth_Controller\<close>, \<open>Bluetooth_Runs\<close>: records, list models, \<open>BluetoothController.cpp\<close>; each
    operation completes exactly once and no two share a target.
  \<^item> \<open>BlueZ_Agent\<close>, \<open>BlueZ_Agent_Runs\<close>: the pairing agent; only the owner is heard, answers are within the
    protocol and accepted by the user, interactions end once.
  \<^item> \<open>BlueZ_Backend\<close>, \<open>BlueZ_Refresh\<close>, \<open>BlueZ_Runs\<close>: \<open>BlueZBackend.cpp\<close>; refreshing, one discovery call
    per adapter as long as no adapter is removed, visibility only after its timeout is set. \<open>BlueZ_Care\<close>:
    which operations the backend still answers for, and that it never assigns an identifier twice.
  \<^item> \<open>Bluetooth_System\<close>: controller and backend connected as the constructor of the controller does.
    \<open>Bluetooth_System_Runs\<close>: each component runs as it does alone (\<open>bluetooth_system_contract\<close>), what
    the models show can be operated on, and no operation is lost between the two.

  \<^bold>\<open>Roles\<close>: \<open>Model_Roles\<close> holds \<open>data\<close> and \<open>roleNames\<close> of the storage and Bluetooth models.

  \<^bold>\<open>Compositor\<close> (\<open>src/src/compositor\<close>).
  \<^item> \<open>Compositor_Types\<close>: the records of snapshots. \<open>Window_Activation\<close>: which window belongs to a process, one pass
    over the lineage, equal to a reference search.
  \<^item> \<open>Sway_Ipc\<close>: frames, JSON replies, quoting. \<open>Sway_Ipc_Codec\<close>, \<open>Sway_Ipc_Snapshots\<close>: frames decode
    however the stream is cut, quoting cannot be escaped, what a snapshot holds. \<open>Sway_Backend\<close>,
    \<open>Sway_Runs\<close>: the two sockets, one request at a time, no lost refresh, loss of a session.
  \<^item> \<open>Hyprland_Ipc\<close>: every parser. \<open>Hyprland_Client\<close>: the sockets, timers and the back-off of
    \<open>HyprlandIpcClient.cpp\<close>. \<open>Hyprland_Snapshot\<close>, \<open>Hyprland_Backend\<close>: building snapshots, and the phases of a
    refresh with activations. A command whose connection fails at once answers inside the call, so
    \<open>hypr_run\<close>, \<open>hypr_drain\<close> and \<open>hypr_dispatch\<close> call each other; they end because each round uses up
    an activation or the mark for a refresh, and \<open>hypr_cascade_bound\<close> bounds the attempts by three.
    \<open>Hyprland_Runs\<close>, \<open>Hyprland_Stream\<close>, \<open>Hyprland_Views\<close>: no work is lost, the event stream is
    retried for ever, lines arrive whole (a partial line in the buffer, which a reconnect keeps, begins the
    first), which workspaces, active windows and occupied outputs a snapshot shows.
  \<^item> \<open>Wayland_Generic\<close>: \<open>GenericBackend.cpp\<close>; activation follows the published snapshot until the compositor
    changes a workspace again, which takes effect on activation before its \<open>done\<close>. \<open>Wayland_Labwc\<close>:
    \<open>ForeignToplevelState.h\<close> and \<open>LabwcBackend.cpp\<close>, which owns a generic backend; no published snapshot
    goes stale, and which commands are accepted. \<open>Compositor_Factory\<close>: the choice of a backend.

  \<^bold>\<open>Audio\<close> (\<open>src/src/audio\<close>).
  \<^item> \<open>Audio_Models\<close>: \<open>AudioTypes.h\<close>, \<open>AudioDeviceModel.cpp\<close>, \<open>AudioStreamModel.cpp\<close>. \<open>Audio_Controller\<close>:
    \<open>AudioController.cpp\<close> over the interface \<open>AudioBackend.h\<close>. \<open>Audio_Runs\<close>: views that reread the changed
    roles show every device; the controller refines four maps and the last values of the signals; its
    state is well formed; the calls for the level monitor alternate.
  \<^item> \<open>PulseAudio_Devices\<close>: volumes and the conversion of what PulseAudio reports. \<open>PulseAudio_Backend\<close>:
    \<open>PulseAudioBackend.cpp\<close>, calls of libpulse as outputs and its callbacks as events, with the queue of the Qt
    thread. \<open>PulseAudio_Runs\<close>: the lock of the main loop, the schedule of at most eight attempts to
    reconnect, and the end of posted retries after at most three streams.
  \<^item> \<open>Audio_System\<close>: controller and backend together: nothing the backend emits is lost, both agree on the
    health, and a volume that is set comes back as the volume shown. Its last section has short runs that show
    where the parts do not meet.

  \<^bold>\<open>Not modelled\<close>: libpulse, D-Bus, Wayland and the sockets themselves, and \<open>RealPulseAudioSystem\<close>, which passes calls
  on; log messages other than two warnings of the audio backend; destructors where they only release
  objects; floating point (the sample of the level stream is given as the integer it is cast to); threads below
  the granularity of one callback, which libpulse runs with its lock held; reentrant calls from clients inside
  a signal, except those that the code itself makes.
\<close>

end
